(* ===== verification/Wangle_Prelude.thy ===== *)
theory Wangle_Prelude
  imports Main "HOL-Library.Word"
begin

text \<open>
  Shared vocabulary of the development: the machine integers of the source, the C++ exceptions
  the code throws or lets through, the byte orders of the wire formats, and the list lemmas the
  component theories use.
\<close>

section \<open>Machine types\<close>

type_synonym byte = "8 word"
type_synonym u32 = "32 word"
type_synonym u64 = "64 word"

text \<open>
  What may leave a function of the source otherwise than by \<open>return\<close>: the standard exceptions
  (with their message where the source writes one) and a failed \<open>CHECK\<close>, which aborts.
  \<open>Undefined\<close> stands where the C++ standard leaves the behaviour open, such as a vector subscript
  out of range or a call through a null pointer.
\<close>

datatype cpp_exn =
    RuntimeError string
  | InvalidArgument string
  | OutOfRange
  | UnderflowError
  | CheckFailed
  | Undefined

named_theorems wangle_defs "definitions of the model unfolded by the component proofs"

section \<open>Byte orders\<close>

text \<open>Network byte order is big endian: the first byte is the most significant one.\<close>

fun be_nat :: "byte list \<Rightarrow> nat" where
  "be_nat [] = 0"
| "be_nat (b # bs) = unat b * 256 ^ length bs + be_nat bs"

fun le_nat :: "byte list \<Rightarrow> nat" where
  "le_nat [] = 0"
| "le_nat (b # bs) = unat b + 256 * le_nat bs"

fun le_bytes :: "nat \<Rightarrow> nat \<Rightarrow> byte list" where
  "le_bytes 0 n = []"
| "le_bytes (Suc k) n = of_nat (n mod 256) # le_bytes k (n div 256)"

definition be_bytes :: "nat \<Rightarrow> nat \<Rightarrow> byte list" where
  "be_bytes k n = rev (le_bytes k n)"

lemma length_le_bytes [simp]: "length (le_bytes k n) = k"
  by (induction k arbitrary: n) auto

lemma length_be_bytes [simp]: "length (be_bytes k n) = k"
  by (simp add: be_bytes_def)

lemma unat_of_nat_byte [simp]: "unat (of_nat (n mod 256) :: byte) = n mod 256"
  by (simp add: unat_of_nat take_bit_eq_mod)

lemma le_nat_le_bytes: "le_nat (le_bytes k n) = n mod 256 ^ k"
proof (induction k arbitrary: n)
  case 0
  then show ?case by simp
next
  case (Suc k)
  have "n mod 256 + 256 * (n div 256 mod 256 ^ k) = n mod (256 * 256 ^ k)"
    by (simp add: mod_mult2_eq)
  with Suc show ?case by simp
qed

lemma be_nat_append: "be_nat (xs @ ys) = be_nat xs * 256 ^ length ys + be_nat ys"
  by (induction xs) (auto simp: power_add algebra_simps)

lemma be_nat_rev: "be_nat (rev bs) = le_nat bs"
  by (induction bs) (auto simp: be_nat_append)

lemma be_nat_be_bytes: "be_nat (be_bytes k n) = n mod 256 ^ k"
  by (simp add: be_bytes_def be_nat_rev le_nat_le_bytes)

lemma le_nat_less: "le_nat bs < 256 ^ length bs"
proof (induction bs)
  case Nil
  then show ?case by simp
next
  case (Cons b bs)
  have "unat b < 256" using unsigned_less [of b] by simp
  with Cons show ?case by simp
qed

lemma be_nat_less: "be_nat bs < 256 ^ length bs"
  using le_nat_less [of "rev bs"] be_nat_rev [of "rev bs"] by simp

text \<open>A field of \<open>k\<close> bytes in the byte order the flag asks for.\<close>

definition field_bytes :: "bool \<Rightarrow> nat \<Rightarrow> nat \<Rightarrow> byte list" where
  "field_bytes nbo k n = (if nbo then be_bytes k n else le_bytes k n)"

definition field_val :: "bool \<Rightarrow> byte list \<Rightarrow> nat" where
  "field_val nbo bs = (if nbo then be_nat bs else le_nat bs)"

lemma length_field_bytes [simp]: "length (field_bytes nbo k n) = k"
  by (simp add: field_bytes_def)

lemma field_val_bytes: "n < 256 ^ k \<Longrightarrow> field_val nbo (field_bytes nbo k n) = n"
  by (simp add: field_val_def field_bytes_def be_nat_be_bytes le_nat_le_bytes)

lemma field_val_less: "field_val nbo bs < 256 ^ length bs"
  by (simp add: field_val_def be_nat_less le_nat_less)

section \<open>Integer conversions\<close>

text \<open>
  The conversions the source makes between \<open>int\<close>, \<open>uint32_t\<close>, \<open>uint64_t\<close> and \<open>size_t\<close>: a narrowing
  keeps the low bits, a widening of an unsigned value keeps the value, a widening of an \<open>int\<close>
  extends the sign.
\<close>

lemma ucast_64_32_of_int: "(ucast (word_of_int x :: 64 word) :: 32 word) = word_of_int x"
  by transfer (simp add: min_def)

lemma sint_of_int32:
  "- (2 ^ 31) \<le> x \<Longrightarrow> x < 2 ^ 31 \<Longrightarrow> sint (word_of_int x :: 32 word) = x"
  by (simp add: signed_of_int signed_take_bit_int_eq_self)

lemma unat_ucast_32_64 [simp]: "unat (ucast (w :: 32 word) :: 64 word) = unat w"
proof -
  have "unat w < 2 ^ 32" using unsigned_less [of w] by simp
  then show ?thesis by (simp add: unsigned_ucast_eq take_bit_eq_mod)
qed

lemma unat_less_32: "unat (w :: 32 word) < 2 ^ 32"
  using unsigned_less [of w, where ?'a = nat] by simp

lemma unat_of_int32: "0 \<le> x \<Longrightarrow> x < 2 ^ 32 \<Longrightarrow> unat (word_of_int x :: 32 word) = nat x"
  by (simp add: unsigned_of_int take_bit_int_eq_self)

lemma unat_of_int64: "0 \<le> x \<Longrightarrow> x < 2 ^ 64 \<Longrightarrow> unat (word_of_int x :: 64 word) = nat x"
  by (simp add: unsigned_of_int take_bit_int_eq_self)

lemma unat_scast_32_64:
  "0 \<le> x \<Longrightarrow> x < 2 ^ 31 \<Longrightarrow> unat (scast (word_of_int x :: 32 word) :: 64 word) = nat x"
  by (subst scast_eq, subst sint_of_int32) (simp_all add: unat_of_int64)

lemma unat_ucast_of_int32:
  assumes "LENGTH('b::len) \<le> 32" and "0 \<le> x" and "x < 2 ^ LENGTH('b)"
  shows "unat (ucast (word_of_int x :: 32 word) :: 'b word) = nat x"
proof -
  have "(ucast (word_of_int x :: 32 word) :: 'b word) = word_of_int x"
    using assms(1) by transfer (simp add: min_def)
  with assms show ?thesis by (simp add: unsigned_of_int take_bit_int_eq_self)
qed

lemma unat_of_nat64: "n < 2 ^ 64 \<Longrightarrow> unat (of_nat n :: 64 word) = n"
  by (simp add: unat_of_nat take_bit_eq_mod)

lemma unat_of_nat32: "n < 2 ^ 32 \<Longrightarrow> unat (of_nat n :: 32 word) = n"
  by (simp add: unat_of_nat take_bit_eq_mod)

lemma of_nat32_eq_0_iff: "n < 2 ^ 32 \<Longrightarrow> (of_nat n :: 32 word) = 0 \<longleftrightarrow> n = 0"
proof
  assume "n < 2 ^ 32" "(of_nat n :: 32 word) = 0"
  then have "unat (of_nat n :: 32 word) = 0" by (simp only: unsigned_0)
  with unat_of_nat32 [OF \<open>n < 2 ^ 32\<close>] show "n = 0" by (simp only:)
qed simp

lemma unat_int_of_size:
  "n < 2 ^ 31 \<Longrightarrow> unat (scast (ucast (of_nat n :: 64 word) :: 32 word) :: 64 word) = n"
  using ucast_64_32_of_int [of "int n"] unat_scast_32_64 [of "int n"] by simp

text \<open>
  A \<open>size_t\<close> below \<open>2^32\<close> that goes through an \<open>int\<close> comes back as itself below \<open>2^31\<close>, and as a
  value of more than \<open>2^63\<close> from there on.
\<close>

lemma unat_int_of_size_big:
  assumes "2 ^ 31 \<le> n" and "n < 2 ^ 32"
  shows "2 ^ 63 \<le> unat (scast (ucast (of_nat n :: 64 word) :: 32 word) :: 64 word)"
proof -
  have "(ucast (of_nat n :: 64 word) :: 32 word) = word_of_int (int n - 2 ^ 32)"
    using ucast_64_32_of_int [of "int n"] by simp
  moreover have "sint (word_of_int (int n - 2 ^ 32) :: 32 word) = int n - 2 ^ 32"
    using assms by (intro sint_of_int32) simp_all
  ultimately have "(scast (ucast (of_nat n :: 64 word) :: 32 word) :: 64 word) =
      word_of_int (int n - 2 ^ 32)"
    by (simp only: scast_eq)
  also have "\<dots> = word_of_int (int n - 2 ^ 32 + 2 ^ 64)"
    by simp
  finally have "unat (scast (ucast (of_nat n :: 64 word) :: 32 word) :: 64 word) =
      nat (int n - 2 ^ 32 + 2 ^ 64)"
    using assms unat_of_int64 [of "int n - 2 ^ 32 + 2 ^ 64"] by simp
  with assms show ?thesis by simp
qed

lemma size_plus_int:
  "(ucast ((scast (a :: 32 word) :: 64 word) + of_nat n) :: 32 word) = word_of_int (sint a + int n)"
proof -
  have "(scast a :: 64 word) + of_nat n = word_of_int (sint a) + word_of_int (int n)"
    by simp
  also have "\<dots> = word_of_int (sint a + int n)" by (rule of_int_add [symmetric])
  finally show ?thesis by (simp only: ucast_64_32_of_int)
qed

section \<open>Decimal text\<close>

text \<open>\<open>folly::to<std::string>\<close> of an unsigned number.\<close>

fun nat_str :: "nat \<Rightarrow> string" where
  "nat_str n =
     (if n < 10 then [char_of (48 + n)] else nat_str (n div 10) @ [char_of (48 + n mod 10)])"

declare nat_str.simps [simp del]

section \<open>Lists\<close>

lemma take_append_le [simp]: "n \<le> length xs \<Longrightarrow> take n (xs @ ys) = take n xs"
  by simp

lemma drop_append_le [simp]: "n \<le> length xs \<Longrightarrow> drop n (xs @ ys) = drop n xs @ ys"
  by simp

lemma filter_neq_notin: "x \<notin> set xs \<Longrightarrow> filter (\<lambda>y. y \<noteq> x) xs = xs"
  by (induction xs) auto

end
