(* ===== verification/Folly_IOBufQueue.thy ===== *)
theory Folly_IOBufQueue
  imports Wangle_Prelude
begin

text \<open>
  \<open>folly::IOBufQueue\<close> and \<open>folly::io::Cursor\<close> are not part of the repository. The codecs reach
  them through the operations below, which every decoder of the model takes as an argument; the
  locale \<open>iobuf_queue\<close> states what folly documents of them, over the bytes a queue holds. The chain
  of buffers at the end is an instance, used to evaluate the codecs on concrete input.
\<close>

section \<open>The operations the codecs call\<close>

text \<open>
  \<open>qSplit\<close> and \<open>qTrimStart\<close> answer \<open>None\<close> where folly throws \<open>std::underflow_error\<close>, and
  \<open>qPeek q i\<close>, the byte a cursor started at \<open>q.front()\<close> reads at offset \<open>i\<close>, answers \<open>None\<close> where
  the read throws \<open>std::out_of_range\<close>. An \<open>IOBuf\<close> taken from a queue is its bytes.
\<close>

record 'q iobuf_queue_ops =
  qChainLength :: "'q \<Rightarrow> nat"
  qSplit :: "'q \<Rightarrow> nat \<Rightarrow> (byte list \<times> 'q) option"
  qTrimStart :: "'q \<Rightarrow> nat \<Rightarrow> 'q option"
  qTrimStartAtMost :: "'q \<Rightarrow> nat \<Rightarrow> 'q"
  qMove :: "'q \<Rightarrow> byte list \<times> 'q"
  qPeek :: "'q \<Rightarrow> nat \<Rightarrow> byte option"
  qAppend :: "'q \<Rightarrow> byte list \<Rightarrow> 'q"

text \<open>\<open>Cursor::read\<close> of \<open>n\<close> consecutive bytes from offset \<open>i\<close> on.\<close>

fun cursor_read :: "'q iobuf_queue_ops \<Rightarrow> 'q \<Rightarrow> nat \<Rightarrow> nat \<Rightarrow> byte list option" where
  "cursor_read Q q i 0 = Some []"
| "cursor_read Q q i (Suc n) =
     (case qPeek Q q i of
        None \<Rightarrow> None
      | Some b \<Rightarrow> map_option ((#) b) (cursor_read Q q (Suc i) n))"

section \<open>Their contract\<close>

locale iobuf_queue =
  fixes Q :: "'q iobuf_queue_ops"
    and content :: "'q \<Rightarrow> byte list"
  assumes chainLength_content [simp]: "qChainLength Q q = length (content q)"
    and split_ok: "n \<le> length (content q) \<Longrightarrow>
      \<exists>q'. qSplit Q q n = Some (take n (content q), q') \<and> content q' = drop n (content q)"
    and split_underflow: "length (content q) < n \<Longrightarrow> qSplit Q q n = None"
    and trimStart_ok: "n \<le> length (content q) \<Longrightarrow>
      \<exists>q'. qTrimStart Q q n = Some q' \<and> content q' = drop n (content q)"
    and trimStart_underflow: "length (content q) < n \<Longrightarrow> qTrimStart Q q n = None"
    and trimStartAtMost_content [simp]:
      "content (qTrimStartAtMost Q q n) = drop n (content q)"
    and move_fst [simp]: "fst (qMove Q q) = content q"
    and move_content [simp]: "content (snd (qMove Q q)) = []"
    and peek_content [simp]:
      "qPeek Q q i = (if i < length (content q) then Some (content q ! i) else None)"
    and append_content [simp]: "content (qAppend Q q bs) = content q @ bs"
begin

lemma cursor_read_content:
  "cursor_read Q q i n =
     (if i + n \<le> length (content q) \<or> n = 0 then Some (take n (drop i (content q))) else None)"
proof (induction n arbitrary: i)
  case 0
  then show ?case by simp
next
  case (Suc n)
  show ?case
  proof (cases "i < length (content q)")
    case True
    then have "drop i (content q) = content q ! i # drop (Suc i) (content q)"
      by (rule Cons_nth_drop_Suc [symmetric])
    with True Suc show ?thesis by auto
  next
    case False
    with Suc show ?thesis by auto
  qed
qed

end

section \<open>A chain of buffers\<close>

text \<open>
  A queue as the list of the buffers of its chain, as folly keeps it: a split cuts a buffer in two
  when the boundary falls inside it.
\<close>

fun chain_split :: "byte list list \<Rightarrow> nat \<Rightarrow> byte list \<times> byte list list" where
  "chain_split [] n = ([], [])"
| "chain_split (b # bs) n =
     (if n \<le> length b then (take n b, drop n b # bs)
      else (case chain_split bs (n - length b) of (front, rest) \<Rightarrow> (b @ front, rest)))"

fun chain_peek :: "byte list list \<Rightarrow> nat \<Rightarrow> byte option" where
  "chain_peek [] i = None"
| "chain_peek (b # bs) i =
     (if i < length b then Some (b ! i) else chain_peek bs (i - length b))"

definition chain_length :: "byte list list \<Rightarrow> nat" where
  "chain_length bs = sum_list (map length bs)"

definition chain_queue :: "byte list list iobuf_queue_ops" where
  "chain_queue = \<lparr>
     qChainLength = chain_length,
     qSplit = (\<lambda>q n. if chain_length q < n then None else Some (chain_split q n)),
     qTrimStart = (\<lambda>q n. if chain_length q < n then None else Some (snd (chain_split q n))),
     qTrimStartAtMost = (\<lambda>q n. snd (chain_split q n)),
     qMove = (\<lambda>q. (concat q, [])),
     qPeek = chain_peek,
     qAppend = (\<lambda>q bs. q @ [bs])\<rparr>"

lemma chain_length_concat: "chain_length q = length (concat q)"
  by (simp add: chain_length_def length_concat)

lemma chain_split_concat:
  "fst (chain_split q n) = take n (concat q) \<and> concat (snd (chain_split q n)) = drop n (concat q)"
  by (induction q n rule: chain_split.induct) (auto split: prod.splits)

lemma chain_peek_concat:
  "chain_peek q i = (if i < length (concat q) then Some (concat q ! i) else None)"
  by (induction q i rule: chain_peek.induct) (auto simp: nth_append)

interpretation chainq: iobuf_queue chain_queue concat
proof unfold_locales
  fix q :: "byte list list" and n i :: nat and bs :: "byte list"
  show "qChainLength chain_queue q = length (concat q)"
    by (simp add: chain_queue_def chain_length_concat)
  show "n \<le> length (concat q) \<Longrightarrow>
    \<exists>q'. qSplit chain_queue q n = Some (take n (concat q), q') \<and> concat q' = drop n (concat q)"
    using chain_split_concat [of q n]
    by (auto simp: chain_queue_def chain_length_concat prod_eq_iff
        intro: exI [of _ "snd (chain_split q n)"])
  show "length (concat q) < n \<Longrightarrow> qSplit chain_queue q n = None"
    by (simp add: chain_queue_def chain_length_concat)
  show "n \<le> length (concat q) \<Longrightarrow>
    \<exists>q'. qTrimStart chain_queue q n = Some q' \<and> concat q' = drop n (concat q)"
    by (auto simp: chain_queue_def chain_length_concat chain_split_concat)
  show "length (concat q) < n \<Longrightarrow> qTrimStart chain_queue q n = None"
    by (simp add: chain_queue_def chain_length_concat)
  show "concat (qTrimStartAtMost chain_queue q n) = drop n (concat q)"
    by (simp add: chain_queue_def chain_split_concat)
  show "fst (qMove chain_queue q) = concat q" "concat (snd (qMove chain_queue q)) = []"
    by (simp_all add: chain_queue_def)
  show "qPeek chain_queue q i =
    (if i < length (concat q) then Some (concat q ! i) else None)"
    by (simp add: chain_queue_def chain_peek_concat)
  show "concat (qAppend chain_queue q bs) = concat q @ bs"
    by (simp add: chain_queue_def)
qed

end
