(* ===== verification/Handler_Context.thy ===== *)
theory Handler_Context
  imports Wangle_Prelude
begin

text \<open>
  The vocabulary of \<open>channel/HandlerContext.h\<close> and \<open>channel/Handler.h\<close>: the events that travel
  through a pipeline, the calls a handler makes on its context while it reacts to one, and the
  reactions the base classes give where a handler does not override them.
\<close>

datatype HandlerDir = IN | OUT | BOTH

text \<open>
  The calls of \<open>InboundLink\<close> and \<open>OutboundLink\<close>. A handler that calls \<open>ctx->fireRead(m)\<close> sends the
  event \<open>Read m\<close> to the next inbound context, and in the same way for the other \<open>fire...\<close> methods,
  so one type serves as the calls a context receives and as the calls a handler makes.
\<close>

datatype 'r in_event =
    Read 'r
  | ReadEOF
  | ReadException cpp_exn
  | TransportActive
  | TransportInactive

datatype 'w out_event =
    Write 'w
  | WriteException cpp_exn
  | Close

datatype ('r, 'w) ctx_call = FireIn "'r in_event" | FireOut "'w out_event"

text \<open>
  \<open>Handler\<close> forwards every event but \<open>read\<close> and \<open>write\<close>, which are left to the subclass
  (\<open>on_read\<close> and \<open>on_write\<close>); \<open>HandlerAdapter\<close> forwards these two as well.
\<close>

fun Handler_inbound :: "('r \<Rightarrow> ('rout, 'wout) ctx_call list) \<Rightarrow> 'r in_event
    \<Rightarrow> ('rout, 'wout) ctx_call list" where
  "Handler_inbound on_read (Read m) = on_read m"
| "Handler_inbound on_read ReadEOF = [FireIn ReadEOF]"
| "Handler_inbound on_read (ReadException e) = [FireIn (ReadException e)]"
| "Handler_inbound on_read TransportActive = [FireIn TransportActive]"
| "Handler_inbound on_read TransportInactive = [FireIn TransportInactive]"

fun Handler_outbound :: "('w \<Rightarrow> ('rout, 'wout) ctx_call list) \<Rightarrow> 'w out_event
    \<Rightarrow> ('rout, 'wout) ctx_call list" where
  "Handler_outbound on_write (Write m) = on_write m"
| "Handler_outbound on_write (WriteException e) = [FireOut (WriteException e)]"
| "Handler_outbound on_write Close = [FireOut Close]"

definition HandlerAdapter_read :: "'r \<Rightarrow> ('r, 'w) ctx_call list" where
  "HandlerAdapter_read m = [FireIn (Read m)]"

definition HandlerAdapter_write :: "'w \<Rightarrow> ('r, 'w) ctx_call list" where
  "HandlerAdapter_write m = [FireOut (Write m)]"

lemma HandlerAdapter_inbound [simp]: "Handler_inbound HandlerAdapter_read ev = [FireIn ev]"
  by (cases ev) (simp_all add: HandlerAdapter_read_def)

lemma HandlerAdapter_outbound [simp]: "Handler_outbound HandlerAdapter_write ev = [FireOut ev]"
  by (cases ev) (simp_all add: HandlerAdapter_write_def)

end
