(* ===== verification/Codec_Decoder.thy ===== *)
theory Codec_Decoder
  imports Folly_IOBufQueue Handler_Context
begin

text \<open>
  \<open>codec/ByteToMessageDecoder.h\<close>: the read loop every frame decoder inherits, the contract under
  which the loop ends and cuts a byte stream into the same frames however the stream arrives, and
  the first provider of that contract, \<open>codec/FixedLengthFrameDecoder.h\<close>.
\<close>

section \<open>The read loop\<close>

text \<open>
  What one call of \<open>decode(ctx, buf, result, needed)\<close> leaves behind: \<open>d_result\<close> is \<open>Some\<close> of the
  message where the method returns true, \<open>d_fired\<close> the calls it made on \<open>ctx\<close>.
\<close>

record ('m, 's, 'q) decoded =
  d_result :: "'m option"
  d_needed :: nat
  d_state :: 's
  d_queue :: 'q
  d_fired :: "'m in_event list"

type_synonym ('m, 's, 'q) decode_fun = "'s \<Rightarrow> 'q \<Rightarrow> cpp_exn + ('m, 's, 'q) decoded"

text \<open>
  \<open>ByteToMessageDecoder::read\<close> is a do-while loop that may run forever, so it is a partial function;
  \<open>None\<close> is "does not return". Its result is the calls made on the context, in order, and either the
  exception that left \<open>decode\<close> or the state the loop ends in.
\<close>

partial_function (option) ByteToMessageDecoder_read ::
  "('m, 's, 'q) decode_fun \<Rightarrow> 's \<Rightarrow> 'q \<Rightarrow> ('m in_event list \<times> (cpp_exn + 's \<times> 'q)) option" where
  "ByteToMessageDecoder_read decode s q =
     (case decode s q of
        Inl e \<Rightarrow> Some ([], Inl e)
      | Inr d \<Rightarrow>
          (case d_result d of
             None \<Rightarrow> Some (d_fired d, Inr (d_state d, d_queue d))
           | Some m \<Rightarrow>
               Option.bind (ByteToMessageDecoder_read decode (d_state d) (d_queue d))
                 (\<lambda>(evs, r). Some (d_fired d @ Read m # evs, r))))"

declare ByteToMessageDecoder_read.simps [code]

text \<open>
  The socket handler appends what it received to the queue it shares with the decoder and calls
  \<open>read\<close> on it, once per segment (\<open>AsyncSocketHandler::readDataAvailable\<close>).
\<close>

fun read_segments :: "'q iobuf_queue_ops \<Rightarrow> ('m, 's, 'q) decode_fun \<Rightarrow> 's \<Rightarrow> 'q \<Rightarrow> byte list list
    \<Rightarrow> ('m in_event list \<times> (cpp_exn + 's \<times> 'q)) option" where
  "read_segments Q decode s q [] = Some ([], Inr (s, q))"
| "read_segments Q decode s q (seg # segs) =
     Option.bind (ByteToMessageDecoder_read decode s (qAppend Q q seg)) (\<lambda>(evs, r).
       (case r of
          Inl e \<Rightarrow> Some (evs, Inl e)
        | Inr (s', q') \<Rightarrow>
            Option.bind (read_segments Q decode s' q' segs) (\<lambda>(evs', r'). Some (evs @ evs', r'))))"

section \<open>Reference: cutting a byte string into frames\<close>

text \<open>
  \<open>cutf bs\<close> is the first frame of \<open>bs\<close> with what is left, or \<open>None\<close> when \<open>bs\<close> holds no whole frame.
  \<open>cut_frames\<close> repeats it; the length of the string is fuel enough when every cutf shortens it.
\<close>

type_synonym 'm cutter = "byte list \<Rightarrow> ('m \<times> byte list) option"

fun cut_fuel :: "'m cutter \<Rightarrow> nat \<Rightarrow> byte list \<Rightarrow> 'm list \<times> byte list" where
  "cut_fuel cutf 0 bs = ([], bs)"
| "cut_fuel cutf (Suc k) bs =
     (case cutf bs of
        None \<Rightarrow> ([], bs)
      | Some (m, rest) \<Rightarrow> (case cut_fuel cutf k rest of (ms, rest') \<Rightarrow> (m # ms, rest')))"

definition cut_frames :: "'m cutter \<Rightarrow> byte list \<Rightarrow> 'm list \<times> byte list" where
  "cut_frames cutf bs = cut_fuel cutf (length bs) bs"

section \<open>The contract of a frame decoder\<close>

text \<open>A decoder that consumes input whenever it yields a message: the read loop ends.\<close>

locale progressing_decoder = iobuf_queue Q content
  for Q :: "'q iobuf_queue_ops" and content :: "'q \<Rightarrow> byte list" +
  fixes decode :: "('m, 's, 'q) decode_fun"
  assumes progress: "decode s q = Inr d \<Longrightarrow> d_result d = Some m \<Longrightarrow>
    length (content (d_queue d)) < length (content q)"
begin

lemma read_returns: "\<exists>r. ByteToMessageDecoder_read decode s q = Some r"
proof (induction "length (content q)" arbitrary: s q rule: less_induct)
  case less
  show ?case
  proof (cases "decode s q")
    case (Inl e)
    then show ?thesis by (subst ByteToMessageDecoder_read.simps) simp
  next
    case (Inr d)
    show ?thesis
    proof (cases "d_result d")
      case None
      with Inr show ?thesis by (subst ByteToMessageDecoder_read.simps) simp
    next
      case (Some m)
      with Inr have "length (content (d_queue d)) < length (content q)"
        by (rule progress)
      then obtain evs r where "ByteToMessageDecoder_read decode (d_state d) (d_queue d) = Some (evs, r)"
        using less by (metis surj_pair)
      with Inr Some show ?thesis by (subst ByteToMessageDecoder_read.simps) simp
    qed
  qed
qed

end

text \<open>
  A decoder that follows a cutter \<open>cutf\<close> on every content that \<open>good\<close> admits, keeping its own state
  and firing nothing but its frames.
\<close>

locale cutting_decoder = iobuf_queue Q content
  for Q :: "'q iobuf_queue_ops" and content :: "'q \<Rightarrow> byte list" +
  fixes decode :: "('m, 's, 'q) decode_fun"
    and cutf :: "'m cutter"
    and good :: "byte list \<Rightarrow> bool"
    and state :: 's
  assumes decode_frame: "good (content q) \<Longrightarrow> cutf (content q) = Some (m, rest) \<Longrightarrow>
      \<exists>n q'. decode state q =
        Inr \<lparr>d_result = Some m, d_needed = n, d_state = state, d_queue = q', d_fired = []\<rparr> \<and>
        content q' = rest"
    and decode_wait: "good (content q) \<Longrightarrow> cutf (content q) = None \<Longrightarrow>
      \<exists>n q'. decode state q =
        Inr \<lparr>d_result = None, d_needed = n, d_state = state, d_queue = q', d_fired = []\<rparr> \<and>
        content q' = content q"
    and cut_append: "cutf bs = Some (m, rest) \<Longrightarrow> cutf (bs @ extra) = Some (m, rest @ extra)"
    and cut_shorter: "cutf bs = Some (m, rest) \<Longrightarrow> length rest < length bs"
    and good_rest: "good bs \<Longrightarrow> cutf bs = Some (m, rest) \<Longrightarrow> good rest"
    and good_prefix: "good (bs @ extra) \<Longrightarrow> good bs"
begin

lemma cut_fuel_enough:
  "length bs \<le> k \<Longrightarrow> cut_fuel cutf k bs = cut_fuel cutf (length bs) bs"
proof (induction "length bs" arbitrary: bs k rule: less_induct)
  case less
  show ?case
  proof (cases "cutf bs")
    case None
    then show ?thesis by (cases k; cases "length bs") auto
  next
    case (Some mr)
    obtain m rest where mr: "mr = (m, rest)" by (cases mr)
    with Some have shorter: "length rest < length bs" using cut_shorter by blast
    obtain k' n' where k: "k = Suc k'" and n: "length bs = Suc n'"
      using shorter less.prems by (metis Suc_le_D less_imp_Suc_add)
    from shorter less.prems k n have le: "length rest \<le> k'" "length rest \<le> n'" by linarith+
    have "cut_fuel cutf k' rest = cut_fuel cutf n' rest"
      using less.hyps [OF shorter le(1)] less.hyps [OF shorter le(2)] by (rule trans [OF _ sym])
    with Some mr k n show ?thesis by simp
  qed
qed

lemma cut_frames_None: "cutf bs = None \<Longrightarrow> cut_frames cutf bs = ([], bs)"
  by (cases "length bs") (auto simp: cut_frames_def)

lemma cut_frames_Some:
  assumes "cutf bs = Some (m, rest)"
  shows "cut_frames cutf bs = (m # fst (cut_frames cutf rest), snd (cut_frames cutf rest))"
proof -
  from assms have shorter: "length rest < length bs" by (rule cut_shorter)
  then obtain n where n: "length bs = Suc n" by (cases "length bs") auto
  with shorter have "cut_fuel cutf n rest = cut_frames cutf rest"
    using cut_fuel_enough [of rest n] by (simp add: cut_frames_def)
  then show ?thesis
    using assms n by (simp add: cut_frames_def split: prod.splits)
qed

lemma cut_frames_rest: "cutf (snd (cut_frames cutf bs)) = None"
proof (induction "length bs" arbitrary: bs rule: less_induct)
  case less
  show ?case
  proof (cases "cutf bs")
    case None
    then show ?thesis by (simp add: cut_frames_None)
  next
    case (Some mr)
    then show ?thesis
      using less by (cases mr) (auto simp: cut_frames_Some dest: cut_shorter)
  qed
qed

lemma cut_frames_append:
  "cut_frames cutf (bs @ extra) =
     (fst (cut_frames cutf bs) @ fst (cut_frames cutf (snd (cut_frames cutf bs) @ extra)),
      snd (cut_frames cutf (snd (cut_frames cutf bs) @ extra)))"
proof (induction "length bs" arbitrary: bs rule: less_induct)
  case less
  show ?case
  proof (cases "cutf bs")
    case None
    then show ?thesis by (simp add: cut_frames_None)
  next
    case (Some mr)
    obtain m rest where mr: "mr = (m, rest)" by (cases mr)
    with Some have "cutf bs = Some (m, rest)" by simp
    then show ?thesis
      using less [OF cut_shorter] cut_append [of bs m rest extra]
      by (simp add: cut_frames_Some)
  qed
qed

lemma good_after_cut: "good (bs @ extra) \<Longrightarrow> good (snd (cut_frames cutf bs) @ extra)"
proof (induction "length bs" arbitrary: bs rule: less_induct)
  case less
  show ?case
  proof (cases "cutf bs")
    case None
    with less.prems show ?thesis by (simp add: cut_frames_None)
  next
    case (Some mr)
    obtain m rest where "mr = (m, rest)" by (cases mr)
    with Some have c: "cutf bs = Some (m, rest)" by simp
    have "good (rest @ extra)" using good_rest [OF less.prems cut_append [OF c]] .
    with less.hyps [OF cut_shorter [OF c]] show ?thesis by (simp add: cut_frames_Some [OF c])
  qed
qed

text \<open>One call of \<open>read\<close> fires exactly the frames the queue holds.\<close>

lemma read_cuts:
  "good (content q) \<Longrightarrow> \<exists>q'.
     ByteToMessageDecoder_read decode state q =
       Some (map Read (fst (cut_frames cutf (content q))), Inr (state, q')) \<and>
     content q' = snd (cut_frames cutf (content q))"
proof (induction "length (content q)" arbitrary: q rule: less_induct)
  case less
  show ?case
  proof (cases "cutf (content q)")
    case None
    then show ?thesis
      using decode_wait [OF less.prems None]
      by (subst ByteToMessageDecoder_read.simps) (auto simp: cut_frames_None)
  next
    case (Some mr)
    obtain m rest where "mr = (m, rest)" by (cases mr)
    with Some have c: "cutf (content q) = Some (m, rest)" by simp
    from decode_frame [OF less.prems c] obtain n q1 where
      d: "decode state q =
        Inr \<lparr>d_result = Some m, d_needed = n, d_state = state, d_queue = q1, d_fired = []\<rparr>"
      and q1: "content q1 = rest" by blast
    from less.hyps [of q1] cut_shorter [OF c] good_rest [OF less.prems c] q1
    obtain q' where "ByteToMessageDecoder_read decode state q1 =
        Some (map Read (fst (cut_frames cutf rest)), Inr (state, q'))"
      and "content q' = snd (cut_frames cutf rest)" by auto
    with d c show ?thesis
      by (subst ByteToMessageDecoder_read.simps) (auto simp: cut_frames_Some)
  qed
qed

text \<open>
  A stream read segment by segment gives the frames of the whole stream, whatever the segments.
\<close>

lemma read_segments_cuts:
  assumes "good (content q @ concat segs)" and "cutf (content q) = None"
  shows "\<exists>q'. read_segments Q decode state q segs =
      Some (map Read (fst (cut_frames cutf (content q @ concat segs))), Inr (state, q')) \<and>
    content q' = snd (cut_frames cutf (content q @ concat segs))"
  using assms
proof (induction segs arbitrary: q)
  case Nil
  then show ?case by (simp add: cut_frames_None)
next
  case (Cons seg segs)
  let ?q = "qAppend Q q seg"
  have whole: "good ((content q @ seg) @ concat segs)" using Cons.prems(1) by simp
  then have "good (content ?q)" using good_prefix by simp
  from read_cuts [OF this] obtain q1 where
    r1: "ByteToMessageDecoder_read decode state ?q =
      Some (map Read (fst (cut_frames cutf (content q @ seg))), Inr (state, q1))"
    and q1: "content q1 = snd (cut_frames cutf (content q @ seg))" by auto
  have app: "cut_frames cutf (content q @ seg @ concat segs) =
     (fst (cut_frames cutf (content q @ seg)) @ fst (cut_frames cutf (content q1 @ concat segs)),
      snd (cut_frames cutf (content q1 @ concat segs)))"
    using cut_frames_append [of "content q @ seg" "concat segs"] q1 by simp
  have "good (content q1 @ concat segs)"
    unfolding q1 using whole by (rule good_after_cut)
  moreover have "cutf (content q1) = None" unfolding q1 by (rule cut_frames_rest)
  ultimately obtain q' where
    "read_segments Q decode state q1 segs =
       Some (map Read (fst (cut_frames cutf (content q1 @ concat segs))), Inr (state, q'))"
    and "content q' = snd (cut_frames cutf (content q1 @ concat segs))"
    using Cons.IH by blast
  with r1 show ?case by (auto simp: app)
qed

end

end
