(* ===== verification/Codec_FixedLength.thy ===== *)
theory Codec_FixedLength
  imports Codec_Decoder
begin

text \<open>
  \<open>codec/FixedLengthFrameDecoder.h\<close>: frames of \<open>frameLen\<close> bytes each. The decoder has no state
  beside the constructor's argument.
\<close>

definition FixedLengthFrameDecoder_decode ::
  "'q iobuf_queue_ops \<Rightarrow> nat \<Rightarrow> (byte list, unit, 'q) decode_fun" where
  "FixedLengthFrameDecoder_decode Q frameLen s q =
     (if qChainLength Q q < frameLen then
        Inr \<lparr>d_result = None, d_needed = frameLen - qChainLength Q q,
             d_state = s, d_queue = q, d_fired = []\<rparr>
      else
        (case qSplit Q q frameLen of
           None \<Rightarrow> Inl UnderflowError
         | Some (frame, q') \<Rightarrow>
             Inr \<lparr>d_result = Some frame, d_needed = 0,
                  d_state = s, d_queue = q', d_fired = []\<rparr>))"

definition fixed_cut :: "nat \<Rightarrow> byte list cutter" where
  "fixed_cut n bs = (if length bs < n then None else Some (take n bs, drop n bs))"

locale fixed_length = iobuf_queue Q content
  for Q :: "'q iobuf_queue_ops" and content :: "'q \<Rightarrow> byte list" +
  fixes frameLen :: nat
  assumes frameLen_pos: "0 < frameLen"

sublocale fixed_length \<subseteq>
  cutting_decoder Q content "FixedLengthFrameDecoder_decode Q frameLen"
    "fixed_cut frameLen" "\<lambda>_. True" "()"
proof unfold_locales
  fix q m rest
  show "fixed_cut frameLen (content q) = Some (m, rest) \<Longrightarrow>
    \<exists>n q'. FixedLengthFrameDecoder_decode Q frameLen () q =
        Inr \<lparr>d_result = Some m, d_needed = n, d_state = (), d_queue = q', d_fired = []\<rparr> \<and>
        content q' = rest"
    using split_ok [of frameLen q]
    by (auto simp: fixed_cut_def FixedLengthFrameDecoder_decode_def split: if_splits)
  show "fixed_cut frameLen (content q) = None \<Longrightarrow>
    \<exists>n q'. FixedLengthFrameDecoder_decode Q frameLen () q =
        Inr \<lparr>d_result = None, d_needed = n, d_state = (), d_queue = q', d_fired = []\<rparr> \<and>
        content q' = content q"
    by (auto simp: fixed_cut_def FixedLengthFrameDecoder_decode_def split: if_splits)
next
  fix bs m rest extra
  show "fixed_cut frameLen bs = Some (m, rest) \<Longrightarrow>
      fixed_cut frameLen (bs @ extra) = Some (m, rest @ extra)"
    and "fixed_cut frameLen bs = Some (m, rest) \<Longrightarrow> length rest < length bs"
    using frameLen_pos by (auto simp: fixed_cut_def split: if_splits)
qed auto

sublocale fixed_length \<subseteq>
  progressing_decoder Q content "FixedLengthFrameDecoder_decode Q frameLen"
proof unfold_locales
  fix s q d m
  assume "FixedLengthFrameDecoder_decode Q frameLen s q = Inr d" and "d_result d = Some m"
  then show "length (content (d_queue d)) < length (content q)"
    using split_ok [of frameLen q] frameLen_pos
    by (auto simp: FixedLengthFrameDecoder_decode_def split: if_splits)
qed

context fixed_length
begin

lemma fixed_cut_frames:
  "(\<forall>f \<in> set (fst (cut_frames (fixed_cut frameLen) bs)). length f = frameLen) \<and>
   concat (fst (cut_frames (fixed_cut frameLen) bs)) @ snd (cut_frames (fixed_cut frameLen) bs) = bs \<and>
   length (snd (cut_frames (fixed_cut frameLen) bs)) < frameLen"
proof (induction "length bs" arbitrary: bs rule: less_induct)
  case less
  show ?case
  proof (cases "fixed_cut frameLen bs")
    case None
    then show ?thesis by (simp add: cut_frames_None) (simp add: fixed_cut_def split: if_splits)
  next
    case (Some mr)
    obtain m rest where "mr = (m, rest)" by (cases mr)
    with Some have c: "fixed_cut frameLen bs = Some (m, rest)" by simp
    then have "length m = frameLen" and "m @ rest = bs" by (auto simp: fixed_cut_def split: if_splits)
    then show ?thesis using less [OF cut_shorter [OF c]] by (simp add: cut_frames_Some [OF c])
  qed
qed

lemma segments_split:
  assumes "content q = []"
  shows "\<exists>frames q'.
    read_segments Q (FixedLengthFrameDecoder_decode Q frameLen) () q segs =
      Some (map Read frames, Inr ((), q')) \<and>
    (\<forall>f \<in> set frames. length f = frameLen) \<and>
    concat frames @ content q' = concat segs \<and>
    length (content q') < frameLen"
proof -
  let ?fr = "cut_frames (fixed_cut frameLen) (concat segs)"
  have "fixed_cut frameLen (content q) = None"
    using assms frameLen_pos by (simp add: fixed_cut_def)
  from read_segments_cuts [OF TrueI this, of segs] assms obtain q' where
    "read_segments Q (FixedLengthFrameDecoder_decode Q frameLen) () q segs =
      Some (map Read (fst ?fr), Inr ((), q'))"
    and "content q' = snd ?fr" by auto
  with fixed_cut_frames [of "concat segs"] show ?thesis by metis
qed

end

interpretation chain_fixed3: fixed_length chain_queue concat 3
  by unfold_locales simp

text \<open>
  A FixedLengthFrameDecoder of positive length, fed a byte stream in any segments, fires one
  read per frame: all frames have the configured length, the frames and what stays queued are the
  stream, in order and with nothing lost or added, and less than a frame stays queued.
\<close>

theorem FixedLengthFrameDecoder_segments:
  assumes "iobuf_queue Q content" and "0 < n" and "content q = []"
  shows "\<exists>frames q'.
    read_segments Q (FixedLengthFrameDecoder_decode Q n) () q segs =
      Some (map Read frames, Inr ((), q')) \<and>
    (\<forall>f \<in> set frames. length f = n) \<and>
    concat frames @ content q' = concat segs \<and>
    length (content q') < n"
proof -
  have "fixed_length Q content n"
    using assms by (simp add: fixed_length_def fixed_length_axioms_def)
  then show ?thesis using assms(3) by (rule fixed_length.segments_split)
qed

theorem FixedLengthFrameDecoder_segments_witness:
  "\<exists>frames q'.
    read_segments chain_queue (FixedLengthFrameDecoder_decode chain_queue 3) () []
      [[1], [2, 3], [4, 5, 6, 7], [8]] = Some (map Read frames, Inr ((), q')) \<and>
    (\<forall>f \<in> set frames. length f = 3) \<and>
    concat frames @ concat q' = concat [[1], [2, 3], [4, 5, 6, 7], [8]] \<and>
    length (concat q') < 3"
  by (rule FixedLengthFrameDecoder_segments) (simp_all add: chainq.iobuf_queue_axioms)

text \<open>
  When too few bytes are queued, \<open>needed\<close> is exact: that many more bytes, and no fewer, make the
  next call of decode yield a frame.
\<close>

theorem FixedLengthFrameDecoder_needed:
  assumes "iobuf_queue Q content" and "length (content q) < n"
  shows "\<exists>d. FixedLengthFrameDecoder_decode Q n () q = Inr d \<and> d_result d = None \<and>
    content (d_queue d) = content q \<and>
    ((\<exists>d' frame. FixedLengthFrameDecoder_decode Q n () (qAppend Q q bs) = Inr d' \<and>
        d_result d' = Some frame) \<longleftrightarrow> d_needed d \<le> length bs)"
proof -
  note laws = iobuf_queue.chainLength_content [OF assms(1)] iobuf_queue.append_content [OF assms(1)]
  show ?thesis
    using assms(2) iobuf_queue.split_ok [OF assms(1), of n "qAppend Q q bs"]
    by (auto simp: FixedLengthFrameDecoder_decode_def laws)
qed

theorem FixedLengthFrameDecoder_needed_witness:
  "\<exists>d. FixedLengthFrameDecoder_decode chain_queue 3 () [[1], [2]] = Inr d \<and> d_result d = None \<and>
    concat (d_queue d) = concat [[1], [2]] \<and>
    ((\<exists>d' frame. FixedLengthFrameDecoder_decode chain_queue 3 ()
          (qAppend chain_queue [[1], [2]] [7]) = Inr d' \<and>
        d_result d' = Some frame) \<longleftrightarrow> d_needed d \<le> length [7 :: byte])"
  by (rule FixedLengthFrameDecoder_needed) (simp_all add: chainq.iobuf_queue_axioms)

text \<open>
  With length zero the read loop never returns: decode yields an empty frame for ever. Nothing
  in the constructor excludes this length.
\<close>

theorem FixedLengthFrameDecoder_zero_diverges:
  assumes "iobuf_queue Q content"
  shows "ByteToMessageDecoder_read (FixedLengthFrameDecoder_decode Q 0) s q = None"
proof (rule ccontr)
  assume "ByteToMessageDecoder_read (FixedLengthFrameDecoder_decode Q 0) s q \<noteq> None"
  then obtain r where "ByteToMessageDecoder_read (FixedLengthFrameDecoder_decode Q 0) s q = Some r"
    by blast
  then have "FixedLengthFrameDecoder_decode Q 0 = FixedLengthFrameDecoder_decode Q 0 \<longrightarrow> False"
  proof (rule ByteToMessageDecoder_read.raw_induct
      [where P = "\<lambda>decode s q r. decode = FixedLengthFrameDecoder_decode Q 0 \<longrightarrow> False", rotated])
    fix read decode s q r
    assume IH: "\<And>decode s q r. read decode s q = Some r \<Longrightarrow>
        decode = FixedLengthFrameDecoder_decode Q 0 \<longrightarrow> False"
      and eq: "(case decode s q of
        Inl e \<Rightarrow> Some ([], Inl e)
      | Inr d \<Rightarrow>
          (case d_result d of
             None \<Rightarrow> Some (d_fired d, Inr (d_state d, d_queue d))
           | Some m \<Rightarrow>
               Option.bind (read decode (d_state d) (d_queue d))
                 (\<lambda>(evs, r). Some (d_fired d @ Read m # evs, r)))) = Some r"
    show "decode = FixedLengthFrameDecoder_decode Q 0 \<longrightarrow> False"
      using iobuf_queue.split_ok [OF assms, of 0 q] IH [of "FixedLengthFrameDecoder_decode Q 0"] eq
      by (auto simp: FixedLengthFrameDecoder_decode_def Option.bind_eq_Some_conv)
  qed
  then show False by simp
qed

theorem FixedLengthFrameDecoder_zero_diverges_witness:
  "ByteToMessageDecoder_read (FixedLengthFrameDecoder_decode chain_queue 0) () [[1, 2]] = None"
  by (rule FixedLengthFrameDecoder_zero_diverges) (rule chainq.iobuf_queue_axioms)

end
