(* ===== verification/Codec_LengthField.thy ===== *)
theory Codec_LengthField
  imports Codec_Decoder
begin

text \<open>
  \<open>codec/LengthFieldBasedFrameDecoder.{h,cpp}\<close> and \<open>codec/LengthFieldPrepender.{h,cpp}\<close>: frames that
  carry their length in a header field, and the encoder that writes the field. All arithmetic is
  kept at the width the source gives it.
\<close>

section \<open>The decoder\<close>

record LengthFieldBasedFrameDecoder =
  lengthFieldLength :: u32
  maxFrameLength :: u32
  lengthFieldOffset :: u32
  lengthAdjustment :: "32 word"
  initialBytesToStrip :: u32
  networkByteOrder :: bool
  lengthFieldEndOffset :: u32

definition LengthFieldBasedFrameDecoder_new ::
  "u32 \<Rightarrow> u32 \<Rightarrow> u32 \<Rightarrow> 32 word \<Rightarrow> u32 \<Rightarrow> bool \<Rightarrow> cpp_exn + LengthFieldBasedFrameDecoder" where
  "LengthFieldBasedFrameDecoder_new lfl mfl off adj strip nbo =
     (if \<not> 0 < mfl then Inl CheckFailed
      else if \<not> off \<le> mfl - lfl then Inl CheckFailed
      else Inr \<lparr>lengthFieldLength = lfl, maxFrameLength = mfl, lengthFieldOffset = off,
                lengthAdjustment = adj, initialBytesToStrip = strip, networkByteOrder = nbo,
                lengthFieldEndOffset = off + lfl\<rparr>)"

text \<open>
  The switch covers field lengths 1, 2, 4 and 8; for any other the local \<open>frameLength\<close> is returned
  uninitialised, and its value is the argument \<open>uninit\<close>. The \<open>int\<close> arguments reach
  \<open>Cursor::skip(size_t)\<close> with their sign extended.
\<close>

definition read_field :: "'q iobuf_queue_ops \<Rightarrow> 'q \<Rightarrow> bool \<Rightarrow> nat \<Rightarrow> nat \<Rightarrow> cpp_exn + u64" where
  "read_field Q q nbo pos n =
     (case cursor_read Q q pos n of
        None \<Rightarrow> Inl OutOfRange
      | Some bs \<Rightarrow> Inr (of_nat (field_val nbo bs)))"

definition getUnadjustedFrameLength ::
  "'q iobuf_queue_ops \<Rightarrow> u64 \<Rightarrow> 'q \<Rightarrow> 32 word \<Rightarrow> 32 word \<Rightarrow> bool \<Rightarrow> cpp_exn + u64" where
  "getUnadjustedFrameLength Q uninit q offset len nbo =
     (let pos = unat (scast offset :: u64) in
      if qChainLength Q q < pos then Inl OutOfRange
      else if len = 1 then read_field Q q nbo pos 1
      else if len = 2 then read_field Q q nbo pos 2
      else if len = 4 then read_field Q q nbo pos 4
      else if len = 8 then read_field Q q nbo pos 8
      else Inr uninit)"

definition LengthFieldBasedFrameDecoder_decode ::
  "'q iobuf_queue_ops \<Rightarrow> u64 \<Rightarrow> LengthFieldBasedFrameDecoder \<Rightarrow> (byte list, unit, 'q) decode_fun" where
  "LengthFieldBasedFrameDecoder_decode Q uninit d s q =
     (if qChainLength Q q < unat (lengthFieldEndOffset d) then
        Inr \<lparr>d_result = None, d_needed = 0, d_state = s, d_queue = q, d_fired = []\<rparr>
      else
        (case getUnadjustedFrameLength Q uninit q (lengthFieldOffset d) (lengthFieldLength d)
                (networkByteOrder d) of
           Inl e \<Rightarrow> Inl e
         | Inr unadjusted \<Rightarrow>
             (let frameLength = unadjusted + ucast (lengthAdjustment d + lengthFieldEndOffset d) in
              if frameLength < ucast (lengthFieldEndOffset d) then
                (case qTrimStart Q q (unat (lengthFieldEndOffset d)) of
                   None \<Rightarrow> Inl UnderflowError
                 | Some q' \<Rightarrow>
                     Inr \<lparr>d_result = None, d_needed = 0, d_state = s, d_queue = q',
                          d_fired = [ReadException (RuntimeError ''Frame too small'')]\<rparr>)
              else if frameLength > ucast (maxFrameLength d) then
                Inr \<lparr>d_result = None, d_needed = 0, d_state = s,
                     d_queue = qTrimStartAtMost Q q (unat frameLength),
                     d_fired = [ReadException (RuntimeError
                       (''Frame larger than '' @ nat_str (unat (maxFrameLength d))))]\<rparr>
              else if qChainLength Q q < unat frameLength then
                Inr \<lparr>d_result = None, d_needed = 0, d_state = s, d_queue = q, d_fired = []\<rparr>
              else if ucast (initialBytesToStrip d) > frameLength then
                (case qTrimStart Q q (unat frameLength) of
                   None \<Rightarrow> Inl UnderflowError
                 | Some q' \<Rightarrow>
                     Inr \<lparr>d_result = None, d_needed = 0, d_state = s, d_queue = q',
                          d_fired = [ReadException (RuntimeError
                            ''InitialBytesToSkip larger than frame'')]\<rparr>)
              else
                (case qTrimStart Q q (unat (initialBytesToStrip d)) of
                   None \<Rightarrow> Inl UnderflowError
                 | Some q' \<Rightarrow>
                     (let actualFrameLength =
                            ucast (frameLength - ucast (initialBytesToStrip d)) :: 32 word in
                      case qSplit Q q' (unat (scast actualFrameLength :: u64)) of
                        None \<Rightarrow> Inl UnderflowError
                      | Some (frame, q'') \<Rightarrow>
                          Inr \<lparr>d_result = Some frame, d_needed = 0, d_state = s,
                               d_queue = q'', d_fired = []\<rparr>)))))"

section \<open>The encoder\<close>

record LengthFieldPrepender =
  p_lengthFieldLength :: "32 word"
  p_lengthAdjustment :: "32 word"
  p_lengthIncludesLengthField :: bool
  p_networkByteOrder :: bool

definition LengthFieldPrepender_new ::
  "32 word \<Rightarrow> 32 word \<Rightarrow> bool \<Rightarrow> bool \<Rightarrow> cpp_exn + LengthFieldPrepender" where
  "LengthFieldPrepender_new lfl adj incl nbo =
     (if lfl = 1 \<or> lfl = 2 \<or> lfl = 4 \<or> lfl = 8 then
        Inr \<lparr>p_lengthFieldLength = lfl, p_lengthAdjustment = adj,
             p_lengthIncludesLengthField = incl, p_networkByteOrder = nbo\<rparr>
      else Inl CheckFailed)"

text \<open>
  \<open>write\<close> computes the length in an \<open>int\<close>: the sum with the \<open>size_t\<close> chain length is narrowed to 32
  bits, and the addition of the field's own length wraps as two's complement does.
\<close>

definition prepender_length :: "LengthFieldPrepender \<Rightarrow> byte list \<Rightarrow> 32 word" where
  "prepender_length p buf =
     (let len = ucast ((scast (p_lengthAdjustment p) :: u64) + of_nat (length buf)) :: 32 word in
      if p_lengthIncludesLengthField p then len + p_lengthFieldLength p else len)"

definition LengthFieldPrepender_write ::
  "LengthFieldPrepender \<Rightarrow> byte list \<Rightarrow> cpp_exn + byte list out_event list" where
  "LengthFieldPrepender_write p buf =
     (let len = prepender_length p buf; nbo = p_networkByteOrder p in
      if sint len < 0 then Inl (RuntimeError ''Length field < 0'')
      else if p_lengthFieldLength p = 1 then
        (if sint len \<ge> 256 then Inl (RuntimeError ''length does not fit byte'')
         else Inr [Write (field_bytes nbo 1 (unat (ucast len :: 8 word)) @ buf)])
      else if p_lengthFieldLength p = 2 then
        (if sint len \<ge> 65536 then Inl (RuntimeError ''length does not fit byte'')
         else Inr [Write (field_bytes nbo 2 (unat (ucast len :: 16 word)) @ buf)])
      else if p_lengthFieldLength p = 4 then
        Inr [Write (field_bytes nbo 4 (unat len) @ buf)]
      else if p_lengthFieldLength p = 8 then
        Inr [Write (field_bytes nbo 8 (unat (scast len :: u64)) @ buf)]
      else Inl (RuntimeError ''Invalid lengthFieldLength''))"

section \<open>Decoding one frame\<close>

context iobuf_queue
begin

lemma read_field_content:
  "pos + n \<le> length (content q) \<Longrightarrow>
   read_field Q q nbo pos n = Inr (of_nat (field_val nbo (take n (drop pos (content q)))))"
  by (simp add: read_field_def cursor_read_content)

lemma getUnadjusted_content:
  assumes "len \<in> {1, 2, 4, 8}" and "unat len \<le> length (content q)"
  shows "getUnadjustedFrameLength Q uninit q 0 len nbo =
    Inr (of_nat (field_val nbo (take (unat len) (content q))))"
  using assms by (auto simp: getUnadjustedFrameLength_def read_field_content Let_def)

end

text \<open>
  The common configuration: the field stands at the front, its width is one the switch reads, and
  the header is stripped. \<open>frame_total\<close> is the length of the whole frame, header included, that the
  decoder computes from the field.
\<close>

definition front_field :: "LengthFieldBasedFrameDecoder \<Rightarrow> bool" where
  "front_field d \<longleftrightarrow> lengthFieldLength d \<in> {1, 2, 4, 8} \<and> lengthFieldOffset d = 0 \<and>
     lengthFieldEndOffset d = lengthFieldLength d \<and> initialBytesToStrip d = lengthFieldLength d"

definition frame_total :: "LengthFieldBasedFrameDecoder \<Rightarrow> byte list \<Rightarrow> nat" where
  "frame_total d bs =
     field_val (networkByteOrder d) (take (unat (lengthFieldLength d)) bs) +
     unat (lengthAdjustment d + lengthFieldLength d)"

definition frame_sane :: "LengthFieldBasedFrameDecoder \<Rightarrow> byte list \<Rightarrow> bool" where
  "frame_sane d bs \<longleftrightarrow> unat (lengthFieldLength d) \<le> frame_total d bs \<and>
     frame_total d bs \<le> unat (maxFrameLength d) \<and> frame_total d bs < 2 ^ 31"

context iobuf_queue
begin

lemma decode_sane:
  assumes d: "front_field d" and n: "n = unat (lengthFieldLength d)" "n \<le> length (content q)"
    and sane: "frame_sane d (content q)"
  defines "L \<equiv> frame_total d (content q)"
  shows "if length (content q) < L
    then LengthFieldBasedFrameDecoder_decode Q uninit d s q =
      Inr \<lparr>d_result = None, d_needed = 0, d_state = s, d_queue = q, d_fired = []\<rparr>
    else \<exists>q'. LengthFieldBasedFrameDecoder_decode Q uninit d s q =
      Inr \<lparr>d_result = Some (take (L - n) (drop n (content q))), d_needed = 0, d_state = s,
           d_queue = q', d_fired = []\<rparr> \<and> content q' = drop L (content q)"
proof -
  let ?v = "field_val (networkByteOrder d) (take n (content q))"
  let ?fl = "of_nat ?v + ucast (lengthAdjustment d + lengthFieldLength d) :: u64"
  have L: "L = ?v + unat (lengthAdjustment d + lengthFieldLength d)"
    by (simp add: L_def frame_total_def n)
  have small: "n \<le> L" "L \<le> unat (maxFrameLength d)" "L < 2 ^ 31"
    using sane by (auto simp: frame_sane_def L_def n)
  have "?fl = of_nat L"
    unfolding L by simp
  then have fl: "unat ?fl = L"
    using small(3) by (simp add: unat_of_nat64)
  have get: "getUnadjustedFrameLength Q uninit q (lengthFieldOffset d) (lengthFieldLength d)
      (networkByteOrder d) = Inr (of_nat ?v)"
    using d n getUnadjusted_content [of "lengthFieldLength d" q] by (auto simp: front_field_def)
  have actual: "unat (scast (ucast (?fl - ucast (lengthFieldLength d)) :: 32 word) :: u64) = L - n"
  proof -
    have "?fl - ucast (lengthFieldLength d) = of_nat (L - n)"
      using small(1) \<open>?fl = of_nat L\<close> by (simp add: n of_nat_diff)
    then show ?thesis using small(3) by (simp only: unat_int_of_size)
  qed
  have guards: "\<not> ?fl < ucast (lengthFieldLength d)" "\<not> ucast (maxFrameLength d) < ?fl"
    "\<not> ?fl < ucast (lengthFieldLength d)"
    using small fl by (simp_all add: word_less_nat_alt n)
  note unfolded = LengthFieldBasedFrameDecoder_decode_def Let_def
  show ?thesis
  proof (cases "length (content q) < L")
    case True
    with d n get guards fl show ?thesis by (simp add: unfolded front_field_def)
  next
    case False
    obtain q1 where q1: "qTrimStart Q q n = Some q1" "content q1 = drop n (content q)"
      using trimStart_ok [of n q] n(2) by blast
    with False have "L - n \<le> length (content q1)" by simp
    then obtain q2 where "qSplit Q q1 (L - n) = Some (take (L - n) (content q1), q2)"
      and "content q2 = drop (L - n) (content q1)"
      using split_ok by blast
    with False d n get guards fl actual q1 small(1) show ?thesis
      by (simp add: unfolded front_field_def)
  qed
qed

end

section \<open>Decoding a stream\<close>

definition field_cut :: "LengthFieldBasedFrameDecoder \<Rightarrow> byte list cutter" where
  "field_cut d bs =
     (let n = unat (lengthFieldLength d); L = frame_total d bs in
      if length bs < n \<or> L < n \<or> length bs < L then None
      else Some (take (L - n) (drop n bs), drop L bs))"

definition whole_frame :: "LengthFieldBasedFrameDecoder \<Rightarrow> byte list \<Rightarrow> bool" where
  "whole_frame d w \<longleftrightarrow> unat (lengthFieldLength d) \<le> length w \<and> frame_sane d w \<and>
     frame_total d w = length w"

definition frame_stream :: "LengthFieldBasedFrameDecoder \<Rightarrow> byte list \<Rightarrow> bool" where
  "frame_stream d bs \<longleftrightarrow> (\<exists>ws rest. bs @ rest = concat ws \<and> (\<forall>w \<in> set ws. whole_frame d w))"

lemma frame_total_prefix:
  "unat (lengthFieldLength d) \<le> length bs \<Longrightarrow> frame_total d (bs @ extra) = frame_total d bs"
  by (simp add: frame_total_def)

lemma frame_sane_prefix:
  "unat (lengthFieldLength d) \<le> length bs \<Longrightarrow> frame_sane d (bs @ extra) = frame_sane d bs"
  by (simp add: frame_sane_def frame_total_prefix)

lemma frame_stream_head:
  assumes "frame_stream d bs" and "unat (lengthFieldLength d) \<le> length bs"
    and "0 < lengthFieldLength d"
  obtains w ws rest where "bs @ rest = w @ concat ws" and "whole_frame d w"
    and "\<forall>w \<in> set ws. whole_frame d w" and "frame_total d bs = length w" and "frame_sane d bs"
proof -
  from assms(1) obtain ws rest where ws: "bs @ rest = concat ws" "\<forall>w \<in> set ws. whole_frame d w"
    by (auto simp: frame_stream_def)
  have "0 < unat (lengthFieldLength d)" using assms(3) by (simp add: word_less_nat_alt)
  with assms(2) ws(1) obtain w ws' where cons: "ws = w # ws'" by (cases ws) auto
  with ws have w: "whole_frame d w" "bs @ rest = w @ concat ws'" by auto
  then have n: "unat (lengthFieldLength d) \<le> length w" by (simp add: whole_frame_def)
  have "frame_total d bs = frame_total d w" and "frame_sane d bs = frame_sane d w"
    using frame_total_prefix [OF assms(2), of rest] frame_total_prefix [OF n, of "concat ws'"]
      frame_sane_prefix [OF assms(2), of rest] frame_sane_prefix [OF n, of "concat ws'"] w(2)
    by simp_all
  with w ws cons show ?thesis by (auto simp: whole_frame_def intro: that)
qed

locale length_field = iobuf_queue Q content
  for Q :: "'q iobuf_queue_ops" and content :: "'q \<Rightarrow> byte list" +
  fixes d :: LengthFieldBasedFrameDecoder and uninit :: u64
  assumes front: "front_field d"
begin

lemma field_pos: "0 < lengthFieldLength d"
  using front by (auto simp: front_field_def)

lemma field_pos_nat: "0 < unat (lengthFieldLength d)"
  using field_pos by (simp add: word_less_nat_alt)

end

sublocale length_field \<subseteq>
  cutting_decoder Q content "LengthFieldBasedFrameDecoder_decode Q uninit d" "field_cut d"
    "frame_stream d" "()"
proof unfold_locales
  fix q m rest
  assume g: "frame_stream d (content q)"
  let ?n = "unat (lengthFieldLength d)"
  {
    assume c: "field_cut d (content q) = Some (m, rest)"
    then have n: "?n \<le> length (content q)" by (auto simp: field_cut_def Let_def split: if_splits)
    from g n field_pos have "frame_sane d (content q)" by (rule frame_stream_head)
    from decode_sane [OF front refl n this, of uninit "()"] c
    show "\<exists>k q'. LengthFieldBasedFrameDecoder_decode Q uninit d () q =
        Inr \<lparr>d_result = Some m, d_needed = k, d_state = (), d_queue = q', d_fired = []\<rparr> \<and>
        content q' = rest"
      by (auto simp: field_cut_def Let_def split: if_splits)
  next
    assume c: "field_cut d (content q) = None"
    show "\<exists>k q'. LengthFieldBasedFrameDecoder_decode Q uninit d () q =
        Inr \<lparr>d_result = None, d_needed = k, d_state = (), d_queue = q', d_fired = []\<rparr> \<and>
        content q' = content q"
    proof (cases "?n \<le> length (content q)")
      case True
      from g True field_pos have sane: "frame_sane d (content q)" by (rule frame_stream_head)
      with c True have "length (content q) < frame_total d (content q)"
        by (auto simp: field_cut_def Let_def frame_sane_def split: if_splits)
      with decode_sane [OF front refl True sane, of uninit "()"] show ?thesis by auto
    next
      case False
      then show ?thesis
        using front by (auto simp: LengthFieldBasedFrameDecoder_decode_def front_field_def)
    qed
  }
next
  fix bs m rest extra
  assume c: "field_cut d bs = Some (m, rest)"
  then have n: "unat (lengthFieldLength d) \<le> length bs"
    by (auto simp: field_cut_def Let_def split: if_splits)
  show "field_cut d (bs @ extra) = Some (m, rest @ extra)"
    using c frame_total_prefix [OF n, of extra]
    by (auto simp: field_cut_def Let_def split: if_splits)
  show "length rest < length bs"
    using c field_pos_nat by (auto simp: field_cut_def Let_def split: if_splits)
  assume g: "frame_stream d bs"
  from g n field_pos obtain w ws r where w: "bs @ r = w @ concat ws"
    "\<forall>w \<in> set ws. whole_frame d w" "frame_total d bs = length w"
    by (rule frame_stream_head)
  moreover have "length w \<le> length bs" "rest = drop (length w) bs"
    using c w(3) by (auto simp: field_cut_def Let_def split: if_splits)
  ultimately have "rest @ r = concat ws"
    by (metis append_eq_append_conv_if append_take_drop_id append_eq_conv_conj drop_append_le)
  with w(2) show "frame_stream d rest" by (auto simp: frame_stream_def)
next
  fix bs extra
  show "frame_stream d (bs @ extra) \<Longrightarrow> frame_stream d bs"
    by (auto simp: frame_stream_def)
qed

context length_field
begin

lemma field_cut_whole:
  "whole_frame d w \<Longrightarrow>
   field_cut d (w @ rest) = Some (drop (unat (lengthFieldLength d)) w, rest)"
  by (auto simp: field_cut_def Let_def whole_frame_def frame_sane_def frame_total_prefix)

lemma cut_frames_whole:
  "\<forall>w \<in> set ws. whole_frame d w \<Longrightarrow>
   cut_frames (field_cut d) (concat ws) = (map (drop (unat (lengthFieldLength d))) ws, [])"
proof (induction ws)
  case Nil
  have "field_cut d [] = None" using field_pos_nat by (simp add: field_cut_def Let_def)
  then show ?case by (simp add: cut_frames_None)
next
  case (Cons w ws)
  from Cons.prems have "field_cut d (w @ concat ws) =
      Some (drop (unat (lengthFieldLength d)) w, concat ws)"
    by (intro field_cut_whole) simp
  from cut_frames_Some [OF this] Cons show ?case by simp
qed

lemma stream_of_frames:
  assumes "content q = []" and "\<forall>w \<in> set ws. whole_frame d w" and "concat segs = concat ws"
  shows "\<exists>q'. read_segments Q (LengthFieldBasedFrameDecoder_decode Q uninit d) () q segs =
      Some (map (\<lambda>w. Read (drop (unat (lengthFieldLength d)) w)) ws, Inr ((), q')) \<and>
    content q' = []"
proof -
  have "frame_stream d (content q @ concat segs)"
    using assms by (auto simp: frame_stream_def intro: exI [of _ ws] exI [of _ "[]"])
  moreover have "field_cut d (content q) = None"
    using assms(1) field_pos_nat by (simp add: field_cut_def Let_def)
  ultimately show ?thesis
    using read_segments_cuts [of q segs] cut_frames_whole [OF assms(2)] assms(1,3)
    by (auto simp: comp_def)
qed

end

section \<open>Encoder and decoder together\<close>

text \<open>
  A decoder fits an encoder when it reads the same field, strips it, and takes back what the encoder
  adds to the length (\<open>prepender_extra\<close>).
\<close>

definition prepender_extra :: "LengthFieldPrepender \<Rightarrow> int" where
  "prepender_extra p = sint (p_lengthAdjustment p) +
     (if p_lengthIncludesLengthField p then int (unat (p_lengthFieldLength p)) else 0)"

definition LengthField_paired ::
  "LengthFieldPrepender \<Rightarrow> LengthFieldBasedFrameDecoder \<Rightarrow> bool" where
  "LengthField_paired p d \<longleftrightarrow> front_field d \<and> lengthFieldLength d = p_lengthFieldLength p \<and>
     networkByteOrder d = p_networkByteOrder p \<and>
     sint (lengthAdjustment d) = - prepender_extra p \<and>
     prepender_extra p \<le> int (unat (p_lengthFieldLength p))"

lemma paired_adjustment:
  assumes "LengthField_paired p d"
  shows "int (unat (lengthAdjustment d + lengthFieldLength d)) =
    int (unat (lengthFieldLength d)) - prepender_extra p"
proof -
  obtain n where n: "unat (lengthFieldLength d) = n" by blast
  have width: "n \<le> 8"
    using assms n by (auto simp: LengthField_paired_def front_field_def)
  have adj: "sint (lengthAdjustment d) = - prepender_extra p" and le: "prepender_extra p \<le> int n"
    using assms n unfolding LengthField_paired_def by metis+
  have "lengthAdjustment d + lengthFieldLength d =
      word_of_int (sint (lengthAdjustment d) + int (unat (lengthFieldLength d)))"
    by simp
  then have sum: "lengthAdjustment d + lengthFieldLength d = word_of_int (int n - prepender_extra p)"
    by (simp only: adj n) simp
  have "sint (lengthAdjustment d) < 2 ^ 31"
    using sint_lt [of "lengthAdjustment d"] by simp
  then have "int n - prepender_extra p < 2 ^ 32"
    using width adj by simp
  with le have "unat (lengthAdjustment d + lengthFieldLength d) = nat (int n - prepender_extra p)"
    unfolding sum by (intro unat_of_int32) simp_all
  with le show ?thesis by (simp only: n)
qed

lemma prepender_frame:
  assumes p: "LengthField_paired p d" and w: "LengthFieldPrepender_write p m = Inr [Write w]"
    and size: "length m + unat (p_lengthFieldLength p) < 2 ^ 31"
  shows "\<exists>v. int v = int (length m) + prepender_extra p \<and>
    v < 256 ^ unat (p_lengthFieldLength p) \<and>
    w = field_bytes (p_networkByteOrder p) (unat (p_lengthFieldLength p)) v @ m"
proof -
  let ?x = "int (length m) + prepender_extra p"
  have len: "prepender_length p m = word_of_int ?x"
    unfolding prepender_length_def size_plus_int Let_def prepender_extra_def
    by (simp add: algebra_simps)
  obtain n where n: "unat (p_lengthFieldLength p) = n" by blast
  have "sint (lengthAdjustment d) = - prepender_extra p" and le: "prepender_extra p \<le> int n"
    using p n unfolding LengthField_paired_def by metis+
  with sint_lt [of "lengthAdjustment d"] have "- (2 ^ 31) < prepender_extra p" by simp
  then have range: "- (2 ^ 31) \<le> ?x" "?x < 2 ^ 31"
    using le size n by auto
  then have sx: "sint (prepender_length p m) = ?x" unfolding len by (rule sint_of_int32)
  have x: "0 \<le> ?x"
    using w sx by (auto simp: LengthFieldPrepender_write_def Let_def split: if_splits)
  have "?x < 2 ^ 32" using range(2) by simp
  with x have u32: "unat (prepender_length p m) = nat ?x" unfolding len by (rule unat_of_int32)
  from x range(2) have u64: "unat (scast (prepender_length p m) :: u64) = nat ?x"
    unfolding len by (rule unat_scast_32_64)
  have u8: "?x < 256 \<Longrightarrow> unat (ucast (prepender_length p m) :: 8 word) = nat ?x"
    unfolding len using x by (intro unat_ucast_of_int32) simp_all
  have u16: "?x < 65536 \<Longrightarrow> unat (ucast (prepender_length p m) :: 16 word) = nat ?x"
    unfolding len using x by (intro unat_ucast_of_int32) simp_all
  consider "p_lengthFieldLength p = 1" | "p_lengthFieldLength p = 2" | "p_lengthFieldLength p = 4"
    | "p_lengthFieldLength p = 8"
    using p by (auto simp: LengthField_paired_def front_field_def)
  then have "nat ?x < 256 ^ n \<and> w = field_bytes (p_networkByteOrder p) n (nat ?x) @ m"
    using w sx x range(2) u8 u16 u32 u64 n [symmetric]
    by cases (simp_all add: LengthFieldPrepender_write_def Let_def nat_less_iff split: if_splits)
  with x show ?thesis by (intro exI [of _ "nat ?x"]) (simp add: n)
qed

lemma prepended_whole_frame:
  assumes p: "LengthField_paired p d" and w: "LengthFieldPrepender_write p m = Inr [Write w]"
    and size: "length m + unat (p_lengthFieldLength p) < 2 ^ 31"
      "length m + unat (p_lengthFieldLength p) \<le> unat (maxFrameLength d)"
  shows "whole_frame d w \<and> drop (unat (lengthFieldLength d)) w = m"
proof -
  obtain n where n: "unat (lengthFieldLength d) = n" "unat (p_lengthFieldLength p) = n"
    using p by (auto simp: LengthField_paired_def)
  from prepender_frame [OF p w size(1)] n obtain v where
    v: "int v = int (length m) + prepender_extra p" "v < 256 ^ n"
    and weq: "w = field_bytes (p_networkByteOrder p) n v @ m" by auto
  have "networkByteOrder d = p_networkByteOrder p" using p by (simp add: LengthField_paired_def)
  with v(2) weq n have "frame_total d w = v + unat (lengthAdjustment d + lengthFieldLength d)"
    by (simp add: frame_total_def field_val_bytes)
  with paired_adjustment [OF p] v(1) n have "frame_total d w = n + length m" by linarith
  with size n weq show ?thesis by (auto simp: whole_frame_def frame_sane_def)
qed

text \<open>
  C2. Round trip of the length-field codec: whatever messages a LengthFieldPrepender encodes, and
  however the encoded bytes are cut into segments on the way, a decoder that fits it fires exactly
  those messages, in order, and leaves no byte queued.
\<close>

theorem LengthField_roundtrip:
  assumes "iobuf_queue Q content" and "LengthField_paired p d" and "content q = []"
    and "list_all2 (\<lambda>m w. LengthFieldPrepender_write p m = Inr [Write w]) msgs ws"
    and "\<forall>m \<in> set msgs. length m + unat (p_lengthFieldLength p) \<le> unat (maxFrameLength d) \<and>
      length m + unat (p_lengthFieldLength p) < 2 ^ 31"
    and "concat segs = concat ws"
  shows "\<exists>q'. read_segments Q (LengthFieldBasedFrameDecoder_decode Q uninit d) () q segs =
      Some (map Read msgs, Inr ((), q')) \<and> content q' = []"
proof -
  have lf: "length_field Q content d"
    using assms(1,2) by (simp add: length_field_def length_field_axioms_def LengthField_paired_def)
  have "(\<forall>w \<in> set ws. whole_frame d w) \<and> map (drop (unat (lengthFieldLength d))) ws = msgs"
    using assms(4,5)
    by (induction rule: list_all2_induct) (auto dest: prepended_whole_frame [OF assms(2)])
  then have ws: "\<forall>w \<in> set ws. whole_frame d w"
    and "map Read msgs = map (\<lambda>w. Read (drop (unat (lengthFieldLength d)) w)) ws" by auto
  with length_field.stream_of_frames [OF lf assms(3) ws assms(6)] show ?thesis by simp
qed

definition demo_prepender :: LengthFieldPrepender where
  "demo_prepender = \<lparr>p_lengthFieldLength = 2, p_lengthAdjustment = 0,
     p_lengthIncludesLengthField = True, p_networkByteOrder = True\<rparr>"

definition demo_decoder :: LengthFieldBasedFrameDecoder where
  "demo_decoder = \<lparr>lengthFieldLength = 2, maxFrameLength = 10, lengthFieldOffset = 0,
     lengthAdjustment = -2, initialBytesToStrip = 2, networkByteOrder = True,
     lengthFieldEndOffset = 2\<rparr>"

lemma demo_paired: "LengthField_paired demo_prepender demo_decoder"
  by (simp add: LengthField_paired_def front_field_def prepender_extra_def demo_prepender_def
      demo_decoder_def)

theorem LengthField_roundtrip_witness:
  "\<exists>q'. read_segments chain_queue (LengthFieldBasedFrameDecoder_decode chain_queue 0 demo_decoder)
      () [] [[0], [5, 65, 66], [67, 0, 2, 0], [3, 68]] =
      Some (map Read [[65, 66, 67], [], [68]], Inr ((), q')) \<and> concat q' = []"
proof (rule LengthField_roundtrip [OF chainq.iobuf_queue_axioms demo_paired,
      where ws = "[[0, 5, 65, 66, 67], [0, 2], [0, 3, 68]]"])
  show "list_all2 (\<lambda>m w. LengthFieldPrepender_write demo_prepender m = Inr [Write w])
      [[65, 66, 67], [], [68]] [[0, 5, 65, 66, 67], [0, 2], [0, 3, 68]]"
    by code_simp
qed (simp_all add: demo_prepender_def demo_decoder_def)

section \<open>Every configuration\<close>

context iobuf_queue
begin

lemma decode_Some:
  assumes "LengthFieldBasedFrameDecoder_decode Q uninit d s q = Inr dd" and "d_result dd = Some m"
  obtains fl k where "unat (lengthFieldEndOffset d) \<le> unat (fl :: u64)"
    and "unat fl \<le> unat (maxFrameLength d)" and "unat fl \<le> length (content q)"
    and "unat (initialBytesToStrip d) \<le> unat fl"
    and "k = unat (scast (ucast (fl - ucast (initialBytesToStrip d)) :: 32 word) :: u64)"
    and "unat (initialBytesToStrip d) + k \<le> length (content q)"
    and "m = take k (drop (unat (initialBytesToStrip d)) (content q))"
    and "content (d_queue dd) = drop (unat (initialBytesToStrip d) + k) (content q)"
proof -
  from assms obtain u where
    "getUnadjustedFrameLength Q uninit q (lengthFieldOffset d) (lengthFieldLength d)
       (networkByteOrder d) = Inr u"
    by (auto simp: LengthFieldBasedFrameDecoder_decode_def split: if_splits sum.splits)
  then obtain fl where fl: "fl = u + ucast (lengthAdjustment d + lengthFieldEndOffset d)"
    and u: "getUnadjustedFrameLength Q uninit q (lengthFieldOffset d) (lengthFieldLength d)
       (networkByteOrder d) = Inr u" by blast
  let ?st = "unat (initialBytesToStrip d)"
  let ?k = "unat (scast (ucast (fl - ucast (initialBytesToStrip d)) :: 32 word) :: u64)"
  have guards: "\<not> fl < ucast (lengthFieldEndOffset d)" "\<not> ucast (maxFrameLength d) < fl"
    "\<not> length (content q) < unat fl" "\<not> fl < ucast (initialBytesToStrip d)"
    using assms u unfolding fl
    by (auto simp: LengthFieldBasedFrameDecoder_decode_def Let_def split: if_splits option.splits)
  then have len: "?st \<le> length (content q)" by (simp add: word_less_nat_alt)
  from trimStart_ok [OF this] obtain q1 where
    q1: "qTrimStart Q q ?st = Some q1" "content q1 = drop ?st (content q)" by blast
  have "?k \<le> length (content q1)"
  proof (rule ccontr)
    assume "\<not> ?k \<le> length (content q1)"
    then have "qSplit Q q1 ?k = None" by (intro split_underflow) simp
    with assms u q1 guards show False
      by (auto simp: LengthFieldBasedFrameDecoder_decode_def Let_def fl split: if_splits)
  qed
  then obtain q2 where q2: "qSplit Q q1 ?k = Some (take ?k (content q1), q2)"
    "content q2 = drop ?k (content q1)" using split_ok by blast
  have "m = take ?k (content q1)" "d_queue dd = q2"
    using assms u q1 q2 guards
    by (auto simp: LengthFieldBasedFrameDecoder_decode_def Let_def fl split: if_splits)
  with guards q1 q2 len \<open>?k \<le> length (content q1)\<close> show ?thesis
    by (intro that [of fl ?k]) (auto simp: word_less_nat_alt not_less add.commute)
qed

lemma decode_progress:
  assumes "LengthFieldBasedFrameDecoder_decode Q uninit d s q = Inr dd" and "d_result dd = Some m"
    and "lengthFieldEndOffset d \<noteq> 0"
  shows "length (content (d_queue dd)) < length (content q)"
  using assms(1,2)
proof (rule decode_Some)
  fix fl :: u64 and k
  let ?st = "initialBytesToStrip d"
  assume fl: "unat (lengthFieldEndOffset d) \<le> unat fl" "unat fl \<le> unat (maxFrameLength d)"
      "unat fl \<le> length (content q)"
    and k: "k = unat (scast (ucast (fl - ucast ?st) :: 32 word) :: u64)"
    and rest: "content (d_queue dd) = drop (unat ?st + k) (content q)"
  have "0 < unat (lengthFieldEndOffset d)" using assms(3) by (simp add: unat_gt_0)
  with fl(1) have pos: "0 < unat fl" by linarith
  have small: "unat fl < 2 ^ 32" using fl(2) unat_less_32 [of "maxFrameLength d"] by linarith
  have "0 < unat ?st + k"
  proof (cases "?st = 0")
    case True
    have "fl = of_nat (unat fl)" by simp
    with True pos small k show ?thesis
      using unat_int_of_size [of "unat fl"] unat_int_of_size_big [of "unat fl"]
      by (cases "unat fl < 2 ^ 31") auto
  next
    case False
    then show ?thesis by (simp add: unat_gt_0)
  qed
  with rest pos fl(3) show ?thesis by (simp only: length_drop)
qed

end

locale length_field_any = iobuf_queue Q content
  for Q :: "'q iobuf_queue_ops" and content :: "'q \<Rightarrow> byte list" +
  fixes d :: LengthFieldBasedFrameDecoder and uninit :: u64
  assumes end_pos: "lengthFieldEndOffset d \<noteq> 0"

sublocale length_field_any \<subseteq>
  progressing_decoder Q content "LengthFieldBasedFrameDecoder_decode Q uninit d"
  by unfold_locales (rule decode_progress [OF _ _ end_pos])

context length_field_any
begin

lemmas any_read_returns = read_returns

end

interpretation chain_field: length_field chain_queue concat demo_decoder 0
  by unfold_locales (simp add: front_field_def demo_decoder_def)

interpretation chain_field_any: length_field_any chain_queue concat demo_decoder 0
  by unfold_locales (simp add: demo_decoder_def)

text \<open>
  C26. The read loop of a LengthFieldBasedFrameDecoder returns on every content of the queue, for
  every configuration whose header is not empty.
\<close>

theorem LengthField_read_returns:
  assumes "iobuf_queue Q content" and "lengthFieldEndOffset d \<noteq> 0"
  shows "\<exists>r. ByteToMessageDecoder_read (LengthFieldBasedFrameDecoder_decode Q uninit d) s q = Some r"
proof -
  have "length_field_any Q content d"
    using assms by (simp add: length_field_any_def length_field_any_axioms_def)
  then show ?thesis by (rule length_field_any.any_read_returns)
qed

theorem LengthField_read_returns_witness:
  "\<exists>r. ByteToMessageDecoder_read
     (LengthFieldBasedFrameDecoder_decode chain_queue 0 demo_decoder) () [[0, 9], [1]] = Some r"
  by (rule LengthField_read_returns [OF chainq.iobuf_queue_axioms]) (simp add: demo_decoder_def)

text \<open>
  C27. A frame the decoder yields is a stretch of the queue that starts after the stripped bytes; with
  them it is no longer than maxFrameLength, and the queue loses exactly the two.
\<close>

theorem LengthField_frame_bound:
  assumes "iobuf_queue Q content" and "length (content q) < 2 ^ 63"
    and "LengthFieldBasedFrameDecoder_decode Q uninit d s q = Inr dd" and "d_result dd = Some m"
  shows "unat (initialBytesToStrip d) + length m \<le> unat (maxFrameLength d) \<and>
    unat (lengthFieldEndOffset d) \<le> unat (initialBytesToStrip d) + length m \<and>
    m = take (length m) (drop (unat (initialBytesToStrip d)) (content q)) \<and>
    content (d_queue dd) = drop (unat (initialBytesToStrip d) + length m) (content q)"
  using assms(3,4)
proof (rule iobuf_queue.decode_Some [OF assms(1)])
  fix fl :: u64 and k
  let ?st = "initialBytesToStrip d"
  assume fl: "unat (lengthFieldEndOffset d) \<le> unat fl" "unat fl \<le> unat (maxFrameLength d)"
      "unat ?st \<le> unat fl"
    and k: "k = unat (scast (ucast (fl - ucast ?st) :: 32 word) :: u64)"
      "unat ?st + k \<le> length (content q)"
    and m: "m = take k (drop (unat ?st) (content q))"
    and rest: "content (d_queue dd) = drop (unat ?st + k) (content q)"
  have diff: "fl - ucast ?st = of_nat (unat fl - unat ?st)"
    using fl(3) by (simp add: of_nat_diff)
  have small: "unat fl - unat ?st < 2 ^ 32"
    using fl(2) unat_less_32 [of "maxFrameLength d"] by linarith
  have "k = unat fl - unat ?st"
  proof (cases "unat fl - unat ?st < 2 ^ 31")
    case True
    then show ?thesis unfolding k(1) diff by (rule unat_int_of_size)
  next
    case False
    with small have "2 ^ 63 \<le> k" unfolding k(1) diff by (intro unat_int_of_size_big) simp_all
    with k(2) assms(2) show ?thesis by simp
  qed
  with fl m rest k(2) show ?thesis by auto
qed

theorem LengthField_frame_bound_witness:
  "\<exists>dd. LengthFieldBasedFrameDecoder_decode chain_queue 0 demo_decoder () [[0, 5, 65], [66, 67, 0]] =
      Inr dd \<and> d_result dd = Some [65, 66, 67] \<and>
    unat (initialBytesToStrip demo_decoder) + length [65 :: byte, 66, 67] \<le>
      unat (maxFrameLength demo_decoder) \<and>
    unat (lengthFieldEndOffset demo_decoder) \<le>
      unat (initialBytesToStrip demo_decoder) + length [65 :: byte, 66, 67] \<and>
    concat (d_queue dd) = [0]"
proof -
  let ?q = "[[0, 5, 65], [66, 67, 0 :: byte]]"
  let ?dd = "\<lparr>d_result = Some [65, 66, 67 :: byte], d_needed = 0, d_state = (), d_queue = [[0]],
    d_fired = []\<rparr>"
  have run: "LengthFieldBasedFrameDecoder_decode chain_queue 0 demo_decoder () ?q = Inr ?dd"
    by code_simp
  have "length (concat ?q) < 2 ^ 63" and "d_result ?dd = Some [65, 66, 67]" by simp_all
  from LengthField_frame_bound [OF chainq.iobuf_queue_axioms this(1) run this(2)] run
  show ?thesis by (intro exI [of _ ?dd]) fastforce
qed

definition three_byte_decoder :: LengthFieldBasedFrameDecoder where
  "three_byte_decoder = \<lparr>lengthFieldLength = 3, maxFrameLength = 4294967295, lengthFieldOffset = 2,
     lengthAdjustment = 0, initialBytesToStrip = 0, networkByteOrder = True,
     lengthFieldEndOffset = 5\<rparr>"

definition three_byte_message :: "byte list" where
  "three_byte_message = [0xCA, 0xFE, 0, 0, 0xC, 72, 69, 76, 76, 79, 44, 32, 87, 79, 82, 76, 68]"

text \<open>
  The documentation of the class shows a three byte length field (header, lines 98 to 114); the
  switch does not read that width, so what decode makes of the documented message is decided by an
  uninitialised variable: if it happens to hold 0, a frame of 5 bytes comes out instead of the
  documented 17.
\<close>

theorem LengthField_three_bytes_diverges:
  "LengthFieldBasedFrameDecoder_new 3 4294967295 2 0 0 True = Inr three_byte_decoder \<and>
   map_sum id d_result (LengthFieldBasedFrameDecoder_decode chain_queue 12 three_byte_decoder ()
     [three_byte_message]) = Inr (Some three_byte_message) \<and>
   map_sum id d_result (LengthFieldBasedFrameDecoder_decode chain_queue 0 three_byte_decoder ()
     [three_byte_message]) = Inr (Some (take 5 three_byte_message))"
  by code_simp

end
