(* ===== verification/Codec_LineBased.thy ===== *)
theory Codec_LineBased
  imports Codec_Decoder
begin

text \<open>
  \<open>codec/LineBasedFrameDecoder.{h,cpp}\<close>: frames that end with a newline, a carriage return and
  newline, or either.
\<close>

datatype TerminatorType = TERM_BOTH | NEWLINE | CARRIAGENEWLINE

record LineBasedFrameDecoder =
  maxLength :: u32
  stripDelimiter :: bool
  terminatorType :: TerminatorType

record line_state =
  discarding :: bool
  discardedBytes :: u32

definition line_init :: line_state where
  "line_init = \<lparr>discarding = False, discardedBytes = 0\<rparr>"

abbreviation LF :: byte where "LF \<equiv> 10"
abbreviation CR :: byte where "CR \<equiv> 13"

text \<open>
  The loop of \<open>findEndOfLine\<close>: \<open>i\<close> is the loop's counter and \<open>pos\<close> the offset of the cursor. Each
  round reads one byte, and a second one after a carriage return, also when that byte is not the
  newline looked for. The answer is \<open>Inr None\<close> for -1.
\<close>

function findEndOfLine_loop ::
  "'q iobuf_queue_ops \<Rightarrow> LineBasedFrameDecoder \<Rightarrow> 'q \<Rightarrow> nat \<Rightarrow> nat \<Rightarrow> cpp_exn + nat option" where
  "findEndOfLine_loop Q d q i pos =
     (if i < unat (maxLength d) \<and> i < qChainLength Q q then
        (case qPeek Q q pos of
           None \<Rightarrow> Inl OutOfRange
         | Some b \<Rightarrow>
             if b = LF \<and> terminatorType d \<noteq> CARRIAGENEWLINE then Inr (Some i)
             else if terminatorType d \<noteq> NEWLINE \<and> b = CR then
               (case qPeek Q q (Suc pos) of
                  None \<Rightarrow> findEndOfLine_loop Q d q (Suc i) (Suc pos)
                | Some c \<Rightarrow>
                    if c = LF then Inr (Some i)
                    else findEndOfLine_loop Q d q (Suc i) (Suc (Suc pos)))
             else findEndOfLine_loop Q d q (Suc i) (Suc pos))
      else Inr None)"
  by pat_completeness auto
termination
  by (relation "measure (\<lambda>(Q, d, q, i, pos). unat (maxLength d) - i)") auto

declare findEndOfLine_loop.simps [simp del]

definition findEndOfLine ::
  "'q iobuf_queue_ops \<Rightarrow> LineBasedFrameDecoder \<Rightarrow> 'q \<Rightarrow> cpp_exn + nat option" where
  "findEndOfLine Q d q = findEndOfLine_loop Q d q 0 0"

definition line_fail :: "LineBasedFrameDecoder \<Rightarrow> string \<Rightarrow> byte list in_event" where
  "line_fail d len = ReadException (RuntimeError
     (''frame length'' @ len @ '' exeeds max '' @ nat_str (unat (maxLength d))))"

text \<open>
  \<open>line_delim\<close> is the length of the delimiter at \<open>eol\<close>, read through a cursor; the source writes it
  out in both arms of \<open>decode\<close>.
\<close>

definition line_delim :: "'q iobuf_queue_ops \<Rightarrow> 'q \<Rightarrow> nat \<Rightarrow> nat option" where
  "line_delim Q q eol = map_option (\<lambda>b. if b = CR then 2 else 1) (qPeek Q q eol)"

definition LineBasedFrameDecoder_decode ::
  "'q iobuf_queue_ops \<Rightarrow> LineBasedFrameDecoder \<Rightarrow> (byte list, line_state, 'q) decode_fun" where
  "LineBasedFrameDecoder_decode Q d s q =
     (case findEndOfLine Q d q of
        Inl e \<Rightarrow> Inl e
      | Inr found \<Rightarrow>
          if \<not> discarding s then
            (case found of
               Some eol \<Rightarrow>
                 (case line_delim Q q eol of
                    None \<Rightarrow> Inl OutOfRange
                  | Some delimLength \<Rightarrow>
                      if eol > unat (maxLength d) then
                        (case qSplit Q q (eol + delimLength) of
                           None \<Rightarrow> Inl UnderflowError
                         | Some (_, q') \<Rightarrow>
                             Inr \<lparr>d_result = None, d_needed = 0, d_state = s, d_queue = q',
                                  d_fired = [line_fail d (nat_str eol)]\<rparr>)
                      else if stripDelimiter d then
                        (case qSplit Q q eol of
                           None \<Rightarrow> Inl UnderflowError
                         | Some (frame, q') \<Rightarrow>
                             (case qTrimStart Q q' delimLength of
                                None \<Rightarrow> Inl UnderflowError
                              | Some q'' \<Rightarrow>
                                  Inr \<lparr>d_result = Some frame, d_needed = 0, d_state = s,
                                       d_queue = q'', d_fired = []\<rparr>))
                      else
                        (case qSplit Q q (eol + delimLength) of
                           None \<Rightarrow> Inl UnderflowError
                         | Some (frame, q') \<Rightarrow>
                             Inr \<lparr>d_result = Some frame, d_needed = 0, d_state = s,
                                  d_queue = q', d_fired = []\<rparr>))
             | None \<Rightarrow>
                 (let len = qChainLength Q q in
                  if len > unat (maxLength d) then
                    (case qTrimStart Q q len of
                       None \<Rightarrow> Inl UnderflowError
                     | Some q' \<Rightarrow>
                         Inr \<lparr>d_result = None, d_needed = 0,
                              d_state = s\<lparr>discardedBytes := of_nat len, discarding := True\<rparr>,
                              d_queue = q', d_fired = [line_fail d (''over '' @ nat_str len)]\<rparr>)
                  else
                    Inr \<lparr>d_result = None, d_needed = 0, d_state = s, d_queue = q, d_fired = []\<rparr>))
          else
            (case found of
               Some eol \<Rightarrow>
                 (case line_delim Q q eol of
                    None \<Rightarrow> Inl OutOfRange
                  | Some delimLength \<Rightarrow>
                      (case qTrimStart Q q (eol + delimLength) of
                         None \<Rightarrow> Inl UnderflowError
                       | Some q' \<Rightarrow>
                           Inr \<lparr>d_result = None, d_needed = 0,
                                d_state = s\<lparr>discardedBytes := 0, discarding := False\<rparr>,
                                d_queue = q', d_fired = []\<rparr>))
             | None \<Rightarrow>
                 Inr \<lparr>d_result = None, d_needed = 0,
                      d_state = s\<lparr>discardedBytes := of_nat (qChainLength Q q)\<rparr>,
                      d_queue = snd (qMove Q q), d_fired = []\<rparr>))"

section \<open>Reference: the first end of line\<close>

fun first_eol :: "TerminatorType \<Rightarrow> byte list \<Rightarrow> nat option" where
  "first_eol t [] = None"
| "first_eol t (b # bs) =
     (if b = LF \<and> t \<noteq> CARRIAGENEWLINE then Some 0
      else if t \<noteq> NEWLINE \<and> b = CR \<and> bs \<noteq> [] \<and> hd bs = LF then Some 0
      else map_option Suc (first_eol t bs))"

text \<open>
  A carriage return that neither ends the data nor stands before a newline puts the loop's counter
  and its cursor out of step. \<open>no_lone_cr\<close> excludes it, for the decoders that look for carriage
  returns at all.
\<close>

fun no_lone_cr :: "TerminatorType \<Rightarrow> byte list \<Rightarrow> bool" where
  "no_lone_cr t [] = True"
| "no_lone_cr t (b # bs) =
     ((t = NEWLINE \<or> b \<noteq> CR \<or> bs = [] \<or> hd bs = LF) \<and> no_lone_cr t bs)"

lemma no_lone_cr_prefix: "no_lone_cr t (bs @ extra) \<Longrightarrow> no_lone_cr t bs"
  by (induction bs) (auto simp: hd_append split: if_splits)

lemma first_eol_less: "first_eol t bs = Some i \<Longrightarrow> i < length bs"
  by (induction bs arbitrary: i) (auto split: if_splits)

context iobuf_queue
begin

lemma findEndOfLine_loop_eq:
  "i \<le> length (content q) \<Longrightarrow> no_lone_cr (terminatorType d) (drop i (content q)) \<Longrightarrow>
   findEndOfLine_loop Q d q i i =
     Inr (case first_eol (terminatorType d) (drop i (content q)) of
            None \<Rightarrow> None
          | Some k \<Rightarrow> if i + k < unat (maxLength d) then Some (i + k) else None)"
proof (induction "length (content q) - i" arbitrary: i)
  case 0
  then show ?case by (subst findEndOfLine_loop.simps) simp
next
  case (Suc n)
  let ?t = "terminatorType d" and ?bs = "content q"
  have i: "i < length ?bs" using Suc.hyps(2) by simp
  then have dr: "drop i ?bs = ?bs ! i # drop (Suc i) ?bs" by (rule Cons_nth_drop_Suc [symmetric])
  have IH: "findEndOfLine_loop Q d q (Suc i) (Suc i) =
     Inr (case first_eol ?t (drop (Suc i) ?bs) of
            None \<Rightarrow> None
          | Some k \<Rightarrow> if Suc i + k < unat (maxLength d) then Some (Suc i + k) else None)"
    using Suc i dr by (intro Suc.hyps(1)) auto
  show ?case
  proof (cases "i < unat (maxLength d)")
    case False
    then show ?thesis by (subst findEndOfLine_loop.simps) (auto split: option.splits)
  next
    case True
    show ?thesis
    proof (cases "?t \<noteq> NEWLINE \<and> ?bs ! i = CR \<and> Suc i < length ?bs")
      case cr: True
      with Suc.prems(2) have "?bs ! Suc i = LF" by (auto simp: dr hd_drop_conv_nth)
      moreover have "drop (Suc i) ?bs \<noteq> []" "hd (drop (Suc i) ?bs) = ?bs ! Suc i"
        using cr by (simp_all add: hd_drop_conv_nth)
      ultimately show ?thesis using True i cr dr
        by (subst findEndOfLine_loop.simps) simp
    next
      case cr: False
      have "first_eol ?t (drop i ?bs) = (if ?bs ! i = LF \<and> ?t \<noteq> CARRIAGENEWLINE then Some 0
          else map_option Suc (first_eol ?t (drop (Suc i) ?bs)))"
        using cr by (auto simp: dr)
      with True i cr IH show ?thesis
        by (subst findEndOfLine_loop.simps) (auto split: option.splits)
    qed
  qed
qed

lemma findEndOfLine_eq:
  "no_lone_cr (terminatorType d) (content q) \<Longrightarrow>
   findEndOfLine Q d q =
     Inr (case first_eol (terminatorType d) (content q) of
            None \<Rightarrow> None
          | Some k \<Rightarrow> if k < unat (maxLength d) then Some k else None)"
  using findEndOfLine_loop_eq [of 0 q d] by (auto simp: findEndOfLine_def split: option.splits)

end

lemma findEndOfLine_loop_bound:
  "findEndOfLine_loop Q d q i pos = Inr (Some k) \<Longrightarrow> k < unat (maxLength d) \<and> k < qChainLength Q q"
proof (induction Q d q i pos rule: findEndOfLine_loop.induct)
  case (1 Q d q i pos)
  from "1.prems" show ?case
    by (subst (asm) findEndOfLine_loop.simps) (use "1.IH" in \<open>simp split: if_splits option.splits\<close>)
qed

section \<open>Decoding a stream of lines\<close>

text \<open>
  A line is its text and its terminator; the text holds no byte that could end it.
\<close>

definition line_delims :: "TerminatorType \<Rightarrow> byte list set" where
  "line_delims t = (case t of TERM_BOTH \<Rightarrow> {[LF], [CR, LF]} | NEWLINE \<Rightarrow> {[LF]}
     | CARRIAGENEWLINE \<Rightarrow> {[CR, LF]})"

definition line_ok :: "LineBasedFrameDecoder \<Rightarrow> byte list \<times> byte list \<Rightarrow> bool" where
  "line_ok d = (\<lambda>(tx, delim). delim \<in> line_delims (terminatorType d) \<and>
     (LF \<in> set tx \<longrightarrow> terminatorType d = CARRIAGENEWLINE) \<and>
     (CR \<in> set tx \<longrightarrow> terminatorType d = NEWLINE) \<and>
     length tx < unat (maxLength d))"

definition line_bytes :: "byte list \<times> byte list \<Rightarrow> byte list" where
  "line_bytes = (\<lambda>(tx, delim). tx @ delim)"

definition line_frame :: "LineBasedFrameDecoder \<Rightarrow> byte list \<times> byte list \<Rightarrow> byte list" where
  "line_frame d = (\<lambda>(tx, delim). if stripDelimiter d then tx else tx @ delim)"

definition line_stream :: "LineBasedFrameDecoder \<Rightarrow> byte list \<Rightarrow> bool" where
  "line_stream d bs \<longleftrightarrow> (\<exists>ls rest. bs @ rest = concat (map line_bytes ls) \<and> (\<forall>l \<in> set ls. line_ok d l))"

definition line_cut :: "LineBasedFrameDecoder \<Rightarrow> byte list cutter" where
  "line_cut d bs =
     (case first_eol (terminatorType d) bs of
        None \<Rightarrow> None
      | Some i \<Rightarrow>
          (let n = (if bs ! i = CR then 2 else 1) in
           Some (if stripDelimiter d then take i bs else take (i + n) bs, drop (i + n) bs)))"

lemma first_eol_append: "first_eol t bs = Some i \<Longrightarrow> first_eol t (bs @ extra) = Some i"
  by (induction bs arbitrary: i) (auto simp: hd_append split: if_splits)

lemma first_eol_at:
  "first_eol t bs = Some i \<Longrightarrow> bs ! i = LF \<or> bs ! i = CR \<and> Suc i < length bs"
proof (induction bs arbitrary: i)
  case Nil
  then show ?case by simp
next
  case (Cons b bs)
  then show ?case by (auto split: if_splits)
qed

lemma first_eol_line:
  assumes "line_ok d (tx, delim)"
  shows "first_eol (terminatorType d) (tx @ delim @ rest) = Some (length tx)"
proof -
  have "delim \<in> line_delims t \<Longrightarrow> LF \<in> set tx \<longrightarrow> t = CARRIAGENEWLINE \<Longrightarrow>
      CR \<in> set tx \<longrightarrow> t = NEWLINE \<Longrightarrow>
      first_eol t (tx @ delim @ rest) = Some (length tx)" for t
    by (induction tx) (auto simp: line_delims_def split: TerminatorType.splits)
  with assms show ?thesis by (simp add: line_ok_def)
qed

lemma line_cut_line:
  assumes "line_ok d l"
  shows "line_cut d (line_bytes l @ rest) = Some (line_frame d l, rest)"
proof -
  obtain tx delim where l: "l = (tx, delim)" by (cases l)
  with assms have ok: "line_ok d (tx, delim)" by simp
  have "delim = [LF] \<or> delim = [CR, LF]"
    using ok by (auto simp: line_ok_def line_delims_def split: TerminatorType.splits)
  with first_eol_line [OF ok, of rest] show ?thesis
    by (auto simp: line_cut_def l line_bytes_def line_frame_def nth_append)
qed

text \<open>What is buffered of a stream of such lines keeps the loop in step and is never too long.\<close>

lemma line_no_lone_cr:
  assumes "line_ok d l" and "no_lone_cr (terminatorType d) rest"
  shows "no_lone_cr (terminatorType d) (line_bytes l @ rest)"
proof -
  obtain tx delim where l: "l = (tx, delim)" by (cases l)
  have "no_lone_cr t (delim @ rest)" if "delim \<in> line_delims t" "no_lone_cr t rest" for t
    using that by (auto simp: line_delims_def split: TerminatorType.splits)
  moreover have "no_lone_cr t (tx @ bs)" if "CR \<in> set tx \<longrightarrow> t = NEWLINE" "no_lone_cr t bs" for t bs
    using that by (induction tx) auto
  ultimately show ?thesis
    using assms by (simp add: l line_ok_def line_bytes_def)
qed

lemma line_stream_prefix: "line_stream d (bs @ extra) \<Longrightarrow> line_stream d bs"
  unfolding line_stream_def by (metis append.assoc)

lemma line_stream_no_lone_cr:
  assumes "line_stream d bs"
  shows "no_lone_cr (terminatorType d) bs"
proof -
  from assms obtain ls rest where eq: "bs @ rest = concat (map line_bytes ls)"
    and ok: "\<forall>l \<in> set ls. line_ok d l" by (auto simp: line_stream_def)
  from ok have "no_lone_cr (terminatorType d) (concat (map line_bytes ls))"
    by (induction ls) (auto intro: line_no_lone_cr)
  with eq show ?thesis by (metis no_lone_cr_prefix)
qed

lemma line_stream_cases:
  assumes "line_stream d bs"
  obtains (empty) "bs = []"
    | (line) l rest where "line_ok d l" "bs = line_bytes l @ rest" "line_stream d rest"
    | (part) l ext where "line_ok d l" "ext \<noteq> []" "bs @ ext = line_bytes l"
proof -
  from assms obtain ls rest where eq: "bs @ rest = concat (map line_bytes ls)"
    and ok: "\<forall>l \<in> set ls. line_ok d l" by (auto simp: line_stream_def)
  show ?thesis
  proof (cases ls)
    case Nil
    with eq show ?thesis using empty by simp
  next
    case (Cons l ls')
    with eq have "bs @ rest = line_bytes l @ concat (map line_bytes ls')" by simp
    then obtain us where "bs = line_bytes l @ us \<and> us @ rest = concat (map line_bytes ls') \<or>
        bs @ us = line_bytes l \<and> rest = us @ concat (map line_bytes ls')"
      by (auto simp: append_eq_append_conv2)
    then consider us where "bs = line_bytes l @ us" "us @ rest = concat (map line_bytes ls')"
      | us where "us \<noteq> []" "bs @ us = line_bytes l"
      by (cases "us = []") auto
    then show ?thesis
    proof cases
      case 1
      then have "line_stream d us" using ok Cons by (auto simp: line_stream_def)
      with 1 show ?thesis using line [of l us] ok Cons by simp
    next
      case 2
      then show ?thesis using part [of l us] ok Cons by simp
    qed
  qed
qed

lemma line_cut_part:
  assumes "line_ok d l" "ext \<noteq> []" "bs @ ext = line_bytes l"
  shows "line_cut d bs = None" and "length bs \<le> unat (maxLength d)"
proof -
  obtain tx delim where l: "l = (tx, delim)" by (cases l)
  have eq: "bs @ ext = tx @ delim" and ok: "line_ok d (tx, delim)"
    using assms by (auto simp: l line_bytes_def)
  have delim: "delim = [LF] \<or> delim = [CR, LF]"
    using ok by (auto simp: line_ok_def line_delims_def split: TerminatorType.splits)
  have len: "length bs + length ext = length tx + length delim"
    using arg_cong [OF eq, of length] by simp
  have "length ext > 0" using assms(2) by simp
  moreover have "length delim \<le> 2" using delim by auto
  ultimately have short: "length bs < length tx + length delim"
    "length bs \<le> Suc (length tx)" using len by linarith+
  then show "length bs \<le> unat (maxLength d)" using ok by (simp add: line_ok_def)
  show "line_cut d bs = None"
  proof (cases "first_eol (terminatorType d) bs")
    case (Some i)
    then have "first_eol (terminatorType d) (tx @ delim) = Some i"
      using first_eol_append eq by metis
    with first_eol_line [OF ok, of "[]"] have i: "i = length tx" by simp
    have "bs ! i = (bs @ ext) ! i" using first_eol_less [OF Some] by (simp add: nth_append)
    then have "bs ! i = hd delim" using delim by (auto simp: eq i)
    with first_eol_at [OF Some] first_eol_less [OF Some] short delim i show ?thesis by auto
  qed (simp add: line_cut_def)
qed

section \<open>The decoder follows the cutter\<close>

locale line_based = iobuf_queue Q content
  for Q :: "'q iobuf_queue_ops" and content :: "'q \<Rightarrow> byte list" +
  fixes d :: LineBasedFrameDecoder

context line_based
begin

lemma decode_at_eol:
  assumes "findEndOfLine Q d q = Inr (Some i)" "i < length (content q)" "\<not> discarding s"
    "i < unat (maxLength d)" "i + (if content q ! i = CR then 2 else 1) \<le> length (content q)"
  shows "\<exists>q'. LineBasedFrameDecoder_decode Q d s q =
      Inr \<lparr>d_result = Some (if stripDelimiter d then take i (content q)
             else take (i + (if content q ! i = CR then 2 else 1)) (content q)),
           d_needed = 0, d_state = s, d_queue = q', d_fired = []\<rparr> \<and>
    content q' = drop (i + (if content q ! i = CR then 2 else 1)) (content q)"
proof -
  let ?bs = "content q"
  let ?n = "if ?bs ! i = CR then 2 else 1 :: nat"
  obtain q1 where q1: "qSplit Q q i = Some (take i ?bs, q1)" "content q1 = drop i ?bs"
    using split_ok [of i q] assms(2) by auto
  have "?n \<le> length (content q1)" unfolding q1(2) length_drop using assms(5) by linarith
  then obtain q2 where q2: "qTrimStart Q q1 ?n = Some q2" "content q2 = drop (i + ?n) ?bs"
    using trimStart_ok [of ?n q1] q1(2) by (auto simp: add.commute)
  obtain q3 where q3: "qSplit Q q (i + ?n) = Some (take (i + ?n) ?bs, q3)"
      "content q3 = drop (i + ?n) ?bs"
    using split_ok [of "i + ?n" q] assms(5) by blast
  have delim: "line_delim Q q i = Some ?n" using assms(2) by (simp add: line_delim_def)
  have "\<not> unat (maxLength d) < i" using assms(4) by simp
  then show ?thesis
    unfolding LineBasedFrameDecoder_decode_def
    using assms(1,3) delim q1 q2 q3 by (cases "stripDelimiter d") (simp_all del: One_nat_def)
qed

lemma decode_progress:
  assumes "LineBasedFrameDecoder_decode Q d s q = Inr r" and "d_result r = Some m"
  shows "length (content (d_queue r)) < length (content q)"
proof -
  have split: "qSplit Q q n = Some (f, q') \<Longrightarrow> n \<le> length (content q) \<and> content q' = drop n (content q)"
    for q n f q' using split_ok [of n q] split_underflow [of q n] by (cases "n \<le> length (content q)") auto
  have trim: "qTrimStart Q q n = Some q' \<Longrightarrow> n \<le> length (content q) \<and> content q' = drop n (content q)"
    for q n q' using trimStart_ok [of n q] trimStart_underflow [of q n]
    by (cases "n \<le> length (content q)") auto
  have delim: "line_delim Q q i = Some n \<Longrightarrow> n > 0" for i n
    by (auto simp: line_delim_def split: if_splits)
  from assms show ?thesis
    by (auto simp: LineBasedFrameDecoder_decode_def Let_def
        split: sum.splits option.splits if_splits dest!: split trim delim)
qed

lemma decode_line:
  assumes "line_stream d (content q)" and "line_cut d (content q) = Some (m, rest)"
  shows "\<exists>q'. LineBasedFrameDecoder_decode Q d line_init q =
      Inr \<lparr>d_result = Some m, d_needed = 0, d_state = line_init, d_queue = q', d_fired = []\<rparr> \<and>
    content q' = rest"
  using assms(1)
proof (cases rule: line_stream_cases)
  case (line l rest')
  obtain tx delim where l: "l = (tx, delim)" by (cases l)
  have ok: "line_ok d (tx, delim)" and bs: "content q = tx @ delim @ rest'"
    using line by (auto simp: l line_bytes_def)
  have "delim = [LF] \<or> delim = [CR, LF]"
    using ok by (auto simp: line_ok_def line_delims_def split: TerminatorType.splits)
  then have len: "length tx + (if content q ! length tx = CR then 2 else 1) \<le> length (content q)"
    "length tx < length (content q)" by (auto simp: bs)
  have max: "length tx < unat (maxLength d)" using ok by (simp add: line_ok_def)
  have eol: "first_eol (terminatorType d) (content q) = Some (length tx)"
    unfolding bs by (rule first_eol_line [OF ok])
  have "findEndOfLine Q d q = Inr (Some (length tx))"
    using findEndOfLine_eq [OF line_stream_no_lone_cr [OF assms(1)]] eol max by simp
  from decode_at_eol [OF this len(2) _ max len(1), of line_init] eol assms(2) show ?thesis
    by (auto simp: line_cut_def line_init_def)
next
  case empty
  with assms(2) show ?thesis by (simp add: line_cut_def)
next
  case (part l ext)
  with assms(2) line_cut_part [OF part] show ?thesis by simp
qed

lemma decode_part:
  assumes "line_stream d (content q)" and "line_cut d (content q) = None"
  shows "LineBasedFrameDecoder_decode Q d line_init q =
      Inr \<lparr>d_result = None, d_needed = 0, d_state = line_init, d_queue = q, d_fired = []\<rparr>"
proof -
  have "length (content q) \<le> unat (maxLength d)"
    using assms(1)
  proof (cases rule: line_stream_cases)
    case (line l rest)
    with assms(2) show ?thesis by (simp add: line_cut_line)
  next
    case (part l ext)
    then show ?thesis by (rule line_cut_part)
  qed simp
  moreover have "first_eol (terminatorType d) (content q) = None"
    using assms(2) by (simp add: line_cut_def Let_def split: option.splits)
  ultimately show ?thesis
    using findEndOfLine_eq [OF line_stream_no_lone_cr [OF assms(1)]]
    by (simp add: LineBasedFrameDecoder_decode_def line_init_def)
qed

end

lemma line_cut_append:
  assumes "line_cut d bs = Some (m, rest)"
  shows "line_cut d (bs @ extra) = Some (m, rest @ extra)"
proof -
  from assms obtain i where i: "first_eol (terminatorType d) bs = Some i"
    by (auto simp: line_cut_def split: option.splits)
  note facts = first_eol_append [OF i, of extra] first_eol_less [OF i] first_eol_at [OF i]
  from assms i facts show ?thesis by (auto simp: line_cut_def nth_append split: if_splits)
qed

lemma line_cut_shorter: "line_cut d bs = Some (m, rest) \<Longrightarrow> length rest < length bs"
  by (auto simp: line_cut_def Let_def split: option.splits dest!: first_eol_less)

lemma line_stream_rest:
  assumes "line_stream d bs" and "line_cut d bs = Some (m, rest)"
  shows "line_stream d rest"
  using assms(1)
proof (cases rule: line_stream_cases)
  case (line l rest')
  with assms(2) show ?thesis by (simp add: line_cut_line)
next
  case (part l ext)
  with assms(2) line_cut_part [OF part] show ?thesis by simp
next
  case empty
  with assms(2) show ?thesis by (simp add: line_cut_def)
qed

sublocale line_based \<subseteq>
  cutting_decoder Q content "LineBasedFrameDecoder_decode Q d" "line_cut d" "line_stream d" line_init
  using decode_line decode_part line_cut_append line_cut_shorter line_stream_rest line_stream_prefix
  by unfold_locales blast+

sublocale line_based \<subseteq> progressing_decoder Q content "LineBasedFrameDecoder_decode Q d"
  using decode_progress by unfold_locales blast

context line_based
begin

lemma cut_frames_lines:
  "(\<forall>l \<in> set ls. line_ok d l) \<Longrightarrow>
   cut_frames (line_cut d) (concat (map line_bytes ls)) = (map (line_frame d) ls, [])"
proof (induction ls)
  case Nil
  have "line_cut d [] = None" by (simp add: line_cut_def)
  then show ?case by (simp add: cut_frames_None)
next
  case (Cons l ls)
  then show ?case by (simp add: cut_frames_Some [OF line_cut_line])
qed

lemma lines_delivered:
  assumes "content q = []" "\<forall>l \<in> set ls. line_ok d l" "concat segs = concat (map line_bytes ls)"
  shows "\<exists>q'. read_segments Q (LineBasedFrameDecoder_decode Q d) line_init q segs =
      Some (map Read (map (line_frame d) ls), Inr (line_init, q')) \<and> content q' = []"
proof -
  have "line_stream d (content q @ concat segs)"
    using assms by (auto simp: line_stream_def)
  moreover have "line_cut d (content q) = None" using assms(1) by (simp add: line_cut_def)
  ultimately show ?thesis
    using read_segments_cuts [of q segs] assms cut_frames_lines by simp
qed

lemma line_read_returns: "\<exists>r. ByteToMessageDecoder_read (LineBasedFrameDecoder_decode Q d) s q = Some r"
  by (rule read_returns)

lemma overlong_discarded:
  assumes "\<not> discarding s" and "no_lone_cr (terminatorType d) (content q)"
    and "unat (maxLength d) < length (content q)"
    and "\<forall>k. first_eol (terminatorType d) (content q) = Some k \<longrightarrow> unat (maxLength d) \<le> k"
  shows "\<exists>q'. ByteToMessageDecoder_read (LineBasedFrameDecoder_decode Q d) s q =
      Some ([line_fail d (''over '' @ nat_str (length (content q)))],
        Inr (s\<lparr>discardedBytes := of_nat (length (content q)), discarding := True\<rparr>, q')) \<and>
    content q' = []"
proof -
  have "findEndOfLine Q d q = Inr None"
    using findEndOfLine_eq [OF assms(2)] assms(4) by (auto split: option.splits)
  moreover obtain q' where "qTrimStart Q q (length (content q)) = Some q'" "content q' = []"
    using trimStart_ok [of "length (content q)" q] by auto
  ultimately show ?thesis
    using assms(1,3)
    by (subst ByteToMessageDecoder_read.simps) (simp add: LineBasedFrameDecoder_decode_def Let_def)
qed

lemma discarding_ends:
  assumes "discarding s" and "no_lone_cr (terminatorType d) (content q)"
    and "line_cut d (content q) = Some (m, rest)"
    and "\<forall>k. first_eol (terminatorType d) (content q) = Some k \<longrightarrow> k < unat (maxLength d)"
  shows "\<exists>q'. ByteToMessageDecoder_read (LineBasedFrameDecoder_decode Q d) s q =
      Some ([], Inr (s\<lparr>discardedBytes := 0, discarding := False\<rparr>, q')) \<and> content q' = rest"
proof -
  obtain i where i: "first_eol (terminatorType d) (content q) = Some i"
    using assms(3) by (auto simp: line_cut_def split: option.splits)
  let ?n = "if content q ! i = CR then 2 else 1 :: nat"
  have "findEndOfLine Q d q = Inr (Some i)"
    using findEndOfLine_eq [OF assms(2)] assms(4) i by simp
  moreover have "line_delim Q q i = Some ?n"
    using first_eol_less [OF i] by (simp add: line_delim_def)
  moreover have "i + ?n \<le> length (content q)"
    using first_eol_at [OF i] first_eol_less [OF i] by auto
  then obtain q' where "qTrimStart Q q (i + ?n) = Some q'" "content q' = drop (i + ?n) (content q)"
    using trimStart_ok by blast
  moreover have "rest = drop (i + ?n) (content q)"
    using assms(3) i by (auto simp: line_cut_def Let_def split: if_splits)
  ultimately show ?thesis
    using assms(1)
    by (subst ByteToMessageDecoder_read.simps)
      (simp add: LineBasedFrameDecoder_decode_def del: One_nat_def)
qed

end

interpretation chain_line: line_based chain_queue concat
    "\<lparr>maxLength = 8, stripDelimiter = True, terminatorType = TERM_BOTH\<rparr>"
  by unfold_locales

lemma line_based_iff: "line_based Q content \<longleftrightarrow> iobuf_queue Q content"
  by (simp add: line_based_def)

section \<open>Properties\<close>

text \<open>
  C21. Lines whose text is shorter than the maximum and holds no byte that could end it are all
  delivered, in order, with or without their terminators as configured, whatever the segments the
  stream arrives in; nothing else is fired and nothing stays queued.
\<close>

theorem LineBased_lines_delivered:
  assumes "iobuf_queue Q content" and "content q = []" and "\<forall>l \<in> set ls. line_ok d l"
    and "concat segs = concat (map line_bytes ls)"
  shows "\<exists>q'. read_segments Q (LineBasedFrameDecoder_decode Q d) line_init q segs =
      Some (map Read (map (line_frame d) ls), Inr (line_init, q')) \<and> content q' = []"
  using assms(1) assms(2-4) unfolding line_based_iff [symmetric] by (rule line_based.lines_delivered)

theorem LineBased_lines_delivered_witness:
  "\<exists>q'. read_segments chain_queue (LineBasedFrameDecoder_decode chain_queue
        \<lparr>maxLength = 4, stripDelimiter = True, terminatorType = TERM_BOTH\<rparr>) line_init []
      [[97, 98, 13], [10, 99], [10]] =
      Some (map Read (map (line_frame \<lparr>maxLength = 4, stripDelimiter = True, terminatorType = TERM_BOTH\<rparr>)
        [([97, 98], [13, 10]), ([99], [10])]), Inr (line_init, q')) \<and> concat q' = []"
  by (rule LineBased_lines_delivered [OF chainq.iobuf_queue_axioms])
    (simp_all add: line_ok_def line_delims_def line_bytes_def)

text \<open>
  The read loop of a LineBasedFrameDecoder returns, for every configuration, state and queue.
\<close>

theorem LineBased_read_returns:
  assumes "iobuf_queue Q content"
  shows "\<exists>r. ByteToMessageDecoder_read (LineBasedFrameDecoder_decode Q d) s q = Some r"
  using assms unfolding line_based_iff [symmetric] by (rule line_based.line_read_returns)

theorem LineBased_read_returns_witness:
  "\<exists>r. ByteToMessageDecoder_read (LineBasedFrameDecoder_decode chain_queue
      \<lparr>maxLength = 0, stripDelimiter = True, terminatorType = TERM_BOTH\<rparr>) line_init [[10, 10]] = Some r"
  by (rule LineBased_read_returns [OF chainq.iobuf_queue_axioms])

text \<open>
  When more bytes than the maximum are queued and no line ends within the maximum, read reports
  one exception with the queue's length, discards everything that is queued (also a terminator that
  is already there, and whole lines after it) and turns to discarding.
\<close>

theorem LineBased_overlong:
  assumes "iobuf_queue Q content" and "\<not> discarding s"
    and "no_lone_cr (terminatorType d) (content q)"
    and "unat (maxLength d) < length (content q)"
    and "\<forall>k. first_eol (terminatorType d) (content q) = Some k \<longrightarrow> unat (maxLength d) \<le> k"
  shows "\<exists>q'. ByteToMessageDecoder_read (LineBasedFrameDecoder_decode Q d) s q =
      Some ([line_fail d (''over '' @ nat_str (length (content q)))],
        Inr (s\<lparr>discardedBytes := of_nat (length (content q)), discarding := True\<rparr>, q')) \<and>
    content q' = []"
  using assms(1) assms(2-5) unfolding line_based_iff [symmetric]
  by (rule line_based.overlong_discarded)

theorem LineBased_overlong_witness:
  "\<exists>q'. ByteToMessageDecoder_read (LineBasedFrameDecoder_decode chain_queue
        \<lparr>maxLength = 2, stripDelimiter = True, terminatorType = TERM_BOTH\<rparr>) line_init
        [[97, 97, 97], [10, 98, 10]] =
      Some ([line_fail \<lparr>maxLength = 2, stripDelimiter = True, terminatorType = TERM_BOTH\<rparr>
          (''over '' @ nat_str (length (concat [[97, 97, 97], [10, 98, 10 :: byte]])))],
        Inr (line_init\<lparr>discardedBytes := of_nat (length (concat [[97, 97, 97], [10, 98, 10 :: byte]])),
          discarding := True\<rparr>, q')) \<and>
    concat q' = []"
  by (rule LineBased_overlong [OF chainq.iobuf_queue_axioms]) (simp_all add: line_init_def)

text \<open>
  A discarding decoder fires nothing, drops the bytes up to and including the next end of line
  and then stops discarding. (It also returns false there, so a whole line behind that end of line
  waits for the next read.)
\<close>

theorem LineBased_discarding_ends:
  assumes "iobuf_queue Q content" and "discarding s"
    and "no_lone_cr (terminatorType d) (content q)"
    and "line_cut d (content q) = Some (m, rest)"
    and "\<forall>k. first_eol (terminatorType d) (content q) = Some k \<longrightarrow> k < unat (maxLength d)"
  shows "\<exists>q'. ByteToMessageDecoder_read (LineBasedFrameDecoder_decode Q d) s q =
      Some ([], Inr (s\<lparr>discardedBytes := 0, discarding := False\<rparr>, q')) \<and> content q' = rest"
  using assms(1) assms(2-5) unfolding line_based_iff [symmetric]
  by (rule line_based.discarding_ends)

theorem LineBased_discarding_ends_witness:
  "\<exists>q'. ByteToMessageDecoder_read (LineBasedFrameDecoder_decode chain_queue
        \<lparr>maxLength = 2, stripDelimiter = True, terminatorType = TERM_BOTH\<rparr>)
        \<lparr>discarding = True, discardedBytes = 6\<rparr> [[97], [10, 98, 10]] =
      Some ([], Inr (\<lparr>discarding = True, discardedBytes = 6\<rparr>\<lparr>discardedBytes := 0, discarding := False\<rparr>, q')) \<and>
    concat q' = [98, 10]"
  by (rule LineBased_discarding_ends [OF chainq.iobuf_queue_axioms, where m = "[97]"])
    (simp_all add: line_cut_def)

text \<open>
  A carriage return that does not stand before a newline makes the loop skip the byte behind it,
  so the end of line found is one too early: of a line CR X LF the decoder delivers the frame CR
  instead of CR X, drops X, and delivers an empty frame for the newline that is left.
\<close>

theorem LineBased_lone_cr:
  "map_option fst (ByteToMessageDecoder_read (LineBasedFrameDecoder_decode chain_queue
      \<lparr>maxLength = 8, stripDelimiter = True, terminatorType = TERM_BOTH\<rparr>) line_init [[CR, 88, LF, 89, LF]]) =
    Some [Read [CR], Read [], Read [89]]"
  by code_simp

text \<open>
  For the carriage-return-newline decoder the same skip can move the cursor past the end of the
  data: two carriage returns and a newline make read throw out_of_range.
\<close>

theorem LineBased_cr_cr_lf_throws:
  "ByteToMessageDecoder_read (LineBasedFrameDecoder_decode chain_queue
      \<lparr>maxLength = 8, stripDelimiter = True, terminatorType = CARRIAGENEWLINE\<rparr>) line_init [[CR, CR, LF]] =
    Some ([], Inl OutOfRange)"
  by code_simp

end
