(* ===== verification/Channel_Pipeline.thy ===== *)
theory Channel_Pipeline
  imports Handler_Context
begin

text \<open>
  \<open>channel/Pipeline.{h,-inl.h,cpp}\<close>, \<open>channel/HandlerContext-inl.h\<close> and
  \<open>channel/StaticPipeline.h\<close>: the contexts of a pipeline, how handlers are added, removed, linked and
  attached, and how an event travels from context to context.
\<close>

section \<open>Handlers, contexts and the pipeline's state\<close>

text \<open>
  A handler class is what the templates take from it: its identity (for \<open>dynamic_cast\<close>), its
  direction and the four message types. Contexts and handlers are objects with an address; the
  pipeline's record holds the objects its contexts reach, and in \<open>lifecycle\<close> the calls of the
  handlers' own \<open>attachPipeline\<close> and \<open>detachPipeline\<close>, in order.
\<close>

type_synonym ctx_id = nat
type_synonym handler_id = nat
type_synonym cpp_type = string

record handler_class =
  hc_name :: string
  hc_dir :: HandlerDir
  rin :: cpp_type
  rout :: cpp_type
  win :: cpp_type
  wout :: cpp_type

record ContextImplBase =
  ctx_class :: handler_class
  ctx_handler :: handler_id
  nextIn :: "ctx_id option"
  nextOut :: "ctx_id option"
  attached :: bool

record HandlerBase =
  attachCount :: u64
  handler_ctx :: "ctx_id option"

datatype lifecycle_call = AttachPipeline handler_id ctx_id | DetachPipeline handler_id ctx_id

record Pipeline =
  ctxs :: "ctx_id list"
  inCtxs :: "ctx_id list"
  outCtxs :: "ctx_id list"
  owner :: "ctx_id option"
  front_link :: "ctx_id option"
  back_link :: "ctx_id option"
  manager :: "nat option"
  transport :: "nat option"
  transportInfo :: "nat option"
  writeFlags :: u32
  readBufferSettings :: "u64 \<times> u64"
  ctx_store :: "ctx_id \<Rightarrow> ContextImplBase"
  handler_store :: "handler_id \<Rightarrow> HandlerBase"
  next_ctx :: ctx_id
  lifecycle :: "lifecycle_call list"

definition upd_ctx :: "ctx_id \<Rightarrow> (ContextImplBase \<Rightarrow> ContextImplBase) \<Rightarrow> Pipeline \<Rightarrow> Pipeline" where
  "upd_ctx c f p = p\<lparr>ctx_store := (ctx_store p)(c := f (ctx_store p c))\<rparr>"

definition upd_handler :: "handler_id \<Rightarrow> (HandlerBase \<Rightarrow> HandlerBase) \<Rightarrow> Pipeline \<Rightarrow> Pipeline" where
  "upd_handler h f p = p\<lparr>handler_store := (handler_store p)(h := f (handler_store p h))\<rparr>"

section \<open>PipelineContext and ContextImplBase\<close>

definition attachContext :: "handler_id \<Rightarrow> ctx_id \<Rightarrow> Pipeline \<Rightarrow> Pipeline" where
  "attachContext h c = upd_handler h (\<lambda>ho.
     let n = attachCount ho + 1 in
     ho\<lparr>attachCount := n, handler_ctx := (if n = 1 then Some c else None)\<rparr>)"

definition detachContext :: "handler_id \<Rightarrow> Pipeline \<Rightarrow> Pipeline" where
  "detachContext h = upd_handler h (\<lambda>ho.
     ho\<lparr>attachCount := (if attachCount ho \<ge> 1 then attachCount ho - 1 else attachCount ho),
        handler_ctx := None\<rparr>)"

definition ctx_attachPipeline :: "ctx_id \<Rightarrow> Pipeline \<Rightarrow> Pipeline" where
  "ctx_attachPipeline c p =
     (if \<not> attached (ctx_store p c) then
        (let h = ctx_handler (ctx_store p c);
             p1 = attachContext h c p;
             p2 = p1\<lparr>lifecycle := lifecycle p1 @ [AttachPipeline h c]\<rparr> in
         upd_ctx c (\<lambda>x. x\<lparr>attached := True\<rparr>) p2)
      else p)"

definition ctx_detachPipeline :: "ctx_id \<Rightarrow> Pipeline \<Rightarrow> Pipeline" where
  "ctx_detachPipeline c p =
     (let h = ctx_handler (ctx_store p c);
          p1 = p\<lparr>lifecycle := lifecycle p @ [DetachPipeline h c]\<rparr>;
          p2 = upd_ctx c (\<lambda>x. x\<lparr>attached := False\<rparr>) p1 in
      detachContext h p2)"

text \<open>\<open>HandlerBase::getContext\<close>.\<close>

definition HandlerBase_getContext :: "HandlerBase \<Rightarrow> cpp_exn + ctx_id option" where
  "HandlerBase_getContext ho =
     (if attachCount ho \<noteq> 1 then Inr None
      else if handler_ctx ho = None then Inl CheckFailed
      else Inr (handler_ctx ho))"

text \<open>
  Whether \<open>dynamic_cast<InboundLink<T>*>(ctx)\<close> succeeds: \<open>ContextImpl\<close> and \<open>InboundContextImpl\<close> of a
  handler class derive from \<open>InboundLink\<close> of its \<open>rin\<close>; \<open>OutboundLink\<close> is the mirror image.
\<close>

definition is_in :: "ContextImplBase \<Rightarrow> bool" where
  "is_in c \<longleftrightarrow> hc_dir (ctx_class c) = BOTH \<or> hc_dir (ctx_class c) = IN"

definition is_out :: "ContextImplBase \<Rightarrow> bool" where
  "is_out c \<longleftrightarrow> hc_dir (ctx_class c) = BOTH \<or> hc_dir (ctx_class c) = OUT"

definition is_InboundLink :: "cpp_type \<Rightarrow> ContextImplBase \<Rightarrow> bool" where
  "is_InboundLink t c \<longleftrightarrow> is_in c \<and> rin (ctx_class c) = t"

definition is_OutboundLink :: "cpp_type \<Rightarrow> ContextImplBase \<Rightarrow> bool" where
  "is_OutboundLink t c \<longleftrightarrow> is_out c \<and> win (ctx_class c) = t"

definition setNextIn :: "ctx_id \<Rightarrow> ctx_id option \<Rightarrow> Pipeline \<Rightarrow> cpp_exn + Pipeline" where
  "setNextIn c nxt p =
     (case nxt of
        None \<Rightarrow> Inr (upd_ctx c (\<lambda>x. x\<lparr>nextIn := None\<rparr>) p)
      | Some d \<Rightarrow>
          if is_InboundLink (rout (ctx_class (ctx_store p c))) (ctx_store p d)
          then Inr (upd_ctx c (\<lambda>x. x\<lparr>nextIn := Some d\<rparr>) p)
          else Inl (InvalidArgument
            (''inbound type mismatch after '' @ hc_name (ctx_class (ctx_store p c)))))"

definition setNextOut :: "ctx_id \<Rightarrow> ctx_id option \<Rightarrow> Pipeline \<Rightarrow> cpp_exn + Pipeline" where
  "setNextOut c nxt p =
     (case nxt of
        None \<Rightarrow> Inr (upd_ctx c (\<lambda>x. x\<lparr>nextOut := None\<rparr>) p)
      | Some d \<Rightarrow>
          if is_OutboundLink (wout (ctx_class (ctx_store p c))) (ctx_store p d)
          then Inr (upd_ctx c (\<lambda>x. x\<lparr>nextOut := Some d\<rparr>) p)
          else Inl (InvalidArgument
            (''outbound type mismatch after '' @ hc_name (ctx_class (ctx_store p c)))))"

section \<open>PipelineBase: adding and removing handlers\<close>

definition addHelper :: "ctx_id \<Rightarrow> bool \<Rightarrow> Pipeline \<Rightarrow> Pipeline" where
  "addHelper c at_front p =
     (let ins = (\<lambda>xs. if at_front then c # xs else xs @ [c]);
          p1 = p\<lparr>ctxs := ins (ctxs p)\<rparr>;
          p2 = (if is_in (ctx_store p c) then p1\<lparr>inCtxs := ins (inCtxs p1)\<rparr> else p1) in
      if is_out (ctx_store p c) then p2\<lparr>outCtxs := ins (outCtxs p2)\<rparr> else p2)"

text \<open>\<open>std::make_shared<Context>(shared_from_this(), handler)\<close>: a context at a fresh address.\<close>

definition new_context :: "handler_class \<Rightarrow> handler_id \<Rightarrow> Pipeline \<Rightarrow> ctx_id \<times> Pipeline" where
  "new_context H h p =
     (next_ctx p,
      p\<lparr>next_ctx := Suc (next_ctx p),
        ctx_store := (ctx_store p)(next_ctx p :=
          \<lparr>ctx_class = H, ctx_handler = h, nextIn = None, nextOut = None, attached = False\<rparr>)\<rparr>)"

definition addBack :: "handler_class \<Rightarrow> handler_id \<Rightarrow> Pipeline \<Rightarrow> Pipeline" where
  "addBack H h p = (case new_context H h p of (c, p') \<Rightarrow> addHelper c False p')"

definition addFront :: "handler_class \<Rightarrow> handler_id \<Rightarrow> Pipeline \<Rightarrow> Pipeline" where
  "addFront H h p = (case new_context H h p of (c, p') \<Rightarrow> addHelper c True p')"

text \<open>
  \<open>removeAt\<close> takes the position of the iterator; \<open>std::find\<close> and \<open>erase\<close> remove the first occurrence.
\<close>

definition removeAt :: "nat \<Rightarrow> Pipeline \<Rightarrow> cpp_exn + Pipeline" where
  "removeAt i p =
     (let c = ctxs p ! i;
          p1 = ctx_detachPipeline c p;
          x = ctx_store p1 c in
      if is_in x \<and> c \<notin> set (inCtxs p1) then Inl CheckFailed
      else
        (let p2 = (if is_in x then p1\<lparr>inCtxs := remove1 c (inCtxs p1)\<rparr> else p1) in
         if is_out x \<and> c \<notin> set (outCtxs p2) then Inl CheckFailed
         else
           (let p3 = (if is_out x then p2\<lparr>outCtxs := remove1 c (outCtxs p2)\<rparr> else p2) in
            Inr (p3\<lparr>ctxs := take i (ctxs p3) @ drop (Suc i) (ctxs p3)\<rparr>))))"

definition removeFront :: "Pipeline \<Rightarrow> cpp_exn + Pipeline" where
  "removeFront p =
     (if ctxs p = [] then Inl (InvalidArgument ''No handlers in pipeline'') else removeAt 0 p)"

definition removeBack :: "Pipeline \<Rightarrow> cpp_exn + Pipeline" where
  "removeBack p =
     (if ctxs p = [] then Inl (InvalidArgument ''No handlers in pipeline'')
      else removeAt (length (ctxs p) - 1) p)"

lemma ctxs_upd_ctx [simp]: "ctxs (upd_ctx c f p) = ctxs p"
  by (simp add: upd_ctx_def)

lemma ctxs_upd_handler [simp]: "ctxs (upd_handler h f p) = ctxs p"
  by (simp add: upd_handler_def)

lemma ctxs_detach [simp]: "ctxs (ctx_detachPipeline c p) = ctxs p"
  by (simp add: ctx_detachPipeline_def detachContext_def Let_def)

lemma ctxs_removeAt:
  "removeAt i p = Inr p' \<Longrightarrow> ctxs p' = take i (ctxs p) @ drop (Suc i) (ctxs p)"
  by (auto simp: removeAt_def Let_def split: if_splits)

lemma removeAt_shorter: "i < length (ctxs p) \<Longrightarrow> removeAt i p = Inr p' \<Longrightarrow>
    length (ctxs p') = length (ctxs p) - 1"
  by (simp add: ctxs_removeAt)

text \<open>
  The loop of \<open>removeHelper\<close>: \<open>dynamic_pointer_cast<Context>\<close> succeeds for contexts of the same handler
  class; after a removal the iterator stays where it is.
\<close>

function removeHelper_loop ::
  "handler_class \<Rightarrow> handler_id option \<Rightarrow> nat \<Rightarrow> bool \<Rightarrow> Pipeline \<Rightarrow> cpp_exn + bool \<times> Pipeline" where
  "removeHelper_loop H h i removed p =
     (if i < length (ctxs p) then
        (let x = ctx_store p (ctxs p ! i) in
         if ctx_class x = H \<and> (h = None \<or> h = Some (ctx_handler x)) then
           (case removeAt i p of
              Inl e \<Rightarrow> Inl e
            | Inr p' \<Rightarrow> removeHelper_loop H h i True p')
         else removeHelper_loop H h (Suc i) removed p)
      else Inr (removed, p))"
  by pat_completeness auto
termination
  by (relation "measure (\<lambda>(H, h, i, removed, p). length (ctxs p) - i)")
    (auto simp: ctxs_removeAt)

declare removeHelper_loop.simps [simp del]

definition removeHelper :: "handler_class \<Rightarrow> handler_id option \<Rightarrow> Pipeline \<Rightarrow> cpp_exn + Pipeline" where
  "removeHelper H h p =
     (case removeHelper_loop H h 0 False p of
        Inl e \<Rightarrow> Inl e
      | Inr (removed, p') \<Rightarrow>
          if \<not> removed then Inl (InvalidArgument ''No such handler in pipeline'') else Inr p')"

definition remove_class :: "handler_class \<Rightarrow> Pipeline \<Rightarrow> cpp_exn + Pipeline" where
  "remove_class H p = removeHelper H None p"

definition remove_handler :: "handler_class \<Rightarrow> handler_id \<Rightarrow> Pipeline \<Rightarrow> cpp_exn + Pipeline" where
  "remove_handler H h p = removeHelper H (Some h) p"

section \<open>PipelineBase: lookups and settings\<close>

definition getContext_at :: "handler_class \<Rightarrow> nat \<Rightarrow> Pipeline \<Rightarrow> cpp_exn + ctx_id" where
  "getContext_at H i p =
     (if i < length (ctxs p) then
        (if ctx_class (ctx_store p (ctxs p ! i)) = H then Inr (ctxs p ! i) else Inl CheckFailed)
      else Inl Undefined)"

definition getContext :: "handler_class \<Rightarrow> Pipeline \<Rightarrow> ctx_id option" where
  "getContext H p = find (\<lambda>c. ctx_class (ctx_store p c) = H) (ctxs p)"

definition getHandler_at :: "handler_class \<Rightarrow> nat \<Rightarrow> Pipeline \<Rightarrow> cpp_exn + handler_id" where
  "getHandler_at H i p =
     (case getContext_at H i p of Inl e \<Rightarrow> Inl e | Inr c \<Rightarrow> Inr (ctx_handler (ctx_store p c)))"

definition getHandler :: "handler_class \<Rightarrow> Pipeline \<Rightarrow> handler_id option" where
  "getHandler H p = map_option (\<lambda>c. ctx_handler (ctx_store p c)) (getContext H p)"

definition setOwner :: "handler_class \<Rightarrow> handler_id \<Rightarrow> Pipeline \<Rightarrow> bool \<times> Pipeline" where
  "setOwner H h p =
     (case find (\<lambda>c. ctx_class (ctx_store p c) = H \<and> ctx_handler (ctx_store p c) = h) (ctxs p) of
        Some c \<Rightarrow> (True, p\<lparr>owner := Some c\<rparr>)
      | None \<Rightarrow> (False, p))"

fun detach_all :: "ctx_id option \<Rightarrow> ctx_id list \<Rightarrow> Pipeline \<Rightarrow> Pipeline" where
  "detach_all ow [] p = p"
| "detach_all ow (c # cs) p =
     detach_all ow cs (if Some c \<noteq> ow then ctx_detachPipeline c p else p)"

definition detachHandlers :: "Pipeline \<Rightarrow> Pipeline" where
  "detachHandlers p = detach_all (owner p) (ctxs p) p"

definition numHandlers :: "Pipeline \<Rightarrow> nat" where
  "numHandlers p = length (ctxs p)"

definition setWriteFlags :: "u32 \<Rightarrow> Pipeline \<Rightarrow> Pipeline" where
  "setWriteFlags flags p = p\<lparr>writeFlags := flags\<rparr>"

definition setReadBufferSettings :: "u64 \<Rightarrow> u64 \<Rightarrow> Pipeline \<Rightarrow> Pipeline" where
  "setReadBufferSettings minAvailable allocationSize p =
     p\<lparr>readBufferSettings := (minAvailable, allocationSize)\<rparr>"

definition setTransportInfo :: "nat option \<Rightarrow> Pipeline \<Rightarrow> Pipeline" where
  "setTransportInfo tInfo p = p\<lparr>transportInfo := tInfo\<rparr>"

definition setTransport :: "nat option \<Rightarrow> Pipeline \<Rightarrow> Pipeline" where
  "setTransport t p = p\<lparr>transport := t\<rparr>"

definition setPipelineManager :: "nat option \<Rightarrow> Pipeline \<Rightarrow> Pipeline" where
  "setPipelineManager m p = p\<lparr>manager := m\<rparr>"

text \<open>\<open>deletePipeline\<close> calls the manager, when there is one; the answer names the manager called.\<close>

definition deletePipeline :: "Pipeline \<Rightarrow> nat option" where
  "deletePipeline p = manager p"

section \<open>Pipeline: creation, finalize and destruction\<close>

definition Pipeline_create :: "ctx_id \<Rightarrow> (ctx_id \<Rightarrow> ContextImplBase) \<Rightarrow> (handler_id \<Rightarrow> HandlerBase) \<Rightarrow> Pipeline" where
  "Pipeline_create fresh cs hs =
     \<lparr>ctxs = [], inCtxs = [], outCtxs = [], owner = None, front_link = None, back_link = None,
      manager = None, transport = None, transportInfo = None, writeFlags = 0,
      readBufferSettings = (2048, 2048), ctx_store = cs, handler_store = hs, next_ctx = fresh,
      lifecycle = []\<rparr>"

text \<open>
  The loops of \<open>finalize\<close> that link neighbours, from the first context of the list to the last; the
  last gets a null link. An exception leaves what is linked by then.
\<close>

fun link_in :: "ctx_id list \<Rightarrow> Pipeline \<Rightarrow> cpp_exn option \<times> Pipeline" where
  "link_in [] p = (None, p)"
| "link_in [c] p =
     (case setNextIn c None p of Inl e \<Rightarrow> (Some e, p) | Inr p' \<Rightarrow> (None, p'))"
| "link_in (c # d # cs) p =
     (case setNextIn c (Some d) p of Inl e \<Rightarrow> (Some e, p) | Inr p' \<Rightarrow> link_in (d # cs) p')"

fun link_out :: "ctx_id list \<Rightarrow> Pipeline \<Rightarrow> cpp_exn option \<times> Pipeline" where
  "link_out [] p = (None, p)"
| "link_out [c] p =
     (case setNextOut c None p of Inl e \<Rightarrow> (Some e, p) | Inr p' \<Rightarrow> (None, p'))"
| "link_out (c # d # cs) p =
     (case setNextOut c (Some d) p of Inl e \<Rightarrow> (Some e, p) | Inr p' \<Rightarrow> link_out (d # cs) p')"

text \<open>
  \<open>Pipeline<R, W>::finalize\<close>; the warnings it logs are left out. The outbound loop runs from the back
  of \<open>outCtxs_\<close> to its front. \<open>cast_front\<close> and \<open>cast_back\<close> are the two casts.
\<close>

definition cast_front :: "cpp_type \<Rightarrow> Pipeline \<Rightarrow> ctx_id option" where
  "cast_front R p =
     (if inCtxs p \<noteq> [] \<and> is_InboundLink R (ctx_store p (hd (inCtxs p)))
      then Some (hd (inCtxs p)) else None)"

definition cast_back :: "cpp_type \<Rightarrow> Pipeline \<Rightarrow> ctx_id option" where
  "cast_back W p =
     (if outCtxs p \<noteq> [] \<and> is_OutboundLink W (ctx_store p (last (outCtxs p)))
      then Some (last (outCtxs p)) else None)"

definition finalize :: "cpp_type \<Rightarrow> cpp_type \<Rightarrow> Pipeline \<Rightarrow> cpp_exn option \<times> Pipeline" where
  "finalize R W p =
     (let p1 = p\<lparr>front_link := cast_front R p\<rparr> in
      (case link_in (inCtxs p1) p1 of
         (Some e, p2) \<Rightarrow> (Some e, p2)
       | (None, p2) \<Rightarrow>
           (let p3 = p2\<lparr>back_link := cast_back W p2\<rparr> in
            (case link_out (rev (outCtxs p3)) p3 of
               (Some e, p4) \<Rightarrow> (Some e, p4)
             | (None, p4) \<Rightarrow> (None, fold ctx_attachPipeline (rev (ctxs p4)) p4)))))"

definition Pipeline_destroy :: "bool \<Rightarrow> Pipeline \<Rightarrow> Pipeline" where
  "Pipeline_destroy isStatic p = (if \<not> isStatic then detachHandlers p else p)"

section \<open>Events\<close>

text \<open>
  What handlers do when they receive an event is an argument: \<open>react h\<close> gives the calls handler \<open>h\<close>
  makes on its context, in order. Calls are synchronous, so those of the handler reached first are
  carried out before the caller's next one: \<open>run_calls\<close> works through a stack of pending calls and
  answers the deliveries in order, and \<open>None\<close> when the handlers send events to and fro for ever.
  An event that finds no next context ends there (\<open>fireRead\<close> and the others log a warning, the
  outbound ones answer a completed future).
\<close>

datatype 'm delivery = InTo ctx_id "'m in_event" | OutTo ctx_id "'m out_event"

type_synonym 'm reaction = "handler_id \<Rightarrow> 'm delivery \<Rightarrow> ('m, 'm) ctx_call list"

fun ctx_fire :: "Pipeline \<Rightarrow> ctx_id \<Rightarrow> ('m, 'm) ctx_call \<Rightarrow> 'm delivery option" where
  "ctx_fire p c (FireIn ev) = map_option (\<lambda>d. InTo d ev) (nextIn (ctx_store p c))"
| "ctx_fire p c (FireOut ev) = map_option (\<lambda>d. OutTo d ev) (nextOut (ctx_store p c))"

fun delivered_to :: "'m delivery \<Rightarrow> ctx_id" where
  "delivered_to (InTo c ev) = c"
| "delivered_to (OutTo c ev) = c"

definition ctx_receive :: "Pipeline \<Rightarrow> 'm reaction \<Rightarrow> 'm delivery \<Rightarrow> (ctx_id \<times> ('m, 'm) ctx_call) list" where
  "ctx_receive p react d =
     map (Pair (delivered_to d)) (react (ctx_handler (ctx_store p (delivered_to d))) d)"

partial_function (option) run_calls ::
  "Pipeline \<Rightarrow> 'm reaction \<Rightarrow> (ctx_id \<times> ('m, 'm) ctx_call) list \<Rightarrow> 'm delivery list option" where
  "run_calls p react work =
     (case work of
        [] \<Rightarrow> Some []
      | (c, call) # rest \<Rightarrow>
          (case ctx_fire p c call of
             None \<Rightarrow> run_calls p react rest
           | Some d \<Rightarrow>
               Option.bind (run_calls p react (ctx_receive p react d @ rest))
                 (\<lambda>ds. Some (d # ds))))"

declare run_calls.simps [code]

definition run_delivery :: "Pipeline \<Rightarrow> 'm reaction \<Rightarrow> 'm delivery \<Rightarrow> 'm delivery list option" where
  "run_delivery p react d = map_option ((#) d) (run_calls p react (ctx_receive p react d))"

text \<open>
  The calls of \<open>Pipeline\<close> itself. The outer level is the exception, the inner one divergence.
  \<open>transportActive\<close> and \<open>transportInactive\<close> do nothing without an inbound handler; the other calls
  throw.
\<close>

fun in_name :: "'m in_event \<Rightarrow> string" where
  "in_name (Read m) = ''read''"
| "in_name ReadEOF = ''readEOF''"
| "in_name (ReadException e) = ''readException''"
| "in_name TransportActive = ''transportActive''"
| "in_name TransportInactive = ''transportInactive''"

fun out_name :: "'m out_event \<Rightarrow> string" where
  "out_name (Write m) = ''write''"
| "out_name (WriteException e) = ''writeException''"
| "out_name Close = ''close''"

definition Pipeline_inbound :: "Pipeline \<Rightarrow> 'm reaction \<Rightarrow> 'm in_event
    \<Rightarrow> cpp_exn + 'm delivery list option" where
  "Pipeline_inbound p react ev =
     (case front_link p of
        None \<Rightarrow>
          (case ev of
             TransportActive \<Rightarrow> Inr (Some [])
           | TransportInactive \<Rightarrow> Inr (Some [])
           | _ \<Rightarrow> Inl (InvalidArgument (in_name ev @ ''(): no inbound handler in Pipeline'')))
      | Some c \<Rightarrow> Inr (run_delivery p react (InTo c ev)))"

definition Pipeline_outbound :: "Pipeline \<Rightarrow> 'm reaction \<Rightarrow> 'm out_event
    \<Rightarrow> cpp_exn + 'm delivery list option" where
  "Pipeline_outbound p react ev =
     (case back_link p of
        None \<Rightarrow> Inl (InvalidArgument (out_name ev @ ''(): no outbound handler in Pipeline''))
      | Some c \<Rightarrow> Inr (run_delivery p react (OutTo c ev)))"

section \<open>StaticPipeline\<close>

text \<open>
  The constructors of \<open>StaticPipeline<R, W, Handlers...>\<close> run from the last handler to the first, each
  adding its context at the front; \<open>initialize\<close> then finalizes. The contexts are members, their
  addresses are the consecutive fresh ones. Each context's class and handler are set before any
  link is made, so the constructor and \<open>ctx_.initialize\<close> are one step here.
\<close>

fun StaticPipeline_construct :: "(handler_class \<times> handler_id) list \<Rightarrow> Pipeline \<Rightarrow> Pipeline" where
  "StaticPipeline_construct [] p = p"
| "StaticPipeline_construct ((H, h) # hs) p = addFront H h (StaticPipeline_construct hs p)"

definition StaticPipeline_create :: "cpp_type \<Rightarrow> cpp_type \<Rightarrow> (handler_class \<times> handler_id) list \<Rightarrow> Pipeline
    \<Rightarrow> cpp_exn option \<times> Pipeline" where
  "StaticPipeline_create R W hs p = finalize R W (StaticPipeline_construct hs p)"

end
