(* ===== verification/Channel_Pipeline_Props.thy ===== *)
theory Channel_Pipeline_Props
  imports Channel_Pipeline
begin

text \<open>
  What a pipeline promises: its three lists of contexts agree after every operation, the operations
  implement those of a plain list of handlers, finalize links neighbours exactly when their types
  fit, events visit the handlers in order, and handlers know their context while attached.
\<close>

section \<open>How the steps act on the pipeline's fields\<close>

named_theorems pipe_simps

lemma upd_ctx_fields [pipe_simps]:
  "ctx_store (upd_ctx c f p) = (ctx_store p)(c := f (ctx_store p c))"
  "inCtxs (upd_ctx c f p) = inCtxs p" "outCtxs (upd_ctx c f p) = outCtxs p"
  "owner (upd_ctx c f p) = owner p" "front_link (upd_ctx c f p) = front_link p"
  "back_link (upd_ctx c f p) = back_link p" "next_ctx (upd_ctx c f p) = next_ctx p"
  "handler_store (upd_ctx c f p) = handler_store p" "lifecycle (upd_ctx c f p) = lifecycle p"
  by (simp_all add: upd_ctx_def)

lemma upd_handler_fields [pipe_simps]:
  "ctx_store (upd_handler h f p) = ctx_store p"
  "inCtxs (upd_handler h f p) = inCtxs p" "outCtxs (upd_handler h f p) = outCtxs p"
  "owner (upd_handler h f p) = owner p" "front_link (upd_handler h f p) = front_link p"
  "back_link (upd_handler h f p) = back_link p" "next_ctx (upd_handler h f p) = next_ctx p"
  "handler_store (upd_handler h f p) = (handler_store p)(h := f (handler_store p h))"
  "lifecycle (upd_handler h f p) = lifecycle p"
  by (simp_all add: upd_handler_def)

lemma detach_fields [pipe_simps]:
  "ctx_store (ctx_detachPipeline c p) = (ctx_store p)(c := (ctx_store p c)\<lparr>attached := False\<rparr>)"
  "inCtxs (ctx_detachPipeline c p) = inCtxs p" "outCtxs (ctx_detachPipeline c p) = outCtxs p"
  "owner (ctx_detachPipeline c p) = owner p" "front_link (ctx_detachPipeline c p) = front_link p"
  "back_link (ctx_detachPipeline c p) = back_link p" "next_ctx (ctx_detachPipeline c p) = next_ctx p"
  by (simp_all add: ctx_detachPipeline_def detachContext_def Let_def pipe_simps)

lemma attach_fields [pipe_simps]:
  "ctxs (ctx_attachPipeline c p) = ctxs p"
  "ctx_store (ctx_attachPipeline c p) = (ctx_store p)(c := (ctx_store p c)\<lparr>attached := True\<rparr>)"
  "inCtxs (ctx_attachPipeline c p) = inCtxs p" "outCtxs (ctx_attachPipeline c p) = outCtxs p"
  "owner (ctx_attachPipeline c p) = owner p" "front_link (ctx_attachPipeline c p) = front_link p"
  "back_link (ctx_attachPipeline c p) = back_link p" "next_ctx (ctx_attachPipeline c p) = next_ctx p"
  by (auto simp: ctx_attachPipeline_def attachContext_def Let_def pipe_simps)

text \<open>The part of a context no step changes once it exists.\<close>

definition ctx_key :: "Pipeline \<Rightarrow> ctx_id \<Rightarrow> handler_class \<times> handler_id" where
  "ctx_key p c = (ctx_class (ctx_store p c), ctx_handler (ctx_store p c))"

definition key_in :: "handler_class \<times> handler_id \<Rightarrow> bool" where
  "key_in k \<longleftrightarrow> hc_dir (fst k) = BOTH \<or> hc_dir (fst k) = IN"

definition key_out :: "handler_class \<times> handler_id \<Rightarrow> bool" where
  "key_out k \<longleftrightarrow> hc_dir (fst k) = BOTH \<or> hc_dir (fst k) = OUT"

lemma is_in_key: "is_in (ctx_store p c) = key_in (ctx_key p c)"
  and is_out_key: "is_out (ctx_store p c) = key_out (ctx_key p c)"
  by (simp_all add: is_in_def is_out_def key_in_def key_out_def ctx_key_def)

text \<open>The invariant, and the list of handlers a pipeline stands for.\<close>

definition wf_pipeline :: "Pipeline \<Rightarrow> bool" where
  "wf_pipeline p \<longleftrightarrow> distinct (ctxs p) \<and> (\<forall>c \<in> set (ctxs p). c < next_ctx p) \<and>
     inCtxs p = filter (\<lambda>c. is_in (ctx_store p c)) (ctxs p) \<and>
     outCtxs p = filter (\<lambda>c. is_out (ctx_store p c)) (ctxs p)"

definition handlers_of :: "Pipeline \<Rightarrow> (handler_class \<times> handler_id) list" where
  "handlers_of p = map (ctx_key p) (ctxs p)"

lemma handlers_empty: "ctxs p = [] \<Longrightarrow> handlers_of p = []"
  by (simp add: handlers_of_def)

lemma ctx_key_simps [pipe_simps]:
  "ctx_key (ctx_detachPipeline c p) = ctx_key p"
  "ctx_key (ctx_attachPipeline c p) = ctx_key p"
  by (auto simp: ctx_key_def fun_eq_iff pipe_simps)

lemma wf_key: "wf_pipeline p \<longleftrightarrow> distinct (ctxs p) \<and> (\<forall>c \<in> set (ctxs p). c < next_ctx p) \<and>
     inCtxs p = filter (key_in \<circ> ctx_key p) (ctxs p) \<and>
     outCtxs p = filter (key_out \<circ> ctx_key p) (ctxs p)"
  by (simp add: wf_pipeline_def is_in_key is_out_key o_def)

lemma ctx_key_upd [simp]:
  "ctx_key (p\<lparr>ctxs := x\<rparr>) = ctx_key p" "ctx_key (p\<lparr>inCtxs := x\<rparr>) = ctx_key p"
  "ctx_key (p\<lparr>outCtxs := x\<rparr>) = ctx_key p" "ctx_key (p\<lparr>owner := w\<rparr>) = ctx_key p"
  "ctx_key (p\<lparr>front_link := w\<rparr>) = ctx_key p" "ctx_key (p\<lparr>back_link := w\<rparr>) = ctx_key p"
  by (simp_all add: ctx_key_def fun_eq_iff)

text \<open>A step that keeps the lists and the keys keeps the invariant and the handlers.\<close>

lemma wf_cong:
  assumes "ctxs p' = ctxs p" "inCtxs p' = inCtxs p" "outCtxs p' = outCtxs p" "next_ctx p' = next_ctx p"
    "ctx_key p' = ctx_key p"
  shows "wf_pipeline p' = wf_pipeline p" and "handlers_of p' = handlers_of p"
  using assms by (simp_all add: wf_key handlers_of_def)

lemma wf_create: "wf_pipeline (Pipeline_create n cs hs)" "handlers_of (Pipeline_create n cs hs) = []"
  by (simp_all add: Pipeline_create_def wf_pipeline_def handlers_of_def)

section \<open>Adding\<close>

lemma new_context_fields:
  assumes "new_context H h p = (c, p')"
  shows "c = next_ctx p" "ctxs p' = ctxs p" "inCtxs p' = inCtxs p" "outCtxs p' = outCtxs p"
    "next_ctx p' = Suc (next_ctx p)" "ctx_key p' = (ctx_key p)(c := (H, h))"
  using assms by (auto simp: new_context_def ctx_key_def fun_eq_iff)

lemma addHelper_fields [pipe_simps]:
  "ctxs (addHelper c fr p) = (if fr then c # ctxs p else ctxs p @ [c])"
  "inCtxs (addHelper c fr p) =
     (if key_in (ctx_key p c) then (if fr then c # inCtxs p else inCtxs p @ [c]) else inCtxs p)"
  "outCtxs (addHelper c fr p) =
     (if key_out (ctx_key p c) then (if fr then c # outCtxs p else outCtxs p @ [c]) else outCtxs p)"
  "next_ctx (addHelper c fr p) = next_ctx p"
  "ctx_key (addHelper c fr p) = ctx_key p"
  by (auto simp: addHelper_def Let_def is_in_key is_out_key ctx_key_def fun_eq_iff)

lemma map_key_fresh:
  assumes "\<forall>c \<in> set cs. c < (n :: nat)"
  shows "map (f(n := k)) cs = map f cs" and "filter (P \<circ> f(n := k)) cs = filter (P \<circ> f) cs"
proof -
  from assms have "n \<notin> set cs" by blast
  then show "map (f(n := k)) cs = map f cs" by simp
  show "filter (P \<circ> f(n := k)) cs = filter (P \<circ> f) cs"
    using \<open>n \<notin> set cs\<close> by (intro filter_cong) auto
qed

lemma add_wf:
  assumes "wf_pipeline p" and "new_context H h p = (c, p')"
  shows "wf_pipeline (addHelper c fr p')"
    and "handlers_of (addHelper c fr p') = (if fr then (H, h) # handlers_of p else handlers_of p @ [(H, h)])"
proof -
  note new = new_context_fields [OF assms(2)]
  from assms(1) have "\<forall>d \<in> set (ctxs p). d < next_ctx p" by (simp add: wf_key)
  note fresh = map_key_fresh [OF this]
  show "wf_pipeline (addHelper c fr p')"
    using assms(1) by (auto simp: wf_key pipe_simps new fresh less_Suc_eq)
  show "handlers_of (addHelper c fr p') = (if fr then (H, h) # handlers_of p else handlers_of p @ [(H, h)])"
    by (auto simp: handlers_of_def pipe_simps new fresh)
qed

lemma addBack_ok:
  assumes "wf_pipeline p"
  shows "wf_pipeline (addBack H h p)" and "handlers_of (addBack H h p) = handlers_of p @ [(H, h)]"
  using add_wf [OF assms surjective_pairing [of "new_context H h p"], of False]
  by (simp_all add: addBack_def split_beta)

lemma addFront_ok:
  assumes "wf_pipeline p"
  shows "wf_pipeline (addFront H h p)" and "handlers_of (addFront H h p) = (H, h) # handlers_of p"
  using add_wf [OF assms surjective_pairing [of "new_context H h p"], of True]
  by (simp_all add: addFront_def split_beta)

section \<open>Removing\<close>

definition remove_nth :: "nat \<Rightarrow> 'a list \<Rightarrow> 'a list" where
  "remove_nth i xs = take i xs @ drop (Suc i) xs"

lemma remove_nth_remove1:
  "distinct xs \<Longrightarrow> i < length xs \<Longrightarrow> remove1 (xs ! i) xs = remove_nth i xs"
  unfolding remove_nth_def
proof (induction xs arbitrary: i)
  case (Cons x xs)
  then show ?case by (cases i) (auto simp: nth_mem)
qed simp

lemma removeAt_ok:
  assumes "wf_pipeline p" and "i < length (ctxs p)"
  shows "\<exists>p'. removeAt i p = Inr p' \<and> wf_pipeline p' \<and> handlers_of p' = remove_nth i (handlers_of p) \<and>
    ctxs p' = remove_nth i (ctxs p) \<and> ctx_key p' = ctx_key p"
proof -
  let ?c = "ctxs p ! i"
  from assms have "distinct (ctxs p)" by (simp add: wf_key)
  note nth = remove_nth_remove1 [OF this assms(2), symmetric]
  have mem: "?c \<in> set (ctxs p)" using assms(2) by simp
  with assms(1) have ins: "key_in (ctx_key p ?c) \<longleftrightarrow> ?c \<in> set (inCtxs p)"
    and outs: "key_out (ctx_key p ?c) \<longleftrightarrow> ?c \<in> set (outCtxs p)" by (auto simp: wf_key)
  define q where "q = ctx_detachPipeline ?c p"
  have q: "ctxs q = ctxs p" "inCtxs q = inCtxs p" "outCtxs q = outCtxs p" "next_ctx q = next_ctx p"
    "ctx_key q = ctx_key p" by (simp_all add: q_def pipe_simps)
  let ?p' = "q\<lparr>inCtxs := remove1 ?c (inCtxs p), outCtxs := remove1 ?c (outCtxs p),
    ctxs := remove_nth i (ctxs p)\<rparr>"
  have key: "ctx_key ?p' = ctx_key p" using q(5) by simp
  have "removeAt i p = Inr ?p'"
    using ins outs
    by (auto simp: removeAt_def Let_def q_def [symmetric] q is_in_key is_out_key remove_nth_def
        remove1_idem)
  moreover have "wf_pipeline ?p'"
    using assms(1) unfolding nth by (auto simp: wf_key q filter_remove1 dest: notin_set_remove1)
  moreover have "handlers_of ?p' = remove_nth i (handlers_of p)"
    by (simp add: handlers_of_def q remove_nth_def take_map drop_map)
  ultimately show ?thesis using key by auto
qed

text \<open>\<open>key_matches H h k\<close>: the context is one \<open>removeHelper\<close> removes.\<close>

definition key_matches :: "handler_class \<Rightarrow> handler_id option \<Rightarrow> handler_class \<times> handler_id \<Rightarrow> bool" where
  "key_matches H h k \<longleftrightarrow> fst k = H \<and> (h = None \<or> h = Some (snd k))"

lemma drop_remove_nth: "i < length xs \<Longrightarrow> drop i (remove_nth i xs) = drop (Suc i) xs"
  "i < length xs \<Longrightarrow> take i (remove_nth i xs) = take i xs"
  "i < length xs \<Longrightarrow> length (remove_nth i xs) = length xs - 1"
  by (simp_all add: remove_nth_def)

lemma removeHelper_loop_ok:
  "wf_pipeline p \<Longrightarrow> i \<le> length (ctxs p) \<Longrightarrow>
   \<exists>p'. removeHelper_loop H h i r p =
      Inr (r \<or> (\<exists>k \<in> set (drop i (handlers_of p)). key_matches H h k), p') \<and> wf_pipeline p' \<and>
     handlers_of p' = take i (handlers_of p) @
       filter (\<lambda>k. \<not> key_matches H h k) (drop i (handlers_of p))"
proof (induction H h i r p rule: removeHelper_loop.induct)
  case (1 H h i r p)
  have len: "length (handlers_of p) = length (ctxs p)" by (simp add: handlers_of_def)
  show ?case
  proof (cases "i < length (ctxs p)")
    case False
    with 1 show ?thesis
      by (subst removeHelper_loop.simps) (simp add: len)
  next
    case i: True
    let ?k = "handlers_of p ! i"
    have dr: "drop i (handlers_of p) = ?k # drop (Suc i) (handlers_of p)"
      using i by (metis Cons_nth_drop_Suc len)
    have k: "?k = ctx_key p (ctxs p ! i)" using i by (simp add: handlers_of_def)
    show ?thesis
    proof (cases "key_matches H h ?k")
      case True
      then have match: "ctx_class (ctx_store p (ctxs p ! i)) = H \<and>
          (h = None \<or> h = Some (ctx_handler (ctx_store p (ctxs p ! i))))"
        by (simp add: k key_matches_def ctx_key_def)
      from removeAt_ok [OF "1.prems"(1) i] obtain p1 where p1: "removeAt i p = Inr p1"
        "wf_pipeline p1" "handlers_of p1 = remove_nth i (handlers_of p)"
        "ctxs p1 = remove_nth i (ctxs p)" by blast
      have "i \<le> length (ctxs p1)" using i by (simp add: p1(4) drop_remove_nth(3))
      from "1.IH"(1) [OF i refl match p1(1,2) this] p1 match i show ?thesis
        using True len
        by (subst removeHelper_loop.simps) (simp add: p1(3) drop_remove_nth dr)
    next
      case False
      then have "\<not> (ctx_class (ctx_store p (ctxs p ! i)) = H \<and>
          (h = None \<or> h = Some (ctx_handler (ctx_store p (ctxs p ! i)))))"
        by (simp add: k key_matches_def ctx_key_def)
      from "1.IH"(2) [OF i refl this "1.prems"(1)] this i show ?thesis
        using False len
        by (subst removeHelper_loop.simps) (auto simp: Let_def dr take_Suc_conv_app_nth)
    qed
  qed
qed

lemma removeHelper_ok:
  assumes "wf_pipeline p"
  shows "if \<exists>k \<in> set (handlers_of p). key_matches H h k
    then \<exists>p'. removeHelper H h p = Inr p' \<and> wf_pipeline p' \<and>
      handlers_of p' = filter (\<lambda>k. \<not> key_matches H h k) (handlers_of p)
    else removeHelper H h p = Inl (InvalidArgument ''No such handler in pipeline'')"
  using removeHelper_loop_ok [OF assms, of 0 H h False] by (auto simp: removeHelper_def)

section \<open>Finalizing\<close>

fun succ_of :: "ctx_id list \<Rightarrow> ctx_id \<Rightarrow> ctx_id option" where
  "succ_of (x # y # xs) c = (if c = x then Some y else succ_of (y # xs) c)"
| "succ_of _ c = None"

definition in_fits :: "Pipeline \<Rightarrow> ctx_id \<Rightarrow> ctx_id \<Rightarrow> bool" where
  "in_fits p c d \<longleftrightarrow> rout (fst (ctx_key p c)) = rin (fst (ctx_key p d))"

definition out_fits :: "Pipeline \<Rightarrow> ctx_id \<Rightarrow> ctx_id \<Rightarrow> bool" where
  "out_fits p c d \<longleftrightarrow> wout (fst (ctx_key p c)) = win (fst (ctx_key p d))"

definition set_links_in :: "ctx_id list \<Rightarrow> Pipeline \<Rightarrow> Pipeline" where
  "set_links_in cs p = p\<lparr>ctx_store := (\<lambda>c. if c \<in> set cs
     then (ctx_store p c)\<lparr>nextIn := succ_of cs c\<rparr> else ctx_store p c)\<rparr>"

definition set_links_out :: "ctx_id list \<Rightarrow> Pipeline \<Rightarrow> Pipeline" where
  "set_links_out cs p = p\<lparr>ctx_store := (\<lambda>c. if c \<in> set cs
     then (ctx_store p c)\<lparr>nextOut := succ_of cs c\<rparr> else ctx_store p c)\<rparr>"

lemma succ_of_notin: "c \<notin> set xs \<Longrightarrow> succ_of xs c = None"
  by (induction xs rule: induct_list012) auto

lemma ctx_key_nextIn [simp]: "ctx_key (upd_ctx c (\<lambda>x. x\<lparr>nextIn := n\<rparr>) p) = ctx_key p"
  and ctx_key_nextOut [simp]: "ctx_key (upd_ctx c (\<lambda>x. x\<lparr>nextOut := n\<rparr>) p) = ctx_key p"
  by (auto simp: ctx_key_def fun_eq_iff upd_ctx_def)

lemma setNextIn_eq:
  "key_in (ctx_key p d) \<Longrightarrow> setNextIn c (Some d) p =
     (if in_fits p c d then Inr (upd_ctx c (\<lambda>x. x\<lparr>nextIn := Some d\<rparr>) p)
      else Inl (InvalidArgument (''inbound type mismatch after '' @ hc_name (fst (ctx_key p c)))))"
  by (simp add: setNextIn_def is_InboundLink_def is_in_key in_fits_def ctx_key_def)

lemma setNextOut_eq:
  "key_out (ctx_key p d) \<Longrightarrow> setNextOut c (Some d) p =
     (if out_fits p c d then Inr (upd_ctx c (\<lambda>x. x\<lparr>nextOut := Some d\<rparr>) p)
      else Inl (InvalidArgument (''outbound type mismatch after '' @ hc_name (fst (ctx_key p c)))))"
  by (simp add: setNextOut_def is_OutboundLink_def is_out_key out_fits_def ctx_key_def)

lemma in_fits_cong: "ctx_key p' = ctx_key p \<Longrightarrow> in_fits p' = in_fits p"
  and out_fits_cong: "ctx_key p' = ctx_key p \<Longrightarrow> out_fits p' = out_fits p"
  by (auto simp: in_fits_def out_fits_def fun_eq_iff)

lemma link_in_ok:
  "distinct cs \<Longrightarrow> \<forall>c \<in> set cs. key_in (ctx_key p c) \<Longrightarrow> successively (in_fits p) cs \<Longrightarrow>
   link_in cs p = (None, set_links_in cs p)"
proof (induction cs p rule: link_in.induct)
  case (1 p)
  then show ?case by (simp add: set_links_in_def)
next
  case (2 c p)
  then show ?case by (auto simp: setNextIn_def set_links_in_def upd_ctx_def fun_eq_iff)
next
  case (3 c d cs p)
  let ?p = "upd_ctx c (\<lambda>x. x\<lparr>nextIn := Some d\<rparr>) p"
  have step: "setNextIn c (Some d) p = Inr ?p" using 3 by (simp add: setNextIn_eq)
  have "link_in (d # cs) ?p = (None, set_links_in (d # cs) ?p)"
    using 3 by (intro "3.IH" [OF step]) (simp_all add: in_fits_cong [of ?p p])
  moreover have "set_links_in (d # cs) ?p = set_links_in (c # d # cs) p"
    using 3 by (auto simp: set_links_in_def upd_ctx_def fun_eq_iff)
  ultimately show ?case by (simp add: step)
qed

lemma link_in_mismatch:
  "\<forall>c \<in> set cs. key_in (ctx_key p c) \<Longrightarrow> \<not> successively (in_fits p) cs \<Longrightarrow>
   \<exists>n p'. link_in cs p = (Some (InvalidArgument (''inbound type mismatch after '' @ n)), p')"
proof (induction cs p rule: link_in.induct)
  case (3 c d cs p)
  let ?p = "upd_ctx c (\<lambda>x. x\<lparr>nextIn := Some d\<rparr>) p"
  show ?case
  proof (cases "in_fits p c d")
    case True
    then have "setNextIn c (Some d) p = Inr ?p" using 3 by (simp add: setNextIn_eq)
    with "3.IH" [OF this] 3(2,3) True show ?thesis by (simp add: in_fits_cong [of ?p p])
  next
    case False
    with 3 show ?thesis by (simp add: setNextIn_eq)
  qed
qed auto

lemma link_out_ok:
  "distinct cs \<Longrightarrow> \<forall>c \<in> set cs. key_out (ctx_key p c) \<Longrightarrow> successively (out_fits p) cs \<Longrightarrow>
   link_out cs p = (None, set_links_out cs p)"
proof (induction cs p rule: link_out.induct)
  case (1 p)
  then show ?case by (simp add: set_links_out_def)
next
  case (2 c p)
  then show ?case by (auto simp: setNextOut_def set_links_out_def upd_ctx_def fun_eq_iff)
next
  case (3 c d cs p)
  let ?p = "upd_ctx c (\<lambda>x. x\<lparr>nextOut := Some d\<rparr>) p"
  have step: "setNextOut c (Some d) p = Inr ?p" using 3 by (simp add: setNextOut_eq)
  have "link_out (d # cs) ?p = (None, set_links_out (d # cs) ?p)"
    using 3 by (intro "3.IH" [OF step]) (simp_all add: out_fits_cong [of ?p p])
  moreover have "set_links_out (d # cs) ?p = set_links_out (c # d # cs) p"
    using 3 by (auto simp: set_links_out_def upd_ctx_def fun_eq_iff)
  ultimately show ?case by (simp add: step)
qed

lemma link_out_mismatch:
  "\<forall>c \<in> set cs. key_out (ctx_key p c) \<Longrightarrow> \<not> successively (out_fits p) cs \<Longrightarrow>
   \<exists>n p'. link_out cs p = (Some (InvalidArgument (''outbound type mismatch after '' @ n)), p')"
proof (induction cs p rule: link_out.induct)
  case (3 c d cs p)
  let ?p = "upd_ctx c (\<lambda>x. x\<lparr>nextOut := Some d\<rparr>) p"
  show ?case
  proof (cases "out_fits p c d")
    case True
    then have "setNextOut c (Some d) p = Inr ?p" using 3 by (simp add: setNextOut_eq)
    with "3.IH" [OF this] 3(2,3) True show ?thesis by (simp add: out_fits_cong [of ?p p])
  next
    case False
    with 3 show ?thesis by (simp add: setNextOut_eq)
  qed
qed auto

lemma set_links_fields [pipe_simps]:
  "ctxs (set_links_in cs p) = ctxs p" "inCtxs (set_links_in cs p) = inCtxs p"
  "outCtxs (set_links_in cs p) = outCtxs p" "next_ctx (set_links_in cs p) = next_ctx p"
  "front_link (set_links_in cs p) = front_link p" "handler_store (set_links_in cs p) = handler_store p"
  "owner (set_links_in cs p) = owner p" "ctx_key (set_links_in cs p) = ctx_key p"
  "ctxs (set_links_out cs p) = ctxs p" "inCtxs (set_links_out cs p) = inCtxs p"
  "outCtxs (set_links_out cs p) = outCtxs p" "next_ctx (set_links_out cs p) = next_ctx p"
  "front_link (set_links_out cs p) = front_link p" "back_link (set_links_out cs p) = back_link p"
  "handler_store (set_links_out cs p) = handler_store p"
  "owner (set_links_out cs p) = owner p" "ctx_key (set_links_out cs p) = ctx_key p"
  by (auto simp: set_links_in_def set_links_out_def ctx_key_def fun_eq_iff)

lemma fold_attach_fields [pipe_simps]:
  "ctxs (fold ctx_attachPipeline cs p) = ctxs p" "inCtxs (fold ctx_attachPipeline cs p) = inCtxs p"
  "outCtxs (fold ctx_attachPipeline cs p) = outCtxs p"
  "next_ctx (fold ctx_attachPipeline cs p) = next_ctx p"
  "front_link (fold ctx_attachPipeline cs p) = front_link p"
  "back_link (fold ctx_attachPipeline cs p) = back_link p"
  "owner (fold ctx_attachPipeline cs p) = owner p"
  "ctx_key (fold ctx_attachPipeline cs p) = ctx_key p"
  by (induction cs arbitrary: p) (simp_all add: pipe_simps)

lemma fold_attach_store:
  "ctx_store (fold ctx_attachPipeline cs p) c =
     (if c \<in> set cs then (ctx_store p c)\<lparr>attached := True\<rparr> else ctx_store p c)"
  by (induction cs arbitrary: p) (simp_all add: pipe_simps)

definition front_of :: "cpp_type \<Rightarrow> Pipeline \<Rightarrow> ctx_id option" where
  "front_of R p = (if inCtxs p \<noteq> [] \<and> rin (fst (ctx_key p (hd (inCtxs p)))) = R
     then Some (hd (inCtxs p)) else None)"

definition back_of :: "cpp_type \<Rightarrow> Pipeline \<Rightarrow> ctx_id option" where
  "back_of W p = (if outCtxs p \<noteq> [] \<and> win (fst (ctx_key p (last (outCtxs p)))) = W
     then Some (last (outCtxs p)) else None)"

definition linked :: "cpp_type \<Rightarrow> cpp_type \<Rightarrow> Pipeline \<Rightarrow> Pipeline" where
  "linked R W p = set_links_out (rev (outCtxs p))
     ((set_links_in (inCtxs p) (p\<lparr>front_link := front_of R p\<rparr>))\<lparr>back_link := back_of W p\<rparr>)"

lemma wf_lists:
  assumes "wf_pipeline p"
  shows "distinct (inCtxs p)" "distinct (rev (outCtxs p))"
    "\<forall>c \<in> set (inCtxs p). key_in (ctx_key p c)" "\<forall>c \<in> set (rev (outCtxs p)). key_out (ctx_key p c)"
  using assms by (auto simp: wf_key)

lemma is_InboundLink_key: "is_InboundLink t (ctx_store p c) \<longleftrightarrow>
    key_in (ctx_key p c) \<and> rin (fst (ctx_key p c)) = t"
  and is_OutboundLink_key: "is_OutboundLink t (ctx_store p c) \<longleftrightarrow>
    key_out (ctx_key p c) \<and> win (fst (ctx_key p c)) = t"
  by (simp_all add: is_InboundLink_def is_OutboundLink_def is_in_key is_out_key) (simp_all add: ctx_key_def)

lemma finalize_front:
  assumes "wf_pipeline p"
  shows "cast_front R p = front_of R p"
  using wf_lists(3) [OF assms] by (auto simp: cast_front_def front_of_def is_InboundLink_key)

lemma finalize_back:
  assumes "wf_pipeline p" "outCtxs q = outCtxs p" "ctx_key q = ctx_key p"
  shows "cast_back W q = back_of W p"
  using wf_lists(4) [OF assms(1)] assms(2,3)
  by (auto simp: cast_back_def back_of_def is_OutboundLink_key)

lemma finalize_ok:
  assumes "wf_pipeline p" "successively (in_fits p) (inCtxs p)"
    "successively (out_fits p) (rev (outCtxs p))"
  shows "finalize R W p = (None, fold ctx_attachPipeline (rev (ctxs p)) (linked R W p))"
proof -
  let ?p1 = "p\<lparr>front_link := front_of R p\<rparr>"
  let ?p2 = "set_links_in (inCtxs p) ?p1"
  let ?p3 = "?p2\<lparr>back_link := back_of W p\<rparr>"
  note wf = wf_lists [OF assms(1)]
  have l1: "link_in (inCtxs p) ?p1 = (None, ?p2)"
    using wf assms(2) by (intro link_in_ok) (simp_all add: in_fits_cong [of ?p1 p])
  have l2: "link_out (rev (outCtxs p)) ?p3 = (None, linked R W p)"
    unfolding linked_def
    using wf assms(3) by (intro link_out_ok) (simp_all add: out_fits_cong [of ?p3 p] pipe_simps)
  have b: "cast_back W ?p2 = back_of W p"
    by (rule finalize_back [OF assms(1)]) (simp_all add: pipe_simps)
  have "ctxs (linked R W p) = ctxs p" by (simp add: linked_def pipe_simps)
  then show ?thesis
    unfolding finalize_def Let_def finalize_front [OF assms(1)]
    by (simp add: l1 b l2 pipe_simps)
qed

lemma finalize_mismatch:
  assumes "wf_pipeline p"
    "\<not> (successively (in_fits p) (inCtxs p) \<and> successively (out_fits p) (rev (outCtxs p)))"
  shows "\<exists>msg p'. finalize R W p = (Some (InvalidArgument msg), p')"
proof (cases "successively (in_fits p) (inCtxs p)")
  case False
  let ?p1 = "p\<lparr>front_link := front_of R p\<rparr>"
  obtain n p' where "link_in (inCtxs p) ?p1 =
      (Some (InvalidArgument (''inbound type mismatch after '' @ n)), p')"
    using link_in_mismatch [of "inCtxs p" ?p1] wf_lists [OF assms(1)] False
    by (auto simp: in_fits_cong [of ?p1 p])
  then show ?thesis
    unfolding finalize_def Let_def finalize_front [OF assms(1)] by simp
next
  case True
  let ?p1 = "p\<lparr>front_link := front_of R p\<rparr>"
  let ?p2 = "set_links_in (inCtxs p) ?p1"
  let ?p3 = "?p2\<lparr>back_link := back_of W p\<rparr>"
  have l1: "link_in (inCtxs p) ?p1 = (None, ?p2)"
    using wf_lists [OF assms(1)] True by (intro link_in_ok) (simp_all add: in_fits_cong [of ?p1 p])
  obtain n p' where l2: "link_out (rev (outCtxs p)) ?p3 =
      (Some (InvalidArgument (''outbound type mismatch after '' @ n)), p')"
    using link_out_mismatch [of "rev (outCtxs p)" ?p3] wf_lists [OF assms(1)] True assms(2)
    by (auto simp: out_fits_cong [of ?p3 p] pipe_simps)
  have b: "cast_back W ?p2 = back_of W p"
    by (rule finalize_back [OF assms(1)]) (simp_all add: pipe_simps)
  show ?thesis
    unfolding finalize_def Let_def finalize_front [OF assms(1)]
    by (simp add: l1 b l2 pipe_simps)
qed

section \<open>Events along a chain of contexts\<close>

text \<open>
  When every handler answers an event by sending events the same way (\<open>g c ev\<close>, in order), the calls
  visit the contexts like a depth-first walk: a handler's second event starts when the first has
  been carried to the end.
\<close>

fun visits :: "(ctx_id \<Rightarrow> 'e \<Rightarrow> 'd) \<Rightarrow> (ctx_id \<Rightarrow> 'e \<Rightarrow> 'e list) \<Rightarrow> ctx_id list \<Rightarrow> 'e \<Rightarrow> 'd list" where
  "visits to g [] ev = []"
| "visits to g (c # cs) ev = to c ev # concat (map (visits to g cs) (g c ev))"

locale event_chain =
  fixes p :: Pipeline and react :: "'m reaction"
    and to :: "ctx_id \<Rightarrow> 'e \<Rightarrow> 'm delivery" and fire :: "'e \<Rightarrow> ('m, 'm) ctx_call"
    and nxt :: "ContextImplBase \<Rightarrow> ctx_id option"
    and g :: "ctx_id \<Rightarrow> 'e \<Rightarrow> 'e list"
  assumes fire_next: "ctx_fire p c (fire ev) = map_option (\<lambda>d. to d ev) (nxt (ctx_store p c))"
    and to_ctx: "delivered_to (to c ev) = c"
begin

definition reacts :: "ctx_id \<Rightarrow> bool" where
  "reacts c \<longleftrightarrow> (\<forall>ev. react (ctx_handler (ctx_store p c)) (to c ev) = map fire (g c ev))"

lemma receive: "reacts c \<Longrightarrow> ctx_receive p react (to c ev) = map (\<lambda>e. (c, fire e)) (g c ev)"
  by (simp add: ctx_receive_def reacts_def to_ctx)

lemma run_chain:
  assumes "distinct (c # cs)" "\<forall>d \<in> set (c # cs). nxt (ctx_store p d) = succ_of (c # cs) d"
    "\<forall>d \<in> set cs. reacts d" "run_calls p react work = Some ds"
  shows "run_calls p react (map (\<lambda>e. (c, fire e)) evs @ work) =
    Some (concat (map (visits to g cs) evs) @ ds)"
  using assms
proof (induction cs arbitrary: c evs work ds)
  case Nil
  then show ?case
    by (induction evs) (simp, subst run_calls.simps, simp add: fire_next)
next
  case (Cons d cs)
  from Cons.prems have c: "nxt (ctx_store p c) = Some d" by simp
  note outer = Cons.IH
  have d: "reacts d" and rest: "distinct (d # cs)" "\<forall>x \<in> set cs. reacts x"
    using Cons.prems by simp_all
  have links: "\<forall>x \<in> set (d # cs). nxt (ctx_store p x) = succ_of (d # cs) x"
  proof
    fix x assume x: "x \<in> set (d # cs)"
    with Cons.prems(1) have "x \<noteq> c" by auto
    with x Cons.prems(2) show "nxt (ctx_store p x) = succ_of (d # cs) x" by auto
  qed
  show ?case
  proof (induction evs)
    case Nil
    then show ?case using Cons.prems(4) by simp
  next
    case (Cons ev evs)
    from outer [OF rest(1) links rest(2) Cons.IH, of "g d ev"]
    show ?case
      by (simp, subst run_calls.simps) (simp add: fire_next c receive [OF d])
  qed
qed

lemma run_delivery_chain:
  assumes "distinct (c # cs)" "\<forall>d \<in> set (c # cs). nxt (ctx_store p d) = succ_of (c # cs) d"
    "\<forall>d \<in> set (c # cs). reacts d"
  shows "run_delivery p react (to c ev) = Some (visits to g (c # cs) ev)"
proof -
  have "run_calls p react [] = Some []" by (subst run_calls.simps) simp
  with run_chain [OF assms(1,2), of "[]" "[]" "g c ev"] assms(3)
  show ?thesis by (simp add: run_delivery_def receive)
qed

end

text \<open>The two directions are instances, on every pipeline.\<close>

interpretation in_chain: event_chain p react InTo FireIn nextIn g for p react g
  by unfold_locales simp_all

interpretation out_chain: event_chain p react OutTo FireOut nextOut g for p react g
  by unfold_locales simp_all

lemma linked_store:
  "nextIn (ctx_store (linked R W p) c) =
     (if c \<in> set (inCtxs p) then succ_of (inCtxs p) c else nextIn (ctx_store p c))"
  "nextOut (ctx_store (linked R W p) c) =
     (if c \<in> set (outCtxs p) then succ_of (rev (outCtxs p)) c else nextOut (ctx_store p c))"
  "ctx_handler (ctx_store (linked R W p) c) = ctx_handler (ctx_store p c)"
  by (auto simp: linked_def set_links_in_def set_links_out_def)

lemma linked_attached: "attached (ctx_store (linked R W p) c) = attached (ctx_store p c)"
  and linked_lifecycle: "lifecycle (linked R W p) = lifecycle p"
  by (auto simp: linked_def set_links_in_def set_links_out_def)

lemma linked_fields [pipe_simps]:
  "ctxs (linked R W p) = ctxs p" "front_link (linked R W p) = front_of R p"
  "back_link (linked R W p) = back_of W p" "handler_store (linked R W p) = handler_store p"
  "inCtxs (linked R W p) = inCtxs p" "outCtxs (linked R W p) = outCtxs p"
  "next_ctx (linked R W p) = next_ctx p" "ctx_key (linked R W p) = ctx_key p"
  "owner (linked R W p) = owner p"
  by (simp_all add: linked_def pipe_simps)

lemma finalize_cases:
  assumes "wf_pipeline p" "finalize R W p = (None, p')"
  shows "p' = fold ctx_attachPipeline (rev (ctxs p)) (linked R W p)"
    and "successively (in_fits p) (inCtxs p)" and "successively (out_fits p) (rev (outCtxs p))"
proof -
  have fits: "successively (in_fits p) (inCtxs p) \<and> successively (out_fits p) (rev (outCtxs p))"
  proof (rule ccontr)
    assume "\<not> ?thesis"
    from finalize_mismatch [OF assms(1) this, of R W] assms(2) show False by auto
  qed
  then show "successively (in_fits p) (inCtxs p)" "successively (out_fits p) (rev (outCtxs p))"
    by simp_all
  with finalize_ok [OF assms(1), of R W] assms(2)
  show "p' = fold ctx_attachPipeline (rev (ctxs p)) (linked R W p)" by simp
qed

lemma finalize_fields:
  assumes "wf_pipeline p" "finalize R W p = (None, p')"
  shows "wf_pipeline p'" "handlers_of p' = handlers_of p" "front_link p' = front_of R p"
    "back_link p' = back_of W p" "ctx_handler (ctx_store p' c) = ctx_handler (ctx_store p c)"
    "c \<in> set (inCtxs p) \<Longrightarrow> nextIn (ctx_store p' c) = succ_of (inCtxs p) c"
    "c \<in> set (outCtxs p) \<Longrightarrow> nextOut (ctx_store p' c) = succ_of (rev (outCtxs p)) c"
  unfolding finalize_cases(1) [OF assms]
  using assms(1)
  by (simp_all add: wf_key handlers_of_def pipe_simps fold_attach_store linked_store)

section \<open>Attaching and detaching\<close>

abbreviation handler_at :: "Pipeline \<Rightarrow> ctx_id \<Rightarrow> handler_id" where
  "handler_at p c \<equiv> ctx_handler (ctx_store p c)"

lemma attach_handler:
  "handler_store (ctx_attachPipeline c p) =
     (if attached (ctx_store p c) then handler_store p
      else (handler_store p)(handler_at p c :=
        \<lparr>attachCount = attachCount (handler_store p (handler_at p c)) + 1,
         handler_ctx = (if attachCount (handler_store p (handler_at p c)) + 1 = 1
           then Some c else None)\<rparr>))"
  "lifecycle (ctx_attachPipeline c p) =
     (if attached (ctx_store p c) then lifecycle p
      else lifecycle p @ [AttachPipeline (handler_at p c) c])"
  by (auto simp: ctx_attachPipeline_def attachContext_def Let_def pipe_simps)

lemma detach_handler:
  "handler_store (ctx_detachPipeline c p) =
     (handler_store p)(handler_at p c :=
        \<lparr>attachCount = (let n = attachCount (handler_store p (handler_at p c)) in
           if n \<ge> 1 then n - 1 else n), handler_ctx = None\<rparr>)"
  "lifecycle (ctx_detachPipeline c p) = lifecycle p @ [DetachPipeline (handler_at p c) c]"
  by (auto simp: ctx_detachPipeline_def detachContext_def Let_def pipe_simps)

lemma attach_keeps [simp]:
  "handler_at (ctx_attachPipeline c p) d = handler_at p d"
  "handler_at (ctx_detachPipeline c p) d = handler_at p d"
  "attached (ctx_store (ctx_attachPipeline c p) d) \<longleftrightarrow> c = d \<or> attached (ctx_store p d)"
  by (auto simp: pipe_simps)

lemma fold_attach_other:
  "\<forall>c \<in> set cs. handler_at p c \<noteq> h \<Longrightarrow>
   handler_store (fold ctx_attachPipeline cs p) h = handler_store p h"
  by (induction cs arbitrary: p) (auto simp: attach_handler)

lemma fold_attach_handler:
  "distinct (map (handler_at p) cs) \<Longrightarrow>
   \<forall>c \<in> set cs. \<not> attached (ctx_store p c) \<and> attachCount (handler_store p (handler_at p c)) = 0 \<Longrightarrow>
   c \<in> set cs \<Longrightarrow>
   handler_store (fold ctx_attachPipeline cs p) (handler_at p c) =
     \<lparr>attachCount = 1, handler_ctx = Some c\<rparr>"
proof (induction cs arbitrary: p)
  case (Cons d cs)
  let ?p = "ctx_attachPipeline d p"
  have notin: "\<forall>x \<in> set cs. handler_at p x \<noteq> handler_at p d" using Cons.prems(1) by (auto simp: image_iff eq_commute)
  show ?case
  proof (cases "c = d")
    case True
    with Cons.prems notin show ?thesis
      by (simp add: fold_attach_other attach_handler)
  next
    case False
    with Cons.prems have "c \<in> set cs" by simp
    moreover have "\<forall>x \<in> set cs. \<not> attached (ctx_store ?p x) \<and>
        attachCount (handler_store ?p (handler_at ?p x)) = 0"
      using Cons.prems notin by (auto simp: attach_handler)
    ultimately show ?thesis using Cons.IH [of ?p] Cons.prems(1) by simp
  qed
qed simp

lemma fold_attach_lifecycle:
  "distinct cs \<Longrightarrow> lifecycle (fold ctx_attachPipeline cs p) = lifecycle p @
     map (\<lambda>c. AttachPipeline (handler_at p c) c) (filter (\<lambda>c. \<not> attached (ctx_store p c)) cs)"
proof (induction cs arbitrary: p)
  case (Cons d cs)
  have "filter (\<lambda>c. c \<noteq> d \<and> \<not> attached (ctx_store p c)) cs = filter (\<lambda>c. \<not> attached (ctx_store p c)) cs"
    using Cons.prems by (intro filter_cong) auto
  with Cons show ?case by (auto simp: attach_handler eq_commute)
qed simp

lemma detach_all_other:
  "\<forall>c \<in> set cs. Some c \<noteq> ow \<longrightarrow> handler_at p c \<noteq> h \<Longrightarrow>
   handler_store (detach_all ow cs p) h = handler_store p h"
  by (induction cs arbitrary: p) (auto simp: detach_handler)

lemma detach_all_handler:
  "distinct (map (handler_at p) cs) \<Longrightarrow> c \<in> set cs \<Longrightarrow> Some c \<noteq> ow \<Longrightarrow>
   handler_store (detach_all ow cs p) (handler_at p c) =
     \<lparr>attachCount = (let n = attachCount (handler_store p (handler_at p c)) in
        if n \<ge> 1 then n - 1 else n), handler_ctx = None\<rparr>"
proof (induction cs arbitrary: p)
  case (Cons d cs)
  have notin: "\<forall>x \<in> set cs. handler_at p x \<noteq> handler_at p d" using Cons.prems(1) by (auto simp: image_iff eq_commute)
  define q where "q = (if Some d \<noteq> ow then ctx_detachPipeline d p else p)"
  have at: "handler_at q x = handler_at p x" for x by (auto simp: q_def)
  show ?case
  proof (cases "c = d")
    case True
    with Cons.prems notin show ?thesis
      by (simp add: detach_all_other detach_handler)
  next
    case False
    with Cons.prems have c: "c \<in> set cs" by simp
    moreover have "handler_store q (handler_at p c) = handler_store p (handler_at p c)"
      using c notin by (auto simp: q_def detach_handler)
    ultimately show ?thesis using Cons.IH [of q] Cons.prems at by (simp add: q_def [symmetric])
  qed
qed simp

section \<open>Properties\<close>

text \<open>The operations that change which handlers a pipeline has, and the lists of handlers they stand for.\<close>

datatype pipeline_op =
    AddBack handler_class handler_id
  | AddFront handler_class handler_id
  | RemoveFront
  | RemoveBack
  | RemoveClass handler_class
  | RemoveHandler handler_class handler_id
  | SetOwner handler_class handler_id
  | Finalize cpp_type cpp_type

definition pipeline_do :: "pipeline_op \<Rightarrow> Pipeline \<Rightarrow> cpp_exn + Pipeline" where
  "pipeline_do a p =
     (case a of
        AddBack H h \<Rightarrow> Inr (addBack H h p)
      | AddFront H h \<Rightarrow> Inr (addFront H h p)
      | RemoveFront \<Rightarrow> removeFront p
      | RemoveBack \<Rightarrow> removeBack p
      | RemoveClass H \<Rightarrow> remove_class H p
      | RemoveHandler H h \<Rightarrow> remove_handler H h p
      | SetOwner H h \<Rightarrow> Inr (snd (setOwner H h p))
      | Finalize R W \<Rightarrow>
          (case finalize R W p of (None, p') \<Rightarrow> Inr p' | (Some e, p') \<Rightarrow> Inl e))"

fun handlers_do :: "pipeline_op \<Rightarrow> (handler_class \<times> handler_id) list \<Rightarrow> (handler_class \<times> handler_id) list" where
  "handlers_do (AddBack H h) ks = ks @ [(H, h)]"
| "handlers_do (AddFront H h) ks = (H, h) # ks"
| "handlers_do RemoveFront ks = tl ks"
| "handlers_do RemoveBack ks = butlast ks"
| "handlers_do (RemoveClass H) ks = filter (\<lambda>k. fst k \<noteq> H) ks"
| "handlers_do (RemoveHandler H h) ks = filter (\<lambda>k. k \<noteq> (H, h)) ks"
| "handlers_do (SetOwner H h) ks = ks"
| "handlers_do (Finalize R W) ks = ks"

lemma setOwner_ok: "wf_pipeline p \<Longrightarrow> wf_pipeline (snd (setOwner H h p)) \<and>
    handlers_of (snd (setOwner H h p)) = handlers_of p"
  by (auto simp: setOwner_def wf_key handlers_of_def split: option.splits)

lemma removeFront_ok:
  assumes "wf_pipeline p" "handlers_of p \<noteq> []"
  shows "\<exists>p'. removeFront p = Inr p' \<and> wf_pipeline p' \<and> handlers_of p' = tl (handlers_of p)"
  using removeAt_ok [OF assms(1), of 0] assms(2)
  by (auto simp: removeFront_def handlers_of_def remove_nth_def drop_Suc)

lemma removeBack_ok:
  assumes "wf_pipeline p" "handlers_of p \<noteq> []"
  shows "\<exists>p'. removeBack p = Inr p' \<and> wf_pipeline p' \<and> handlers_of p' = butlast (handlers_of p)"
  using removeAt_ok [OF assms(1), of "length (ctxs p) - 1"] assms(2)
  by (auto simp: removeBack_def handlers_of_def remove_nth_def butlast_conv_take take_map)

definition types_fit :: "(handler_class \<times> handler_id) list \<Rightarrow> bool" where
  "types_fit ks \<longleftrightarrow> successively (\<lambda>k k'. rout (fst k) = rin (fst k')) (filter key_in ks) \<and>
     successively (\<lambda>k k'. win (fst k) = wout (fst k')) (filter key_out ks)"

lemma finalize_types:
  assumes "wf_pipeline p"
  shows "if types_fit (handlers_of p) then fst (finalize R W p) = None
     else \<exists>msg. fst (finalize R W p) = Some (InvalidArgument msg)"
proof -
  have "successively (in_fits p) (inCtxs p) \<longleftrightarrow>
      successively (\<lambda>k k'. rout (fst k) = rin (fst k')) (filter key_in (handlers_of p))"
    using assms
    by (simp add: wf_key handlers_of_def filter_map successively_map in_fits_def [abs_def] o_def)
  moreover have "successively (out_fits p) (rev (outCtxs p)) \<longleftrightarrow>
      successively (\<lambda>k k'. win (fst k) = wout (fst k')) (filter key_out (handlers_of p))"
    using assms
    by (simp add: wf_key handlers_of_def filter_map successively_map out_fits_def [abs_def] o_def
        eq_commute)
  ultimately show ?thesis
    using finalize_ok [OF assms, of R W] finalize_mismatch [OF assms, of R W] unfolding types_fit_def by fastforce
qed

text \<open>
  C1. Every operation that succeeds keeps the invariant (the inbound and outbound lists are the
  inbound and outbound contexts of the list of all contexts, in the same order, without repetition)
  and changes the list of handlers as the same operation on a plain list does. An operation that
  fails throws invalid_argument; no CHECK of removeAt ever fails.
\<close>

theorem pipeline_refines_handler_list:
  assumes "wf_pipeline p"
  shows "case pipeline_do a p of
      Inr p' \<Rightarrow> wf_pipeline p' \<and> handlers_of p' = handlers_do a (handlers_of p)
    | Inl e \<Rightarrow> \<exists>msg. e = InvalidArgument msg"
proof (cases a)
  case (RemoveFront)
  with removeFront_ok [OF assms] show ?thesis
    by (cases "handlers_of p = []") (auto simp: pipeline_do_def removeFront_def handlers_of_def)
next
  case (RemoveBack)
  with removeBack_ok [OF assms] show ?thesis
    by (cases "handlers_of p = []") (auto simp: pipeline_do_def removeBack_def handlers_of_def)
next
  case (RemoveClass H)
  with removeHelper_ok [OF assms, of H None] show ?thesis
    by (auto simp: pipeline_do_def remove_class_def key_matches_def split: if_splits)
next
  case (RemoveHandler H h)
  have "(\<lambda>k. \<not> key_matches H (Some h) k) = (\<lambda>k. k \<noteq> (H, h))"
    by (auto simp: key_matches_def fun_eq_iff)
  with RemoveHandler removeHelper_ok [OF assms, of H "Some h"] show ?thesis
    by (auto simp: pipeline_do_def remove_handler_def split: if_splits)
next
  case (Finalize R W)
  obtain e p' where fin: "finalize R W p = (e, p')" by (cases "finalize R W p")
  show ?thesis
  proof (cases e)
    case None
    with fin finalize_fields [OF assms, of R W p'] Finalize show ?thesis by (simp add: pipeline_do_def)
  next
    case (Some x)
    with fin finalize_ok [OF assms, of R W] finalize_mismatch [OF assms, of R W]
    have "\<exists>msg. x = InvalidArgument msg" by fastforce
    with fin Some Finalize show ?thesis by (simp add: pipeline_do_def)
  qed
qed (use assms in \<open>simp_all add: pipeline_do_def addBack_ok addFront_ok setOwner_ok\<close>)

definition H_in :: handler_class where
  "H_in = \<lparr>hc_name = ''Logger'', hc_dir = IN, rin = ''bytes'', rout = ''bytes'', win = [], wout = []\<rparr>"

definition H_codec :: handler_class where
  "H_codec = \<lparr>hc_name = ''StringCodec'', hc_dir = BOTH, rin = ''bytes'', rout = ''string'',
     win = ''string'', wout = ''bytes''\<rparr>"

definition H_app :: handler_class where
  "H_app = \<lparr>hc_name = ''EchoHandler'', hc_dir = BOTH, rin = ''string'', rout = ''string'',
     win = ''string'', wout = ''string''\<rparr>"

definition null_ctx :: ContextImplBase where
  "null_ctx = \<lparr>ctx_class = H_in, ctx_handler = 0, nextIn = None, nextOut = None, attached = False\<rparr>"

definition null_handler :: HandlerBase where
  "null_handler = \<lparr>attachCount = 0, handler_ctx = None\<rparr>"

definition pipe3 :: Pipeline where
  "pipe3 = addBack H_app 12 (addBack H_codec 11 (addBack H_in 10
     (Pipeline_create 0 (\<lambda>_. null_ctx) (\<lambda>_. null_handler))))"

lemma wf_pipe3: "wf_pipeline pipe3" "handlers_of pipe3 = [(H_in, 10), (H_codec, 11), (H_app, 12)]"
  by (simp_all add: pipe3_def addBack_ok wf_create)

theorem pipeline_refines_handler_list_witness:
  "case pipeline_do (RemoveClass H_codec) pipe3 of
      Inr p' \<Rightarrow> wf_pipeline p' \<and>
        handlers_of p' = handlers_do (RemoveClass H_codec) (handlers_of pipe3)
    | Inl e \<Rightarrow> \<exists>msg. e = InvalidArgument msg"
  by (rule pipeline_refines_handler_list) (rule wf_pipe3)

text \<open>
  C25. finalize succeeds exactly when neighbouring inbound handlers agree on the message type passed
  inwards and neighbouring outbound handlers on the type passed outwards; otherwise it throws
  invalid_argument.
\<close>

theorem finalize_iff_types_fit:
  assumes "wf_pipeline p"
  shows "(if successively (\<lambda>k k'. rout (fst k) = rin (fst k')) (filter key_in (handlers_of p)) \<and>
            successively (\<lambda>k k'. win (fst k) = wout (fst k')) (filter key_out (handlers_of p))
          then fst (finalize R W p) = None
          else \<exists>msg. fst (finalize R W p) = Some (InvalidArgument msg))"
  using finalize_types [OF assms, of R W] by (simp add: types_fit_def)

theorem finalize_iff_types_fit_witness:
  "(if successively (\<lambda>k k'. rout (fst k) = rin (fst k')) (filter key_in (handlers_of pipe3)) \<and>
            successively (\<lambda>k k'. win (fst k) = wout (fst k')) (filter key_out (handlers_of pipe3))
          then fst (finalize ''bytes'' ''string'' pipe3) = None
          else \<exists>msg. fst (finalize ''bytes'' ''string'' pipe3) = Some (InvalidArgument msg))"
  by (rule finalize_iff_types_fit) (rule wf_pipe3)

text \<open>
  C19. In a finalized pipeline an inbound call visits the inbound handlers from the first added to the
  last, each one once for every event the one before it sends, depth first, and the call returns;
  this holds for all handlers that answer inbound events with inbound events only. In particular,
  an event that every handler forwards reaches each inbound handler exactly once, in order.
\<close>

theorem inbound_visits_in_order:
  assumes "wf_pipeline p" and "finalize R W p = (None, p')" and "front_link p' \<noteq> None"
    and "\<forall>c \<in> set (inCtxs p). \<forall>ev. react (ctx_handler (ctx_store p c)) (InTo c ev) = map FireIn (g c ev)"
  shows "Pipeline_inbound p' react ev = Inr (Some (visits InTo g (inCtxs p) ev))"
proof -
  note fin = finalize_fields [OF assms(1,2)]
  from assms(3) fin(3) obtain c cs where cs: "inCtxs p = c # cs" and front: "front_link p' = Some c"
    by (cases "inCtxs p") (auto simp: front_of_def split: if_splits)
  have "run_delivery p' react (InTo c ev) = Some (visits InTo g (c # cs) ev)"
    using wf_lists(1) [OF assms(1)] assms(4) fin(5,6)
    by (intro in_chain.run_delivery_chain) (simp_all add: in_chain.reacts_def cs)
  with front cs show ?thesis by (simp add: Pipeline_inbound_def)
qed

abbreviation forward_all :: "unit reaction" where
  "forward_all h d \<equiv> (case d of InTo c ev \<Rightarrow> [FireIn ev] | OutTo c ev \<Rightarrow> [FireOut ev])"

lemma finalize_pipe3:
  "finalize ''bytes'' ''string'' pipe3 = (None, snd (finalize ''bytes'' ''string'' pipe3))"
  "front_link (snd (finalize ''bytes'' ''string'' pipe3)) = Some 0"
  "back_link (snd (finalize ''bytes'' ''string'' pipe3)) = Some 2"
  "inCtxs pipe3 = [0, 1, 2]" "outCtxs pipe3 = [1, 2]"
proof -
  have "fst (finalize ''bytes'' ''string'' pipe3) = None" by code_simp
  then show "finalize ''bytes'' ''string'' pipe3 = (None, snd (finalize ''bytes'' ''string'' pipe3))"
    by (metis prod.collapse)
qed code_simp+

theorem inbound_visits_in_order_witness:
  "Pipeline_inbound (snd (finalize ''bytes'' ''string'' pipe3)) forward_all ReadEOF =
     Inr (Some (visits InTo (\<lambda>c ev. [ev]) (inCtxs pipe3) ReadEOF)) \<and>
   visits InTo (\<lambda>c ev. [ev]) (inCtxs pipe3) ReadEOF =
     [InTo 0 ReadEOF, InTo 1 ReadEOF, InTo 2 (ReadEOF :: unit in_event)]"
  using inbound_visits_in_order [OF wf_pipe3(1) finalize_pipe3(1), where react = forward_all
      and g = "\<lambda>c ev. [ev]"] by (simp add: finalize_pipe3(2,4))

text \<open>
  C20. Outbound calls visit the outbound handlers from the last added to the first, in the same way.
\<close>

theorem outbound_visits_in_order:
  assumes "wf_pipeline p" and "finalize R W p = (None, p')" and "back_link p' \<noteq> None"
    and "\<forall>c \<in> set (outCtxs p). \<forall>ev. react (ctx_handler (ctx_store p c)) (OutTo c ev) = map FireOut (g c ev)"
  shows "Pipeline_outbound p' react ev = Inr (Some (visits OutTo g (rev (outCtxs p)) ev))"
proof -
  note fin = finalize_fields [OF assms(1,2)]
  from assms(3) fin(4) obtain c cs where cs: "rev (outCtxs p) = c # cs" and "back_link p' = Some c"
    by (cases "outCtxs p" rule: rev_cases) (auto simp: back_of_def split: if_splits)
  moreover have "run_delivery p' react (OutTo c ev) = Some (visits OutTo g (c # cs) ev)"
    using wf_lists(2) [OF assms(1)] assms(4) fin(5,7) set_rev [of "outCtxs p"]
    by (intro out_chain.run_delivery_chain) (simp_all add: out_chain.reacts_def cs del: set_rev)
  ultimately show ?thesis by (simp add: Pipeline_outbound_def)
qed

theorem outbound_visits_in_order_witness:
  "Pipeline_outbound (snd (finalize ''bytes'' ''string'' pipe3)) forward_all Close =
     Inr (Some (visits OutTo (\<lambda>c ev. [ev]) (rev (outCtxs pipe3)) Close)) \<and>
   visits OutTo (\<lambda>c ev. [ev]) (rev (outCtxs pipe3)) Close = [OutTo 2 Close, OutTo 1 (Close :: unit out_event)]"
  using outbound_visits_in_order [OF wf_pipe3(1) finalize_pipe3(1), where react = forward_all
      and g = "\<lambda>c ev. [ev]"] by (simp add: finalize_pipe3(3,5))

text \<open>
  finalize attaches every handler once, from the last to the first, and a second finalize attaches
  nothing again; afterwards each handler that sits in the pipeline once and nowhere else answers
  getContext with its own context.
\<close>

theorem finalize_attaches_once:
  assumes "wf_pipeline p" and "finalize R W p = (None, p')"
    and "distinct (map snd (handlers_of p))"
    and "\<forall>c \<in> set (ctxs p). \<not> attached (ctx_store p c) \<and>
      attachCount (handler_store p (ctx_handler (ctx_store p c))) = 0"
  shows "lifecycle p' = lifecycle p @
      map (\<lambda>c. AttachPipeline (ctx_handler (ctx_store p c)) c) (rev (ctxs p)) \<and>
    (\<forall>c \<in> set (ctxs p). HandlerBase_getContext (handler_store p' (ctx_handler (ctx_store p c))) =
       Inr (Some c)) \<and>
    (\<forall>p''. finalize R W p' = (None, p'') \<longrightarrow> lifecycle p'' = lifecycle p')"
proof (intro conjI ballI allI impI)
  note p' = finalize_cases(1) [OF assms(1,2)]
  have dist: "distinct (rev (ctxs p))" using assms(1) by (simp add: wf_key)
  show "lifecycle p' = lifecycle p @
      map (\<lambda>c. AttachPipeline (ctx_handler (ctx_store p c)) c) (rev (ctxs p))"
    using assms(4) by (simp add: p' fold_attach_lifecycle [OF dist] linked_store linked_attached
        linked_lifecycle filter_True)
  show "HandlerBase_getContext (handler_store p' (handler_at p c)) = Inr (Some c)"
    if "c \<in> set (ctxs p)" for c
  proof -
    have "handler_store p' (handler_at (linked R W p) c) = \<lparr>attachCount = 1, handler_ctx = Some c\<rparr>"
      unfolding p' using assms(3,4) that
      by (intro fold_attach_handler)
        (simp_all add: linked_store linked_attached pipe_simps handlers_of_def ctx_key_def o_def rev_map [symmetric])
    then show ?thesis by (simp add: linked_store HandlerBase_getContext_def)
  qed
  fix p'' assume p'': "finalize R W p' = (None, p'')"
  have "\<forall>c \<in> set (ctxs p'). attached (ctx_store (linked R W p') c)"
    by (simp add: linked_attached p' pipe_simps fold_attach_store)
  moreover have "distinct (rev (ctxs p'))" using dist by (simp add: p' pipe_simps)
  ultimately show "lifecycle p'' = lifecycle p'"
    using finalize_cases(1) [OF finalize_fields(1) [OF assms(1,2)] p'']
    by (simp add: fold_attach_lifecycle linked_lifecycle filter_False)
qed

theorem finalize_attaches_once_witness:
  "lifecycle (snd (finalize ''bytes'' ''string'' pipe3)) =
      [AttachPipeline 12 2, AttachPipeline 11 1, AttachPipeline 10 0] \<and>
    HandlerBase_getContext (handler_store (snd (finalize ''bytes'' ''string'' pipe3)) 11) = Inr (Some 1) \<and>
    lifecycle (snd (finalize ''bytes'' ''string'' (snd (finalize ''bytes'' ''string'' pipe3)))) =
      lifecycle (snd (finalize ''bytes'' ''string'' pipe3))"
proof -
  let ?p = "snd (finalize ''bytes'' ''string'' pipe3)"
  have dist: "distinct (map snd (handlers_of pipe3))" by (simp add: wf_pipe3(2))
  have fresh: "\<forall>c \<in> set (ctxs pipe3). \<not> attached (ctx_store pipe3 c) \<and>
      attachCount (handler_store pipe3 (ctx_handler (ctx_store pipe3 c))) = 0" by code_simp
  note result = finalize_attaches_once [OF wf_pipe3(1) finalize_pipe3(1) dist fresh]
  have calls: "lifecycle pipe3 @ map (\<lambda>c. AttachPipeline (ctx_handler (ctx_store pipe3 c)) c) (rev (ctxs pipe3)) =
      [AttachPipeline 12 2, AttachPipeline 11 1, AttachPipeline 10 0]" by code_simp
  have one: "1 \<in> set (ctxs pipe3)" "ctx_handler (ctx_store pipe3 1) = 11" by code_simp+
  have "fst (finalize ''bytes'' ''string'' ?p) = None" by code_simp
  then have again: "finalize ''bytes'' ''string'' ?p = (None, snd (finalize ''bytes'' ''string'' ?p))"
    by (metis prod.collapse)
  show ?thesis
  proof (intro conjI)
    show "lifecycle ?p = [AttachPipeline 12 2, AttachPipeline 11 1, AttachPipeline 10 0]"
      using result calls by (metis (no_types, lifting))
    show "HandlerBase_getContext (handler_store ?p 11) = Inr (Some 1)"
      using result one by (metis (no_types, lifting))
    show "lifecycle (snd (finalize ''bytes'' ''string'' ?p)) = lifecycle ?p"
      using result again by (metis (no_types, lifting))
  qed
qed

text \<open>
  Destroying a finalized pipeline detaches every handler, which then has no context and an attach
  count of zero, except the owner's handler, which stays attached (setOwner).
\<close>

theorem destroy_detaches_all_but_owner:
  assumes "wf_pipeline p" and "finalize R W p = (None, p')"
    and "distinct (map snd (handlers_of p))"
    and "\<forall>c \<in> set (ctxs p). \<not> attached (ctx_store p c) \<and>
      attachCount (handler_store p (ctx_handler (ctx_store p c))) = 0"
    and "c \<in> set (ctxs p)"
  shows "HandlerBase_getContext (handler_store (Pipeline_destroy False p') (ctx_handler (ctx_store p c))) =
      Inr (if owner p = Some c then Some c else None)"
proof -
  note p' = finalize_cases(1) [OF assms(1,2)]
  have at: "handler_at p' x = handler_at p x" for x using finalize_fields(5) [OF assms(1,2)] .
  have fields: "ctxs p' = ctxs p" "owner p' = owner p" by (simp_all add: p' pipe_simps)
  have dist: "distinct (map (handler_at p') (ctxs p))"
    using assms(3) by (simp add: at handlers_of_def ctx_key_def o_def)
  have one: "handler_store p' (handler_at (linked R W p) c) = \<lparr>attachCount = 1, handler_ctx = Some c\<rparr>"
    unfolding p' using assms(3-5)
    by (intro fold_attach_handler)
      (simp_all add: linked_store linked_attached pipe_simps handlers_of_def ctx_key_def o_def rev_map [symmetric])
  then have one: "handler_store p' (handler_at p c) = \<lparr>attachCount = 1, handler_ctx = Some c\<rparr>"
    by (simp add: linked_store)
  show ?thesis
  proof (cases "owner p = Some c")
    case True
    have "handler_store (detach_all (owner p) (ctxs p) p') (handler_at p c) = handler_store p' (handler_at p c)"
      using dist assms(5) True by (intro detach_all_other) (auto simp: at distinct_map inj_on_def)
    then show ?thesis
      by (simp add: Pipeline_destroy_def detachHandlers_def fields one HandlerBase_getContext_def True)
  next
    case False
    then show ?thesis
      using detach_all_handler [OF dist assms(5), of "owner p"] one
      by (auto simp: Pipeline_destroy_def detachHandlers_def fields at HandlerBase_getContext_def Let_def)
  qed
qed

theorem destroy_detaches_all_but_owner_witness:
  "HandlerBase_getContext (handler_store (Pipeline_destroy False
       (snd (finalize ''bytes'' ''string'' pipe3))) (ctx_handler (ctx_store pipe3 1))) =
      Inr (if owner pipe3 = Some 1 then Some 1 else None)"
proof (rule destroy_detaches_all_but_owner [OF wf_pipe3(1) finalize_pipe3(1)])
  show "distinct (map snd (handlers_of pipe3))" by (simp add: wf_pipe3(2))
  show "\<forall>c \<in> set (ctxs pipe3). \<not> attached (ctx_store pipe3 c) \<and>
      attachCount (handler_store pipe3 (ctx_handler (ctx_store pipe3 c))) = 0"
    and "1 \<in> set (ctxs pipe3)" by code_simp+
qed

text \<open>
  A handler attached by two contexts that is detached from one of them has attach count one and a
  null context: its getContext then fails a CHECK, although it is still in a pipeline.
\<close>

theorem getContext_aborts_after_second_detach:
  assumes "attachCount (handler_store p (ctx_handler (ctx_store p c))) = 2"
  shows "HandlerBase_getContext (handler_store (ctx_detachPipeline c p) (ctx_handler (ctx_store p c))) =
    Inl CheckFailed"
  using assms by (simp add: detach_handler HandlerBase_getContext_def)

definition pipe_twice :: Pipeline where
  "pipe_twice = snd (finalize ''string'' ''string'' (addBack H_app 12 (addBack H_app 12
     (Pipeline_create 0 (\<lambda>_. null_ctx) (\<lambda>_. null_handler)))))"

theorem getContext_aborts_after_second_detach_witness:
  "HandlerBase_getContext (handler_store (ctx_detachPipeline 0 pipe_twice)
     (ctx_handler (ctx_store pipe_twice 0))) = Inl CheckFailed"
  by (rule getContext_aborts_after_second_detach) code_simp

text \<open>
  A StaticPipeline made of a list of handlers has them in the order given and satisfies the
  invariant, like a pipeline built with addBack, and is finalized under the same condition.
\<close>

theorem StaticPipeline_like_addBack:
  assumes "wf_pipeline p" and "ctxs p = []"
  shows "wf_pipeline (StaticPipeline_construct hs p) \<and> handlers_of (StaticPipeline_construct hs p) = hs \<and>
    handlers_of (fold (\<lambda>(H, h). addBack H h) hs p) = hs \<and>
    (fst (StaticPipeline_create R W hs p) = None \<longleftrightarrow>
     fst (finalize R W (fold (\<lambda>(H, h). addBack H h) hs p)) = None)"
proof -
  have static: "wf_pipeline (StaticPipeline_construct hs p) \<and>
      handlers_of (StaticPipeline_construct hs p) = hs"
    using assms by (induction hs p rule: StaticPipeline_construct.induct)
      (simp_all add: addFront_ok handlers_empty)
  have by_addBack: "wf_pipeline (fold (\<lambda>(H, h). addBack H h) hs q) \<and>
      handlers_of (fold (\<lambda>(H, h). addBack H h) hs q) = handlers_of q @ hs" if "wf_pipeline q" for q
    using that by (induction hs arbitrary: q) (auto simp: addBack_ok)
  from assms(2) have "handlers_of p = []" by (rule handlers_empty)
  with by_addBack [OF assms(1)] static show ?thesis
    using finalize_types [of "StaticPipeline_construct hs p" R W]
      finalize_types [of "fold (\<lambda>(H, h). addBack H h) hs p" R W]
    by (auto simp: StaticPipeline_create_def split: if_splits)
qed

theorem StaticPipeline_like_addBack_witness:
  "wf_pipeline (StaticPipeline_construct [(H_codec, 1), (H_app, 2)]
      (Pipeline_create 0 (\<lambda>_. null_ctx) (\<lambda>_. null_handler))) \<and>
   handlers_of (StaticPipeline_construct [(H_codec, 1), (H_app, 2)]
      (Pipeline_create 0 (\<lambda>_. null_ctx) (\<lambda>_. null_handler))) = [(H_codec, 1), (H_app, 2)] \<and>
   handlers_of (fold (\<lambda>(H, h). addBack H h) [(H_codec, 1), (H_app, 2)]
      (Pipeline_create 0 (\<lambda>_. null_ctx) (\<lambda>_. null_handler))) = [(H_codec, 1), (H_app, 2)] \<and>
   (fst (StaticPipeline_create ''bytes'' ''string'' [(H_codec, 1), (H_app, 2)]
      (Pipeline_create 0 (\<lambda>_. null_ctx) (\<lambda>_. null_handler))) = None \<longleftrightarrow>
    fst (finalize ''bytes'' ''string'' (fold (\<lambda>(H, h). addBack H h) [(H_codec, 1), (H_app, 2)]
      (Pipeline_create 0 (\<lambda>_. null_ctx) (\<lambda>_. null_handler)))) = None)"
  by (rule StaticPipeline_like_addBack) (simp_all add: wf_create, simp add: Pipeline_create_def)

end
