(* ===== verification/Channel_Handlers.thy ===== *)
theory Channel_Handlers
  imports Handler_Context
begin

text \<open>
  The handlers the library ships: \<open>codec/StringCodec.h\<close>, \<open>codec/MessageToByteEncoder.h\<close>,
  \<open>channel/OutputBufferingHandler.h\<close>, \<open>channel/EventBaseHandler.h\<close> and \<open>channel/AsyncSocketHandler.h\<close>.
\<close>

section \<open>Codecs without state\<close>

text \<open>A null buffer is \<open>None\<close>; \<open>data\<close> and \<open>copyBuffer\<close> keep the bytes.\<close>

definition StringCodec_read :: "byte list option \<Rightarrow> (byte list, byte list) ctx_call list" where
  "StringCodec_read buf = (case buf of None \<Rightarrow> [] | Some data \<Rightarrow> [FireIn (Read data)])"

definition StringCodec_write :: "byte list \<Rightarrow> (byte list, byte list) ctx_call list" where
  "StringCodec_write msg = [FireOut (Write msg)]"

definition MessageToByteEncoder_write ::
  "('m \<Rightarrow> byte list option) \<Rightarrow> 'm \<Rightarrow> ('r, byte list) ctx_call list" where
  "MessageToByteEncoder_write encode msg =
     (case encode msg of Some buf \<Rightarrow> [FireOut (Write buf)] | None \<Rightarrow> [])"

text \<open>\<open>EventBaseHandler\<close> passes calls on from the event base's thread and waits for them.\<close>

definition EventBaseHandler_write :: "byte list \<Rightarrow> ('r, byte list) ctx_call list" where
  "EventBaseHandler_write buf = [FireOut (Write buf)]"

definition EventBaseHandler_close :: "('r, byte list) ctx_call list" where
  "EventBaseHandler_close = [FireOut Close]"

section \<open>OutputBufferingHandler\<close>

text \<open>
  \<open>waiting\<close> are the writes whose future belongs to \<open>sharedPromise_\<close>, by number; \<open>scheduled\<close> is
  \<open>isLoopCallbackScheduled()\<close>. \<open>sends_\<close> is the chain of buffers, here its bytes.
\<close>

record OutputBufferingHandler =
  sends :: "byte list option"
  waiting :: "nat list"
  scheduled :: bool
  queueSends :: bool
  next_write :: nat

definition OutputBufferingHandler_new :: "bool \<Rightarrow> OutputBufferingHandler" where
  "OutputBufferingHandler_new q = \<lparr>sends = None, waiting = [], scheduled = False, queueSends = q, next_write = 0\<rparr>"

text \<open>
  What the handler does: \<open>Flush ws bytes\<close> is \<open>fireWrite(bytes)\<close> whose result completes the futures of
  the writes \<open>ws\<close>; \<open>FailWrites ws\<close> completes them with an exception (\<open>close\<close>), \<open>BreakWrites ws\<close> drops
  the promise they wait for (\<open>cleanUp\<close>); \<open>PassClose\<close> is \<open>fireClose\<close>.
\<close>

datatype buffering_act =
    Flush "nat list" "byte list"
  | FailWrites "nat list"
  | BreakWrites "nat list"
  | PassClose

definition OutputBufferingHandler_write ::
  "byte list option \<Rightarrow> OutputBufferingHandler \<Rightarrow> cpp_exn + OutputBufferingHandler \<times> buffering_act list" where
  "OutputBufferingHandler_write buf h =
     (case buf of
        None \<Rightarrow> Inl CheckFailed
      | Some bs \<Rightarrow>
          (let i = next_write h; h1 = h\<lparr>next_write := Suc i\<rparr> in
           if \<not> queueSends h then Inr (h1, [Flush [i] bs])
           else
             (case sends h of
                None \<Rightarrow> Inr (h1\<lparr>sends := Some bs, scheduled := True, waiting := waiting h @ [i]\<rparr>, [])
              | Some cur \<Rightarrow> Inr (h1\<lparr>sends := Some (cur @ bs), waiting := waiting h @ [i]\<rparr>, []))))"

text \<open>The event loop runs the callback only when it is scheduled, and takes it off its list.\<close>

definition OutputBufferingHandler_runLoopCallback ::
  "OutputBufferingHandler \<Rightarrow> OutputBufferingHandler \<times> buffering_act list" where
  "OutputBufferingHandler_runLoopCallback h =
     (h\<lparr>scheduled := False, waiting := [], sends := None\<rparr>,
      [Flush (waiting h) (case sends h of None \<Rightarrow> [] | Some bs \<Rightarrow> bs)])"

definition OutputBufferingHandler_cleanUp ::
  "OutputBufferingHandler \<Rightarrow> OutputBufferingHandler \<times> buffering_act list" where
  "OutputBufferingHandler_cleanUp h =
     (h\<lparr>scheduled := False, sends := None, waiting := []\<rparr>, [BreakWrites (waiting h)])"

definition OutputBufferingHandler_close ::
  "OutputBufferingHandler \<Rightarrow> OutputBufferingHandler \<times> buffering_act list" where
  "OutputBufferingHandler_close h =
     (h\<lparr>scheduled := False, sends := None, waiting := []\<rparr>, [FailWrites (waiting h), PassClose])"

datatype buffering_op = OpWrite "byte list" | OpLoop | OpCleanUp | OpCloseHandler

fun buffering_run :: "buffering_op list \<Rightarrow> OutputBufferingHandler \<Rightarrow> OutputBufferingHandler \<times> buffering_act list" where
  "buffering_run [] h = (h, [])"
| "buffering_run (OpWrite bs # ops) h =
     (case OutputBufferingHandler_write (Some bs) h of
        Inl e \<Rightarrow> (h, [])
      | Inr (h1, a1) \<Rightarrow> (case buffering_run ops h1 of (h2, a2) \<Rightarrow> (h2, a1 @ a2)))"
| "buffering_run (OpLoop # ops) h =
     (if scheduled h then
        (case OutputBufferingHandler_runLoopCallback h of (h1, a1) \<Rightarrow>
           (case buffering_run ops h1 of (h2, a2) \<Rightarrow> (h2, a1 @ a2)))
      else buffering_run ops h)"
| "buffering_run (OpCleanUp # ops) h =
     (case OutputBufferingHandler_cleanUp h of (h1, a1) \<Rightarrow>
        (case buffering_run ops h1 of (h2, a2) \<Rightarrow> (h2, a1 @ a2)))"
| "buffering_run (OpCloseHandler # ops) h =
     (case OutputBufferingHandler_close h of (h1, a1) \<Rightarrow>
        (case buffering_run ops h1 of (h2, a2) \<Rightarrow> (h2, a1 @ a2)))"

text \<open>The writes an action completes, and the bytes it sends on.\<close>

fun completes :: "buffering_act \<Rightarrow> nat list" where
  "completes (Flush ws bs) = ws"
| "completes (FailWrites ws) = ws"
| "completes (BreakWrites ws) = ws"
| "completes PassClose = []"

fun write_data :: "buffering_op list \<Rightarrow> byte list list" where
  "write_data [] = []"
| "write_data (OpWrite bs # ops) = bs # write_data ops"
| "write_data (_ # ops) = write_data ops"

text \<open>
  The invariant, over the data of all writes so far: the callback is scheduled exactly while bytes are
  buffered, the buffered bytes are those of the waiting writes, and the waiting writes are the last
  ones.
\<close>

definition buffering_inv :: "byte list list \<Rightarrow> OutputBufferingHandler \<Rightarrow> bool" where
  "buffering_inv datas h \<longleftrightarrow> next_write h = length datas \<and>
     (\<exists>k \<le> length datas. waiting h = [k..<length datas] \<and>
        (if k = length datas then sends h = None else sends h = Some (concat (drop k datas)))) \<and>
     (scheduled h \<longleftrightarrow> sends h \<noteq> None) \<and> (\<not> queueSends h \<longrightarrow> waiting h = [])"

lemma buffering_write:
  assumes "buffering_inv datas h"
  shows "\<exists>h1 a1. OutputBufferingHandler_write (Some bs) h = Inr (h1, a1) \<and>
    buffering_inv (datas @ [bs]) h1 \<and> queueSends h1 = queueSends h \<and>
    concat (map completes a1) @ waiting h1 = waiting h @ [length datas] \<and>
    (\<forall>ws b. Flush ws b \<in> set a1 \<longrightarrow> ws = [length datas] \<and> b = bs)"
proof -
  from assms obtain k where k: "k \<le> length datas" "waiting h = [k..<length datas]"
    "if k = length datas then sends h = None else sends h = Some (concat (drop k datas))"
    by (auto simp: buffering_inv_def)
  have n: "next_write h = length datas" "scheduled h = (sends h \<noteq> None)"
    "\<not> queueSends h \<longrightarrow> waiting h = []" using assms by (simp_all add: buffering_inv_def)
  show ?thesis
  proof (cases "queueSends h")
    case False
    with k(2) n(3) have "[k..<length datas] = []" by simp
    with k(1) have "k = length datas" by auto
    with k n False show ?thesis
      by (auto simp: OutputBufferingHandler_write_def buffering_inv_def Let_def
          intro: exI [of _ "Suc (length datas)"])
  next
    case True
    with k n show ?thesis
      by (auto simp: OutputBufferingHandler_write_def buffering_inv_def Let_def
          split: if_splits intro!: exI [of _ k])
  qed
qed

lemma buffering_clear:
  "buffering_inv datas h \<Longrightarrow>
   buffering_inv datas (h\<lparr>scheduled := False, waiting := [], sends := None\<rparr>)"
  by (auto simp: buffering_inv_def intro: exI [of _ "length datas"])

lemma map_nth_drop: "k \<le> length xs \<Longrightarrow> map ((!) (xs @ ys)) [k..<length xs] = drop k xs"
  by (rule nth_equalityI) (auto simp: nth_append)

lemma buffering_flush:
  assumes "buffering_inv datas h" "scheduled h"
  shows "(case sends h of None \<Rightarrow> [] | Some bs \<Rightarrow> bs) = concat (map ((!) (datas @ extra)) (waiting h))"
proof -
  from assms obtain k where k: "k \<le> length datas" "waiting h = [k..<length datas]"
    "sends h = Some (concat (drop k datas))"
    unfolding buffering_inv_def by (metis option.distinct(1))
  then show ?thesis by (simp add: map_nth_drop)
qed

lemma buffering_run_ok:
  "buffering_inv datas h \<Longrightarrow> buffering_run ops h = (h', acts) \<Longrightarrow>
   buffering_inv (datas @ write_data ops) h' \<and>
   concat (map completes acts) @ waiting h' =
     waiting h @ [length datas..<length datas + length (write_data ops)] \<and>
   (\<forall>ws bs. Flush ws bs \<in> set acts \<longrightarrow> bs = concat (map ((!) (datas @ write_data ops)) ws))"
proof (induction ops h arbitrary: datas h' acts rule: buffering_run.induct)
  case (1 h)
  then show ?case by simp
next
  case (2 bs ops h)
  from buffering_write [OF "2.prems"(1), of bs] obtain h1 a1 where
    w: "OutputBufferingHandler_write (Some bs) h = Inr (h1, a1)" and inv: "buffering_inv (datas @ [bs]) h1"
    and comp: "concat (map completes a1) @ waiting h1 = waiting h @ [length datas]"
    and fl: "\<forall>ws b. Flush ws b \<in> set a1 \<longrightarrow> ws = [length datas] \<and> b = bs" by blast
  obtain a2 where run: "buffering_run ops h1 = (h', a2)" and acts: "acts = a1 @ a2"
    using "2.prems"(2) w by (auto split: prod.splits)
  from "2.IH" [OF w refl inv run] have
    IH: "buffering_inv ((datas @ [bs]) @ write_data ops) h'"
    "concat (map completes a2) @ waiting h' =
       waiting h1 @ [length (datas @ [bs])..<length (datas @ [bs]) + length (write_data ops)]"
    "\<forall>ws b. Flush ws b \<in> set a2 \<longrightarrow> b = concat (map ((!) ((datas @ [bs]) @ write_data ops)) ws)"
    by blast+
  have "[length datas..<length datas + Suc (length (write_data ops))] =
      length datas # [Suc (length datas)..<Suc (length datas) + length (write_data ops)]"
    by (simp add: upt_conv_Cons del: upt_Suc)
  then have "concat (map completes acts) @ waiting h' =
      waiting h @ [length datas..<length datas + length (write_data (OpWrite bs # ops))]"
    using IH(2) comp by (simp add: acts del: upt_Suc)
  moreover have "b = concat (map ((!) (datas @ bs # write_data ops)) ws)" if "Flush ws b \<in> set a1" for ws b
  proof -
    from that fl have "ws = [length datas]" "b = bs" by blast+
    then show ?thesis by simp
  qed
  ultimately show ?case using IH(1,3) by (auto simp: acts simp del: upt_Suc)
next
  case (3 ops h)
  show ?case
  proof (cases "scheduled h")
    case False
    with 3 show ?thesis by simp
  next
    case True
    let ?h = "h\<lparr>scheduled := False, waiting := [], sends := None\<rparr>"
    obtain a2 where run: "buffering_run ops ?h = (h', a2)"
      and acts: "acts = Flush (waiting h) (case sends h of None \<Rightarrow> [] | Some bs \<Rightarrow> bs) # a2"
      using "3.prems"(2) True by (auto simp: OutputBufferingHandler_runLoopCallback_def split: prod.splits)
    from "3.IH"(1) [OF True, of ?h _ datas h' a2] buffering_clear [OF "3.prems"(1)] run
      buffering_flush [OF "3.prems"(1) True, of "write_data ops"]
    show ?thesis by (auto simp: acts OutputBufferingHandler_runLoopCallback_def)
  qed
next
  case (4 ops h)
  let ?h = "h\<lparr>scheduled := False, sends := None, waiting := []\<rparr>"
  have clear: "buffering_inv datas ?h"
    using buffering_clear [OF "4.prems"(1)] by (simp add: buffering_inv_def)
  obtain a2 where run: "buffering_run ops ?h = (h', a2)" and acts: "acts = BreakWrites (waiting h) # a2"
    using "4.prems"(2) by (auto simp: OutputBufferingHandler_cleanUp_def split: prod.splits)
  from "4.IH" [of ?h _ datas h' a2] clear run show ?case
    by (auto simp: acts OutputBufferingHandler_cleanUp_def)
next
  case (5 ops h)
  let ?h = "h\<lparr>scheduled := False, sends := None, waiting := []\<rparr>"
  have clear: "buffering_inv datas ?h"
    using buffering_clear [OF "5.prems"(1)] by (simp add: buffering_inv_def)
  obtain a2 where run: "buffering_run ops ?h = (h', a2)"
    and acts: "acts = FailWrites (waiting h) # PassClose # a2"
    using "5.prems"(2) by (auto simp: OutputBufferingHandler_close_def split: prod.splits)
  from "5.IH" [of ?h _ datas h' a2] clear run show ?case
    by (auto simp: acts OutputBufferingHandler_close_def)
qed

lemma buffering_inv_new: "buffering_inv [] (OutputBufferingHandler_new q)"
  by (simp add: buffering_inv_def OutputBufferingHandler_new_def)

section \<open>AsyncSocketHandler\<close>

text \<open>
  The socket is folly's; what the handler sees of it: whether it is good, whether its read callback
  is this handler, and whether it has an event base. \<open>active\<close> is whether the handler has a context
  (\<open>getContext() != nullptr\<close>).
\<close>

record AsyncSocketHandler =
  sock_good :: bool
  read_cb_set :: bool
  sock_evb :: bool
  has_ctx :: bool
  firedInactive :: bool
  pipelineDeleted :: bool
  pipe_transport :: bool

definition AsyncSocketHandler_new :: "bool \<Rightarrow> bool \<Rightarrow> AsyncSocketHandler" where
  "AsyncSocketHandler_new good evb =
     \<lparr>sock_good = good, read_cb_set = False, sock_evb = evb, has_ctx = True, firedInactive = False,
      pipelineDeleted = False, pipe_transport = False\<rparr>"

datatype socket_act =
    FireTransportActive
  | FireTransportInactive
  | WriteChain "byte list"
  | WriteFailed
  | WriteReady
  | ShutdownWrite
  | CloseNow
  | CloseWithReset
  | DeletePipeline

definition attachReadCallback :: "AsyncSocketHandler \<Rightarrow> AsyncSocketHandler" where
  "attachReadCallback h = h\<lparr>read_cb_set := sock_good h\<rparr>"

definition detachReadCallback :: "AsyncSocketHandler \<Rightarrow> AsyncSocketHandler \<times> socket_act list" where
  "detachReadCallback h =
     (let h1 = (if read_cb_set h then h\<lparr>read_cb_set := False\<rparr> else h) in
      if has_ctx h1 \<and> \<not> firedInactive h1 then (h1\<lparr>firedInactive := True\<rparr>, [FireTransportInactive])
      else (h1, []))"

definition attachEventBase :: "bool \<Rightarrow> AsyncSocketHandler \<Rightarrow> AsyncSocketHandler" where
  "attachEventBase eventBase h = (if eventBase \<and> \<not> sock_evb h then h\<lparr>sock_evb := True\<rparr> else h)"

definition detachEventBase :: "AsyncSocketHandler \<Rightarrow> AsyncSocketHandler \<times> socket_act list" where
  "detachEventBase h =
     (case detachReadCallback h of (h1, a) \<Rightarrow> (if sock_evb h1 then h1\<lparr>sock_evb := False\<rparr> else h1, a))"

definition AsyncSocketHandler_transportActive :: "AsyncSocketHandler \<Rightarrow> AsyncSocketHandler \<times> socket_act list" where
  "AsyncSocketHandler_transportActive h =
     ((attachReadCallback (h\<lparr>pipe_transport := True\<rparr>))\<lparr>firedInactive := False\<rparr>, [FireTransportActive])"

definition AsyncSocketHandler_transportInactive :: "AsyncSocketHandler \<Rightarrow> AsyncSocketHandler \<times> socket_act list" where
  "AsyncSocketHandler_transportInactive h =
     (case detachReadCallback h of (h1, a) \<Rightarrow> (h1\<lparr>pipe_transport := False\<rparr>, a))"

definition AsyncSocketHandler_write :: "byte list option \<Rightarrow> AsyncSocketHandler \<Rightarrow> socket_act list" where
  "AsyncSocketHandler_write buf h =
     (case buf of
        None \<Rightarrow> [WriteReady]
      | Some bs \<Rightarrow> if \<not> sock_good h then [WriteFailed] else [WriteChain bs])"

definition AsyncSocketHandler_shutdown :: "bool \<Rightarrow> AsyncSocketHandler \<Rightarrow> AsyncSocketHandler \<times> socket_act list" where
  "AsyncSocketHandler_shutdown closeWithReset h =
     (case detachReadCallback h of (h1, a1) \<Rightarrow>
        (let h2 = h1\<lparr>sock_good := False\<rparr>;
             a2 = a1 @ [if closeWithReset then CloseWithReset else CloseNow] in
         if \<not> pipelineDeleted h2 then (h2\<lparr>pipelineDeleted := True\<rparr>, a2 @ [DeletePipeline]) else (h2, a2)))"

definition AsyncSocketHandler_writeException :: "AsyncSocketHandler \<Rightarrow> AsyncSocketHandler \<times> socket_act list" where
  "AsyncSocketHandler_writeException h = AsyncSocketHandler_shutdown True h"

definition AsyncSocketHandler_close :: "bool \<Rightarrow> AsyncSocketHandler \<Rightarrow> AsyncSocketHandler \<times> socket_act list" where
  "AsyncSocketHandler_close shutdownWriteOnly h =
     (if shutdownWriteOnly then (h, [ShutdownWrite]) else AsyncSocketHandler_shutdown False h)"

datatype socket_op =
    SockActive
  | SockInactive
  | SockDetachPipeline
  | SockDetachEventBase
  | SockClose bool
  | SockWriteException

fun socket_step :: "socket_op \<Rightarrow> AsyncSocketHandler \<Rightarrow> AsyncSocketHandler \<times> socket_act list" where
  "socket_step SockActive h = AsyncSocketHandler_transportActive h"
| "socket_step SockInactive h = AsyncSocketHandler_transportInactive h"
| "socket_step SockDetachPipeline h = detachReadCallback h"
| "socket_step SockDetachEventBase h = detachEventBase h"
| "socket_step (SockClose writeOnly) h = AsyncSocketHandler_close writeOnly h"
| "socket_step SockWriteException h = AsyncSocketHandler_writeException h"

fun socket_run :: "socket_op list \<Rightarrow> AsyncSocketHandler \<Rightarrow> AsyncSocketHandler \<times> socket_act list" where
  "socket_run [] h = (h, [])"
| "socket_run (a # as) h =
     (case socket_step a h of (h1, a1) \<Rightarrow> (case socket_run as h1 of (h2, a2) \<Rightarrow> (h2, a1 @ a2)))"

lemmas socket_defs = AsyncSocketHandler_transportActive_def AsyncSocketHandler_transportInactive_def
  detachReadCallback_def detachEventBase_def AsyncSocketHandler_close_def attachReadCallback_def
  AsyncSocketHandler_writeException_def AsyncSocketHandler_shutdown_def

text \<open>
  \<open>alternates st acts\<close>: with the transport reported inactive when \<open>st\<close>, an inactive report comes only
  after an active one.
\<close>

fun alternates :: "bool \<Rightarrow> socket_act list \<Rightarrow> bool" where
  "alternates inactive [] = True"
| "alternates inactive (FireTransportActive # as) = alternates False as"
| "alternates inactive (FireTransportInactive # as) = (\<not> inactive \<and> alternates True as)"
| "alternates inactive (a # as) = alternates inactive as"

lemma alternates_append:
  "alternates st (xs @ ys) \<longleftrightarrow> alternates st xs \<and>
     alternates (fold (\<lambda>a b. case a of FireTransportActive \<Rightarrow> False | FireTransportInactive \<Rightarrow> True | _ \<Rightarrow> b) xs st) ys"
  by (induction st xs rule: alternates.induct) auto

lemma socket_step_alternates:
  assumes "socket_step a h = (h', acts)"
  shows "alternates (firedInactive h) acts"
    "fold (\<lambda>a b. case a of FireTransportActive \<Rightarrow> False | FireTransportInactive \<Rightarrow> True | _ \<Rightarrow> b) acts
       (firedInactive h) = firedInactive h'"
    "pipelineDeleted h \<Longrightarrow> pipelineDeleted h' \<and> DeletePipeline \<notin> set acts"
    "\<not> pipelineDeleted h \<Longrightarrow> filter ((=) DeletePipeline) acts = (if pipelineDeleted h' then [DeletePipeline] else [])"
  using assms by (cases a; auto simp: socket_defs Let_def split: if_splits)+

lemma socket_run_ok:
  "socket_run as h = (h', acts) \<Longrightarrow>
   alternates (firedInactive h) acts \<and>
   filter ((=) DeletePipeline) acts =
     (if \<not> pipelineDeleted h \<and> pipelineDeleted h' then [DeletePipeline] else []) \<and>
   (pipelineDeleted h \<longrightarrow> pipelineDeleted h')"
proof (induction as arbitrary: h h' acts)
  case (Cons a as)
  obtain h1 a1 where s: "socket_step a h = (h1, a1)" by (cases "socket_step a h")
  obtain a2 where r: "socket_run as h1 = (h', a2)" and acts: "acts = a1 @ a2"
    using Cons.prems s by (auto split: prod.splits)
  have "DeletePipeline \<notin> set a1 \<Longrightarrow> filter ((=) DeletePipeline) a1 = []" by (auto simp: filter_empty_conv)
  then show ?case
    using socket_step_alternates [OF s] Cons.IH [OF r] unfolding acts alternates_append filter_append
    by (cases "pipelineDeleted h") auto
qed simp

section \<open>Properties\<close>

text \<open>
  OutputBufferingHandler keeps the order of writes: over any sequence of writes, loop iterations,
  clean-ups and closes, every write's future is completed exactly once, in the order of the writes,
  or still waits; and whatever a loop iteration sends on is the concatenation of the data of just the
  writes it completes. Clean-ups and closes complete the waiting futures and drop their data.
\<close>

theorem OutputBufferingHandler_in_order:
  assumes "buffering_run ops (OutputBufferingHandler_new q) = (h, acts)"
  shows "concat (map completes acts) @ waiting h = [0..<length (write_data ops)] \<and>
    (\<forall>ws bs. Flush ws bs \<in> set acts \<longrightarrow> bs = concat (map ((!) (write_data ops)) ws))"
  using buffering_run_ok [OF buffering_inv_new assms] by (simp add: OutputBufferingHandler_new_def)

theorem OutputBufferingHandler_in_order_witness:
  "concat (map completes (snd (buffering_run [OpWrite [1], OpWrite [2, 3], OpLoop, OpWrite [4]]
      (OutputBufferingHandler_new True)))) @
    waiting (fst (buffering_run [OpWrite [1], OpWrite [2, 3], OpLoop, OpWrite [4]]
      (OutputBufferingHandler_new True))) = [0, 1, 2] \<and>
    Flush [0, 1] [1, 2, 3] \<in> set (snd (buffering_run [OpWrite [1], OpWrite [2, 3], OpLoop, OpWrite [4]]
      (OutputBufferingHandler_new True))) \<and>
    [1, 2, 3] = concat (map ((!) (write_data [OpWrite [1], OpWrite [2, 3], OpLoop, OpWrite [4]])) [0, 1])"
proof -
  let ?ops = "[OpWrite [1], OpWrite [2, 3], OpLoop, OpWrite [4]]"
  let ?r = "buffering_run ?ops (OutputBufferingHandler_new True)"
  have flush: "Flush [0, 1] [1, 2, 3] \<in> set (snd ?r)" by code_simp
  have ids: "[0..<length (write_data ?ops)] = [0, 1, 2]" by code_simp
  note result = OutputBufferingHandler_in_order [OF prod.collapse [symmetric], of ?ops True]
  from result have "concat (map completes (snd ?r)) @ waiting (fst ?r) = [0..<length (write_data ?ops)]"
    by (rule conjunct1)
  moreover from result flush have "[1, 2, 3] = concat (map ((!) (write_data ?ops)) [0, 1])" by blast
  ultimately show ?thesis using flush unfolding ids by (intro conjI)
qed

text \<open>
  Over any sequence of calls AsyncSocketHandler reports the transport inactive at most once for
  each time it reported it active, and asks the pipeline to be deleted at most once.
\<close>

theorem AsyncSocketHandler_reports_once:
  assumes "socket_run as (AsyncSocketHandler_new good evb) = (h, acts)"
  shows "alternates False acts \<and>
    filter ((=) DeletePipeline) acts = (if pipelineDeleted h then [DeletePipeline] else [])"
  using socket_run_ok [OF assms] by (simp add: AsyncSocketHandler_new_def)

theorem AsyncSocketHandler_reports_once_witness:
  "alternates False (snd (socket_run [SockActive, SockClose False, SockDetachPipeline, SockInactive]
      (AsyncSocketHandler_new True True))) \<and>
    filter ((=) DeletePipeline) (snd (socket_run [SockActive, SockClose False, SockDetachPipeline, SockInactive]
      (AsyncSocketHandler_new True True))) =
     (if pipelineDeleted (fst (socket_run [SockActive, SockClose False, SockDetachPipeline, SockInactive]
      (AsyncSocketHandler_new True True))) then [DeletePipeline] else [])"
  by (rule AsyncSocketHandler_reports_once) (rule prod.collapse [symmetric])

end
