(* ===== verification/Service_Dispatch.thy ===== *)
theory Service_Dispatch
  imports Handler_Context "HOL-Library.AList"
begin

text \<open>
  \<open>service/ServerDispatcher.h\<close> and \<open>service/ClientDispatcher.h\<close>: how requests and responses are
  matched on one connection. A service's future is a promise that is completed later, so the
  dispatchers are state machines over the calls they receive and the futures that complete.
\<close>

section \<open>PipelinedServerDispatcher\<close>

text \<open>
  \<open>responses_\<close> is an \<open>unordered_map\<close>; an association list with distinct keys stands for it.
\<close>

record 'r PipelinedServerDispatcher =
  requestId :: u32
  responses :: "(u32 \<times> 'r) list"
  lastWrittenId :: u32

definition PipelinedServerDispatcher_new :: "'r PipelinedServerDispatcher" where
  "PipelinedServerDispatcher_new = \<lparr>requestId = 1, responses = [], lastWrittenId = 0\<rparr>"

text \<open>
  \<open>read\<close> draws the id its continuation captures; the continuation runs when the service's future
  holds a response. A future that fails runs no continuation.
\<close>

definition PipelinedServerDispatcher_read ::
  "'r PipelinedServerDispatcher \<Rightarrow> u32 \<times> 'r PipelinedServerDispatcher" where
  "PipelinedServerDispatcher_read s = (requestId s, s\<lparr>requestId := requestId s + 1\<rparr>)"

lemma length_delete_less: "map_of xs k = Some v \<Longrightarrow> length (AList.delete k xs) < length xs"
  unfolding AList.delete_eq by (induction xs) (auto simp: less_Suc_eq_le split: if_splits)

function sendResponses :: "'r PipelinedServerDispatcher \<Rightarrow> 'r PipelinedServerDispatcher \<times> 'r list" where
  "sendResponses s =
     (case map_of (responses s) (lastWrittenId s + 1) of
        None \<Rightarrow> (s, [])
      | Some resp \<Rightarrow>
          (case sendResponses (s\<lparr>responses := AList.delete (lastWrittenId s + 1) (responses s),
                                 lastWrittenId := lastWrittenId s + 1\<rparr>) of
             (s', written) \<Rightarrow> (s', resp # written)))"
  by pat_completeness auto
termination
  by (relation "measure (\<lambda>s. length (responses s))") (auto intro: length_delete_less)

declare sendResponses.simps [simp del]

definition PipelinedServerDispatcher_then ::
  "u32 \<Rightarrow> 'r \<Rightarrow> 'r PipelinedServerDispatcher \<Rightarrow> 'r PipelinedServerDispatcher \<times> 'r list" where
  "PipelinedServerDispatcher_then reqId resp s =
     sendResponses (s\<lparr>responses := AList.update reqId resp (responses s)\<rparr>)"

text \<open>
  A run of the dispatcher: requests arrive, and the service completes the future of the \<open>i\<close>-th
  request, in any order. \<open>ids\<close> are the ids captured so far; the result is what was written.
\<close>

datatype 'r server_event = Request | Complete nat 'r

fun server_run :: "'r server_event list \<Rightarrow> u32 list \<Rightarrow> 'r PipelinedServerDispatcher
    \<Rightarrow> 'r PipelinedServerDispatcher \<times> 'r list" where
  "server_run [] ids s = (s, [])"
| "server_run (Request # evs) ids s =
     (case PipelinedServerDispatcher_read s of (i, s') \<Rightarrow> server_run evs (ids @ [i]) s')"
| "server_run (Complete i r # evs) ids s =
     (case PipelinedServerDispatcher_then (ids ! i) r s of (s1, w1) \<Rightarrow>
        (case server_run evs ids s1 of (s2, w2) \<Rightarrow> (s2, w1 @ w2)))"

section \<open>Reference: answers by request number\<close>

text \<open>
  The specification numbers requests without wrap-around: \<open>n\<close> requests have arrived and \<open>ans\<close> holds the
  answers given so far. The first \<open>leading ans n\<close> requests are all answered.
\<close>

definition leading :: "(nat \<Rightarrow> 'r option) \<Rightarrow> nat \<Rightarrow> nat" where
  "leading ans n = length (takeWhile (\<lambda>i. ans i \<noteq> None) [0..<n])"

fun server_spec :: "'r server_event list \<Rightarrow> nat \<Rightarrow> (nat \<Rightarrow> 'r option) \<Rightarrow> nat \<times> (nat \<Rightarrow> 'r option)" where
  "server_spec [] n ans = (n, ans)"
| "server_spec (Request # evs) n ans = server_spec evs (Suc n) ans"
| "server_spec (Complete i r # evs) n ans = server_spec evs n (ans(i \<mapsto> r))"

text \<open>
  A run is valid when only requests that arrived are answered, each at most once, and when fewer
  than \<open>2 ^ 32\<close> requests wait for their response to be written at any time.
\<close>

fun server_valid :: "'r server_event list \<Rightarrow> nat \<Rightarrow> (nat \<Rightarrow> 'r option) \<Rightarrow> bool" where
  "server_valid [] n ans = True"
| "server_valid (Request # evs) n ans \<longleftrightarrow>
     Suc n - leading ans n < 2 ^ 32 \<and> server_valid evs (Suc n) ans"
| "server_valid (Complete i r # evs) n ans \<longleftrightarrow>
     i < n \<and> ans i = None \<and> server_valid evs n (ans(i \<mapsto> r))"

lemma leading_eqI:
  assumes "k \<le> n" "\<forall>i < k. ans i \<noteq> None" "k < n \<Longrightarrow> ans k = None"
  shows "leading ans n = k"
proof -
  have "[0..<n] = [0..<k] @ [k..<n]" using assms(1) by (metis le0 le_iff_add upt_add_eq_append)
  moreover have "takeWhile (\<lambda>i. ans i \<noteq> None) [k..<n] = []"
    using assms(1,3) by (cases "k < n") (auto simp: upt_conv_Cons)
  moreover have "\<forall>i \<in> set [0..<k]. ans i \<noteq> None" using assms(2) by simp
  ultimately have "takeWhile (\<lambda>i. ans i \<noteq> None) [0..<n] = [0..<k]"
    using takeWhile_append2 [of "[0..<k]" "\<lambda>i. ans i \<noteq> None" "[k..<n]"] by simp
  then show ?thesis unfolding leading_def by simp
qed

lemma of_nat_window:
  assumes "of_nat i = (of_nat j :: u32)" "k \<le> i" "i < n" "k \<le> j" "j < n" "n - k < 2 ^ 32"
  shows "i = j"
proof -
  have "(of_nat (i - k) :: u32) = of_nat (j - k)"
    using assms by (simp add: of_nat_diff)
  then have "i - k = j - k"
    using assms unat_of_nat32 [of "i - k"] unat_of_nat32 [of "j - k"] by simp
  with assms show ?thesis by linarith
qed

section \<open>The simulation\<close>

definition psd_rel :: "'r PipelinedServerDispatcher \<Rightarrow> nat \<Rightarrow> nat \<Rightarrow> (nat \<Rightarrow> 'r option) \<Rightarrow> bool" where
  "psd_rel s n k ans \<longleftrightarrow> k \<le> n \<and> n - k < 2 ^ 32 \<and>
     requestId s = of_nat (Suc n) \<and> lastWrittenId s = of_nat k \<and>
     (\<forall>i. ans i \<noteq> None \<longrightarrow> i < n) \<and> (\<forall>i < k. ans i \<noteq> None) \<and>
     (\<forall>w r. map_of (responses s) w = Some r \<longleftrightarrow>
        (\<exists>i. k \<le> i \<and> i < n \<and> w = of_nat (Suc i) \<and> ans i = Some r))"

lemma psd_rel_lookup:
  assumes "psd_rel s n k ans"
  shows "map_of (responses s) (lastWrittenId s + 1) = ans k"
proof -
  have last: "lastWrittenId s + 1 = of_nat (Suc k)" using assms by (simp add: psd_rel_def add.commute)
  have "map_of (responses s) (of_nat (Suc k)) = Some r \<longleftrightarrow> ans k = Some r" for r
  proof
    assume "map_of (responses s) (of_nat (Suc k)) = Some r"
    then obtain i where i: "k \<le> i" "i < n" "(of_nat (Suc k) :: u32) = of_nat (Suc i)" "ans i = Some r"
      using assms unfolding psd_rel_def by blast
    then have "(of_nat k :: u32) = of_nat i" by simp
    moreover have "n - k < 2 ^ 32" using assms by (simp add: psd_rel_def)
    moreover have "k < n" using i by linarith
    ultimately have "k = i" using i by (intro of_nat_window [of k i k n]) simp_all
    with i show "ans k = Some r" by simp
  next
    assume r: "ans k = Some r"
    then have "k < n" using assms by (auto simp: psd_rel_def)
    with r assms show "map_of (responses s) (of_nat (Suc k)) = Some r" unfolding psd_rel_def by blast
  qed
  then show ?thesis unfolding last by (metis not_None_eq)
qed

lemma psd_rel_written:
  assumes "psd_rel s n k ans" and "ans k = Some r"
  shows "psd_rel (s\<lparr>responses := AList.delete (lastWrittenId s + 1) (responses s),
      lastWrittenId := lastWrittenId s + 1\<rparr>) n (Suc k) ans"
proof -
  have last: "lastWrittenId s + 1 = of_nat (Suc k)"
    using assms by (simp add: psd_rel_def add.commute)
  have k: "k < n" using assms by (auto simp: psd_rel_def)
  have uniq: "i = k" if "k \<le> i" "i < n" "(of_nat (Suc i) :: u32) = of_nat (Suc k)" for i
    using that k assms(1) by (intro of_nat_window [of i k k n]) (simp_all add: psd_rel_def)
  have "map_of (AList.delete (of_nat (Suc k)) (responses s)) w = Some v \<longleftrightarrow>
      (\<exists>i. Suc k \<le> i \<and> i < n \<and> w = of_nat (Suc i) \<and> ans i = Some v)" for w v
  proof -
    have "map_of (AList.delete (of_nat (Suc k)) (responses s)) w = Some v \<longleftrightarrow>
        w \<noteq> of_nat (Suc k) \<and> (\<exists>i. k \<le> i \<and> i < n \<and> w = of_nat (Suc i) \<and> ans i = Some v)"
      using assms(1) by (simp add: delete_conv psd_rel_def)
    also have "\<dots> \<longleftrightarrow> (\<exists>i. Suc k \<le> i \<and> i < n \<and> w = of_nat (Suc i) \<and> ans i = Some v)"
      using uniq by (metis Suc_leD Suc_leI le_neq_implies_less nat_neq_iff not_less_eq_eq)
    finally show ?thesis .
  qed
  moreover have "n - Suc k < 2 ^ 32" "requestId s = of_nat (Suc n)" "\<forall>i. ans i \<noteq> None \<longrightarrow> i < n"
    "\<forall>i < Suc k. ans i \<noteq> None"
    using assms by (auto simp: psd_rel_def less_Suc_eq)
  ultimately show ?thesis
    using Suc_leI [OF k] unfolding psd_rel_def last by (simp del: of_nat_Suc)
qed

lemma sendResponses_ok:
  "psd_rel s n k ans \<Longrightarrow> \<exists>s' k'. sendResponses s = (s', map (the \<circ> ans) [k..<k']) \<and>
     psd_rel s' n k' ans \<and> k \<le> k' \<and> ans k' = None"
proof (induction s arbitrary: k rule: sendResponses.induct)
  case (1 s)
  note lookup = psd_rel_lookup [OF "1.prems"]
  show ?case
  proof (cases "ans k")
    case None
    with lookup 1 show ?thesis by (subst sendResponses.simps) (intro exI [of _ s] exI [of _ k], simp)
  next
    case (Some r)
    let ?s = "s\<lparr>responses := AList.delete (lastWrittenId s + 1) (responses s),
      lastWrittenId := lastWrittenId s + 1\<rparr>"
    from "1.IH" [OF lookup [unfolded Some] psd_rel_written [OF "1.prems" Some]]
    obtain s' k' where "sendResponses ?s = (s', map (the \<circ> ans) [Suc k..<k'])"
      "psd_rel s' n k' ans" "Suc k \<le> k'" "ans k' = None" by blast
    moreover from this have "[k..<k'] = k # [Suc k..<k']" by (simp add: upt_conv_Cons)
    ultimately show ?thesis using lookup Some
      by (subst sendResponses.simps) (intro exI [of _ s'] exI [of _ k'], simp)
  qed
qed

lemma psd_rel_request:
  assumes "psd_rel s n k ans" and "Suc n - k < 2 ^ 32"
  shows "psd_rel (s\<lparr>requestId := requestId s + 1\<rparr>) (Suc n) k ans"
proof -
  have "ans n = None" using assms(1) unfolding psd_rel_def by (metis less_irrefl)
  then have "(\<exists>i. k \<le> i \<and> i < Suc n \<and> w = of_nat (Suc i) \<and> ans i = Some r) \<longleftrightarrow>
      (\<exists>i. k \<le> i \<and> i < n \<and> w = of_nat (Suc i) \<and> ans i = Some r)" for w :: u32 and r
    by (metis less_Suc_eq option.distinct(1))
  then show ?thesis
    using assms unfolding psd_rel_def by (auto simp: less_Suc_eq)
qed

lemma psd_rel_answer:
  assumes "psd_rel s n k ans" and "i < n" and "ans i = None"
  shows "psd_rel (s\<lparr>responses := AList.update (of_nat (Suc i)) r (responses s)\<rparr>) n k (ans(i \<mapsto> r))"
proof -
  have k: "k \<le> i" using assms by (metis not_le psd_rel_def)
  have win: "n - k < 2 ^ 32" using assms(1) by (simp add: psd_rel_def)
  have uniq: "j = i" if "k \<le> j" "j < n" "(of_nat (Suc j) :: u32) = of_nat (Suc i)" for j
    using that k assms(2) win by (intro of_nat_window [of j i k n]) simp_all
  have "map_of (AList.update (of_nat (Suc i)) r (responses s)) w = Some v \<longleftrightarrow>
      (\<exists>j. k \<le> j \<and> j < n \<and> w = of_nat (Suc j) \<and> (ans(i \<mapsto> r)) j = Some v)" for w v
  proof (cases "w = of_nat (Suc i)")
    case True
    have "(\<exists>j. k \<le> j \<and> j < n \<and> w = of_nat (Suc j) \<and> (ans(i \<mapsto> r)) j = Some v) \<longleftrightarrow> v = r"
      using uniq True k assms(2) by (metis fun_upd_same option.inject)
    with True show ?thesis by (auto simp: update_conv simp del: of_nat_Suc)
  next
    case False
    then have "(\<exists>j. k \<le> j \<and> j < n \<and> w = of_nat (Suc j) \<and> (ans(i \<mapsto> r)) j = Some v) \<longleftrightarrow>
        (\<exists>j. k \<le> j \<and> j < n \<and> w = of_nat (Suc j) \<and> ans j = Some v)"
      by (metis fun_upd_other)
    with False assms(1) show ?thesis by (simp add: update_conv psd_rel_def del: of_nat_Suc)
  qed
  with assms k show ?thesis
    unfolding psd_rel_def by (simp del: of_nat_Suc)
qed

lemma psd_rel_leading: "psd_rel s n k ans \<Longrightarrow> ans k = None \<Longrightarrow> leading ans n = k"
  by (rule leading_eqI) (auto simp: psd_rel_def)

lemma server_run_ok:
  "psd_rel s n k ans \<Longrightarrow> ans k = None \<Longrightarrow> server_valid evs n ans \<Longrightarrow>
   ids = map (\<lambda>i. of_nat (Suc i)) [0..<n] \<Longrightarrow> server_spec evs n ans = (n', ans') \<Longrightarrow>
   snd (server_run evs ids s) = map (the \<circ> ans') [k..<leading ans' n'] \<and>
   k \<le> leading ans' n' \<and> (\<forall>i. ans i \<noteq> None \<longrightarrow> ans' i = ans i)"
proof (induction evs ids s arbitrary: n k ans rule: server_run.induct)
  case (1 ids s)
  then show ?case by (simp add: psd_rel_leading)
next
  case (2 evs ids s)
  let ?s = "s\<lparr>requestId := requestId s + 1\<rparr>"
  have "Suc n - k < 2 ^ 32"
    using "2.prems"(3) by (simp add: psd_rel_leading [OF "2.prems"(1,2)])
  with "2.prems"(1) have "psd_rel ?s (Suc n) k ans" by (rule psd_rel_request)
  moreover have "ids @ [requestId s] = map (\<lambda>i. of_nat (Suc i)) [0..<Suc n]"
    using "2.prems"(1,4) by (simp add: psd_rel_def)
  ultimately show ?case
    using "2.IH" [OF PipelinedServerDispatcher_read_def [of s, symmetric], of "Suc n" k ans] "2.prems"
    by (simp add: PipelinedServerDispatcher_read_def)
next
  case (3 i r evs ids s)
  let ?s = "s\<lparr>responses := AList.update (of_nat (Suc i)) r (responses s)\<rparr>"
  from "3.prems"(3) have i: "i < n" "ans i = None" and valid: "server_valid evs n (ans(i \<mapsto> r))"
    by simp_all
  from "3.prems"(5) have spec: "server_spec evs n (ans(i \<mapsto> r)) = (n', ans')" by simp
  have id: "ids ! i = of_nat (Suc i)" using i(1) "3.prems"(4) by simp
  from sendResponses_ok [OF psd_rel_answer [OF "3.prems"(1) i, of r]] obtain s1 k1 where
    send: "PipelinedServerDispatcher_then (ids ! i) r s = (s1, map (the \<circ> ans(i \<mapsto> r)) [k..<k1])"
    and s1: "psd_rel s1 n k1 (ans(i \<mapsto> r))" "k \<le> k1" "(ans(i \<mapsto> r)) k1 = None"
    unfolding PipelinedServerDispatcher_then_def id by blast
  have IH: "snd (server_run evs ids s1) = map (the \<circ> ans') [k1..<leading ans' n']"
    "k1 \<le> leading ans' n'" "\<forall>j. (ans(i \<mapsto> r)) j \<noteq> None \<longrightarrow> ans' j = (ans(i \<mapsto> r)) j"
    using "3.IH" [OF send [symmetric], of n k1 "ans(i \<mapsto> r)", OF s1(1,3) valid "3.prems"(4) spec]
    by blast+
  have "map (the \<circ> ans(i \<mapsto> r)) [k..<k1] = map (the \<circ> ans') [k..<k1]"
    using s1(1) IH(3) by (intro map_cong) (auto simp: psd_rel_def)
  moreover have "[k..<leading ans' n'] = [k..<k1] @ [k1..<leading ans' n']"
    using s1(2) IH(2) by (metis le_add_diff_inverse upt_add_eq_append)
  moreover have "\<forall>j. ans j \<noteq> None \<longrightarrow> ans' j = ans j"
    using IH(3) i(2) by (metis fun_upd_other)
  ultimately show ?case
    using IH s1(2) by (simp add: send split_beta)
qed

lemma psd_rel_new: "psd_rel PipelinedServerDispatcher_new 0 0 (\<lambda>_. None)"
  by (simp add: psd_rel_def PipelinedServerDispatcher_new_def)

section \<open>The other server dispatchers\<close>

text \<open>
  \<open>SerialServerDispatcher\<close> waits for the service (\<open>get\<close>), so the service is a function that answers or
  throws; \<open>MultiplexServerDispatcher\<close> writes each response when its future completes.
\<close>

definition SerialServerDispatcher_read ::
  "('req \<Rightarrow> cpp_exn + 'resp) \<Rightarrow> 'req \<Rightarrow> cpp_exn + ('r, 'resp) ctx_call list" where
  "SerialServerDispatcher_read service req =
     (case service req of Inl e \<Rightarrow> Inl e | Inr resp \<Rightarrow> Inr [FireOut (Write resp)])"

definition MultiplexServerDispatcher_then :: "'resp \<Rightarrow> ('r, 'resp) ctx_call list" where
  "MultiplexServerDispatcher_then resp = [FireOut (Write resp)]"

section \<open>Client dispatchers\<close>

text \<open>
  Promises are numbered in the order they are made; \<open>fulfilled\<close> lists the promises that hold a value.
  A \<open>DCHECK\<close> that fails counts as a failed check, as in a debug build.
\<close>

record 'r PipelinedClientDispatcher =
  pending :: "nat list"
  next_promise :: nat
  fulfilled :: "(nat \<times> 'r) list"

definition PipelinedClientDispatcher_new :: "'r PipelinedClientDispatcher" where
  "PipelinedClientDispatcher_new = \<lparr>pending = [], next_promise = 0, fulfilled = []\<rparr>"

text \<open>The call operator answers the promise whose future it returns and the message it writes.\<close>

definition PipelinedClientDispatcher_call ::
  "'req \<Rightarrow> 'r PipelinedClientDispatcher \<Rightarrow> nat \<times> 'req \<times> 'r PipelinedClientDispatcher" where
  "PipelinedClientDispatcher_call arg c =
     (next_promise c, arg,
      c\<lparr>pending := pending c @ [next_promise c], next_promise := Suc (next_promise c)\<rparr>)"

definition PipelinedClientDispatcher_read ::
  "'r \<Rightarrow> 'r PipelinedClientDispatcher \<Rightarrow> cpp_exn + 'r PipelinedClientDispatcher" where
  "PipelinedClientDispatcher_read resp c =
     (case pending c of
        [] \<Rightarrow> Inl CheckFailed
      | p # ps \<Rightarrow> Inr (c\<lparr>pending := ps, fulfilled := fulfilled c @ [(p, resp)]\<rparr>))"

fun client_calls :: "'req list \<Rightarrow> 'r PipelinedClientDispatcher \<Rightarrow> 'req list \<times> 'r PipelinedClientDispatcher" where
  "client_calls [] c = ([], c)"
| "client_calls (arg # args) c =
     (case PipelinedClientDispatcher_call arg c of (p, w, c1) \<Rightarrow>
        (case client_calls args c1 of (ws, c2) \<Rightarrow> (w # ws, c2)))"

fun client_reads :: "'r list \<Rightarrow> 'r PipelinedClientDispatcher \<Rightarrow> cpp_exn + 'r PipelinedClientDispatcher" where
  "client_reads [] c = Inr c"
| "client_reads (r # rs) c =
     (case PipelinedClientDispatcher_read r c of Inl e \<Rightarrow> Inl e | Inr c' \<Rightarrow> client_reads rs c')"

record 'r SerialClientDispatcher =
  promise :: "nat option"
  serial_next :: nat
  serial_fulfilled :: "(nat \<times> 'r) list"

definition SerialClientDispatcher_call ::
  "'req \<Rightarrow> 'r SerialClientDispatcher \<Rightarrow> cpp_exn + nat \<times> 'req \<times> 'r SerialClientDispatcher" where
  "SerialClientDispatcher_call arg c =
     (if promise c \<noteq> None then Inl CheckFailed
      else Inr (serial_next c, arg,
        c\<lparr>promise := Some (serial_next c), serial_next := Suc (serial_next c)\<rparr>))"

definition SerialClientDispatcher_read ::
  "'r \<Rightarrow> 'r SerialClientDispatcher \<Rightarrow> cpp_exn + 'r SerialClientDispatcher" where
  "SerialClientDispatcher_read resp c =
     (case promise c of
        None \<Rightarrow> Inl CheckFailed
      | Some p \<Rightarrow> Inr (c\<lparr>promise := None, serial_fulfilled := serial_fulfilled c @ [(p, resp)]\<rparr>))"

lemma client_calls_ok:
  "client_calls args c =
     (args, c\<lparr>pending := pending c @ [next_promise c..<next_promise c + length args],
              next_promise := next_promise c + length args\<rparr>)"
proof (induction args arbitrary: c)
  case (Cons a args)
  have "[next_promise c..<Suc (next_promise c + length args)] =
      next_promise c # [Suc (next_promise c)..<Suc (next_promise c + length args)]"
    by (intro upt_conv_Cons) simp
  with Cons show ?case by (simp add: PipelinedClientDispatcher_call_def del: upt_Suc)
qed simp

lemma client_reads_ok:
  "length rs \<le> length (pending c) \<Longrightarrow>
   client_reads rs c = Inr (c\<lparr>pending := drop (length rs) (pending c),
     fulfilled := fulfilled c @ zip (pending c) rs\<rparr>)"
proof (induction rs arbitrary: c)
  case (Cons r rs)
  then show ?case by (cases "pending c") (simp_all add: PipelinedClientDispatcher_read_def)
qed simp

section \<open>Properties\<close>

text \<open>
  C4. However the service's answers are ordered in time, PipelinedServerDispatcher writes the
  responses in the order of the requests, each as soon as all earlier ones are there: what it has
  written is exactly the answers to the longest prefix of requests that are all answered. The
  32-bit ids may wrap around any number of times, as long as fewer than 2^32 requests wait.
\<close>

theorem PipelinedServerDispatcher_in_order:
  assumes "server_valid evs 0 (\<lambda>_. None)" and "server_spec evs 0 (\<lambda>_. None) = (n, ans)"
  shows "snd (server_run evs [] PipelinedServerDispatcher_new) = map (the \<circ> ans) [0..<leading ans n]"
  using server_run_ok [OF psd_rel_new _ assms(1), of "[]" n ans] assms(2) by simp

lemma sample_run:
  fixes ans :: "nat \<Rightarrow> string option" and evs :: "string server_event list"
  defines "ans \<equiv> (\<lambda>_. None)(1 \<mapsto> ''b'', 0 \<mapsto> ''a'')"
    and "evs \<equiv> [Request, Request, Complete 1 ''b'', Complete 0 ''a'']"
  shows "server_valid evs 0 (\<lambda>_. None)" "server_spec evs 0 (\<lambda>_. None) = (2, ans)" "leading ans 2 = 2"
proof -
  show "server_valid evs 0 (\<lambda>_. None)" by (simp add: evs_def leading_def)
  show "server_spec evs 0 (\<lambda>_. None) = (2, ans)" by (simp add: evs_def ans_def)
  show "leading ans 2 = 2" by (rule leading_eqI) (auto simp: ans_def less_2_cases_iff)
qed

theorem PipelinedServerDispatcher_in_order_witness:
  "snd (server_run [Request, Request, Complete 1 ''b'', Complete 0 ''a''] []
       PipelinedServerDispatcher_new) = [''a'', ''b'']"
  using PipelinedServerDispatcher_in_order [OF sample_run(1,2), unfolded sample_run(3)]
  by (simp del: server_run.simps add: numeral_2_eq_2)

text \<open>
  C22. A pipelined client talking to a pipelined server gets every response into the promise of its
  own request: the requests reach the server in the order of the calls, and when the client has read
  what the server wrote, promise i holds the answer to request i for each request of the answered
  prefix, and the later promises are pending.
\<close>

theorem pipelined_rpc_matches_requests:
  assumes "server_valid evs 0 (\<lambda>_. None)" and "server_spec evs 0 (\<lambda>_. None) = (n, ans)"
    and "length reqs = n"
    and "client_calls reqs PipelinedClientDispatcher_new = (sent, c)"
  shows "sent = reqs \<and>
    (\<exists>c'. client_reads (snd (server_run evs [] PipelinedServerDispatcher_new)) c = Inr c' \<and>
       fulfilled c' = map (\<lambda>i. (i, the (ans i))) [0..<leading ans n] \<and>
       pending c' = [leading ans n..<n])"
proof -
  let ?k = "leading ans n"
  have out: "snd (server_run evs [] PipelinedServerDispatcher_new) = map (the \<circ> ans) [0..<?k]"
    using server_run_ok [OF psd_rel_new _ assms(1), of "[]" n ans] assms(2) by simp
  have k: "?k \<le> n" unfolding leading_def by (metis length_takeWhile_le length_upt minus_nat.diff_0)
  have c: "c = \<lparr>pending = [0..<n], next_promise = n, fulfilled = []\<rparr>" "sent = reqs"
    using assms(3,4) by (simp_all add: client_calls_ok PipelinedClientDispatcher_new_def)
  have "zip [0..<n] (map (the \<circ> ans) [0..<?k]) = map (\<lambda>i. (i, the (ans i))) [0..<?k]"
    using k by (intro nth_equalityI) auto
  with k show ?thesis
    by (simp add: out c client_reads_ok)
qed

theorem pipelined_rpc_matches_requests_witness:
  "\<exists>c'. client_reads (snd (server_run [Request, Request, Complete 1 ''b'', Complete 0 ''a''] []
         PipelinedServerDispatcher_new)) (snd (client_calls [True, False] PipelinedClientDispatcher_new)) =
       Inr c' \<and> fulfilled c' = [(0, ''a''), (1, ''b'')] \<and> pending c' = []"
  using pipelined_rpc_matches_requests [OF sample_run(1,2) _ prod.collapse [symmetric],
      of "[True, False]", unfolded sample_run(3)]
  by (simp del: server_run.simps client_calls.simps add: numeral_2_eq_2)

end
