(* ===== verification/Service_Filters.thy ===== *)
theory Service_Filters
  imports Handler_Context
begin

text \<open>
  \<open>service/Service.h\<close> (\<open>ServiceFilter\<close>, \<open>FactoryToService\<close>), \<open>service/CloseOnReleaseFilter.h\<close>,
  \<open>service/ExecutorFilter.h\<close> and \<open>service/ExpiringFilter.h\<close>: filters decide which calls reach the
  service they wrap. The wrapped service and the executor are the calls made on them.
\<close>

section \<open>Filters that pass calls on\<close>

datatype 'req service_call = CallService 'req | CloseService | FailedFuture cpp_exn | ReadyFuture

definition ServiceFilter_close :: "'req service_call list" where
  "ServiceFilter_close = [CloseService]"

definition ServiceFilter_isAvailable :: "bool \<Rightarrow> bool" where
  "ServiceFilter_isAvailable inner = inner"

text \<open>\<open>ExecutorFilter\<close> hands the call to the executor, here the tasks it queues.\<close>

definition ExecutorFilter_call :: "'req \<Rightarrow> 'req service_call list \<Rightarrow> 'req service_call list" where
  "ExecutorFilter_call req tasks = tasks @ [CallService req]"

text \<open>
  \<open>FactoryToService\<close>: a call makes a service, passes the request on and closes itself when the
  response is there, whether it is a value or an exception (\<open>ensure\<close>). \<open>Service::close\<close>, which it
  inherits, does nothing to the service the factory made.
\<close>

definition FactoryToService_call :: "('svc + cpp_exn) \<Rightarrow> 'req \<Rightarrow> ('svc \<times> 'req) + cpp_exn" where
  "FactoryToService_call made req = (case made of Inl svc \<Rightarrow> Inl (svc, req) | Inr e \<Rightarrow> Inr e)"

section \<open>CloseOnReleaseFilter\<close>

type_synonym released = bool

definition CloseOnReleaseFilter_call :: "'req \<Rightarrow> released \<Rightarrow> 'req service_call" where
  "CloseOnReleaseFilter_call req released =
     (if \<not> released then CallService req else FailedFuture (RuntimeError ''Service Closed''))"

definition CloseOnReleaseFilter_close :: "released \<Rightarrow> 'req service_call \<times> released" where
  "CloseOnReleaseFilter_close released = (if \<not> released then CloseService else ReadyFuture, True)"

datatype 'req filter_op = OpCall 'req | OpClose

fun filter_run :: "'req filter_op list \<Rightarrow> released \<Rightarrow> 'req service_call list" where
  "filter_run [] rel = []"
| "filter_run (OpCall req # ops) rel = CloseOnReleaseFilter_call req rel # filter_run ops rel"
| "filter_run (OpClose # ops) rel =
     (case CloseOnReleaseFilter_close rel of (c, rel') \<Rightarrow> c # filter_run ops rel')"

fun reaches_service :: "'req service_call \<Rightarrow> bool" where
  "reaches_service (CallService req) = True"
| "reaches_service CloseService = True"
| "reaches_service _ = False"

lemma filter_run_released: "filter reaches_service (filter_run ops True) = []"
  by (induction ops "True" rule: filter_run.induct)
    (simp_all add: CloseOnReleaseFilter_call_def CloseOnReleaseFilter_close_def)

text \<open>The calls before the first close.\<close>

fun calls_before_close :: "'req filter_op list \<Rightarrow> 'req list" where
  "calls_before_close [] = []"
| "calls_before_close (OpCall req # ops) = req # calls_before_close ops"
| "calls_before_close (OpClose # ops) = []"

section \<open>ExpiringFilter\<close>

text \<open>
  The two timers are futures: \<open>TimerReady\<close> (never started, fired or cancelled) or \<open>TimerArmed\<close>.
  \<open>requests_\<close> counts the requests whose future is not complete.
\<close>

datatype timer = TimerReady | TimerArmed

record ExpiringFilter =
  idleTimeout :: timer
  maxTimeout :: timer
  idleTimeoutTime :: nat
  maxTime :: nat
  requests :: u32

definition startIdleTimer :: "ExpiringFilter \<Rightarrow> ExpiringFilter" where
  "startIdleTimer f =
     (if requests f \<noteq> 0 then f
      else if idleTimeoutTime f > 0 then f\<lparr>idleTimeout := TimerArmed\<rparr> else f)"

definition ExpiringFilter_new :: "nat \<Rightarrow> nat \<Rightarrow> ExpiringFilter" where
  "ExpiringFilter_new idle mx =
     (let f = \<lparr>idleTimeout = TimerReady, maxTimeout = TimerReady, idleTimeoutTime = idle,
               maxTime = mx, requests = 0\<rparr>;
          f1 = (if mx > 0 then f\<lparr>maxTimeout := TimerArmed\<rparr> else f) in
      startIdleTimer f1)"

definition ExpiringFilter_call :: "ExpiringFilter \<Rightarrow> ExpiringFilter" where
  "ExpiringFilter_call f =
     (let f1 = (if idleTimeout f = TimerArmed then f\<lparr>idleTimeout := TimerReady\<rparr> else f) in
      f1\<lparr>requests := requests f1 + 1\<rparr>)"

text \<open>The continuation of a request, run when its response or exception is there.\<close>

definition ExpiringFilter_ensure :: "ExpiringFilter \<Rightarrow> ExpiringFilter" where
  "ExpiringFilter_ensure f = startIdleTimer (f\<lparr>requests := requests f - 1\<rparr>)"

definition idle_fires :: "ExpiringFilter \<Rightarrow> ExpiringFilter" where
  "idle_fires f = f\<lparr>idleTimeout := TimerReady\<rparr>"

definition max_fires :: "ExpiringFilter \<Rightarrow> ExpiringFilter" where
  "max_fires f = f\<lparr>maxTimeout := TimerReady\<rparr>"

text \<open>
  The states a filter can reach, with the number of requests that are outstanding and whether the
  idle timer or the maximum timer has closed the service.
\<close>

inductive expiring_reach :: "nat \<Rightarrow> nat \<Rightarrow> ExpiringFilter \<Rightarrow> nat \<Rightarrow> bool \<Rightarrow> bool" for idle mx where
  start: "expiring_reach idle mx (ExpiringFilter_new idle mx) 0 False"
| call: "expiring_reach idle mx f n closed \<Longrightarrow> Suc n < 2 ^ 32 \<Longrightarrow>
    expiring_reach idle mx (ExpiringFilter_call f) (Suc n) closed"
| finish: "expiring_reach idle mx f (Suc n) closed \<Longrightarrow>
    expiring_reach idle mx (ExpiringFilter_ensure f) n closed"
| idle: "expiring_reach idle mx f n closed \<Longrightarrow> idleTimeout f = TimerArmed \<Longrightarrow>
    expiring_reach idle mx (idle_fires f) n True"
| max: "expiring_reach idle mx f n closed \<Longrightarrow> maxTimeout f = TimerArmed \<Longrightarrow>
    expiring_reach idle mx (max_fires f) n True"

lemmas expiring_defs = ExpiringFilter_new_def ExpiringFilter_call_def ExpiringFilter_ensure_def
  idle_fires_def max_fires_def startIdleTimer_def Let_def

lemma expiring_count:
  "expiring_reach idle mx f n closed \<Longrightarrow>
   n < 2 ^ 32 \<and> requests f = of_nat n \<and> idleTimeoutTime f = idle"
  by (induction rule: expiring_reach.induct) (simp_all add: expiring_defs)

lemma expiring_finish:
  assumes "expiring_reach idle mx f (Suc n) closed"
  shows "requests f - 1 = 0 \<longleftrightarrow> n = 0"
  using expiring_count [OF assms] of_nat32_eq_0_iff [of n] by simp

lemma expiring_armed:
  "expiring_reach idle mx f n closed \<Longrightarrow> idleTimeout f = TimerArmed \<Longrightarrow> n = 0"
proof (induction rule: expiring_reach.induct)
  case (call f n closed)
  then show ?case by (auto simp: expiring_defs split: if_splits)
next
  case (finish f n closed)
  then show ?case
    using expiring_finish [OF finish.hyps] by (auto simp: expiring_defs split: if_splits)
qed (simp_all add: expiring_defs split: if_splits)

lemma expiring_idle:
  "expiring_reach idle mx f n closed \<Longrightarrow> n = 0 \<Longrightarrow> 0 < idle \<Longrightarrow> \<not> closed \<Longrightarrow>
   idleTimeout f = TimerArmed"
proof (induction rule: expiring_reach.induct)
  case (finish f n closed)
  then show ?case
    using expiring_finish [OF finish.hyps] expiring_count [OF finish.hyps]
    by (simp add: expiring_defs)
qed (simp_all add: expiring_defs)

section \<open>Properties\<close>

text \<open>
  What reaches the service behind a CloseOnReleaseFilter is exactly the calls made before the first
  close, in order, and then that one close; no later call or close reaches it.
\<close>

theorem CloseOnReleaseFilter_closes_once:
  "filter reaches_service (filter_run ops False) =
     map CallService (calls_before_close ops) @ (if OpClose \<in> set ops then [CloseService] else [])"
  by (induction ops rule: calls_before_close.induct)
    (simp_all add: CloseOnReleaseFilter_call_def CloseOnReleaseFilter_close_def filter_run_released)

text \<open>
  An ExpiringFilter's idle timer is armed only while no request is outstanding, and while the
  filter has not closed its service it is armed whenever no request is outstanding and an idle
  timeout is configured.
\<close>

theorem ExpiringFilter_idle_timer:
  assumes "expiring_reach idle mx f n closed"
  shows "(idleTimeout f = TimerArmed \<longrightarrow> n = 0) \<and>
    (\<not> closed \<and> 0 < idle \<longrightarrow> (idleTimeout f = TimerArmed \<longleftrightarrow> n = 0))"
  using expiring_armed [OF assms] expiring_idle [OF assms] by blast

theorem ExpiringFilter_idle_timer_witness:
  "idleTimeout (ExpiringFilter_new 5 0) = TimerArmed \<and>
   idleTimeout (ExpiringFilter_call (ExpiringFilter_new 5 0)) \<noteq> TimerArmed"
proof -
  have r0: "expiring_reach 5 0 (ExpiringFilter_new 5 0) 0 False" by (rule expiring_reach.start)
  have r1: "expiring_reach 5 0 (ExpiringFilter_call (ExpiringFilter_new 5 0)) (Suc 0) False"
    by (rule expiring_reach.call [OF r0]) simp
  from ExpiringFilter_idle_timer [OF r0] ExpiringFilter_idle_timer [OF r1] show ?thesis by simp
qed

end
