(* ===== verification/Acceptor_Connections.thy ===== *)
theory Acceptor_Connections
  imports Complex_Main Wangle_Prelude
begin

text \<open>
  \<open>acceptor/ManagedConnection.{h,cpp}\<close> and \<open>acceptor/ConnectionManager.{h,cpp}\<close>: the intrusive list
  of connections with its two iterators, idle shedding, and the drain state machine. Connections
  and managers are objects with an address; \<open>World\<close> holds them all and the calls that leave the
  component, in order.
\<close>

section \<open>State\<close>

type_synonym conn_id = nat
type_synonym mgr_id = nat

datatype DrainState = DRAIN_NONE | SENT_NOTIFY_PENDING_SHUTDOWN | SENT_CLOSE_WHEN_IDLE

record ManagedConnection =
  drain_state :: DrainState
  connectionManager :: "mgr_id option"
  conn_timeout :: "nat option"

datatype ShutdownState =
    SHUTDOWN_NONE
  | NOTIFY_PENDING_SHUTDOWN
  | NOTIFY_PENDING_SHUTDOWN_COMPLETE
  | CLOSE_WHEN_IDLE
  | CLOSE_WHEN_IDLE_COMPLETE

fun shutdown_code :: "ShutdownState \<Rightarrow> nat" where
  "shutdown_code SHUTDOWN_NONE = 0"
| "shutdown_code NOTIFY_PENDING_SHUTDOWN = 1"
| "shutdown_code NOTIFY_PENDING_SHUTDOWN_COMPLETE = 2"
| "shutdown_code CLOSE_WHEN_IDLE = 3"
| "shutdown_code CLOSE_WHEN_IDLE_COMPLETE = 4"

text \<open>
  An iterator is the connection it points at, \<open>None\<close> is \<open>end()\<close>. \<open>grace_scheduled\<close> is the timer of
  the drain helper (\<open>isScheduled()\<close>), \<open>loop_scheduled\<close> its pending loop callback. \<open>pct\<close> is exact
  here where the source has a double.
\<close>

record ConnectionManager =
  conns :: "conn_id list"
  drainIterator :: "conn_id option"
  idleIterator :: "conn_id option"
  drain_all :: bool
  pct :: rat
  shutdownState :: ShutdownState
  notifyPendingShutdown :: bool
  default_timeout :: nat
  idleConnEarlyDropThreshold :: nat
  grace_scheduled :: bool
  loop_scheduled :: bool
  has_callback :: bool

datatype cm_event =
    OnConnectionAdded mgr_id
  | OnConnectionRemoved mgr_id
  | OnEmpty mgr_id
  | NotifyShutdown conn_id
  | CloseWhenIdle conn_id
  | DropConnection conn_id
  | DeferredClose mgr_id conn_id

record World =
  mgr :: "mgr_id \<Rightarrow> ConnectionManager"
  conn :: "conn_id \<Rightarrow> ManagedConnection"
  cm_log :: "cm_event list"

text \<open>
  The virtual methods of a connection belong to the protocol that uses the library: they are an
  argument. Each may change the world, for instance by removing the connection from its manager.
\<close>

record conn_ops =
  do_notify :: "conn_id \<Rightarrow> World \<Rightarrow> World"
  do_closeWhenIdle :: "conn_id \<Rightarrow> World \<Rightarrow> World"
  do_drop :: "conn_id \<Rightarrow> World \<Rightarrow> World"
  is_busy :: "conn_id \<Rightarrow> World \<Rightarrow> bool"
  idle_time :: "conn_id \<Rightarrow> World \<Rightarrow> nat"

definition upd_mgr :: "mgr_id \<Rightarrow> (ConnectionManager \<Rightarrow> ConnectionManager) \<Rightarrow> World \<Rightarrow> World" where
  "upd_mgr m f w = w\<lparr>mgr := (mgr w)(m := f (mgr w m))\<rparr>"

definition upd_conn :: "conn_id \<Rightarrow> (ManagedConnection \<Rightarrow> ManagedConnection) \<Rightarrow> World \<Rightarrow> World" where
  "upd_conn c f w = w\<lparr>conn := (conn w)(c := f (conn w c))\<rparr>"

definition log_event :: "cm_event \<Rightarrow> World \<Rightarrow> World" where
  "log_event e w = w\<lparr>cm_log := cm_log w @ [e]\<rparr>"

definition callback :: "mgr_id \<Rightarrow> cm_event \<Rightarrow> World \<Rightarrow> World" where
  "callback m e w = (if has_callback (mgr w m) then log_event e w else w)"

section \<open>ManagedConnection\<close>

definition fireNotifyPendingShutdown :: "conn_ops \<Rightarrow> conn_id \<Rightarrow> World \<Rightarrow> World" where
  "fireNotifyPendingShutdown C c w =
     (if drain_state (conn w c) = DRAIN_NONE
      then do_notify C c (log_event (NotifyShutdown c)
        (upd_conn c (\<lambda>x. x\<lparr>drain_state := SENT_NOTIFY_PENDING_SHUTDOWN\<rparr>) w))
      else w)"

definition fireCloseWhenIdle :: "conn_ops \<Rightarrow> bool \<Rightarrow> conn_id \<Rightarrow> World \<Rightarrow> World" where
  "fireCloseWhenIdle C force_to_close c w =
     (if force_to_close \<or> drain_state (conn w c) = SENT_NOTIFY_PENDING_SHUTDOWN
      then do_closeWhenIdle C c (log_event (CloseWhenIdle c)
        (upd_conn c (\<lambda>x. x\<lparr>drain_state := SENT_CLOSE_WHEN_IDLE\<rparr>) w))
      else w)"

definition cm_scheduleTimeout :: "conn_id \<Rightarrow> nat \<Rightarrow> World \<Rightarrow> World" where
  "cm_scheduleTimeout c timeout w =
     (if timeout > 0 then upd_conn c (\<lambda>x. x\<lparr>conn_timeout := Some timeout\<rparr>) w else w)"

definition resetTimeoutTo :: "conn_id \<Rightarrow> nat \<Rightarrow> World \<Rightarrow> World" where
  "resetTimeoutTo c timeout w =
     (if connectionManager (conn w c) \<noteq> None then cm_scheduleTimeout c timeout w else w)"

definition resetTimeout :: "conn_id \<Rightarrow> World \<Rightarrow> World" where
  "resetTimeout c w =
     (case connectionManager (conn w c) of
        None \<Rightarrow> w
      | Some m \<Rightarrow> resetTimeoutTo c (default_timeout (mgr w m)) w)"

section \<open>The list and its iterators\<close>

text \<open>\<open>iter_next xs it\<close> is \<open>++it\<close>, \<open>iter_last xs\<close> is \<open>--it\<close> for the end iterator.\<close>

fun iter_next :: "conn_id list \<Rightarrow> conn_id \<Rightarrow> conn_id option" where
  "iter_next [] c = None"
| "iter_next (x # xs) c = (if x = c then (case xs of [] \<Rightarrow> None | y # _ \<Rightarrow> Some y) else iter_next xs c)"

definition iter_begin :: "conn_id list \<Rightarrow> conn_id option" where
  "iter_begin xs = (case xs of [] \<Rightarrow> None | x # _ \<Rightarrow> Some x)"

definition iter_last :: "conn_id list \<Rightarrow> conn_id option" where
  "iter_last xs = (if xs = [] then None else Some (last xs))"

definition cm_unlink :: "conn_id \<Rightarrow> ConnectionManager \<Rightarrow> ConnectionManager" where
  "cm_unlink c x =
     x\<lparr>drainIterator := (if drainIterator x = Some c then iter_next (conns x) c else drainIterator x),
       idleIterator := (if idleIterator x = Some c then iter_next (conns x) c else idleIterator x),
       conns := remove1 c (conns x)\<rparr>"

definition removeConnection :: "mgr_id \<Rightarrow> conn_id \<Rightarrow> World \<Rightarrow> World" where
  "removeConnection m c w =
     (if connectionManager (conn w c) = Some m then
        (let w1 = upd_conn c (\<lambda>x. x\<lparr>conn_timeout := None, connectionManager := None\<rparr>) w;
             w2 = upd_mgr m (cm_unlink c) w1;
             w3 = callback m (OnConnectionRemoved m) w2 in
         if length (conns (mgr w3 m)) = 0 then callback m (OnEmpty m) w3 else w3)
      else w)"

definition ManagedConnection_destroy :: "conn_id \<Rightarrow> World \<Rightarrow> World" where
  "ManagedConnection_destroy c w =
     (case connectionManager (conn w c) of None \<Rightarrow> w | Some m \<Rightarrow> removeConnection m c w)"

section \<open>Adding, activity and idle shedding\<close>

definition getShutdownState :: "ConnectionManager \<Rightarrow> ShutdownState" where
  "getShutdownState x = (if \<not> drain_all x then SHUTDOWN_NONE else shutdownState x)"

text \<open>
  The deferred call that \<open>addConnection\<close> queues on the event loop is logged as \<open>DeferredClose\<close>;
  \<open>deferred_close\<close> is what it does when it runs.
\<close>

definition addConnection :: "conn_ops \<Rightarrow> mgr_id \<Rightarrow> conn_id \<Rightarrow> bool \<Rightarrow> World \<Rightarrow> World" where
  "addConnection C m c timeout w =
     (let w1 =
        (if connectionManager (conn w c) \<noteq> Some m then
           (let a = (case connectionManager (conn w c) of
                       None \<Rightarrow> w | Some old \<Rightarrow> removeConnection old c w);
                b = upd_mgr m (\<lambda>x. x\<lparr>conns := c # conns x\<rparr>) a;
                d = upd_conn c (\<lambda>x. x\<lparr>connectionManager := Some m\<rparr>) b in
            callback m (OnConnectionAdded m) d)
         else w);
      w2 = (if timeout then cm_scheduleTimeout c (default_timeout (mgr w1 m)) w1 else w1);
      w3 = (if shutdown_code (getShutdownState (mgr w2 m)) \<ge> shutdown_code NOTIFY_PENDING_SHUTDOWN \<and>
               notifyPendingShutdown (mgr w2 m)
            then fireNotifyPendingShutdown C c w2 else w2) in
      if shutdown_code (getShutdownState (mgr w3 m)) \<ge> shutdown_code CLOSE_WHEN_IDLE
      then log_event (DeferredClose m c) w3 else w3)"

definition deferred_close :: "conn_ops \<Rightarrow> mgr_id \<Rightarrow> conn_id \<Rightarrow> World \<Rightarrow> World" where
  "deferred_close C m c w =
     (if connectionManager (conn w c) \<noteq> None
      then fireCloseWhenIdle C (\<not> notifyPendingShutdown (mgr w m)) c w else w)"

definition onActivated :: "conn_id \<Rightarrow> ConnectionManager \<Rightarrow> ConnectionManager" where
  "onActivated c x =
     x\<lparr>idleIterator := (if idleIterator x = Some c then iter_next (conns x) c else idleIterator x),
       conns := c # remove1 c (conns x)\<rparr>"

definition onDeactivated :: "conn_id \<Rightarrow> ConnectionManager \<Rightarrow> ConnectionManager" where
  "onDeactivated c x =
     (let moveDrainIter = (drainIterator x = Some c);
          drain1 = (if moveDrainIter then iter_next (conns x) c else drainIterator x);
          cs = remove1 c (conns x) @ [c] in
      x\<lparr>conns := cs,
        idleIterator := (if idleIterator x = None then iter_last cs else idleIterator x),
        drainIterator := (if moveDrainIter \<and> drain1 = None then iter_last cs else drain1)\<rparr>)"

text \<open>The loop of \<open>dropIdleConnections\<close>; \<open>todo\<close> is \<open>num - count\<close>.\<close>

fun dropIdle_loop :: "conn_ops \<Rightarrow> mgr_id \<Rightarrow> nat \<Rightarrow> World \<Rightarrow> nat \<times> World" where
  "dropIdle_loop C m 0 w = (0, w)"
| "dropIdle_loop C m (Suc todo) w =
     (case idleIterator (mgr w m) of
        None \<Rightarrow> (0, w)
      | Some c \<Rightarrow>
          if idle_time C c w = 0 \<or> idle_time C c w \<le> idleConnEarlyDropThreshold (mgr w m) then (0, w)
          else
            (let w1 = upd_mgr m (\<lambda>x. x\<lparr>idleIterator := iter_next (conns x) c\<rparr>) w;
                 w2 = do_drop C c (log_event (DropConnection c) w1) in
             (case dropIdle_loop C m todo w2 of (n, w3) \<Rightarrow> (Suc n, w3))))"

definition dropIdleConnections :: "conn_ops \<Rightarrow> mgr_id \<Rightarrow> nat \<Rightarrow> World \<Rightarrow> nat \<times> World" where
  "dropIdleConnections C m num w =
     (if idleConnEarlyDropThreshold (mgr w m) \<ge> default_timeout (mgr w m) then (0, w)
      else dropIdle_loop C m num w)"

definition setLoweredIdleTimeout :: "nat \<Rightarrow> ConnectionManager \<Rightarrow> cpp_exn + ConnectionManager" where
  "setLoweredIdleTimeout timeout x =
     (if timeout \<le> default_timeout x then Inr (x\<lparr>idleConnEarlyDropThreshold := timeout\<rparr>)
      else Inl CheckFailed)"

section \<open>Draining and dropping\<close>

definition num_of_pct :: "nat \<Rightarrow> rat \<Rightarrow> nat" where
  "num_of_pct n p = min n (nat \<lfloor>of_nat n * p\<rfloor>)"

definition drainStartIterator :: "ConnectionManager \<Rightarrow> conn_id option" where
  "drainStartIterator x =
     (if drain_all x then iter_begin (conns x)
      else iter_begin (drop (length (conns x) - num_of_pct (length (conns x)) (pct x)) (conns x)))"

text \<open>
  The loop of \<open>drainConnections\<close>: at most \<open>budget\<close> more connections from \<open>it\<close> on. The iterator
  is advanced before the connection is called.
\<close>

fun drain_loop :: "conn_ops \<Rightarrow> mgr_id \<Rightarrow> nat \<Rightarrow> conn_id option \<Rightarrow> World \<Rightarrow> conn_id option \<times> World" where
  "drain_loop C m 0 it w = (it, w)"
| "drain_loop C m (Suc budget) None w = (None, w)"
| "drain_loop C m (Suc budget) (Some c) w =
     (let it' = iter_next (conns (mgr w m)) c;
          w' = (if shutdownState (mgr w m) = NOTIFY_PENDING_SHUTDOWN
                then fireNotifyPendingShutdown C c w
                else fireCloseWhenIdle C (\<not> notifyPendingShutdown (mgr w m)) c w) in
      drain_loop C m budget it' w')"

text \<open>
  \<open>drain_next\<close> is what follows the loop: go on in the next loop iteration, or enter the next state.
\<close>

definition drain_next :: "conn_id option \<Rightarrow> ConnectionManager \<Rightarrow> ConnectionManager" where
  "drain_next it x =
     (let x1 = x\<lparr>drainIterator := it\<rparr> in
      if it \<noteq> None then x1\<lparr>loop_scheduled := True\<rparr>
      else if shutdownState x1 = NOTIFY_PENDING_SHUTDOWN then
        (if \<not> grace_scheduled x1
         then (let x2 = x1\<lparr>shutdownState := CLOSE_WHEN_IDLE\<rparr> in
           x2\<lparr>drainIterator := drainStartIterator x2, loop_scheduled := True\<rparr>)
         else x1\<lparr>shutdownState := NOTIFY_PENDING_SHUTDOWN_COMPLETE\<rparr>)
      else x1\<lparr>shutdownState := CLOSE_WHEN_IDLE_COMPLETE\<rparr>)"

definition drainConnections :: "conn_ops \<Rightarrow> mgr_id \<Rightarrow> World \<Rightarrow> cpp_exn + World" where
  "drainConnections C m w =
     (if shutdownState (mgr w m) \<noteq> NOTIFY_PENDING_SHUTDOWN \<and> shutdownState (mgr w m) \<noteq> CLOSE_WHEN_IDLE
      then Inl CheckFailed
      else
        (case drain_loop C m 64 (drainIterator (mgr w m)) w of
           (it, w1) \<Rightarrow> Inr (upd_mgr m (drain_next it) w1)))"

text \<open>\<open>runLoopCallback\<close>: the event loop takes the callback off its list and runs it.\<close>

definition runLoopCallback :: "conn_ops \<Rightarrow> mgr_id \<Rightarrow> World \<Rightarrow> cpp_exn + World" where
  "runLoopCallback C m w = drainConnections C m (upd_mgr m (\<lambda>x. x\<lparr>loop_scheduled := False\<rparr>) w)"

definition startDrain :: "conn_ops \<Rightarrow> mgr_id \<Rightarrow> nat \<Rightarrow> World \<Rightarrow> cpp_exn + World" where
  "startDrain C m idleGrace w =
     drainConnections C m (upd_mgr m (\<lambda>x.
       (let x1 = (if idleGrace > 0
                  then x\<lparr>shutdownState := NOTIFY_PENDING_SHUTDOWN, grace_scheduled := True\<rparr>
                  else x\<lparr>notifyPendingShutdown := False, shutdownState := CLOSE_WHEN_IDLE\<rparr>) in
        x1\<lparr>drainIterator := drainStartIterator x1\<rparr>)) w)"

definition startDrainAll :: "conn_ops \<Rightarrow> mgr_id \<Rightarrow> nat \<Rightarrow> World \<Rightarrow> cpp_exn + World" where
  "startDrainAll C m idleGrace w =
     startDrain C m idleGrace
       (upd_mgr m (\<lambda>x. x\<lparr>drain_all := True, pct := 1, grace_scheduled := False\<rparr>) w)"

definition startDrainPartial :: "conn_ops \<Rightarrow> mgr_id \<Rightarrow> rat \<Rightarrow> nat \<Rightarrow> World \<Rightarrow> cpp_exn + World" where
  "startDrainPartial C m p idleGrace w =
     startDrain C m idleGrace (upd_mgr m (\<lambda>x. x\<lparr>drain_all := False, pct := p\<rparr>) w)"

definition initiateGracefulShutdown :: "conn_ops \<Rightarrow> mgr_id \<Rightarrow> nat \<Rightarrow> World \<Rightarrow> cpp_exn + World" where
  "initiateGracefulShutdown C m idleGrace w =
     (if getShutdownState (mgr w m) \<noteq> SHUTDOWN_NONE then Inr w else startDrainAll C m idleGrace w)"

definition cm_drainConnections :: "conn_ops \<Rightarrow> mgr_id \<Rightarrow> rat \<Rightarrow> nat \<Rightarrow> World \<Rightarrow> cpp_exn + World" where
  "cm_drainConnections C m p idleGrace w =
     (if getShutdownState (mgr w m) \<noteq> SHUTDOWN_NONE then Inr w
      else startDrainPartial C m p idleGrace w)"

definition idleGracefulTimeoutExpired :: "conn_ops \<Rightarrow> mgr_id \<Rightarrow> World \<Rightarrow> cpp_exn + World" where
  "idleGracefulTimeoutExpired C m w =
     (if shutdownState (mgr w m) = NOTIFY_PENDING_SHUTDOWN_COMPLETE
      then drainConnections C m (upd_mgr m (\<lambda>x.
        (let x1 = x\<lparr>shutdownState := CLOSE_WHEN_IDLE\<rparr> in
         x1\<lparr>drainIterator := drainStartIterator x1\<rparr>)) w)
      else Inr w)"

text \<open>\<open>timeoutExpired\<close>: the timer is no longer scheduled when its callback runs.\<close>

definition grace_timeoutExpired :: "conn_ops \<Rightarrow> mgr_id \<Rightarrow> World \<Rightarrow> cpp_exn + World" where
  "grace_timeoutExpired C m w =
     idleGracefulTimeoutExpired C m (upd_mgr m (\<lambda>x. x\<lparr>grace_scheduled := False\<rparr>) w)"

definition stopDrainingForShutdown :: "ConnectionManager \<Rightarrow> ConnectionManager" where
  "stopDrainingForShutdown x = x\<lparr>shutdownState := CLOSE_WHEN_IDLE_COMPLETE, grace_scheduled := False\<rparr>"

text \<open>
  \<open>dropAllConnections\<close> pops connections until the list is empty. A connection's own
  \<open>dropConnection\<close> could add connections and keep the loop going, so it is a partial function.
\<close>

partial_function (option) dropAll_loop :: "conn_ops \<Rightarrow> mgr_id \<Rightarrow> World \<Rightarrow> World option" where
  "dropAll_loop C m w =
     (case conns (mgr w m) of
        [] \<Rightarrow> Some w
      | c # cs \<Rightarrow>
          dropAll_loop C m (do_drop C c (log_event (DropConnection c)
            (upd_conn c (\<lambda>x. x\<lparr>conn_timeout := None, connectionManager := None\<rparr>)
              (upd_mgr m (\<lambda>x. x\<lparr>conns := cs\<rparr>) w)))))"

definition dropAllConnections :: "conn_ops \<Rightarrow> mgr_id \<Rightarrow> World \<Rightarrow> World option" where
  "dropAllConnections C m w =
     map_option (\<lambda>w1. callback m (OnEmpty m) (upd_mgr m (\<lambda>x.
       x\<lparr>drainIterator := None, idleIterator := None, loop_scheduled := False\<rparr>) w1))
       (dropAll_loop C m (upd_mgr m stopDrainingForShutdown w))"

fun dropSome_loop :: "conn_ops \<Rightarrow> mgr_id \<Rightarrow> nat \<Rightarrow> World \<Rightarrow> World" where
  "dropSome_loop C m 0 w = w"
| "dropSome_loop C m (Suc n) w =
     (case conns (mgr w m) of
        [] \<Rightarrow> w
      | c # _ \<Rightarrow>
          dropSome_loop C m n (do_drop C c (log_event (DropConnection c) (removeConnection m c w))))"

definition dropConnections :: "conn_ops \<Rightarrow> mgr_id \<Rightarrow> rat \<Rightarrow> World \<Rightarrow> World" where
  "dropConnections C m p w =
     (let w1 = upd_mgr m stopDrainingForShutdown w in
      dropSome_loop C m (num_of_pct (length (conns (mgr w1 m))) p) w1)"

end
