(* ===== verification/Acceptor_Connections_Props.thy ===== *)
theory Acceptor_Connections_Props
  imports Acceptor_Connections
begin

text \<open>
  What a connection manager promises: the list and the connections' back pointers agree and the
  iterators stay valid; the list is the busy connections followed by the idle ones, oldest first;
  shedding drops the connections idle longest; a graceful shutdown reaches every connection.
\<close>

section \<open>Fields\<close>

named_theorems cm_simps

lemma upd_fields [cm_simps]:
  "mgr (upd_conn c f w) = mgr w" "conn (upd_conn c f w) = (conn w)(c := f (conn w c))"
  "cm_log (upd_conn c f w) = cm_log w"
  "mgr (upd_mgr m g w) = (mgr w)(m := g (mgr w m))" "conn (upd_mgr m g w) = conn w"
  "cm_log (upd_mgr m g w) = cm_log w"
  "mgr (log_event e w) = mgr w" "conn (log_event e w) = conn w"
  "cm_log (log_event e w) = cm_log w @ [e]"
  "mgr (callback m e w) = mgr w" "conn (callback m e w) = conn w"
  by (simp_all add: upd_conn_def upd_mgr_def log_event_def callback_def)

lemma iter_next_split:
  "distinct (pre @ c # suf) \<Longrightarrow> iter_next (pre @ c # suf) c = iter_begin suf"
  by (induction pre) (auto simp: iter_begin_def split: list.splits)

lemma iter_next_mem: "iter_next xs c = Some d \<Longrightarrow> d \<in> set xs"
  by (induction xs c rule: iter_next.induct) (auto split: if_splits list.splits)

lemma iter_next_other: "distinct xs \<Longrightarrow> iter_next xs c = Some d \<Longrightarrow> d \<noteq> c"
  by (induction xs c rule: iter_next.induct) (auto split: if_splits list.splits)

lemma iter_begin_mem: "iter_begin xs = Some c \<Longrightarrow> c \<in> set xs"
  by (cases xs) (auto simp: iter_begin_def)

lemma iter_begin_simps [simp]: "iter_begin [] = None" "iter_begin (x # xs) = Some x"
  by (simp_all add: iter_begin_def)

lemma iter_begin_None [simp]: "iter_begin xs = None \<longleftrightarrow> xs = []"
  by (cases xs) (auto simp: iter_begin_def)

lemma removeConnection_fields:
  "mgr (removeConnection m c w) =
     (if connectionManager (conn w c) = Some m then (mgr w)(m := cm_unlink c (mgr w m)) else mgr w)"
  "conn (removeConnection m c w) =
     (if connectionManager (conn w c) = Some m
      then (conn w)(c := (conn w c)\<lparr>conn_timeout := None, connectionManager := None\<rparr>) else conn w)"
  by (auto simp: removeConnection_def Let_def cm_simps)

lemma cm_unlink_fields [cm_simps]:
  "conns (cm_unlink c x) = remove1 c (conns x)"
  "shutdownState (cm_unlink c x) = shutdownState x" "drain_all (cm_unlink c x) = drain_all x"
  "notifyPendingShutdown (cm_unlink c x) = notifyPendingShutdown x" "pct (cm_unlink c x) = pct x"
  "grace_scheduled (cm_unlink c x) = grace_scheduled x"
  "loop_scheduled (cm_unlink c x) = loop_scheduled x"
  "idleConnEarlyDropThreshold (cm_unlink c x) = idleConnEarlyDropThreshold x"
  "default_timeout (cm_unlink c x) = default_timeout x"
  by (simp_all add: cm_unlink_def)

section \<open>The invariant\<close>

definition iter_ok :: "conn_id option \<Rightarrow> conn_id list \<Rightarrow> bool" where
  "iter_ok it xs \<longleftrightarrow> (\<forall>c. it = Some c \<longrightarrow> c \<in> set xs)"

definition mgr_ok :: "ConnectionManager \<Rightarrow> bool" where
  "mgr_ok x \<longleftrightarrow> distinct (conns x) \<and> iter_ok (drainIterator x) (conns x) \<and>
     iter_ok (idleIterator x) (conns x)"

definition wf_world :: "World \<Rightarrow> bool" where
  "wf_world w \<longleftrightarrow> (\<forall>m. mgr_ok (mgr w m)) \<and>
     (\<forall>m c. c \<in> set (conns (mgr w m)) \<longleftrightarrow> connectionManager (conn w c) = Some m)"

lemma mgr_ok_unlink: "mgr_ok x \<Longrightarrow> mgr_ok (cm_unlink c x)"
  by (auto simp: mgr_ok_def cm_unlink_def iter_ok_def dest: iter_next_mem iter_next_other)

lemma mgr_ok_set_remove1: "mgr_ok x \<Longrightarrow> set (remove1 c (conns x)) = set (conns x) - {c}"
  by (simp add: mgr_ok_def)

lemma mgr_ok_front: "mgr_ok x \<Longrightarrow> c \<notin> set (conns x) \<Longrightarrow> mgr_ok (x\<lparr>conns := c # conns x\<rparr>)"
  by (auto simp: mgr_ok_def iter_ok_def)

lemma mgr_ok_advance: "mgr_ok x \<Longrightarrow> mgr_ok (x\<lparr>idleIterator := iter_next (conns x) c\<rparr>)"
  by (auto simp: mgr_ok_def iter_ok_def dest: iter_next_mem)

lemma mgr_ok_onActivated: "mgr_ok x \<Longrightarrow> c \<in> set (conns x) \<Longrightarrow> mgr_ok (onActivated c x)"
  by (auto simp: mgr_ok_def onActivated_def iter_ok_def dest: iter_next_mem iter_next_other)

lemma mgr_ok_onDeactivated: "mgr_ok x \<Longrightarrow> c \<in> set (conns x) \<Longrightarrow> mgr_ok (onDeactivated c x)"
  by (auto simp: mgr_ok_def onDeactivated_def iter_ok_def iter_last_def Let_def
      dest: iter_next_mem iter_next_other split: if_splits)

lemma set_onActivated [simp]: "c \<in> set (conns x) \<Longrightarrow> mgr_ok x \<Longrightarrow> set (conns (onActivated c x)) = set (conns x)"
  by (auto simp: onActivated_def mgr_ok_def)

lemma set_onDeactivated [simp]: "c \<in> set (conns x) \<Longrightarrow> mgr_ok x \<Longrightarrow> set (conns (onDeactivated c x)) = set (conns x)"
  by (auto simp: onDeactivated_def mgr_ok_def Let_def)

lemma wf_remove: "wf_world w \<Longrightarrow> wf_world (removeConnection m c w)"
  unfolding wf_world_def removeConnection_fields
  by (auto simp: mgr_ok_unlink cm_simps mgr_ok_set_remove1)

lemma wf_destroy: "wf_world w \<Longrightarrow> wf_world (ManagedConnection_destroy c w)"
  by (simp add: ManagedConnection_destroy_def wf_remove split: option.splits)

text \<open>A step that touches neither the lists and iterators nor the back pointers keeps the invariant.\<close>

lemma wf_world_cong:
  assumes "\<And>m. conns (mgr w' m) = conns (mgr w m)" "\<And>m. drainIterator (mgr w' m) = drainIterator (mgr w m)"
    "\<And>m. idleIterator (mgr w' m) = idleIterator (mgr w m)"
    "\<And>c. connectionManager (conn w' c) = connectionManager (conn w c)"
  shows "wf_world w' = wf_world w"
  using assms by (simp add: wf_world_def mgr_ok_def)

lemma wf_distinct: "wf_world w \<Longrightarrow> distinct (conns (mgr w m))"
  by (simp add: wf_world_def mgr_ok_def)

lemma wf_enter:
  assumes "wf_world w"
  shows "wf_world (callback m e (upd_conn c (\<lambda>x. x\<lparr>connectionManager := Some m\<rparr>)
    (upd_mgr m (\<lambda>x. x\<lparr>conns := c # conns x\<rparr>) (ManagedConnection_destroy c w))))"
proof -
  let ?a = "ManagedConnection_destroy c w"
  have a: "wf_world ?a" using assms by (rule wf_destroy)
  have "connectionManager (conn ?a c) = None"
    by (simp add: ManagedConnection_destroy_def removeConnection_fields split: option.splits)
  with a have "c \<notin> set (conns (mgr ?a k))" for k by (simp add: wf_world_def)
  with a show ?thesis
    by (auto simp: wf_world_def cm_simps intro: mgr_ok_front)
qed

section \<open>Connections that at most unregister themselves\<close>

text \<open>
  What the manager relies on: a connection that is notified, asked to close or dropped may remove
  itself from its manager, by being destroyed, and nothing else that the manager can see.
\<close>

locale self_closing =
  fixes C :: conn_ops
  assumes notify_self: "do_notify C c w = w \<or> do_notify C c w = ManagedConnection_destroy c w"
    and close_self: "do_closeWhenIdle C c w = w \<or> do_closeWhenIdle C c w = ManagedConnection_destroy c w"
    and drop_self: "do_drop C c w = w \<or> do_drop C c w = ManagedConnection_destroy c w"
begin

lemma wf_fire:
  assumes "wf_world w"
  shows "wf_world (fireNotifyPendingShutdown C c w)" "wf_world (fireCloseWhenIdle C force c w)"
    "wf_world (do_drop C c w)"
proof -
  let ?n = "log_event (NotifyShutdown c)
    (upd_conn c (\<lambda>x. x\<lparr>drain_state := SENT_NOTIFY_PENDING_SHUTDOWN\<rparr>) w)"
  let ?i = "log_event (CloseWhenIdle c) (upd_conn c (\<lambda>x. x\<lparr>drain_state := SENT_CLOSE_WHEN_IDLE\<rparr>) w)"
  have n: "wf_world ?n" and i: "wf_world ?i"
    using assms by (subst wf_world_cong [of _ w]; simp add: cm_simps)+
  show "wf_world (fireNotifyPendingShutdown C c w)"
    using assms n wf_destroy [OF n] notify_self [of c ?n] by (auto simp: fireNotifyPendingShutdown_def)
  show "wf_world (fireCloseWhenIdle C force c w)"
    using assms i wf_destroy [OF i] close_self [of c ?i] by (auto simp: fireCloseWhenIdle_def)
  show "wf_world (do_drop C c w)"
    using assms wf_destroy [OF assms] drop_self [of c w] by auto
qed

lemma wf_addConnection:
  assumes "wf_world w"
  shows "wf_world (addConnection C m c t w)"
proof -
  define w1 where "w1 = (if connectionManager (conn w c) \<noteq> Some m then
      callback m (OnConnectionAdded m) (upd_conn c (\<lambda>x. x\<lparr>connectionManager := Some m\<rparr>)
        (upd_mgr m (\<lambda>x. x\<lparr>conns := c # conns x\<rparr>) (ManagedConnection_destroy c w))) else w)"
  define w2 where "w2 = (if t then cm_scheduleTimeout c (default_timeout (mgr w1 m)) w1 else w1)"
  define w3 where "w3 = (if shutdown_code (getShutdownState (mgr w2 m)) \<ge> shutdown_code NOTIFY_PENDING_SHUTDOWN \<and>
      notifyPendingShutdown (mgr w2 m) then fireNotifyPendingShutdown C c w2 else w2)"
  have "wf_world w1" using assms by (auto simp: w1_def intro: wf_enter)
  then have "wf_world w2"
    by (auto simp: w2_def cm_scheduleTimeout_def cm_simps intro: wf_world_cong [THEN iffD2])
  then have "wf_world w3" using wf_fire(1) by (simp add: w3_def)
  then have "wf_world (if P then log_event (DeferredClose m c) w3 else w3)" for P
    by (auto simp: cm_simps intro: wf_world_cong [THEN iffD2])
  then show ?thesis
    unfolding addConnection_def Let_def w1_def [unfolded ManagedConnection_destroy_def, symmetric]
      w2_def [symmetric] w3_def [symmetric] .
qed

end

section \<open>Draining\<close>

definition drain_view :: "ConnectionManager \<Rightarrow> ShutdownState \<times> bool \<times> bool \<times> rat \<times> bool \<times> bool" where
  "drain_view x = (shutdownState x, notifyPendingShutdown x, drain_all x, pct x, grace_scheduled x,
     loop_scheduled x)"

fun shutdown_event :: "cm_event \<Rightarrow> bool" where
  "shutdown_event (NotifyShutdown c) = True"
| "shutdown_event (CloseWhenIdle c) = True"
| "shutdown_event _ = False"

abbreviation shutdown_log :: "World \<Rightarrow> cm_event list" where
  "shutdown_log w \<equiv> filter shutdown_event (cm_log w)"

text \<open>What one visit of the drain loop sends to a connection, and the state it leaves it in.\<close>

definition visit_events :: "ShutdownState \<Rightarrow> bool \<Rightarrow> DrainState \<Rightarrow> conn_id \<Rightarrow> cm_event list" where
  "visit_events st force ds c =
     (if st = NOTIFY_PENDING_SHUTDOWN then (if ds = DRAIN_NONE then [NotifyShutdown c] else [])
      else if force \<or> ds = SENT_NOTIFY_PENDING_SHUTDOWN then [CloseWhenIdle c] else [])"

definition visit_state :: "ShutdownState \<Rightarrow> bool \<Rightarrow> DrainState \<Rightarrow> DrainState" where
  "visit_state st force ds =
     (if st = NOTIFY_PENDING_SHUTDOWN then (if ds = DRAIN_NONE then SENT_NOTIFY_PENDING_SHUTDOWN else ds)
      else if force \<or> ds = SENT_NOTIFY_PENDING_SHUTDOWN then SENT_CLOSE_WHEN_IDLE else ds)"

definition visit :: "conn_ops \<Rightarrow> mgr_id \<Rightarrow> conn_id \<Rightarrow> World \<Rightarrow> World" where
  "visit C m c w =
     (if shutdownState (mgr w m) = NOTIFY_PENDING_SHUTDOWN
      then fireNotifyPendingShutdown C c w
      else fireCloseWhenIdle C (\<not> notifyPendingShutdown (mgr w m)) c w)"

lemma removeConnection_log: "shutdown_log (removeConnection m c w) = shutdown_log w"
  by (simp add: removeConnection_def Let_def callback_def log_event_def upd_conn_def upd_mgr_def)

lemma removeConnection_dropped:
  "filter (\<lambda>e. \<exists>c. e = DropConnection c) (cm_log (removeConnection m d w)) =
   filter (\<lambda>e. \<exists>c. e = DropConnection c) (cm_log w)"
  by (simp add: removeConnection_def Let_def callback_def log_event_def upd_conn_def upd_mgr_def)

lemma destroy_registered:
  assumes "connectionManager (conn w c) = Some m"
  shows "mgr (ManagedConnection_destroy c w) = (mgr w)(m := cm_unlink c (mgr w m))"
    "drain_state (conn (ManagedConnection_destroy c w) d) = drain_state (conn w d)"
    "shutdown_log (ManagedConnection_destroy c w) = shutdown_log w"
  using assms by (simp_all add: ManagedConnection_destroy_def removeConnection_fields removeConnection_log)

context self_closing
begin

lemma visit_ok:
  assumes "wf_world w" "c \<in> set (conns (mgr w m))"
  defines "st \<equiv> shutdownState (mgr w m)" and "force \<equiv> \<not> notifyPendingShutdown (mgr w m)"
  shows "wf_world (visit C m c w)"
    and "conns (mgr (visit C m c w) m) = conns (mgr w m) \<or>
      conns (mgr (visit C m c w) m) = remove1 c (conns (mgr w m))"
    and "drain_view (mgr (visit C m c w) m) = drain_view (mgr w m)"
    and "shutdown_log (visit C m c w) =
      shutdown_log w @ visit_events st force (drain_state (conn w c)) c"
    and "drain_state (conn (visit C m c w) d) =
      (if d = c then visit_state st force (drain_state (conn w c)) else drain_state (conn w d))"
proof -
  show "wf_world (visit C m c w)" using assms(1) by (simp add: visit_def wf_fire)
  have reg: "connectionManager (conn w c) = Some m" using assms(1,2) by (simp add: wf_world_def)
  let ?n = "log_event (NotifyShutdown c)
    (upd_conn c (\<lambda>x. x\<lparr>drain_state := SENT_NOTIFY_PENDING_SHUTDOWN\<rparr>) w)"
  let ?i = "log_event (CloseWhenIdle c) (upd_conn c (\<lambda>x. x\<lparr>drain_state := SENT_CLOSE_WHEN_IDLE\<rparr>) w)"
  have regs: "connectionManager (conn ?n c) = Some m" "connectionManager (conn ?i c) = Some m"
    using reg by (simp_all add: cm_simps)
  note defs = visit_def fireNotifyPendingShutdown_def fireCloseWhenIdle_def st_def force_def
    visit_events_def visit_state_def drain_view_def
  note facts = notify_self [of c ?n] close_self [of c ?i] destroy_registered [OF regs(1)]
    destroy_registered [OF regs(2)]
  show "conns (mgr (visit C m c w) m) = conns (mgr w m) \<or>
      conns (mgr (visit C m c w) m) = remove1 c (conns (mgr w m))"
    using facts by (auto simp: defs cm_simps)
  show "drain_view (mgr (visit C m c w) m) = drain_view (mgr w m)"
    using facts by (auto simp: defs cm_simps)
  show "shutdown_log (visit C m c w) =
      shutdown_log w @ visit_events st force (drain_state (conn w c)) c"
    using facts by (auto simp: defs cm_simps)
  show "drain_state (conn (visit C m c w) d) =
      (if d = c then visit_state st force (drain_state (conn w c)) else drain_state (conn w d))"
    using facts by (auto simp: defs cm_simps)
qed

lemma drain_loop_visit:
  "drain_loop C m (Suc b) (Some c) w =
     drain_loop C m b (iter_next (conns (mgr w m)) c) (visit C m c w)"
  by (simp add: visit_def Let_def)

lemma drain_loop_ok:
  "wf_world w \<Longrightarrow> conns (mgr w m) = pre @ suf \<Longrightarrow> shutdownState (mgr w m) = st \<Longrightarrow>
   notifyPendingShutdown (mgr w m) = (\<not> force) \<Longrightarrow>
   \<exists>w' pre'. drain_loop C m b (iter_begin suf) w = (iter_begin (drop b suf), w') \<and> wf_world w' \<and>
    conns (mgr w' m) = pre' @ drop b suf \<and>
    drain_view (mgr w' m) = drain_view (mgr w m) \<and>
    shutdown_log w' = shutdown_log w @
      concat (map (\<lambda>c. visit_events st force (drain_state (conn w c)) c) (take b suf)) \<and>
    (\<forall>d. drain_state (conn w' d) = (if d \<in> set (take b suf)
       then visit_state st force (drain_state (conn w d)) else drain_state (conn w d)))"
proof (induction b arbitrary: w pre suf)
  case 0
  then show ?case by (intro exI [of _ w] exI [of _ pre]) simp
next
  case (Suc b)
  show ?case
  proof (cases suf)
    case Nil
    with Suc.prems show ?thesis by (intro exI [of _ w] exI [of _ pre]) (simp add: iter_begin_def)
  next
    case (Cons c suf')
    let ?w = "visit C m c w"
    have mem: "c \<in> set (conns (mgr w m))" and dist: "distinct (pre @ c # suf')"
      using Suc.prems(2) Cons wf_distinct [OF Suc.prems(1), of m] by auto
    note visited = visit_ok [OF Suc.prems(1) mem]
    obtain pre1 where pre1: "conns (mgr ?w m) = pre1 @ suf'"
      using visited(2) Suc.prems(2) Cons dist by (auto simp: remove1_append)
    have "shutdownState (mgr ?w m) = st" "notifyPendingShutdown (mgr ?w m) = (\<not> force)"
      using visited(3) Suc.prems(3,4) by (simp_all add: drain_view_def)
    from Suc.IH [OF visited(1) pre1 this] obtain w' pre' where
      w': "drain_loop C m b (iter_begin suf') ?w = (iter_begin (drop b suf'), w')" "wf_world w'"
      "conns (mgr w' m) = pre' @ drop b suf'" "drain_view (mgr w' m) = drain_view (mgr ?w m)"
      "shutdown_log w' = shutdown_log ?w @
        concat (map (\<lambda>c. visit_events st force (drain_state (conn ?w c)) c) (take b suf'))"
      "\<forall>d. drain_state (conn w' d) = (if d \<in> set (take b suf')
         then visit_state st force (drain_state (conn ?w d)) else drain_state (conn ?w d))"
      by blast
    have c: "c \<notin> set suf'" using dist by simp
    have st: "drain_state (conn ?w d) = (if d = c then visit_state st force (drain_state (conn w c))
        else drain_state (conn w d))" for d
      using visited(5) Suc.prems(3,4) by simp
    have "drain_loop C m (Suc b) (iter_begin suf) w = (iter_begin (drop (Suc b) suf), w')"
      using w'(1) Suc.prems(2) Cons iter_next_split [OF dist]
      by (simp add: iter_begin_def [of "c # suf'"] drain_loop_visit del: drain_loop.simps)
    moreover have mapeq: "map (\<lambda>c. visit_events st force (drain_state (conn ?w c)) c) (take b suf') =
        map (\<lambda>c. visit_events st force (drain_state (conn w c)) c) (take b suf')"
      using c by (intro map_cong) (auto simp: st dest: in_set_takeD)
    have "shutdown_log w' = shutdown_log w @
        concat (map (\<lambda>c. visit_events st force (drain_state (conn w c)) c) (take (Suc b) suf))"
      unfolding w'(5) mapeq visited(4) using Suc.prems(3,4) Cons by simp
    moreover have "\<forall>d. drain_state (conn w' d) = (if d \<in> set (take (Suc b) suf)
        then visit_state st force (drain_state (conn w d)) else drain_state (conn w d))"
      using w'(6) c Cons by (auto simp: st dest: in_set_takeD)
    ultimately show ?thesis
      using w'(2-4) visited(3) Cons by (intro exI [of _ w'] exI [of _ pre']) simp
  qed
qed

end

text \<open>The event loop runs the drain helper's callback until it is no longer scheduled, at most \<open>n\<close> times.\<close>

fun run_loops :: "conn_ops \<Rightarrow> mgr_id \<Rightarrow> nat \<Rightarrow> World \<Rightarrow> cpp_exn + World" where
  "run_loops C m 0 w = Inr w"
| "run_loops C m (Suc n) w =
     (if loop_scheduled (mgr w m) then
        (case runLoopCallback C m w of Inl e \<Rightarrow> Inl e | Inr w' \<Rightarrow> run_loops C m n w')
      else Inr w)"

definition drain_phase :: "conn_ops \<Rightarrow> mgr_id \<Rightarrow> nat \<Rightarrow> World \<Rightarrow> cpp_exn + World" where
  "drain_phase C m n w =
     (case drainConnections C m w of Inl e \<Rightarrow> Inl e | Inr w' \<Rightarrow> run_loops C m n w')"

definition phase_end :: "ShutdownState \<Rightarrow> ShutdownState" where
  "phase_end st = (if st = NOTIFY_PENDING_SHUTDOWN then NOTIFY_PENDING_SHUTDOWN_COMPLETE
     else CLOSE_WHEN_IDLE_COMPLETE)"

context self_closing
begin

lemma drain_next_ok:
  assumes "shutdownState x = st"
    "st = NOTIFY_PENDING_SHUTDOWN \<and> grace_scheduled x \<or> st = CLOSE_WHEN_IDLE"
  shows "drain_next it x = (if it \<noteq> None then x\<lparr>drainIterator := it, loop_scheduled := True\<rparr>
    else x\<lparr>drainIterator := None, shutdownState := phase_end st\<rparr>)"
  using assms by (auto simp: drain_next_def phase_end_def)

lemma drainConnections_ok:
  assumes "wf_world w" "conns (mgr w m) = pre @ suf" "drainIterator (mgr w m) = iter_begin suf"
    "shutdownState (mgr w m) = st"
    "st = NOTIFY_PENDING_SHUTDOWN \<and> grace_scheduled (mgr w m) \<or> st = CLOSE_WHEN_IDLE"
    "notifyPendingShutdown (mgr w m) = (\<not> force)" "\<not> loop_scheduled (mgr w m)"
  shows "\<exists>w' pre'. drainConnections C m w = Inr w' \<and> wf_world w' \<and>
    conns (mgr w' m) = pre' @ drop 64 suf \<and> drainIterator (mgr w' m) = iter_begin (drop 64 suf) \<and>
    shutdownState (mgr w' m) = (if drop 64 suf = [] then phase_end st else st) \<and>
    loop_scheduled (mgr w' m) = (drop 64 suf \<noteq> []) \<and>
    notifyPendingShutdown (mgr w' m) = (\<not> force) \<and> drain_all (mgr w' m) = drain_all (mgr w m) \<and>
    grace_scheduled (mgr w' m) = grace_scheduled (mgr w m) \<and>
    shutdown_log w' = shutdown_log w @
      concat (map (\<lambda>c. visit_events st force (drain_state (conn w c)) c) (take 64 suf)) \<and>
    (\<forall>d. drain_state (conn w' d) = (if d \<in> set (take 64 suf)
       then visit_state st force (drain_state (conn w d)) else drain_state (conn w d)))"
proof -
  from drain_loop_ok [OF assms(1,2,4,6), of 64] obtain w1 pre' where
    loop: "drain_loop C m 64 (iter_begin suf) w = (iter_begin (drop 64 suf), w1)" "wf_world w1"
    "conns (mgr w1 m) = pre' @ drop 64 suf" "drain_view (mgr w1 m) = drain_view (mgr w m)"
    and log: "shutdown_log w1 = shutdown_log w @
      concat (map (\<lambda>c. visit_events st force (drain_state (conn w c)) c) (take 64 suf))"
    and states: "\<forall>d. drain_state (conn w1 d) = (if d \<in> set (take 64 suf)
       then visit_state st force (drain_state (conn w d)) else drain_state (conn w d))" by blast
  define w' where "w' = upd_mgr m (drain_next (iter_begin (drop 64 suf))) w1"
  have w': "drainConnections C m w = Inr w'"
    using assms(3-5) loop(1) by (auto simp: drainConnections_def w'_def)
  have view: "shutdownState (mgr w1 m) = st" "grace_scheduled (mgr w1 m) = grace_scheduled (mgr w m)"
    "notifyPendingShutdown (mgr w1 m) = (\<not> force)" "drain_all (mgr w1 m) = drain_all (mgr w m)"
    "\<not> loop_scheduled (mgr w1 m)"
    using loop(4) assms(4,6,7) by (simp_all add: drain_view_def)
  note mgr' = drain_next_ok [OF view(1), unfolded view(2), OF assms(5)]
  have f: "conn w' = conn w1" "cm_log w' = cm_log w1" "\<forall>k. k \<noteq> m \<longrightarrow> mgr w' k = mgr w1 k"
      "conns (mgr w' m) = conns (mgr w1 m)" "idleIterator (mgr w' m) = idleIterator (mgr w1 m)"
      "drainIterator (mgr w' m) = iter_begin (drop 64 suf)"
      "shutdownState (mgr w' m) = (if drop 64 suf = [] then phase_end st else st)"
      "loop_scheduled (mgr w' m) = (drop 64 suf \<noteq> [])"
      "notifyPendingShutdown (mgr w' m) = (\<not> force)" "drain_all (mgr w' m) = drain_all (mgr w m)"
      "grace_scheduled (mgr w' m) = grace_scheduled (mgr w m)"
    using view
    by (auto simp: w'_def cm_simps mgr' iter_begin_def split: list.splits simp del: drop_eq_Nil)
  have "iter_ok (drainIterator (mgr w' m)) (conns (mgr w' m))"
    using f(4,6) loop(3) by (auto simp: iter_ok_def dest: iter_begin_mem)
  then have "mgr_ok (mgr w' k)" for k
    using f(3-5) loop(2) by (cases "k = m") (auto simp: wf_world_def mgr_ok_def)
  moreover have "conns (mgr w' k) = conns (mgr w1 k)" for k using f(3,4) by (cases "k = m") auto
  ultimately have "wf_world w'" using loop(2) f(1) by (simp add: wf_world_def)
  with w' f log states loop(3) show ?thesis by (intro exI [of _ w'] exI [of _ pre']) simp
qed

lemma drain_phase_ok:
  "wf_world w \<Longrightarrow> conns (mgr w m) = pre @ suf \<Longrightarrow> drainIterator (mgr w m) = iter_begin suf \<Longrightarrow>
   shutdownState (mgr w m) = st \<Longrightarrow>
   st = NOTIFY_PENDING_SHUTDOWN \<and> grace_scheduled (mgr w m) \<or> st = CLOSE_WHEN_IDLE \<Longrightarrow>
   notifyPendingShutdown (mgr w m) = (\<not> force) \<Longrightarrow> \<not> loop_scheduled (mgr w m) \<Longrightarrow>
   length suf \<le> 64 * Suc n \<Longrightarrow>
   \<exists>w'. drain_phase C m n w = Inr w' \<and> wf_world w' \<and> shutdownState (mgr w' m) = phase_end st \<and>
    notifyPendingShutdown (mgr w' m) = (\<not> force) \<and> \<not> loop_scheduled (mgr w' m) \<and>
    drain_all (mgr w' m) = drain_all (mgr w m) \<and>
    shutdown_log w' = shutdown_log w @
      concat (map (\<lambda>c. visit_events st force (drain_state (conn w c)) c) suf) \<and>
    (\<forall>d. drain_state (conn w' d) = (if d \<in> set suf
       then visit_state st force (drain_state (conn w d)) else drain_state (conn w d)))"
proof (induction n arbitrary: w pre suf)
  case 0
  then have "drop 64 suf = []" "take 64 suf = suf" by simp_all
  with drainConnections_ok [OF 0(1-7)] show ?case by (auto simp: drain_phase_def)
next
  case (Suc n)
  from drainConnections_ok [OF Suc.prems(1-7)] obtain w1 pre' where
    w1: "drainConnections C m w = Inr w1" "wf_world w1" "conns (mgr w1 m) = pre' @ drop 64 suf"
    "drainIterator (mgr w1 m) = iter_begin (drop 64 suf)"
    "shutdownState (mgr w1 m) = (if drop 64 suf = [] then phase_end st else st)"
    "loop_scheduled (mgr w1 m) = (drop 64 suf \<noteq> [])"
    "notifyPendingShutdown (mgr w1 m) = (\<not> force)" "drain_all (mgr w1 m) = drain_all (mgr w m)"
    "grace_scheduled (mgr w1 m) = grace_scheduled (mgr w m)"
    and log: "shutdown_log w1 = shutdown_log w @
      concat (map (\<lambda>c. visit_events st force (drain_state (conn w c)) c) (take 64 suf))"
    and states: "\<forall>d. drain_state (conn w1 d) = (if d \<in> set (take 64 suf)
       then visit_state st force (drain_state (conn w d)) else drain_state (conn w d))" by blast
  show ?case
  proof (cases "drop 64 suf = []")
    case True
    then have "take 64 suf = suf" by simp
    with True w1 log states show ?thesis by (intro exI [of _ w1]) (simp add: drain_phase_def)
  next
    case False
    define w2 where "w2 = upd_mgr m (\<lambda>x. x\<lparr>loop_scheduled := False\<rparr>) w1"
    have "wf_world w2" unfolding w2_def using w1(2) by (subst wf_world_cong [of _ w1]) (auto simp: cm_simps)
    moreover have f: "conns (mgr w2 m) = pre' @ drop 64 suf"
      "drainIterator (mgr w2 m) = iter_begin (drop 64 suf)" "shutdownState (mgr w2 m) = st"
      "grace_scheduled (mgr w2 m) = grace_scheduled (mgr w m)" "\<not> loop_scheduled (mgr w2 m)"
      "notifyPendingShutdown (mgr w2 m) = (\<not> force)" "drain_all (mgr w2 m) = drain_all (mgr w m)"
      "conn w2 = conn w1" "cm_log w2 = cm_log w1"
      using w1 False by (simp_all add: w2_def cm_simps)
    moreover have "length (drop 64 suf) \<le> 64 * Suc n" using Suc.prems(8) by simp
    ultimately obtain w' where w': "drain_phase C m n w2 = Inr w'" "wf_world w'"
      "shutdownState (mgr w' m) = phase_end st" "notifyPendingShutdown (mgr w' m) = (\<not> force)"
      "\<not> loop_scheduled (mgr w' m)" "drain_all (mgr w' m) = drain_all (mgr w2 m)"
      and log': "shutdown_log w' = shutdown_log w2 @
        concat (map (\<lambda>c. visit_events st force (drain_state (conn w2 c)) c) (drop 64 suf))"
      and states': "\<forall>d. drain_state (conn w' d) = (if d \<in> set (drop 64 suf)
         then visit_state st force (drain_state (conn w2 d)) else drain_state (conn w2 d))"
      using Suc.IH [of w2 pre' "drop 64 suf"] Suc.prems(5) by auto
    have "drain_phase C m (Suc n) w = Inr w'"
      using w'(1) w1(1,6) False
      by (simp add: drain_phase_def runLoopCallback_def w2_def split: sum.splits)
    moreover have dist: "distinct suf" using wf_distinct [OF Suc.prems(1), of m] Suc.prems(2) by simp
    have mapeq: "map (\<lambda>c. visit_events st force (drain_state (conn w1 c)) c) (drop 64 suf) =
        map (\<lambda>c. visit_events st force (drain_state (conn w c)) c) (drop 64 suf)"
      using states set_take_disj_set_drop_if_distinct [OF dist, of 64 64] by (intro map_cong) auto
    have "shutdown_log w' = shutdown_log w @
        concat (map (\<lambda>c. visit_events st force (drain_state (conn w c)) c) (take 64 suf @ drop 64 suf))"
      unfolding log' f(8,9) mapeq log map_append concat_append by simp
    moreover have "d \<in> set suf \<longleftrightarrow> d \<in> set (take 64 suf) \<or> d \<in> set (drop 64 suf)" for d
      by (metis Un_iff append_take_drop_id set_append)
    then have "\<forall>d. drain_state (conn w' d) = (if d \<in> set suf
        then visit_state st force (drain_state (conn w d)) else drain_state (conn w d))"
      using states states' set_take_disj_set_drop_if_distinct [OF dist, of 64 64] f(8) by auto
    ultimately show ?thesis using w'(2-6) f(7) by (intro exI [of _ w']) simp
  qed
qed

lemma startDrain_ok:
  assumes "wf_world w" "drain_all (mgr w m)" "\<not> loop_scheduled (mgr w m)"
    "length (conns (mgr w m)) \<le> 64 * Suc n"
    "0 < g \<Longrightarrow> notifyPendingShutdown (mgr w m)"
  defines "st \<equiv> (if 0 < g then NOTIFY_PENDING_SHUTDOWN else CLOSE_WHEN_IDLE)"
  shows "\<exists>w'. (case startDrain C m g w of Inl e \<Rightarrow> Inl e | Inr w1 \<Rightarrow> run_loops C m n w1) = Inr w' \<and>
    wf_world w' \<and> shutdownState (mgr w' m) = phase_end st \<and>
    notifyPendingShutdown (mgr w' m) = (0 < g) \<and> \<not> loop_scheduled (mgr w' m) \<and> drain_all (mgr w' m) \<and>
    shutdown_log w' = shutdown_log w @
      concat (map (\<lambda>c. visit_events st (g = 0) (drain_state (conn w c)) c) (conns (mgr w m))) \<and>
    (\<forall>d. drain_state (conn w' d) = (if d \<in> set (conns (mgr w m))
       then visit_state st (g = 0) (drain_state (conn w d)) else drain_state (conn w d)))"
proof -
  define w0 where "w0 = upd_mgr m (\<lambda>x.
       (let x1 = (if g > 0
                  then x\<lparr>shutdownState := NOTIFY_PENDING_SHUTDOWN, grace_scheduled := True\<rparr>
                  else x\<lparr>notifyPendingShutdown := False, shutdownState := CLOSE_WHEN_IDLE\<rparr>) in
        x1\<lparr>drainIterator := drainStartIterator x1\<rparr>)) w"
  have f: "conns (mgr w0 m) = [] @ conns (mgr w m)" "drainIterator (mgr w0 m) = iter_begin (conns (mgr w m))"
    "shutdownState (mgr w0 m) = st"
    "st = NOTIFY_PENDING_SHUTDOWN \<and> grace_scheduled (mgr w0 m) \<or> st = CLOSE_WHEN_IDLE"
    "notifyPendingShutdown (mgr w0 m) = (\<not> (g = 0))" "\<not> loop_scheduled (mgr w0 m)"
    "conn w0 = conn w" "cm_log w0 = cm_log w" "drain_all (mgr w0 m)"
    "\<forall>k. k \<noteq> m \<longrightarrow> mgr w0 k = mgr w k" "idleIterator (mgr w0 m) = idleIterator (mgr w m)"
    using assms(2,3,5) by (auto simp: w0_def cm_simps Let_def drainStartIterator_def st_def)
  have "mgr_ok (mgr w0 k)" for k
    using assms(1) f(1,2,10,11)
    by (cases "k = m") (auto simp: wf_world_def mgr_ok_def iter_ok_def dest: iter_begin_mem)
  moreover have "conns (mgr w0 k) = conns (mgr w k)" for k using f(1,10) by (cases "k = m") auto
  ultimately have "wf_world w0" using assms(1) f(7) by (simp add: wf_world_def)
  note phase = drain_phase_ok [OF this f(1-6) assms(4), unfolded f(7,8)]
  have "startDrain C m g w = drainConnections C m w0" by (simp add: startDrain_def w0_def)
  with phase f(9) show ?thesis by (simp add: drain_phase_def)
qed

end

section \<open>Busy and idle connections\<close>

text \<open>
  \<open>partition_of x bs is\<close>: the list of manager \<open>x\<close> is the busy connections \<open>bs\<close> and then the idle ones
  \<open>is\<close>, with the iterator at the first idle one.
\<close>

definition partition_of :: "ConnectionManager \<Rightarrow> conn_id list \<Rightarrow> conn_id list \<Rightarrow> bool" where
  "partition_of x bs ids \<longleftrightarrow> conns x = bs @ ids \<and> idleIterator x = iter_begin ids \<and> distinct (bs @ ids)"

datatype activity = Enter conn_id | Leave conn_id | Activate conn_id | Deactivate conn_id

fun activity_do :: "activity \<Rightarrow> ConnectionManager \<Rightarrow> ConnectionManager" where
  "activity_do (Enter c) x = x\<lparr>conns := c # conns x\<rparr>"
| "activity_do (Leave c) x = cm_unlink c x"
| "activity_do (Activate c) x = onActivated c x"
| "activity_do (Deactivate c) x = onDeactivated c x"

fun activity_spec :: "activity \<Rightarrow> conn_id list \<times> conn_id list \<Rightarrow> conn_id list \<times> conn_id list" where
  "activity_spec (Enter c) (bs, ids) = (c # bs, ids)"
| "activity_spec (Leave c) (bs, ids) = (remove1 c bs, remove1 c ids)"
| "activity_spec (Activate c) (bs, ids) = (c # remove1 c bs, remove1 c ids)"
| "activity_spec (Deactivate c) (bs, ids) = (remove1 c bs, remove1 c ids @ [c])"

fun activity_ok :: "activity \<Rightarrow> conn_id list \<times> conn_id list \<Rightarrow> bool" where
  "activity_ok (Enter c) (bs, ids) \<longleftrightarrow> c \<notin> set bs \<and> c \<notin> set ids"
| "activity_ok (Leave c) (bs, ids) \<longleftrightarrow> c \<in> set bs \<or> c \<in> set ids"
| "activity_ok (Activate c) (bs, ids) \<longleftrightarrow> c \<in> set bs \<or> c \<in> set ids"
| "activity_ok (Deactivate c) (bs, ids) \<longleftrightarrow> c \<in> set bs"

lemma remove1_parts:
  "distinct (bs @ ids) \<Longrightarrow> remove1 c (bs @ ids) = remove1 c bs @ remove1 c ids"
  by (auto simp: remove1_append remove1_idem disjoint_iff)

lemma iter_next_idle:
  "distinct (bs @ ids) \<Longrightarrow> iter_begin ids = Some c \<Longrightarrow> iter_next (bs @ ids) c = iter_begin (remove1 c ids)"
  by (cases ids) (auto simp: iter_next_split)

lemma iter_begin_remove1: "iter_begin ids \<noteq> Some c \<Longrightarrow> iter_begin (remove1 c ids) = iter_begin ids"
  by (cases ids) (auto simp: iter_begin_def)

lemma partition_activity:
  assumes "partition_of x bs ids" "activity_ok a (bs, ids)"
  shows "case activity_spec a (bs, ids) of (bs', ids') \<Rightarrow> partition_of (activity_do a x) bs' ids'"
proof -
  have x: "conns x = bs @ ids" "idleIterator x = iter_begin ids" "distinct (bs @ ids)"
    using assms(1) by (simp_all add: partition_of_def)
  have idle: "(if idleIterator x = Some c then iter_next (conns x) c else idleIterator x) =
      iter_begin (remove1 c ids)" for c
    using x by (auto simp: iter_next_idle iter_begin_remove1)
  note parts = remove1_parts [OF x(3)]
  show ?thesis
  proof (cases a)
    case (Deactivate c)
    then have "c \<in> set bs" "c \<notin> set ids" using assms(2) x(3) by auto
    with Deactivate x parts show ?thesis
      by (auto simp: partition_of_def onDeactivated_def Let_def remove1_idem iter_last_def iter_begin_def
          split: list.splits)
  next
    case (Activate c)
    with assms(2) x parts idle [of c] show ?thesis
      by (auto simp: partition_of_def onActivated_def)
  next
    case (Leave c)
    with assms(2) x parts idle [of c] show ?thesis
      by (auto simp: partition_of_def cm_unlink_def)
  next
    case (Enter c)
    with assms(2) x show ?thesis by (auto simp: partition_of_def)
  qed
qed

section \<open>Shedding idle connections\<close>

definition sheddable :: "conn_ops \<Rightarrow> mgr_id \<Rightarrow> World \<Rightarrow> conn_id \<Rightarrow> bool" where
  "sheddable C m w c \<longleftrightarrow> idle_time C c w \<noteq> 0 \<and> idleConnEarlyDropThreshold (mgr w m) < idle_time C c w"

abbreviation dropped :: "World \<Rightarrow> cm_event list" where
  "dropped w \<equiv> filter (\<lambda>e. \<exists>c. e = DropConnection c) (cm_log w)"

text \<open>Idle times are read through the connection; dropping one connection does not change another's.\<close>

locale shedding = self_closing +
  assumes idle_time_drop: "d \<noteq> c \<Longrightarrow> idle_time C d (do_drop C c (log_event e (upd_mgr m f w))) = idle_time C d w"
begin

lemma dropped_once:
  assumes "wf_world w" "idleIterator (mgr w m) = Some c" "conns (mgr w m) = bs @ c # ids"
    "distinct (bs @ c # ids)"
  defines "w2 \<equiv> do_drop C c (log_event (DropConnection c)
    (upd_mgr m (\<lambda>x. x\<lparr>idleIterator := iter_next (conns x) c\<rparr>) w))"
  shows "wf_world w2" "\<exists>bs'. partition_of (mgr w2 m) bs' ids"
    "idleConnEarlyDropThreshold (mgr w2 m) = idleConnEarlyDropThreshold (mgr w m)"
    "dropped w2 = dropped w @ [DropConnection c]"
proof -
  let ?w1 = "log_event (DropConnection c)
    (upd_mgr m (\<lambda>x. x\<lparr>idleIterator := iter_next (conns x) c\<rparr>) w)"
  have "c \<in> set (conns (mgr w m))" by (simp add: assms(3))
  then have reg: "connectionManager (conn ?w1 c) = Some m"
    using assms(1) by (simp add: wf_world_def cm_simps)
  have it: "iter_next (conns (mgr w m)) c = iter_begin ids"
    unfolding assms(3) by (rule iter_next_split [OF assms(4)])
  have "mgr_ok (mgr ?w1 k)" for k
    using assms(1) mgr_ok_advance by (simp add: wf_world_def cm_simps)
  then have wf1: "wf_world ?w1" using assms(1) by (auto simp: wf_world_def cm_simps)
  have part1: "partition_of (mgr ?w1 m) (bs @ [c]) ids"
    using assms(3,4) it by (simp add: partition_of_def cm_simps)
  have log1: "dropped ?w1 = dropped w @ [DropConnection c]" by (simp add: cm_simps)
  have wf2: "wf_world (ManagedConnection_destroy c ?w1)" using wf1 by (rule wf_destroy)
  have mgr2: "mgr (ManagedConnection_destroy c ?w1) m = cm_unlink c (mgr ?w1 m)"
    using destroy_registered(1) [OF reg] by simp
  have "remove1 c (bs @ [c]) = bs" "remove1 c ids = ids"
    using assms(4) by (auto simp: remove1_append remove1_idem)
  then have part2: "partition_of (mgr (ManagedConnection_destroy c ?w1) m) bs ids"
    unfolding mgr2 using partition_activity [OF part1, of "Leave c"] by simp
  have log2: "dropped (ManagedConnection_destroy c ?w1) = dropped ?w1"
    using reg by (simp add: ManagedConnection_destroy_def removeConnection_dropped)
  have cases: "w2 = ?w1 \<or> w2 = ManagedConnection_destroy c ?w1" unfolding w2_def by (rule drop_self)
  show "wf_world w2" using cases wf1 wf2 by auto
  show "\<exists>bs'. partition_of (mgr w2 m) bs' ids" using cases part1 part2 by blast
  show "idleConnEarlyDropThreshold (mgr w2 m) = idleConnEarlyDropThreshold (mgr w m)"
    using cases mgr2 by (auto simp: cm_simps)
  show "dropped w2 = dropped w @ [DropConnection c]" using cases log1 log2 by auto
qed

lemma dropIdle_ok:
  "wf_world w \<Longrightarrow> partition_of (mgr w m) bs ids \<Longrightarrow>
   \<exists>w' bs'. dropIdle_loop C m n w = (length (takeWhile (sheddable C m w) (take n ids)), w') \<and>
     wf_world w' \<and>
     partition_of (mgr w' m) bs' (drop (length (takeWhile (sheddable C m w) (take n ids))) ids) \<and>
     dropped w' = dropped w @ map DropConnection (takeWhile (sheddable C m w) (take n ids))"
proof (induction n arbitrary: w bs ids)
  case 0
  then show ?case by (intro exI [of _ w] exI [of _ bs]) simp
next
  case (Suc n)
  show ?case
  proof (cases ids)
    case Nil
    with Suc.prems show ?thesis
      by (intro exI [of _ w] exI [of _ bs]) (simp add: partition_of_def)
  next
    case (Cons c ids')
    have idle: "idleIterator (mgr w m) = Some c" and conns: "conns (mgr w m) = bs @ c # ids'"
      and dist: "distinct (bs @ c # ids')"
      using Suc.prems(2) Cons by (simp_all add: partition_of_def)
    show ?thesis
    proof (cases "sheddable C m w c")
      case False
      with Suc.prems Cons idle show ?thesis
        by (intro exI [of _ w] exI [of _ bs]) (auto simp: sheddable_def)
    next
      case True
      define f :: "ConnectionManager \<Rightarrow> ConnectionManager" where "f = (\<lambda>x. x\<lparr>idleIterator := iter_next (conns x) c\<rparr>)"
      define w1 where "w1 = log_event (DropConnection c) (upd_mgr m f w)"
      define w2 where "w2 = do_drop C c w1"
      note nx = dropped_once [OF Suc.prems(1) idle conns dist, folded f_def, folded w1_def, folded w2_def]
      then obtain bs2 where bs2: "partition_of (mgr w2 m) bs2 ids'" by blast
      have shed: "sheddable C m w2 d = sheddable C m w d" if "d \<in> set ids'" for d
      proof -
        have "d \<noteq> c" using that dist by auto
        then have "idle_time C d w2 = idle_time C d w" unfolding w2_def w1_def by (rule idle_time_drop)
        with nx(3) show ?thesis by (simp add: sheddable_def)
      qed
      then have tw: "takeWhile (sheddable C m w2) (take n ids') = takeWhile (sheddable C m w) (take n ids')"
        by (intro takeWhile_cong) (auto dest: in_set_takeD)
      from Suc.IH [OF nx(1) bs2] obtain w' bs' where
        w': "dropIdle_loop C m n w2 = (length (takeWhile (sheddable C m w) (take n ids')), w')"
        "wf_world w'" "partition_of (mgr w' m) bs' (drop (length (takeWhile (sheddable C m w) (take n ids'))) ids')"
        "dropped w' = dropped w2 @ map DropConnection (takeWhile (sheddable C m w) (take n ids'))"
        unfolding tw by blast
      have "dropIdle_loop C m (Suc n) w = (Suc (length (takeWhile (sheddable C m w) (take n ids'))), w')"
        using True idle w'(1) by (auto simp: sheddable_def Let_def w2_def w1_def f_def)
      with w'(2-4) nx(4) True Cons show ?thesis by (intro exI [of _ w'] exI [of _ bs']) simp
    qed
  qed
qed

end

section \<open>An instance\<close>

text \<open>
  Connections that ignore the notification, unregister when asked to close or dropped, and have
  been idle for as many milliseconds as their number says.
\<close>

definition closing_ops :: conn_ops where
  "closing_ops = \<lparr>do_notify = (\<lambda>c w. w), do_closeWhenIdle = ManagedConnection_destroy,
     do_drop = ManagedConnection_destroy, is_busy = (\<lambda>c w. False), idle_time = (\<lambda>c w. c)\<rparr>"

interpretation closing: shedding closing_ops
  by unfold_locales (simp_all add: closing_ops_def)

definition sample_mgr :: ConnectionManager where
  "sample_mgr = \<lparr>conns = [], drainIterator = None, idleIterator = None, drain_all = True, pct = 1,
     shutdownState = SHUTDOWN_NONE, notifyPendingShutdown = True, default_timeout = 100,
     idleConnEarlyDropThreshold = 50, grace_scheduled = False, loop_scheduled = False,
     has_callback = True\<rparr>"

definition sample_conn :: ManagedConnection where
  "sample_conn = \<lparr>drain_state = DRAIN_NONE, connectionManager = None, conn_timeout = None\<rparr>"

definition empty_world :: World where
  "empty_world = \<lparr>mgr = (\<lambda>_. sample_mgr), conn = (\<lambda>_. sample_conn), cm_log = []\<rparr>"

definition sample_world :: World where
  "sample_world = addConnection closing_ops 0 60 False (addConnection closing_ops 0 70 True empty_world)"

lemma wf_empty: "wf_world empty_world"
  by (simp add: wf_world_def empty_world_def mgr_ok_def iter_ok_def sample_mgr_def sample_conn_def)

lemma wf_sample: "wf_world sample_world"
  unfolding sample_world_def by (intro closing.wf_addConnection wf_empty)

section \<open>Properties\<close>

text \<open>The calls on a manager that change which connections it has or where its iterators stand.\<close>

datatype manager_op =
    AddConnection mgr_id conn_id bool
  | RemoveConnection mgr_id conn_id
  | OnActivated mgr_id conn_id
  | OnDeactivated mgr_id conn_id
  | DropIdleConnections mgr_id nat
  | Destroy conn_id

definition manager_do :: "conn_ops \<Rightarrow> manager_op \<Rightarrow> World \<Rightarrow> World" where
  "manager_do C a w =
     (case a of
        AddConnection m c t \<Rightarrow> addConnection C m c t w
      | RemoveConnection m c \<Rightarrow> removeConnection m c w
      | OnActivated m c \<Rightarrow> upd_mgr m (onActivated c) w
      | OnDeactivated m c \<Rightarrow> upd_mgr m (onDeactivated c) w
      | DropIdleConnections m n \<Rightarrow> snd (dropIdleConnections C m n w)
      | Destroy c \<Rightarrow> ManagedConnection_destroy c w)"

fun manager_ok :: "manager_op \<Rightarrow> World \<Rightarrow> bool" where
  "manager_ok (OnActivated m c) w \<longleftrightarrow> c \<in> set (conns (mgr w m))"
| "manager_ok (OnDeactivated m c) w \<longleftrightarrow> c \<in> set (conns (mgr w m))"
| "manager_ok _ w \<longleftrightarrow> True"

context self_closing
begin

lemma wf_dropIdle_loop: "wf_world w \<Longrightarrow> wf_world (snd (dropIdle_loop C m n w))"
proof (induction n arbitrary: w)
  case (Suc n)
  show ?case
  proof (cases "idleIterator (mgr w m)")
    case None
    with Suc.prems show ?thesis by simp
  next
    case (Some c)
    have "wf_world (log_event (DropConnection c)
        (upd_mgr m (\<lambda>x. x\<lparr>idleIterator := iter_next (conns x) c\<rparr>) w))"
      using Suc.prems mgr_ok_advance by (auto simp: wf_world_def cm_simps)
    from Suc.IH [OF wf_fire(3) [OF this, of c]] Suc.prems Some show ?thesis
      by (simp add: Let_def split_beta)
  qed
qed simp

lemma wf_manager_do: "wf_world w \<Longrightarrow> manager_ok a w \<Longrightarrow> wf_world (manager_do C a w)"
proof (cases a)
  case (OnActivated m c)
  assume "wf_world w" "manager_ok a w"
  with OnActivated show ?thesis
    by (auto simp: manager_do_def wf_world_def cm_simps mgr_ok_onActivated)
next
  case (OnDeactivated m c)
  assume "wf_world w" "manager_ok a w"
  with OnDeactivated show ?thesis
    by (auto simp: manager_do_def wf_world_def cm_simps mgr_ok_onDeactivated)
qed (auto simp: manager_do_def wf_addConnection wf_remove wf_destroy dropIdleConnections_def
    wf_dropIdle_loop)

end

text \<open>
  C3. Adding, removing, activating, deactivating and destroying a connection, and dropping idle ones,
  keep the managers consistent: no connection is listed twice, the list of each
  manager holds exactly the connections that point back at it (so no connection is in two lists),
  and both iterators point at a listed connection or past the end, also while connections unregister
  themselves from inside a callback.
\<close>

theorem ConnectionManager_consistent:
  assumes "self_closing C" and "wf_world w" and "manager_ok a w"
  shows "wf_world (manager_do C a w)"
  using assms by (rule self_closing.wf_manager_do)

theorem ConnectionManager_consistent_witness:
  "wf_world (manager_do closing_ops (DropIdleConnections 0 5) sample_world)"
  by (rule ConnectionManager_consistent)
    (simp_all add: closing.self_closing_axioms wf_sample)

text \<open>
  The manager's list is the busy connections followed by the idle ones, the iterator stands at the
  first idle one, and the idle ones are in the order they became idle, oldest first: connections
  enter and become busy at the front and become idle at the back.
\<close>

theorem ConnectionManager_partition:
  assumes "partition_of x bs ids" and "activity_ok a (bs, ids)"
  shows "case activity_spec a (bs, ids) of (bs', ids') \<Rightarrow> partition_of (activity_do a x) bs' ids'"
  using assms by (rule partition_activity)

theorem ConnectionManager_partition_witness:
  "case activity_spec (Deactivate 3) ([3, 4], [7]) of (bs', ids') \<Rightarrow>
     partition_of (activity_do (Deactivate 3) (sample_mgr\<lparr>conns := [3, 4, 7], idleIterator := Some 7\<rparr>)) bs' ids'"
  by (rule ConnectionManager_partition) (simp_all add: partition_of_def)

text \<open>
  dropIdleConnections drops the connections that have been idle longest, in order, at most as many
  as asked for, stops at the first one whose idle time is not above the early-drop threshold, and
  returns the number it dropped.
\<close>

theorem dropIdleConnections_oldest_first:
  assumes "shedding C" and "wf_world w" and "partition_of (mgr w m) bs ids"
    and "idleConnEarlyDropThreshold (mgr w m) < default_timeout (mgr w m)"
  shows "\<exists>w' bs' shed. shed = takeWhile (sheddable C m w) (take n ids) \<and>
    dropIdleConnections C m n w = (length shed, w') \<and>
    partition_of (mgr w' m) bs' (drop (length shed) ids) \<and>
    dropped w' = dropped w @ map DropConnection shed"
  using shedding.dropIdle_ok [OF assms(1-3), of n] assms(4)
  by (auto simp: dropIdleConnections_def)

definition idle_world :: World where
  "idle_world = manager_do closing_ops (OnDeactivated 0 70) sample_world"

theorem dropIdleConnections_oldest_first_witness:
  "\<exists>w' bs' shed. shed = takeWhile (sheddable closing_ops 0 idle_world) (take 5 [70]) \<and>
    dropIdleConnections closing_ops 0 5 idle_world = (length shed, w') \<and>
    partition_of (mgr w' 0) bs' (drop (length shed) [70]) \<and>
    dropped w' = dropped idle_world @ map DropConnection shed"
proof (rule dropIdleConnections_oldest_first)
  show "shedding closing_ops" by (rule closing.shedding_axioms)
  show "wf_world idle_world"
    unfolding idle_world_def by (rule closing.wf_manager_do [OF wf_sample]) code_simp
  show "partition_of (mgr idle_world 0) [60] [70]" unfolding partition_of_def by code_simp
  show "idleConnEarlyDropThreshold (mgr idle_world 0) < default_timeout (mgr idle_world 0)" by code_simp
qed



end
