(* ===== verification/Folly_EvictingCacheMap.thy ===== *)
theory Folly_EvictingCacheMap
  imports Wangle_Prelude
begin

text \<open>
  \<open>folly::EvictingCacheMap\<close> is not part of the repository. The caches reach it through the operations
  below; the locale states what folly documents of them, over the entries a map holds, the most
  recently used one first, which is also the order of iteration. A capacity of zero is no limit.
\<close>

section \<open>Entries in the order of their use\<close>

definition lru_del :: "'k \<Rightarrow> ('k \<times> 'v) list \<Rightarrow> ('k \<times> 'v) list" where
  "lru_del k kvs = filter (\<lambda>kv. fst kv \<noteq> k) kvs"

definition lru_trim :: "nat \<Rightarrow> 'a list \<Rightarrow> 'a list" where
  "lru_trim n xs = (if n = 0 then xs else take n xs)"

definition lru_set :: "nat \<Rightarrow> 'k \<Rightarrow> 'v \<Rightarrow> ('k \<times> 'v) list \<Rightarrow> ('k \<times> 'v) list" where
  "lru_set n k v kvs = lru_trim n ((k, v) # lru_del k kvs)"

definition lru_touch :: "'k \<Rightarrow> ('k \<times> 'v) list \<Rightarrow> ('k \<times> 'v) list" where
  "lru_touch k kvs = (case map_of kvs k of None \<Rightarrow> kvs | Some v \<Rightarrow> (k, v) # lru_del k kvs)"

definition lru_ok :: "nat \<Rightarrow> ('k \<times> 'v) list \<Rightarrow> bool" where
  "lru_ok n kvs \<longleftrightarrow> distinct (map fst kvs) \<and> (n = 0 \<or> length kvs \<le> n)"

lemma lru_trim_Nil [simp]: "lru_trim n [] = []"
  by (simp add: lru_trim_def)

lemma map_of_rev_distinct: "distinct (map fst kvs) \<Longrightarrow> map_of (rev kvs) = map_of kvs"
proof (induction kvs)
  case (Cons kv kvs)
  then have "map_of (rev kvs) (fst kv) = None" by (simp add: map_of_eq_None_iff)
  with Cons show ?case by (cases kv) (auto simp: map_add_def fun_eq_iff split: option.split)
qed simp

lemma set_lru_del [simp]: "set (lru_del k kvs) = {kv \<in> set kvs. fst kv \<noteq> k}"
  by (auto simp: lru_del_def)

lemma lru_del_id: "k \<notin> fst ` set kvs \<Longrightarrow> lru_del k kvs = kvs"
  by (auto simp: lru_del_def filter_id_conv)

lemma map_of_lru_del [simp]: "map_of (lru_del k kvs) = (map_of kvs)(k := None)"
  by (induction kvs) (auto simp: lru_del_def fun_eq_iff)

lemma distinct_lru_del [simp]: "distinct (map fst kvs) \<Longrightarrow> distinct (map fst (lru_del k kvs))"
  by (auto simp: lru_del_def distinct_map_filter)

lemma length_lru_del: "length (lru_del k kvs) \<le> length kvs"
  by (simp add: lru_del_def)

lemma length_lru_del_less: "map_of kvs k \<noteq> None \<Longrightarrow> length (lru_del k kvs) < length kvs"
proof -
  assume "map_of kvs k \<noteq> None"
  then have "k \<in> fst ` set kvs" by (simp add: map_of_eq_None_iff)
  then show ?thesis by (auto simp: lru_del_def intro!: length_filter_less)
qed

lemma map_of_lru_touch [simp]: "map_of (lru_touch k kvs) = map_of kvs"
  by (auto simp: lru_touch_def split: option.split)

lemma lru_ok_del [simp]: "lru_ok n kvs \<Longrightarrow> lru_ok n (lru_del k kvs)"
  using length_lru_del [of k kvs] by (auto simp: lru_ok_def)

lemma lru_ok_touch [simp]: "lru_ok n kvs \<Longrightarrow> lru_ok n (lru_touch k kvs)"
  by (cases "map_of kvs k")
    (use length_lru_del_less [of kvs k] in \<open>auto simp: lru_ok_def lru_touch_def\<close>)

lemma lru_ok_set [simp]: "lru_ok n kvs \<Longrightarrow> lru_ok n (lru_set n k v kvs)"
  by (auto simp: lru_ok_def lru_set_def lru_trim_def take_map [symmetric] intro!: distinct_take)

lemma lru_ok_Nil [simp]: "lru_ok n []"
  by (simp add: lru_ok_def)

section \<open>The operations and their contract\<close>

record ('k, 'v, 'c) evicting_ops =
  em_new :: "nat \<Rightarrow> 'c"
  em_find :: "'k \<Rightarrow> 'c \<Rightarrow> 'v option \<times> 'c"
  em_set :: "'k \<Rightarrow> 'v \<Rightarrow> 'c \<Rightarrow> 'c"
  em_erase :: "'k \<Rightarrow> 'c \<Rightarrow> nat \<times> 'c"
  em_clear :: "'c \<Rightarrow> 'c"
  em_size :: "'c \<Rightarrow> nat"
  em_pairs :: "'c \<Rightarrow> ('k \<times> 'v) list"

locale evicting_cache_map =
  fixes E :: "('k, 'v, 'c) evicting_ops"
    and content :: "'c \<Rightarrow> ('k \<times> 'v) list"
    and capacity :: "'c \<Rightarrow> nat"
  assumes new_content [simp]: "content (em_new E n) = []"
    and find_value [simp]: "fst (em_find E k c) = map_of (content c) k"
    and find_content [simp]: "content (snd (em_find E k c)) = lru_touch k (content c)"
    and set_content [simp]: "content (em_set E k v c) = lru_set (capacity c) k v (content c)"
    and erase_count [simp]: "fst (em_erase E k c) = (if map_of (content c) k = None then 0 else 1)"
    and erase_content [simp]: "content (snd (em_erase E k c)) = lru_del k (content c)"
    and clear_content [simp]: "content (em_clear E c) = []"
    and size_content [simp]: "em_size E c = length (content c)"
    and pairs_content [simp]: "em_pairs E c = content c"
    and new_capacity [simp]: "capacity (em_new E n) = n"
    and find_capacity [simp]: "capacity (snd (em_find E k c)) = capacity c"
    and set_capacity [simp]: "capacity (em_set E k v c) = capacity c"
    and erase_capacity [simp]: "capacity (snd (em_erase E k c)) = capacity c"
    and clear_capacity [simp]: "capacity (em_clear E c) = capacity c"
begin

lemma capacity_fold_set [simp]: "capacity (fold (\<lambda>(k, v). em_set E k v) kvs c) = capacity c"
  by (induction kvs arbitrary: c) auto

text \<open>
  Inserting entries with new, distinct keys one after the other leaves them in reverse order, and if
  there are more than the capacity, the first ones inserted are evicted.
\<close>

lemma fold_set_content:
  assumes "distinct (map fst kvs)"
  shows "content (fold (\<lambda>(k, v). em_set E k v) kvs (em_new E n)) = lru_trim n (rev kvs)"
  using assms
proof (induction kvs rule: rev_induct)
  case Nil
  then show ?case by (simp add: lru_trim_def)
next
  case (snoc kv kvs)
  have "fst kv \<notin> fst ` set (lru_trim n (rev kvs))"
    using snoc.prems by (auto simp: lru_trim_def dest!: in_set_takeD)
  with snoc show ?case
    by (cases kv) (auto simp: lru_set_def lru_del_id lru_trim_def take_Cons' )
qed

end

section \<open>A map as the list of its entries\<close>

definition list_cache :: "('k, 'v, nat \<times> ('k \<times> 'v) list) evicting_ops" where
  "list_cache = \<lparr>
     em_new = (\<lambda>n. (n, [])),
     em_find = (\<lambda>k (n, kvs). (map_of kvs k, (n, lru_touch k kvs))),
     em_set = (\<lambda>k v (n, kvs). (n, lru_set n k v kvs)),
     em_erase = (\<lambda>k (n, kvs). (if map_of kvs k = None then 0 else 1, (n, lru_del k kvs))),
     em_clear = (\<lambda>(n, kvs). (n, [])),
     em_size = (\<lambda>(n, kvs). length kvs),
     em_pairs = snd\<rparr>"

interpretation lcache: evicting_cache_map list_cache snd fst
  by unfold_locales (auto simp: list_cache_def split: prod.splits)

end
