(* ===== verification/Client_Persistence.thy ===== *)
theory Client_Persistence
  imports Folly_EvictingCacheMap
begin

text \<open>
  \<open>client/persistence\<close>: a cache in memory with a version counter (\<open>LRUInMemoryCache\<close>), a thread that
  writes it to a persistence layer (\<open>LRUPersistentCache\<close>), and the layer that keeps it in a file
  (\<open>FilePersistenceLayer\<close>). Each method runs under a lock, so it is one step; the syncer's step is
  split where it lets go of the lock.
\<close>

section \<open>What the caches call\<close>

text \<open>
  \<open>folly::dynamic\<close> and its conversions: \<open>dyn_of_pair\<close> is \<open>toDynamic\<close> of a pair (\<open>None\<close> when it throws),
  \<open>dyn_pair\<close> the two \<open>convertTo\<close> calls on an element, \<open>dyn_items\<close> iteration over a value, which throws
  unless it is an array.
\<close>

record ('k, 'v, 'd) dynamic_ops =
  dyn_array :: "'d list \<Rightarrow> 'd"
  dyn_items :: "'d \<Rightarrow> 'd list option"
  dyn_of_pair :: "'k \<times> 'v \<Rightarrow> 'd option"
  dyn_pair :: "'d \<Rightarrow> ('k \<times> 'v) option"

text \<open>The virtual methods of \<open>CachePersistence\<close>.\<close>

record ('d, 'p) persistence_ops =
  do_persist :: "'d \<Rightarrow> 'p \<Rightarrow> bool \<times> 'p"
  do_load :: "'p \<Rightarrow> 'd option \<times> 'p"
  do_clear :: "'p \<Rightarrow> 'p"

section \<open>LRUInMemoryCache\<close>

record 'c LRUInMemoryCache =
  cache_map :: 'c
  version :: u64

definition LRUInMemoryCache_new :: "('k, 'v, 'c) evicting_ops \<Rightarrow> nat \<Rightarrow> 'c LRUInMemoryCache" where
  "LRUInMemoryCache_new E n = \<lparr>cache_map = em_new E n, version = 1\<rparr>"

definition incrementVersion :: "'c LRUInMemoryCache \<Rightarrow> 'c LRUInMemoryCache" where
  "incrementVersion c = c\<lparr>version := version c + 1\<rparr>"

definition mem_get :: "('k, 'v, 'c) evicting_ops \<Rightarrow> 'k \<Rightarrow> 'c LRUInMemoryCache
    \<Rightarrow> 'v option \<times> 'c LRUInMemoryCache" where
  "mem_get E k c = (case em_find E k (cache_map c) of (r, m) \<Rightarrow> (r, c\<lparr>cache_map := m\<rparr>))"

definition mem_put :: "('k, 'v, 'c) evicting_ops \<Rightarrow> 'k \<Rightarrow> 'v \<Rightarrow> 'c LRUInMemoryCache \<Rightarrow> 'c LRUInMemoryCache" where
  "mem_put E k v c = incrementVersion (c\<lparr>cache_map := em_set E k v (cache_map c)\<rparr>)"

definition mem_remove :: "('k, 'v, 'c) evicting_ops \<Rightarrow> 'k \<Rightarrow> 'c LRUInMemoryCache
    \<Rightarrow> bool \<times> 'c LRUInMemoryCache" where
  "mem_remove E k c =
     (case em_erase E k (cache_map c) of (nErased, m) \<Rightarrow>
        (let c' = c\<lparr>cache_map := m\<rparr> in
         if nErased > 0 then (True, incrementVersion c') else (False, c')))"

definition mem_size :: "('k, 'v, 'c) evicting_ops \<Rightarrow> 'c LRUInMemoryCache \<Rightarrow> nat" where
  "mem_size E c = em_size E (cache_map c)"

definition mem_clear :: "('k, 'v, 'c) evicting_ops \<Rightarrow> 'c LRUInMemoryCache \<Rightarrow> 'c LRUInMemoryCache" where
  "mem_clear E c =
     (if em_size E (cache_map c) = 0 then c
      else incrementVersion (c\<lparr>cache_map := em_clear E (cache_map c)\<rparr>))"

definition hasChangedSince :: "u64 \<Rightarrow> 'c LRUInMemoryCache \<Rightarrow> bool" where
  "hasChangedSince v c \<longleftrightarrow> version c \<noteq> v"

text \<open>The loop of \<open>loadData\<close> ends at the first element that does not convert.\<close>

fun load_loop :: "('k, 'v, 'c) evicting_ops \<Rightarrow> ('k, 'v, 'd) dynamic_ops \<Rightarrow> 'd list \<Rightarrow> bool \<times> 'c \<Rightarrow> bool \<times> 'c" where
  "load_loop E D [] (updated, m) = (updated, m)"
| "load_loop E D (d # ds) (updated, m) =
     (case dyn_pair D d of
        None \<Rightarrow> (updated, m)
      | Some (k, v) \<Rightarrow> load_loop E D ds (True, em_set E k v m))"

definition loadData :: "('k, 'v, 'c) evicting_ops \<Rightarrow> ('k, 'v, 'd) dynamic_ops \<Rightarrow> 'd
    \<Rightarrow> 'c LRUInMemoryCache \<Rightarrow> u64 \<times> 'c LRUInMemoryCache" where
  "loadData E D data c =
     (case load_loop E D (case dyn_items D data of None \<Rightarrow> [] | Some ds \<Rightarrow> ds) (False, cache_map c) of
        (updated, m) \<Rightarrow>
          (let c' = (if updated then incrementVersion (c\<lparr>cache_map := m\<rparr>) else c\<lparr>cache_map := m\<rparr>) in
           (version c', c')))"

definition convertToKeyValuePairs :: "('k, 'v, 'c) evicting_ops \<Rightarrow> ('k, 'v, 'd) dynamic_ops
    \<Rightarrow> 'c LRUInMemoryCache \<Rightarrow> ('d \<times> u64) option" where
  "convertToKeyValuePairs E D c =
     map_option (\<lambda>ds. (dyn_array D ds, version c))
       (those (map (dyn_of_pair D) (em_pairs E (cache_map c))))"

section \<open>CachePersistence\<close>

record 'p CachePersistence =
  persistedVersion :: u64
  layer :: 'p

definition CachePersistence_new :: "'p \<Rightarrow> 'p CachePersistence" where
  "CachePersistence_new p = \<lparr>persistedVersion = 0, layer = p\<rparr>"

definition persistVersionedData :: "('d, 'p) persistence_ops \<Rightarrow> 'd \<Rightarrow> u64 \<Rightarrow> 'p CachePersistence
    \<Rightarrow> bool \<times> 'p CachePersistence" where
  "persistVersionedData P d v p =
     (case do_persist P d (layer p) of (ok, l) \<Rightarrow>
        (ok, if ok then p\<lparr>persistedVersion := v, layer := l\<rparr> else p\<lparr>layer := l\<rparr>))"

section \<open>LRUPersistentCache\<close>

record ('c, 'p) LRUPersistentCache =
  mem :: "'c LRUInMemoryCache"
  stopSyncer :: bool
  nSyncRetries :: int
  persistence :: "'p CachePersistence option"

definition hasPendingUpdates :: "('c, 'p) LRUPersistentCache \<Rightarrow> bool" where
  "hasPendingUpdates s =
     (case persistence s of None \<Rightarrow> False | Some p \<Rightarrow> hasChangedSince (persistedVersion p) (mem s))"

text \<open>\<open>load\<close> answers \<open>false\<close>, converted to the version 0, where the layer has nothing to load.\<close>

definition cache_load :: "('k, 'v, 'c) evicting_ops \<Rightarrow> ('k, 'v, 'd) dynamic_ops \<Rightarrow> ('d, 'p) persistence_ops
    \<Rightarrow> 'p CachePersistence \<Rightarrow> 'c LRUInMemoryCache \<Rightarrow> u64 \<times> 'p CachePersistence \<times> 'c LRUInMemoryCache" where
  "cache_load E D P p c =
     (case do_load P (layer p) of
        (None, l) \<Rightarrow> (0, p\<lparr>layer := l\<rparr>, c)
      | (Some d, l) \<Rightarrow> (case loadData E D d c of (v, c') \<Rightarrow> (v, p\<lparr>layer := l\<rparr>, c')))"

definition setPersistenceHelper :: "('k, 'v, 'c) evicting_ops \<Rightarrow> ('k, 'v, 'd) dynamic_ops
    \<Rightarrow> ('d, 'p) persistence_ops \<Rightarrow> 'p CachePersistence option \<Rightarrow> bool
    \<Rightarrow> ('c, 'p) LRUPersistentCache \<Rightarrow> ('c, 'p) LRUPersistentCache" where
  "setPersistenceHelper E D P np syncVersion s =
     (case np of
        None \<Rightarrow> s\<lparr>persistence := None\<rparr>
      | Some p \<Rightarrow>
          (case cache_load E D P p (mem s) of (v, p', c) \<Rightarrow>
             s\<lparr>mem := c, persistence := Some (if syncVersion then p'\<lparr>persistedVersion := v\<rparr> else p')\<rparr>))"

definition setPersistence :: "('k, 'v, 'c) evicting_ops \<Rightarrow> ('k, 'v, 'd) dynamic_ops
    \<Rightarrow> ('d, 'p) persistence_ops \<Rightarrow> 'p CachePersistence option
    \<Rightarrow> ('c, 'p) LRUPersistentCache \<Rightarrow> ('c, 'p) LRUPersistentCache" where
  "setPersistence E D P np = setPersistenceHelper E D P np False"

definition LRUPersistentCache_new :: "('k, 'v, 'c) evicting_ops \<Rightarrow> ('k, 'v, 'd) dynamic_ops
    \<Rightarrow> ('d, 'p) persistence_ops \<Rightarrow> nat \<Rightarrow> int \<Rightarrow> 'p CachePersistence option \<Rightarrow> ('c, 'p) LRUPersistentCache" where
  "LRUPersistentCache_new E D P cacheCapacity retries np =
     (let s = \<lparr>mem = LRUInMemoryCache_new E cacheCapacity, stopSyncer = False,
               nSyncRetries = retries, persistence = None\<rparr> in
      if np \<noteq> None then setPersistenceHelper E D P np True s else s)"

definition cache_get where
  "cache_get E k s = (case mem_get E k (mem s) of (r, c) \<Rightarrow> (r, s\<lparr>mem := c\<rparr>))"

definition cache_put where
  "cache_put E k v s = s\<lparr>mem := mem_put E k v (mem s)\<rparr>"

definition cache_remove where
  "cache_remove E k s = (case mem_remove E k (mem s) of (r, c) \<Rightarrow> (r, s\<lparr>mem := c\<rparr>))"

definition cache_clear :: "('k, 'v, 'c) evicting_ops \<Rightarrow> ('d, 'p) persistence_ops \<Rightarrow> bool
    \<Rightarrow> ('c, 'p) LRUPersistentCache \<Rightarrow> ('c, 'p) LRUPersistentCache" where
  "cache_clear E P clearPersistence s =
     (let s1 = s\<lparr>mem := mem_clear E (mem s)\<rparr> in
      if clearPersistence
      then s1\<lparr>persistence := map_option (\<lambda>p. p\<lparr>layer := do_clear P (layer p)\<rparr>) (persistence s1)\<rparr>
      else s1)"

text \<open>
  \<open>syncNow\<close> in two parts, since other threads may change the cache after the snapshot is taken:
  \<open>Inl r\<close> is an early return of \<open>r\<close>, \<open>Inr\<close> the snapshot to write.
\<close>

definition syncNow_begin :: "('k, 'v, 'c) evicting_ops \<Rightarrow> ('k, 'v, 'd) dynamic_ops
    \<Rightarrow> 'p CachePersistence \<Rightarrow> 'c LRUInMemoryCache \<Rightarrow> bool + 'd \<times> u64" where
  "syncNow_begin E D p c =
     (if \<not> hasChangedSince (persistedVersion p) c then Inl True
      else (case convertToKeyValuePairs E D c of None \<Rightarrow> Inl False | Some dv \<Rightarrow> Inr dv))"

definition syncNow :: "('k, 'v, 'c) evicting_ops \<Rightarrow> ('k, 'v, 'd) dynamic_ops
    \<Rightarrow> ('d, 'p) persistence_ops \<Rightarrow> 'p CachePersistence \<Rightarrow> 'c LRUInMemoryCache \<Rightarrow> bool \<times> 'p CachePersistence" where
  "syncNow E D P p c =
     (case syncNow_begin E D p c of
        Inl r \<Rightarrow> (r, p)
      | Inr (d, v) \<Rightarrow> persistVersionedData P d v p)"

text \<open>
  One round of the loop of \<open>sync\<close>: \<open>None\<close> leaves the loop; the result holds the new failure count. The
  failure counter of the source is an \<open>int\<close>; it is reset at \<open>nSyncRetries_\<close>, so only a limit that is
  not positive can make it overflow.
\<close>

definition sync_round :: "('k, 'v, 'c) evicting_ops \<Rightarrow> ('k, 'v, 'd) dynamic_ops
    \<Rightarrow> ('d, 'p) persistence_ops \<Rightarrow> int \<Rightarrow> ('c, 'p) LRUPersistentCache
    \<Rightarrow> (int \<times> ('c, 'p) LRUPersistentCache) option" where
  "sync_round E D P nSyncFailures s =
     (if stopSyncer s \<and> \<not> hasPendingUpdates s then None
      else
        (case persistence s of
           None \<Rightarrow> Some (0, s)
         | Some p \<Rightarrow>
             (case syncNow E D P p (mem s) of (ok, p') \<Rightarrow>
                if ok then Some (0, s\<lparr>persistence := Some p'\<rparr>)
                else if nSyncFailures + 1 = nSyncRetries s
                then Some (0, s\<lparr>persistence := Some (p'\<lparr>persistedVersion := version (mem s)\<rparr>)\<rparr>)
                else Some (nSyncFailures + 1, s\<lparr>persistence := Some p'\<rparr>))))"

text \<open>
  The loop once the destructor has set \<open>stopSyncer_\<close>: it runs without waiting, and no other thread
  uses the cache any more.
\<close>

partial_function (option) sync_drain :: "('k, 'v, 'c) evicting_ops \<Rightarrow> ('k, 'v, 'd) dynamic_ops
    \<Rightarrow> ('d, 'p) persistence_ops \<Rightarrow> int \<Rightarrow> ('c, 'p) LRUPersistentCache \<Rightarrow> ('c, 'p) LRUPersistentCache option" where
  "sync_drain E D P nSyncFailures s =
     (case sync_round E D P nSyncFailures s of
        None \<Rightarrow> Some s
      | Some (n, s') \<Rightarrow> sync_drain E D P n s')"

declare sync_drain.simps [code]

definition LRUPersistentCache_destroy :: "('k, 'v, 'c) evicting_ops \<Rightarrow> ('k, 'v, 'd) dynamic_ops
    \<Rightarrow> ('d, 'p) persistence_ops \<Rightarrow> int \<Rightarrow> ('c, 'p) LRUPersistentCache \<Rightarrow> ('c, 'p) LRUPersistentCache option" where
  "LRUPersistentCache_destroy E D P nSyncFailures s = sync_drain E D P nSyncFailures (s\<lparr>stopSyncer := True\<rparr>)"

section \<open>FilePersistenceLayer\<close>

text \<open>
  The system calls and the JSON functions are arguments. A call answers what it returns; the world
  holds the files. \<open>json_serialize\<close> and \<open>json_parse\<close> answer \<open>None\<close> when they throw.
\<close>

record 'w file_ops =
  openNoInt :: "string \<Rightarrow> 'w \<Rightarrow> int \<times> 'w"
  writeFull :: "int \<Rightarrow> string \<Rightarrow> 'w \<Rightarrow> int \<times> 'w"
  fdatasyncNoInt :: "int \<Rightarrow> 'w \<Rightarrow> int \<times> 'w"
  closeNoInt :: "int \<Rightarrow> 'w \<Rightarrow> int \<times> 'w"
  readFile :: "string \<Rightarrow> 'w \<Rightarrow> string option \<times> 'w"
  unlink_file :: "string \<Rightarrow> 'w \<Rightarrow> 'w"

record 'd json_ops =
  json_serialize :: "'d \<Rightarrow> string option"
  json_parse :: "string \<Rightarrow> 'd option"

definition FilePersistenceLayer_persist ::
  "'d json_ops \<Rightarrow> 'w file_ops \<Rightarrow> string \<Rightarrow> 'd \<Rightarrow> 'w \<Rightarrow> bool \<times> 'w" where
  "FilePersistenceLayer_persist J F file d w =
     (case json_serialize J d of
        None \<Rightarrow> (False, w)
      | Some serializedCache \<Rightarrow>
          (case openNoInt F file w of (fd, w1) \<Rightarrow>
             if fd = -1 then (False, w1)
             else
               (case writeFull F fd serializedCache w1 of (nWritten, w2) \<Rightarrow>
                (case fdatasyncNoInt F fd w2 of (synced, w3) \<Rightarrow>
                 (case closeNoInt F fd w3 of (closed, w4) \<Rightarrow>
                    (nWritten \<ge> 0 \<and> nat nWritten = length serializedCache \<and> synced = 0 \<and> closed = 0, w4))))))"

definition FilePersistenceLayer_load ::
  "'d json_ops \<Rightarrow> 'w file_ops \<Rightarrow> string \<Rightarrow> 'w \<Rightarrow> 'd option \<times> 'w" where
  "FilePersistenceLayer_load J F file w =
     (case readFile F file w of
        (None, w') \<Rightarrow> (None, w')
      | (Some serializedCache, w') \<Rightarrow> (json_parse J serializedCache, w'))"

definition FilePersistenceLayer_clear :: "'w file_ops \<Rightarrow> string \<Rightarrow> 'w \<Rightarrow> 'w" where
  "FilePersistenceLayer_clear F file w = unlink_file F file w"

definition FilePersistenceLayer :: "'d json_ops \<Rightarrow> 'w file_ops \<Rightarrow> string \<Rightarrow> ('d, 'w) persistence_ops" where
  "FilePersistenceLayer J F file =
     \<lparr>do_persist = FilePersistenceLayer_persist J F file,
      do_load = FilePersistenceLayer_load J F file,
      do_clear = FilePersistenceLayer_clear F file\<rparr>"

definition FilePersistentCache_new :: "('k, 'v, 'c) evicting_ops \<Rightarrow> ('k, 'v, 'd) dynamic_ops
    \<Rightarrow> 'd json_ops \<Rightarrow> 'w file_ops \<Rightarrow> string \<Rightarrow> nat \<Rightarrow> int \<Rightarrow> 'w \<Rightarrow> ('c, 'w) LRUPersistentCache" where
  "FilePersistentCache_new E D J F file cacheCapacity retries w =
     LRUPersistentCache_new E D (FilePersistenceLayer J F file) cacheCapacity retries
       (Some (CachePersistence_new w))"

end
