(* ===== verification/Client_Persistence_Props.thy ===== *)
theory Client_Persistence_Props
  imports Client_Persistence
begin

text \<open>
  The contracts of the persistence layer and of the conversions it needs, that the file layer meets
  the first, and what the persistent cache does over them: what is loaded after a restart, when the
  layer holds what the cache holds, and that the destructor's loop ends.
\<close>

section \<open>Contracts\<close>

locale dynamic_codec =
  fixes D :: "('k, 'v, 'd) dynamic_ops"
  assumes items_array [simp]: "dyn_items D (dyn_array D ds) = Some ds"
    and pair_of_pair: "dyn_of_pair D kv = Some d \<Longrightarrow> dyn_pair D d = Some kv"

locale persistence_layer =
  fixes P :: "('d, 'p) persistence_ops"
    and stored :: "'p \<Rightarrow> 'd option"
  assumes persist_stored: "do_persist P d p = (True, p') \<Longrightarrow> stored p' = Some d"
    and load_stored: "do_load P p = (r, p') \<Longrightarrow> r = stored p \<and> stored p' = stored p"
    and clear_stored: "stored (do_clear P p) = None \<or> stored (do_clear P p) = stored p"

text \<open>
  Files: an open with \<open>O_TRUNC\<close> empties the file, a full write to it puts the bytes there, the other
  calls leave the contents alone, and \<open>unlink\<close> removes the file or fails.
\<close>

locale file_system =
  fixes F :: "'w file_ops"
    and file_of :: "'w \<Rightarrow> string \<Rightarrow> string option"
    and fd_file :: "'w \<Rightarrow> int \<Rightarrow> string option"
  assumes open_truncates: "openNoInt F f w = (fd, w') \<Longrightarrow> fd \<noteq> -1 \<Longrightarrow>
      file_of w' f = Some [] \<and> fd_file w' fd = Some f"
    and write_full: "writeFull F fd s w = (int (length s), w') \<Longrightarrow> fd_file w fd = Some f \<Longrightarrow>
      file_of w f = Some [] \<Longrightarrow> file_of w' f = Some s"
    and sync_keeps: "file_of (snd (fdatasyncNoInt F fd w)) = file_of w"
    and close_keeps: "file_of (snd (closeNoInt F fd w)) = file_of w"
    and read_file: "fst (readFile F f w) = file_of w f"
    and read_keeps: "file_of (snd (readFile F f w)) = file_of w"
    and unlink_removes: "file_of (unlink_file F f w) f = None \<or> file_of (unlink_file F f w) f = file_of w f"

locale json_file_layer = file_system F file_of fd_file
  for F :: "'w file_ops" and file_of and fd_file +
  fixes J :: "'d json_ops"
  assumes parse_serialize: "json_serialize J d = Some s \<Longrightarrow> json_parse J s = Some d"
begin

lemma file_persist_ok:
  assumes "FilePersistenceLayer_persist J F f d w = (True, w')"
  shows "\<exists>s. json_serialize J d = Some s \<and> file_of w' f = Some s"
proof -
  from assms obtain s fd w1 n w2 w3 where run: "json_serialize J d = Some s" "openNoInt F f w = (fd, w1)"
    "fd \<noteq> -1" "writeFull F fd s w1 = (n, w2)" "fdatasyncNoInt F fd w2 = (0, w3)"
    "closeNoInt F fd w3 = (0, w')" "0 \<le> n" "nat n = length s"
    by (auto simp: FilePersistenceLayer_persist_def split: option.splits prod.splits if_splits)
  from run(7,8) have "n = int (length s)" by simp
  with open_truncates [OF run(2,3)] write_full [of fd s w1 w2] run(4) have "file_of w2 f = Some s" by simp
  with run sync_keeps [of fd w2] close_keeps [of fd w3] show ?thesis by simp
qed

sublocale layer: persistence_layer "FilePersistenceLayer J F f"
  "\<lambda>w. Option.bind (file_of w f) (json_parse J)"
proof
  fix d w w' r
  show "do_persist (FilePersistenceLayer J F f) d w = (True, w') \<Longrightarrow>
      Option.bind (file_of w' f) (json_parse J) = Some d"
    using file_persist_ok [of f d w w'] parse_serialize by (auto simp: FilePersistenceLayer_def)
  show "do_load (FilePersistenceLayer J F f) w = (r, w') \<Longrightarrow>
      r = Option.bind (file_of w f) (json_parse J) \<and>
      Option.bind (file_of w' f) (json_parse J) = Option.bind (file_of w f) (json_parse J)"
    using read_file [of f w] read_keeps [of f w]
    by (auto simp: FilePersistenceLayer_def FilePersistenceLayer_load_def split: prod.splits option.splits)
  show "Option.bind (file_of (do_clear (FilePersistenceLayer J F f) w) f) (json_parse J) = None \<or>
      Option.bind (file_of (do_clear (FilePersistenceLayer J F f) w) f) (json_parse J) =
        Option.bind (file_of w f) (json_parse J)"
    using unlink_removes [of f w]
    by (auto simp: FilePersistenceLayer_def FilePersistenceLayer_clear_def)
qed

end

section \<open>What a value loads as\<close>

fun convertible :: "('k, 'v, 'd) dynamic_ops \<Rightarrow> 'd list \<Rightarrow> ('k \<times> 'v) list" where
  "convertible D [] = []"
| "convertible D (d # ds) = (case dyn_pair D d of None \<Rightarrow> [] | Some kv \<Rightarrow> kv # convertible D ds)"

definition pairs_of :: "('k, 'v, 'd) dynamic_ops \<Rightarrow> 'd \<Rightarrow> ('k \<times> 'v) list" where
  "pairs_of D d = convertible D (case dyn_items D d of None \<Rightarrow> [] | Some ds \<Rightarrow> ds)"

lemma load_loop_fold:
  "load_loop E D ds (u, m) =
     (u \<or> convertible D ds \<noteq> [], fold (\<lambda>(k, v). em_set E k v) (convertible D ds) m)"
  by (induction ds arbitrary: u m) (auto split: option.split)

context dynamic_codec
begin

lemma convertible_those:
  "those (map (dyn_of_pair D) kvs) = Some ds \<Longrightarrow> convertible D ds = kvs"
  by (induction kvs arbitrary: ds) (auto split: option.splits dest: pair_of_pair)

lemma pairs_of_converted:
  "convertToKeyValuePairs E D c = Some (d, v) \<Longrightarrow> pairs_of D d = em_pairs E (cache_map c) \<and> v = version c"
  by (auto simp: convertToKeyValuePairs_def pairs_of_def convertible_those)

end

lemma syncNow_True:
  assumes "syncNow E D P p c = (True, p')"
  shows "persistedVersion p' = version c"
  using assms
  by (auto simp: syncNow_def syncNow_begin_def persistVersionedData_def hasChangedSince_def
      convertToKeyValuePairs_def split: if_splits option.splits prod.splits)

section \<open>The cache over its layer\<close>

text \<open>The entries of a cache and what its layer holds, both as maps.\<close>

definition cache_entries :: "('c \<Rightarrow> ('k \<times> 'v) list) \<Rightarrow> 'c LRUInMemoryCache \<Rightarrow> 'k \<rightharpoonup> 'v" where
  "cache_entries content c = map_of (content (cache_map c))"

definition layer_entries :: "('k, 'v, 'd) dynamic_ops \<Rightarrow> ('p \<Rightarrow> 'd option) \<Rightarrow> 'p CachePersistence \<Rightarrow> 'k \<rightharpoonup> 'v" where
  "layer_entries D stored p =
     (case stored (layer p) of None \<Rightarrow> Map.empty | Some d \<Rightarrow> map_of (pairs_of D d))"

text \<open>
  The calls of clients and the two parts of the syncer's step, in any order. The second component of
  the state is the snapshot the syncer is writing.
\<close>

datatype ('k, 'v) cache_op = OpGet 'k | OpPut 'k 'v | OpRemove 'k | OpClear bool | OpSyncBegin | OpSyncEnd

fun cache_step :: "('k, 'v, 'c) evicting_ops \<Rightarrow> ('k, 'v, 'd) dynamic_ops \<Rightarrow> ('d, 'p) persistence_ops
    \<Rightarrow> ('k, 'v) cache_op \<Rightarrow> ('c, 'p) LRUPersistentCache \<times> ('d \<times> u64) option
    \<Rightarrow> ('c, 'p) LRUPersistentCache \<times> ('d \<times> u64) option" where
  "cache_step E D P (OpGet k) (s, snap) = (snd (cache_get E k s), snap)"
| "cache_step E D P (OpPut k v) (s, snap) = (cache_put E k v s, snap)"
| "cache_step E D P (OpRemove k) (s, snap) = (snd (cache_remove E k s), snap)"
| "cache_step E D P (OpClear b) (s, snap) = (cache_clear E P b s, snap)"
| "cache_step E D P OpSyncBegin (s, snap) =
     (s, if snap = None
         then Option.bind (persistence s)
           (\<lambda>p. case syncNow_begin E D p (mem s) of Inl r \<Rightarrow> None | Inr dv \<Rightarrow> Some dv)
         else snap)"
| "cache_step E D P OpSyncEnd (s, snap) =
     (case snap of
        None \<Rightarrow> (s, None)
      | Some (d, v) \<Rightarrow>
          (s\<lparr>persistence := map_option (\<lambda>p. snd (persistVersionedData P d v p)) (persistence s)\<rparr>, None))"

text \<open>
  Versions never decrease and the layer's is not ahead of the cache's; where they agree, so do the
  entries; a snapshot lies strictly after what the layer holds. \<open>b\<close> bounds the calls to come.
\<close>

definition sync_inv :: "('k, 'v, 'd) dynamic_ops \<Rightarrow> ('c \<Rightarrow> ('k \<times> 'v) list) \<Rightarrow> ('p \<Rightarrow> 'd option) \<Rightarrow> nat
    \<Rightarrow> 'c LRUInMemoryCache \<Rightarrow> 'p CachePersistence \<Rightarrow> ('d \<times> u64) option \<Rightarrow> bool" where
  "sync_inv D content stored b c p snap \<longleftrightarrow>
     unat (version c) + b < 2 ^ 64 \<and> unat (persistedVersion p) \<le> unat (version c) \<and>
     (persistedVersion p = version c \<longrightarrow> layer_entries D stored p = cache_entries content c) \<and>
     (\<forall>d v. snap = Some (d, v) \<longrightarrow>
        unat (persistedVersion p) < unat v \<and> unat v \<le> unat (version c) \<and>
        (v = version c \<longrightarrow> map_of (pairs_of D d) = cache_entries content c))"

lemma unat_Suc_version:
  "unat (v :: u64) + Suc b < 2 ^ 64 \<Longrightarrow> unat (v + 1) = Suc (unat v)"
  using unat_add_lem [of v 1] by simp

text \<open>A change of the entries counts the version up; where the version stays, so do the entries.\<close>

lemma sync_inv_change:
  assumes "sync_inv D content stored (Suc b) c p snap" and "version c' = version c + 1"
    and "persistedVersion p' = persistedVersion p"
  shows "sync_inv D content stored b c' p' snap"
proof -
  from assms have "unat (version c') = Suc (unat (version c))"
    by (auto simp: sync_inv_def unat_Suc_version)
  moreover from this have "v \<noteq> version c'" if "unat v \<le> unat (version c)" for v
    using that by auto
  ultimately show ?thesis
    using assms unfolding sync_inv_def by (simp add: le_SucI)
qed

lemma sync_inv_same:
  assumes "sync_inv D content stored (Suc b) c p snap" and "version c' = version c"
    and "cache_entries content c' = cache_entries content c"
  shows "sync_inv D content stored b c' p snap"
  using assms by (auto simp: sync_inv_def)

locale persistent_cache = evicting_cache_map E content capacity + dynamic_codec D + persistence_layer P stored
  for E :: "('k, 'v, 'c) evicting_ops" and content and capacity
    and D :: "('k, 'v, 'd) dynamic_ops" and P :: "('d, 'p) persistence_ops" and stored
begin

lemma syncNow_begin_Inr:
  "syncNow_begin E D p c = Inr (d, v) \<Longrightarrow>
   persistedVersion p \<noteq> version c \<and> v = version c \<and> pairs_of D d = content (cache_map c)"
  by (auto simp: syncNow_begin_def hasChangedSince_def split: if_splits option.splits
      dest: pairs_of_converted)

lemma syncNow_stored:
  assumes "syncNow E D P p c = (True, p')" and "persistedVersion p \<noteq> version c"
  shows "\<exists>d. stored (layer p') = Some d \<and> pairs_of D d = content (cache_map c)"
  using assms
  by (auto simp: syncNow_def persistVersionedData_def hasChangedSince_def split: sum.splits prod.splits
      if_splits dest!: syncNow_begin_Inr persist_stored)
    (auto simp: syncNow_begin_def hasChangedSince_def split: if_splits option.splits)

lemma load_after_sync:
  assumes sync: "syncNow E D P p (mem s) = (True, p')" "persistedVersion p \<noteq> version (mem s)"
    and dist: "distinct (map fst (content (cache_map (mem s))))"
    and fresh: "s' = LRUPersistentCache_new E D P n r (Some (CachePersistence_new (layer p')))"
  shows "content (cache_map (mem s')) = lru_trim n (rev (content (cache_map (mem s)))) \<and>
    \<not> hasPendingUpdates s'"
proof -
  from syncNow_stored [OF sync] obtain d where
    d: "stored (layer p') = Some d" "pairs_of D d = content (cache_map (mem s))" by blast
  obtain l where l: "do_load P (layer p') = (Some d, l)"
    using load_stored [of "layer p'"] d(1) by (metis prod.exhaust)
  show ?thesis
    unfolding fresh using l d(2) fold_set_content [OF dist, of n]
    by (simp add: LRUPersistentCache_new_def setPersistenceHelper_def cache_load_def CachePersistence_new_def
        loadData_def load_loop_fold pairs_of_def LRUInMemoryCache_new_def incrementVersion_def
        hasPendingUpdates_def hasChangedSince_def Let_def split_beta)
qed

lemma sync_inv_step:
  assumes "sync_inv D content stored (Suc b) (mem s) p snap" and "persistence s = Some p"
  shows "case cache_step E D P a (s, snap) of (s', snap') \<Rightarrow>
    \<exists>p'. persistence s' = Some p' \<and> sync_inv D content stored b (mem s') p' snap'"
proof (cases a)
  case (OpGet k)
  then show ?thesis
    using assms sync_inv_same [OF assms(1), of "snd (mem_get E k (mem s))"]
    by (auto simp: cache_get_def mem_get_def cache_entries_def split_beta)
next
  case (OpPut k v)
  then show ?thesis
    using assms sync_inv_change [OF assms(1), of "mem_put E k v (mem s)" p]
    by (auto simp: cache_put_def mem_put_def incrementVersion_def)
next
  case (OpRemove k)
  show ?thesis
  proof (cases "map_of (content (cache_map (mem s))) k")
    case None
    then have "(map_of (content (cache_map (mem s))))(k := None) = map_of (content (cache_map (mem s)))"
      by auto
    with OpRemove None assms sync_inv_same [OF assms(1), of "snd (mem_remove E k (mem s))"] show ?thesis
      by (auto simp: cache_remove_def mem_remove_def cache_entries_def split_beta Let_def)
  next
    case (Some v)
    with OpRemove assms sync_inv_change [OF assms(1), of "snd (mem_remove E k (mem s))" p] show ?thesis
      by (auto simp: cache_remove_def mem_remove_def incrementVersion_def split_beta Let_def)
  qed
next
  case (OpClear clr)
  let ?p = "if clr then p\<lparr>layer := do_clear P (layer p)\<rparr> else p"
  have "sync_inv D content stored b (mem_clear E (mem s)) ?p snap"
  proof (cases "content (cache_map (mem s)) = []")
    case True
    then have "layer_entries D stored p = Map.empty \<Longrightarrow> layer_entries D stored ?p = Map.empty"
      using clear_stored [of "layer p"] by (auto simp: layer_entries_def)
    with True assms(1) show ?thesis
      by (auto simp: sync_inv_def mem_clear_def cache_entries_def)
  next
    case False
    then show ?thesis
      using sync_inv_change [OF assms(1), of "mem_clear E (mem s)" ?p]
      by (auto simp: mem_clear_def incrementVersion_def)
  qed
  with OpClear assms(2) show ?thesis by (auto simp: cache_clear_def Let_def)
next
  case OpSyncBegin
  have "sync_inv D content stored b (mem s) p (Some (d, v))"
    if "syncNow_begin E D p (mem s) = Inr (d, v)" for d v
    using syncNow_begin_Inr [OF that] assms(1)
    by (auto simp: sync_inv_def cache_entries_def order_le_less dest: word_unat_eq_iff [THEN iffD2])
  then show ?thesis
    using OpSyncBegin assms by (auto simp: sync_inv_def split: sum.splits)
next
  case OpSyncEnd
  show ?thesis
  proof (cases snap)
    case None
    then show ?thesis using OpSyncEnd assms by (auto simp: sync_inv_def)
  next
    case (Some dv)
    then show ?thesis
      using OpSyncEnd assms persist_stored [of "fst dv" "layer p"]
      by (cases dv) (auto simp: sync_inv_def persistVersionedData_def layer_entries_def split: prod.splits)
  qed
qed

lemma sync_inv_run:
  assumes "sync_inv D content stored (length ops) (mem s) p snap" and "persistence s = Some p"
    and "fold (cache_step E D P) ops (s, snap) = (s', snap')"
  shows "\<exists>p'. persistence s' = Some p' \<and> sync_inv D content stored 0 (mem s') p' snap'"
  using assms
proof (induction ops arbitrary: s p snap)
  case (Cons a ops)
  obtain s1 snap1 where step: "cache_step E D P a (s, snap) = (s1, snap1)" by fastforce
  with sync_inv_step [of "length ops" s p snap a] Cons.prems(1,2) obtain p1 where
    "persistence s1 = Some p1" "sync_inv D content stored (length ops) (mem s1) p1 snap1" by auto
  with Cons.IH Cons.prems(3) step show ?case by simp
qed auto

lemma sync_inv_fresh:
  assumes "stored l = None" and "length ops + 1 < 2 ^ 64"
  shows "\<exists>p. persistence (LRUPersistentCache_new E D P n r (Some (CachePersistence_new l))) = Some p \<and>
    sync_inv D content stored (length ops)
      (mem (LRUPersistentCache_new E D P n r (Some (CachePersistence_new l)))) p None"
proof -
  obtain l' where "do_load P l = (None, l')"
    using load_stored [of l] assms(1) by (metis prod.exhaust)
  with assms(2) show ?thesis
    by (simp add: LRUPersistentCache_new_def setPersistenceHelper_def cache_load_def
        CachePersistence_new_def sync_inv_def LRUInMemoryCache_new_def)
qed

lemma synced_run:
  assumes "stored l = None" and "length ops + 1 < 2 ^ 64"
    and "fold (cache_step E D P) ops
      (LRUPersistentCache_new E D P n r (Some (CachePersistence_new l)), None) = (s, snap)"
  shows "\<exists>p. persistence s = Some p \<and>
    (\<not> hasPendingUpdates s \<longrightarrow> layer_entries D stored p = cache_entries content (mem s))"
proof -
  from sync_inv_fresh [of l ops n r] assms sync_inv_run [OF _ _ assms(3)] obtain p where
    "persistence s = Some p" "sync_inv D content stored 0 (mem s) p snap" by blast
  then show ?thesis by (auto simp: hasPendingUpdates_def hasChangedSince_def sync_inv_def)
qed

end

section \<open>The destructor's loop\<close>

lemma sync_round_ok:
  assumes "stopSyncer s" and "hasPendingUpdates s" and "sync_round E D P f s = Some (f', s')"
  shows "stopSyncer s' \<and> mem s' = mem s \<and> nSyncRetries s' = nSyncRetries s \<and>
    (hasPendingUpdates s' \<longrightarrow> f' = f + 1 \<and> f' \<noteq> nSyncRetries s)"
  using assms
  by (auto simp: sync_round_def hasPendingUpdates_def hasChangedSince_def dest!: syncNow_True
      split: option.splits prod.splits if_splits)

lemma sync_round_None_iff: "sync_round E D P f s = None \<longleftrightarrow> stopSyncer s \<and> \<not> hasPendingUpdates s"
  by (auto simp: sync_round_def split: option.splits prod.splits)

lemma sync_drain_returns:
  assumes "stopSyncer s" and "f < nSyncRetries s"
  shows "\<exists>s'. sync_drain E D P f s = Some s' \<and> mem s' = mem s \<and> \<not> hasPendingUpdates s'"
  using assms
proof (induction "nat (nSyncRetries s - f)" arbitrary: s f rule: less_induct)
  case less
  show ?case
  proof (cases "sync_round E D P f s")
    case None
    then have "\<not> hasPendingUpdates s" by (simp add: sync_round_None_iff)
    with None show ?thesis by (subst sync_drain.simps) simp
  next
    case (Some r)
    obtain f' s1 where r: "r = (f', s1)" by fastforce
    with Some less.prems(1) have pend: "hasPendingUpdates s"
      using sync_round_None_iff [of E D P f s] by auto
    note step = sync_round_ok [OF less.prems(1) pend, of E D P f f' s1]
    have "\<exists>s'. sync_drain E D P f' s1 = Some s' \<and> mem s' = mem s \<and> \<not> hasPendingUpdates s'"
    proof (cases "hasPendingUpdates s1")
      case True
      with step Some r less.prems(2) less.hyps [of s1 f'] show ?thesis by auto
    next
      case False
      with step Some r sync_round_None_iff [of E D P f' s1] show ?thesis
        by (subst sync_drain.simps) auto
    qed
    with Some r show ?thesis by (subst sync_drain.simps) simp
  qed
qed

section \<open>A file system and a cache to evaluate\<close>

text \<open>
  A file system with one descriptor per file, as the list of open files, and a textual form for arrays
  of pairs of characters.
\<close>

type_synonym sample_fs = "(string \<times> string) list \<times> string list"

definition sample_files :: "sample_fs file_ops" where
  "sample_files = \<lparr>
     openNoInt = (\<lambda>f (fs, fds). (int (length fds), ((f, []) # fs, fds @ [f]))),
     writeFull = (\<lambda>fd s (fs, fds).
       if 0 \<le> fd \<and> nat fd < length fds
       then (int (length s), ((fds ! nat fd, (case map_of fs (fds ! nat fd) of None \<Rightarrow> [] | Some x \<Rightarrow> x) @ s) # fs, fds))
       else (-1, (fs, fds))),
     fdatasyncNoInt = (\<lambda>fd w. (0, w)),
     closeNoInt = (\<lambda>fd w. (0, w)),
     readFile = (\<lambda>f (fs, fds). (map_of fs f, (fs, fds))),
     unlink_file = (\<lambda>f (fs, fds). (filter (\<lambda>e. fst e \<noteq> f) fs, fds))\<rparr>"

definition sample_fd :: "sample_fs \<Rightarrow> int \<Rightarrow> string option" where
  "sample_fd w fd = (if 0 \<le> fd \<and> nat fd < length (snd w) then Some (snd w ! nat fd) else None)"

datatype sample_dyn = SPair char char | SArray "sample_dyn list"

fun sample_write :: "sample_dyn list \<Rightarrow> string option" where
  "sample_write [] = Some []"
| "sample_write (SPair k v # ds) = map_option (\<lambda>s. k # v # s) (sample_write ds)"
| "sample_write (SArray _ # ds) = None"

fun sample_read :: "string \<Rightarrow> sample_dyn list option" where
  "sample_read [] = Some []"
| "sample_read [c] = None"
| "sample_read (k # v # s) = map_option ((#) (SPair k v)) (sample_read s)"

definition sample_json :: "sample_dyn json_ops" where
  "sample_json = \<lparr>
     json_serialize = (\<lambda>d. case d of SPair k v \<Rightarrow> None | SArray ds \<Rightarrow> sample_write ds),
     json_parse = (\<lambda>s. map_option SArray (sample_read s))\<rparr>"

definition sample_dynamic :: "(char, char, sample_dyn) dynamic_ops" where
  "sample_dynamic = \<lparr>
     dyn_array = SArray,
     dyn_items = (\<lambda>d. case d of SPair k v \<Rightarrow> None | SArray ds \<Rightarrow> Some ds),
     dyn_of_pair = (\<lambda>(k, v). Some (SPair k v)),
     dyn_pair = (\<lambda>d. case d of SPair k v \<Rightarrow> Some (k, v) | SArray ds \<Rightarrow> None)\<rparr>"

lemma sample_read_write: "sample_write ds = Some s \<Longrightarrow> sample_read s = Some ds"
  by (induction ds arbitrary: s rule: sample_write.induct) auto

interpretation sdyn: dynamic_codec sample_dynamic
  by unfold_locales (auto simp: sample_dynamic_def split: sample_dyn.splits)

lemma map_of_filter_other: "map_of (filter (\<lambda>e. fst e \<noteq> f) fs) f = None"
  by (induction fs) auto

interpretation sfile: json_file_layer sample_files "\<lambda>w. map_of (fst w)" sample_fd sample_json
  by unfold_locales
    (auto simp: sample_files_def sample_fd_def sample_json_def sample_read_write map_of_filter_other
      split: prod.splits if_splits sample_dyn.splits)

interpretation scache: persistent_cache list_cache snd fst sample_dynamic
  "FilePersistenceLayer sample_json sample_files ''f''"
  "\<lambda>w. Option.bind (map_of (fst w) ''f'') (json_parse sample_json)"
  by unfold_locales

section \<open>Properties\<close>

text \<open>
  Restart of a persistent cache: when a pending change has been written and a new cache is made
  over the same layer, the new cache has nothing to write back and holds the entries of the old one
  in the reverse order of use, since the most recently used entry is written first and loaded
  first. All entries are there if they fit; if the new capacity is smaller, it is the least recently
  used ones that are kept.
\<close>

theorem restart_reverses_recency:
  assumes "persistent_cache E content capacity D P stored"
    and "syncNow E D P p (mem s) = (True, p')" and "persistedVersion p \<noteq> version (mem s)"
    and "distinct (map fst (content (cache_map (mem s))))"
    and "s' = LRUPersistentCache_new E D P n r (Some (CachePersistence_new (layer p')))"
  shows "content (cache_map (mem s')) = lru_trim n (rev (content (cache_map (mem s)))) \<and>
    \<not> hasPendingUpdates s' \<and>
    (lru_ok n (content (cache_map (mem s))) \<longrightarrow>
       cache_entries content (mem s') = cache_entries content (mem s))"
proof -
  have "content (cache_map (mem s')) = lru_trim n (rev (content (cache_map (mem s)))) \<and>
      \<not> hasPendingUpdates s'"
    by (rule persistent_cache.load_after_sync [OF assms])
  moreover have "lru_trim n (rev kvs) = rev kvs" if "lru_ok n kvs" for kvs :: "('a \<times> 'b) list"
    using that by (auto simp: lru_ok_def lru_trim_def)
  ultimately show ?thesis
    using assms(4) by (auto simp: cache_entries_def map_of_rev_distinct)
qed

definition sample_old :: "(nat \<times> (char \<times> char) list, sample_fs) LRUPersistentCache" where
  "sample_old = cache_put list_cache CHR ''b'' CHR ''2'' (cache_put list_cache CHR ''a'' CHR ''1''
     (FilePersistentCache_new list_cache sample_dynamic sample_json sample_files ''f'' 4 3 ([], [])))"

definition sample_layer :: "sample_fs CachePersistence" where
  "sample_layer = snd (syncNow list_cache sample_dynamic (FilePersistenceLayer sample_json sample_files ''f'')
     (the (persistence sample_old)) (mem sample_old))"

theorem restart_reverses_recency_witness:
  "snd (cache_map (mem sample_old)) = [(CHR ''b'', CHR ''2''), (CHR ''a'', CHR ''1'')] \<and>
   snd (cache_map (mem (LRUPersistentCache_new list_cache sample_dynamic
       (FilePersistenceLayer sample_json sample_files ''f'') 1 3
       (Some (CachePersistence_new (layer sample_layer)))))) = [(CHR ''a'', CHR ''1'')]"
proof -
  have old: "snd (cache_map (mem sample_old)) = [(CHR ''b'', CHR ''2''), (CHR ''a'', CHR ''1'')]"
    by code_simp
  have "fst (syncNow list_cache sample_dynamic (FilePersistenceLayer sample_json sample_files ''f'')
      (the (persistence sample_old)) (mem sample_old)) = True" by code_simp
  then have sync: "syncNow list_cache sample_dynamic (FilePersistenceLayer sample_json sample_files ''f'')
      (the (persistence sample_old)) (mem sample_old) = (True, sample_layer)"
    by (metis prod.collapse sample_layer_def)
  have pend: "persistedVersion (the (persistence sample_old)) \<noteq> version (mem sample_old)" by code_simp
  have dist: "distinct (map fst (snd (cache_map (mem sample_old))))" by (simp add: old)
  from restart_reverses_recency [OF scache.persistent_cache_axioms sync pend dist refl, of 1 3] old
  show ?thesis by (simp add: lru_trim_def)
qed

text \<open>
  The layer holds what the cache holds: over any interleaving of gets, puts, removes and clears
  with the two parts of the syncer's step (the snapshot under the lock and the write after it),
  starting from an empty layer, whenever the cache reports no pending updates the layer's entries are
  those of the cache. Writes may fail and leave the layer in any state.
\<close>

theorem no_pending_updates_synced:
  assumes "persistent_cache E content capacity D P stored"
    and "stored l = None" and "length ops + 1 < 2 ^ 64"
    and "fold (cache_step E D P) ops
      (LRUPersistentCache_new E D P n r (Some (CachePersistence_new l)), None) = (s, snap)"
  shows "\<exists>p. persistence s = Some p \<and>
    (\<not> hasPendingUpdates s \<longrightarrow> layer_entries D stored p = cache_entries content (mem s))"
  by (rule persistent_cache.synced_run [OF assms])

definition sample_ops :: "(char, char) cache_op list" where
  "sample_ops = [OpPut CHR ''a'' CHR ''1'', OpSyncBegin, OpPut CHR ''b'' CHR ''2'', OpSyncEnd,
     OpGet CHR ''a'', OpSyncBegin, OpSyncEnd]"

definition sample_end :: "(nat \<times> (char \<times> char) list, sample_fs) LRUPersistentCache \<times> (sample_dyn \<times> u64) option" where
  "sample_end = fold (cache_step list_cache sample_dynamic (FilePersistenceLayer sample_json sample_files ''f''))
     sample_ops (FilePersistentCache_new list_cache sample_dynamic sample_json sample_files ''f'' 4 3 ([], []), None)"

theorem no_pending_updates_synced_witness:
  "\<not> hasPendingUpdates (fst sample_end) \<and>
   layer_entries sample_dynamic (\<lambda>w. Option.bind (map_of (fst w) ''f'') (json_parse sample_json))
     (the (persistence (fst sample_end))) = cache_entries snd (mem (fst sample_end))"
proof -
  have synced: "\<not> hasPendingUpdates (fst sample_end)" by code_simp
  have "fold (cache_step list_cache sample_dynamic (FilePersistenceLayer sample_json sample_files ''f''))
      sample_ops (LRUPersistentCache_new list_cache sample_dynamic
        (FilePersistenceLayer sample_json sample_files ''f'') 4 3 (Some (CachePersistence_new ([], []))), None) =
      (fst sample_end, snd sample_end)"
    by (simp add: sample_end_def FilePersistentCache_new_def)
  from no_pending_updates_synced [OF scache.persistent_cache_axioms _ _ this] synced show ?thesis
    by (auto simp: sample_ops_def)
qed



end
