(* ===== verification/Channel_Broadcast.thy ===== *)
theory Channel_Broadcast
  imports Wangle_Prelude
begin

text \<open>
  \<open>channel/broadcast\<close>: observers (\<open>ObservingHandler\<close>) that share upstream connections. A pool keeps one
  broadcast per routing data (\<open>BroadcastPool\<close> with its \<open>BroadcastManager\<close>s); its handler
  (\<open>BroadcastHandler\<close>) passes what it reads to its subscribers and closes when the last one leaves. All
  of it runs in one thread; the future of \<open>getHandler\<close> runs its continuation inline.
\<close>

section \<open>State\<close>

text \<open>
  Observers and managers are numbered. A manager's handler has the number of the manager, since it
  belongs to the manager's pipeline. A shared promise holds the observers that wait for it, or is
  fulfilled. \<open>manager_set\<close> is whether the pipeline still points at its manager, which the manager's
  destructor undoes.
\<close>

record BroadcastHandler =
  subscribers :: "(u64 \<times> nat) list"
  nextSubscriptionId :: u64

datatype promise = Pending "nat list" | Fulfilled

record 'r BroadcastManager =
  routingData :: 'r
  connectStarted :: bool
  deletingBroadcast :: bool
  sharedPromise :: promise
  manager_set :: bool

record 'r ObservingHandler =
  ob_routingData :: 'r
  broadcastHandler :: "nat option"
  subscriptionId :: u64
  deleted :: bool

datatype 't broadcast_event =
    OnNext nat 't
  | OnCompleted nat
  | OnError nat
  | PauseIngress nat
  | ResumeIngress nat
  | CloseObserver nat
  | CloseBroadcast nat
  | StartConnect nat

record ('r, 't) bcast =
  broadcasts :: "('r \<times> nat) list"
  managers :: "nat \<Rightarrow> 'r BroadcastManager"
  handlers :: "nat \<Rightarrow> BroadcastHandler"
  observers :: "nat \<Rightarrow> 'r ObservingHandler"
  next_manager :: nat
  bc_log :: "'t broadcast_event list"

text \<open>
  What the surroundings decide: whether the write of data to an observer fails, and whether closing an
  observer's pipeline destroys it at once.
\<close>

record 't observer_env =
  write_fails :: "nat \<Rightarrow> 't \<Rightarrow> bool"
  dies_on_close :: "nat \<Rightarrow> bool"

definition bc_event :: "'t broadcast_event \<Rightarrow> ('r, 't) bcast \<Rightarrow> ('r, 't) bcast" where
  "bc_event e w = w\<lparr>bc_log := bc_log w @ [e]\<rparr>"

definition upd_manager where
  "upd_manager m f w = w\<lparr>managers := (managers w)(m := f (managers w m))\<rparr>"

definition upd_bhandler where
  "upd_bhandler m f w = w\<lparr>handlers := (handlers w)(m := f (handlers w m))\<rparr>"

definition upd_observer where
  "upd_observer ob f w = w\<lparr>observers := (observers w)(ob := f (observers w ob))\<rparr>"

text \<open>\<open>std::map\<close> keeps its entries in the order of the keys.\<close>

definition map_store :: "'k::linorder \<Rightarrow> 'v \<Rightarrow> ('k \<times> 'v) list \<Rightarrow> ('k \<times> 'v) list" where
  "map_store k v xs = takeWhile (\<lambda>e. fst e < k) xs @ (k, v) # dropWhile (\<lambda>e. fst e \<le> k) xs"

definition map_erase :: "'k \<Rightarrow> ('k \<times> 'v) list \<Rightarrow> ('k \<times> 'v) list" where
  "map_erase k xs = filter (\<lambda>e. fst e \<noteq> k) xs"

section \<open>BroadcastPool and BroadcastManager: removal\<close>

text \<open>
  Erasing an entry destroys its manager, which takes itself out of its pipeline.
\<close>

definition deleteBroadcast :: "'r \<Rightarrow> ('r, 't) bcast \<Rightarrow> ('r, 't) bcast" where
  "deleteBroadcast r w =
     (case map_of (broadcasts w) r of
        None \<Rightarrow> w
      | Some m \<Rightarrow> upd_manager m (\<lambda>x. x\<lparr>manager_set := False\<rparr>)
                    (w\<lparr>broadcasts := map_erase r (broadcasts w)\<rparr>))"

definition isBroadcasting :: "'r \<Rightarrow> ('r, 't) bcast \<Rightarrow> bool" where
  "isBroadcasting r w \<longleftrightarrow> map_of (broadcasts w) r \<noteq> None"

definition bm_deletePipeline :: "nat \<Rightarrow> ('r, 't) bcast \<Rightarrow> ('r, 't) bcast" where
  "bm_deletePipeline m w =
     deleteBroadcast (routingData (managers w m)) (upd_manager m (\<lambda>x. x\<lparr>deletingBroadcast := True\<rparr>) w)"

section \<open>BroadcastHandler: subscriptions\<close>

text \<open>
  Closing the handler's pipeline reaches the socket handler at its front, which asks the pipeline's
  manager, if it has one, to delete it.
\<close>

definition bh_close :: "nat \<Rightarrow> ('r, 't) bcast \<Rightarrow> ('r, 't) bcast" where
  "bh_close m w =
     (let w1 = bc_event (CloseBroadcast m) w in
      if manager_set (managers w1 m) then bm_deletePipeline m w1 else w1)"

definition closeIfIdle :: "nat \<Rightarrow> ('r, 't) bcast \<Rightarrow> ('r, 't) bcast" where
  "closeIfIdle m w = (if subscribers (handlers w m) = [] then bh_close m w else w)"

definition subscribe :: "nat \<Rightarrow> nat \<Rightarrow> ('r, 't) bcast \<Rightarrow> u64 \<times> ('r, 't) bcast" where
  "subscribe m ob w =
     (let i = nextSubscriptionId (handlers w m) in
      (i, upd_bhandler m (\<lambda>h. h\<lparr>nextSubscriptionId := i + 1,
                               subscribers := map_store i ob (subscribers h)\<rparr>) w))"

definition unsubscribe :: "nat \<Rightarrow> u64 \<Rightarrow> ('r, 't) bcast \<Rightarrow> ('r, 't) bcast" where
  "unsubscribe m i w =
     (if map_of (subscribers (handlers w m)) i = None then w
      else closeIfIdle m (upd_bhandler m (\<lambda>h. h\<lparr>subscribers := map_erase i (subscribers h)\<rparr>) w))"

section \<open>ObservingHandler\<close>

definition ObservingHandler_destroy :: "nat \<Rightarrow> ('r, 't) bcast \<Rightarrow> ('r, 't) bcast" where
  "ObservingHandler_destroy ob w =
     (let w1 =
        (case broadcastHandler (observers w ob) of
           None \<Rightarrow> w
         | Some m \<Rightarrow> unsubscribe m (subscriptionId (observers w ob))
                       (upd_observer ob (\<lambda>x. x\<lparr>broadcastHandler := None\<rparr>) w)) in
      upd_observer ob (\<lambda>x. x\<lparr>deleted := True\<rparr>) w1)"

definition observer_close :: "'t observer_env \<Rightarrow> nat \<Rightarrow> ('r, 't) bcast \<Rightarrow> ('r, 't) bcast" where
  "observer_close V ob w =
     (let w1 = bc_event (CloseObserver ob) w in
      if dies_on_close V ob then ObservingHandler_destroy ob w1 else w1)"

definition observer_onNext :: "'t observer_env \<Rightarrow> 't \<Rightarrow> nat \<Rightarrow> ('r, 't) bcast \<Rightarrow> ('r, 't) bcast" where
  "observer_onNext V d ob w =
     (let w1 = bc_event (OnNext ob d) w in
      if write_fails V ob d \<and> \<not> deleted (observers w1 ob) then observer_close V ob w1 else w1)"

definition observer_onError :: "'t observer_env \<Rightarrow> nat \<Rightarrow> ('r, 't) bcast \<Rightarrow> ('r, 't) bcast" where
  "observer_onError V ob w =
     observer_close V ob (upd_observer ob (\<lambda>x. x\<lparr>broadcastHandler := None\<rparr>) (bc_event (OnError ob) w))"

definition observer_onCompleted :: "'t observer_env \<Rightarrow> nat \<Rightarrow> ('r, 't) bcast \<Rightarrow> ('r, 't) bcast" where
  "observer_onCompleted V ob w =
     observer_close V ob (upd_observer ob (\<lambda>x. x\<lparr>broadcastHandler := None\<rparr>) (bc_event (OnCompleted ob) w))"

definition observer_readEOF :: "'t observer_env \<Rightarrow> nat \<Rightarrow> ('r, 't) bcast \<Rightarrow> ('r, 't) bcast" where
  "observer_readEOF V ob w = observer_close V ob w"

definition observer_readException :: "'t observer_env \<Rightarrow> nat \<Rightarrow> ('r, 't) bcast \<Rightarrow> ('r, 't) bcast" where
  "observer_readException V ob w = observer_close V ob w"

text \<open>The two continuations of \<open>transportActive\<close>.\<close>

definition observer_connected :: "nat \<Rightarrow> nat \<Rightarrow> ('r, 't) bcast \<Rightarrow> ('r, 't) bcast" where
  "observer_connected m ob w =
     (if deleted (observers w ob) then w
      else
        (case subscribe m ob (upd_observer ob (\<lambda>x. x\<lparr>broadcastHandler := Some m\<rparr>) w) of (i, w1) \<Rightarrow>
           bc_event (ResumeIngress ob) (upd_observer ob (\<lambda>x. x\<lparr>subscriptionId := i\<rparr>) w1)))"

definition observer_failed :: "'t observer_env \<Rightarrow> nat \<Rightarrow> ('r, 't) bcast \<Rightarrow> ('r, 't) bcast" where
  "observer_failed V ob w = (if deleted (observers w ob) then w else observer_close V ob w)"

section \<open>BroadcastHandler: what it reads\<close>

text \<open>\<open>forEachSubscriber\<close> goes over a copy of the table.\<close>

definition bh_read :: "'t observer_env \<Rightarrow> nat \<Rightarrow> 't \<Rightarrow> ('r, 't) bcast \<Rightarrow> ('r, 't) bcast" where
  "bh_read V m d w = fold (\<lambda>e. observer_onNext V d (snd e)) (subscribers (handlers w m)) w"

definition clear_subscribers :: "nat \<Rightarrow> ('r, 't) bcast \<Rightarrow> ('r, 't) bcast" where
  "clear_subscribers m = upd_bhandler m (\<lambda>h. h\<lparr>subscribers := []\<rparr>)"

definition bh_readEOF :: "'t observer_env \<Rightarrow> nat \<Rightarrow> ('r, 't) bcast \<Rightarrow> ('r, 't) bcast" where
  "bh_readEOF V m w =
     closeIfIdle m (clear_subscribers m
       (fold (\<lambda>e. observer_onCompleted V (snd e)) (subscribers (handlers w m)) w))"

definition bh_readException :: "'t observer_env \<Rightarrow> nat \<Rightarrow> ('r, 't) bcast \<Rightarrow> ('r, 't) bcast" where
  "bh_readException V m w =
     closeIfIdle m (clear_subscribers m
       (fold (\<lambda>e. observer_onError V (snd e)) (subscribers (handlers w m)) w))"

section \<open>BroadcastPool and BroadcastManager: connecting\<close>

definition bm_getHandler :: "nat \<Rightarrow> nat \<Rightarrow> ('r, 't) bcast \<Rightarrow> ('r, 't) bcast" where
  "bm_getHandler m ob w =
     (let w1 = (if connectStarted (managers w m) then w
                else bc_event (StartConnect m) (upd_manager m (\<lambda>x. x\<lparr>connectStarted := True\<rparr>) w)) in
      (case sharedPromise (managers w m) of
         Fulfilled \<Rightarrow> observer_connected m ob w1
       | Pending obs \<Rightarrow> upd_manager m (\<lambda>x. x\<lparr>sharedPromise := Pending (obs @ [ob])\<rparr>) w1))"

definition BroadcastManager_new :: "'r \<Rightarrow> 'r BroadcastManager" where
  "BroadcastManager_new r =
     \<lparr>routingData = r, connectStarted = False, deletingBroadcast = False, sharedPromise = Pending [],
      manager_set = False\<rparr>"

definition pool_getHandler :: "'r \<Rightarrow> nat \<Rightarrow> ('r, 't) bcast \<Rightarrow> ('r, 't) bcast" where
  "pool_getHandler r ob w =
     (case map_of (broadcasts w) r of
        Some m \<Rightarrow> bm_getHandler m ob w
      | None \<Rightarrow>
          (let m = next_manager w in
           bm_getHandler m ob
             (w\<lparr>next_manager := Suc m, managers := (managers w)(m := BroadcastManager_new r),
                handlers := (handlers w)(m := \<lparr>subscribers = [], nextSubscriptionId = 0\<rparr>),
                broadcasts := (r, m) # broadcasts w\<rparr>)))"

definition observer_transportActive :: "nat \<Rightarrow> ('r, 't) bcast \<Rightarrow> ('r, 't) bcast" where
  "observer_transportActive ob w =
     (if broadcastHandler (observers w ob) \<noteq> None then w
      else pool_getHandler (ob_routingData (observers w ob)) ob (bc_event (PauseIngress ob) w))"

definition handleConnectError :: "'t observer_env \<Rightarrow> nat \<Rightarrow> ('r, 't) bcast \<Rightarrow> ('r, 't) bcast" where
  "handleConnectError V m w =
     (case sharedPromise (managers w m) of
        Fulfilled \<Rightarrow> deleteBroadcast (routingData (managers w m)) w
      | Pending obs \<Rightarrow>
          fold (observer_failed V) obs
            (deleteBroadcast (routingData (managers w m))
              (upd_manager m (\<lambda>x. x\<lparr>sharedPromise := Pending []\<rparr>) w)))"

text \<open>
  The continuation of \<open>connect\<close>. \<open>setRoutingData\<close> of the pipeline factory may throw, or fail in a way
  that closes the pipeline, or succeed.
\<close>

datatype routing_result = RoutingThrows | RoutingCloses | RoutingOk

definition connect_done :: "'t observer_env \<Rightarrow> routing_result \<Rightarrow> nat \<Rightarrow> ('r, 't) bcast \<Rightarrow> ('r, 't) bcast" where
  "connect_done V res m w =
     (let w1 = upd_manager m (\<lambda>x. x\<lparr>manager_set := True\<rparr>) w in
      (case res of
         RoutingThrows \<Rightarrow> handleConnectError V m w1
       | RoutingCloses \<Rightarrow> handleConnectError V m (bm_deletePipeline m w1)
       | RoutingOk \<Rightarrow>
           (case sharedPromise (managers w1 m) of
              Fulfilled \<Rightarrow> w1
            | Pending obs \<Rightarrow>
                closeIfIdle m (fold (observer_connected m) obs
                  (upd_manager m (\<lambda>x. x\<lparr>sharedPromise := Fulfilled\<rparr>) w1)))))"

definition connect_failed :: "'t observer_env \<Rightarrow> nat \<Rightarrow> ('r, 't) bcast \<Rightarrow> ('r, 't) bcast" where
  "connect_failed V m w = handleConnectError V m w"

end
