(* ===== verification/Channel_Broadcast_Props.thy ===== *)
theory Channel_Broadcast_Props
  imports Channel_Broadcast
begin

text \<open>
  The invariant of a pool of broadcasts with its observers, kept by every call: subscriptions and
  observers agree, and no connected broadcast is left without a subscriber.
\<close>

section \<open>The invariant\<close>

lemmas bc_upds = bc_event_def upd_manager_def upd_bhandler_def upd_observer_def

definition subs :: "('r, 't) bcast \<Rightarrow> nat \<Rightarrow> (u64 \<times> nat) list" where
  "subs w m = subscribers (handlers w m)"

definition waiters :: "('r, 't) bcast \<Rightarrow> nat \<Rightarrow> nat list" where
  "waiters w m = (case sharedPromise (managers w m) of Pending obs \<Rightarrow> obs | Fulfilled \<Rightarrow> [])"

definition in_pool :: "('r, 't) bcast \<Rightarrow> nat \<Rightarrow> bool" where
  "in_pool w m \<longleftrightarrow> (routingData (managers w m), m) \<in> set (broadcasts w)"

definition pool_ok :: "('r, 't) bcast \<Rightarrow> bool" where
  "pool_ok w \<longleftrightarrow> distinct (map fst (broadcasts w)) \<and>
     (\<forall>(r, m) \<in> set (broadcasts w). m < next_manager w \<and> routingData (managers w m) = r) \<and>
     (\<forall>m. manager_set (managers w m) \<longrightarrow> in_pool w m)"

text \<open>
  Each entry of a table belongs to an observer that points back at it, and the other way round;
  subscription ids are unique, and only connected broadcasts of the pool have subscribers.
\<close>

definition links_ok :: "('r, 't) bcast \<Rightarrow> bool" where
  "links_ok w \<longleftrightarrow>
     (\<forall>m. distinct (map fst (subs w m)) \<and>
        (\<forall>e \<in> set (subs w m). unat (fst e) < unat (nextSubscriptionId (handlers w m)))) \<and>
     (\<forall>m i ob. (i, ob) \<in> set (subs w m) \<longleftrightarrow>
        broadcastHandler (observers w ob) = Some m \<and> subscriptionId (observers w ob) = i) \<and>
     (\<forall>ob. deleted (observers w ob) \<longrightarrow> broadcastHandler (observers w ob) = None)"

definition subs_live :: "('r, 't) bcast \<Rightarrow> bool" where
  "subs_live w \<longleftrightarrow>
     (\<forall>m. subs w m \<noteq> [] \<longrightarrow> manager_set (managers w m) \<and> sharedPromise (managers w m) = Fulfilled)"

definition waiters_ok :: "('r, 't) bcast \<Rightarrow> bool" where
  "waiters_ok w \<longleftrightarrow>
     (\<forall>m. distinct (waiters w m) \<and> (waiters w m \<noteq> [] \<longrightarrow> m < next_manager w) \<and>
        (\<forall>ob \<in> set (waiters w m). broadcastHandler (observers w ob) = None)) \<and>
     (\<forall>m m' ob. ob \<in> set (waiters w m) \<longrightarrow> ob \<in> set (waiters w m') \<longrightarrow> m = m')"

text \<open>A connected broadcast of the pool has a subscriber; those of \<open>X\<close> are excepted for the moment.\<close>

definition no_leak :: "nat set \<Rightarrow> ('r, 't) bcast \<Rightarrow> bool" where
  "no_leak X w \<longleftrightarrow> (\<forall>m. in_pool w m \<longrightarrow> sharedPromise (managers w m) = Fulfilled \<longrightarrow>
     manager_set (managers w m) \<and> (m \<notin> X \<longrightarrow> subs w m \<noteq> []))"

definition bc_inv :: "nat set \<Rightarrow> ('r, 't) bcast \<Rightarrow> bool" where
  "bc_inv X w \<longleftrightarrow> pool_ok w \<and> links_ok w \<and> subs_live w \<and> waiters_ok w \<and> no_leak X w"

lemmas bc_inv_defs = bc_inv_def pool_ok_def links_ok_def subs_live_def waiters_ok_def no_leak_def

lemma links_ok_cong: "handlers w' = handlers w \<Longrightarrow> observers w' = observers w \<Longrightarrow> links_ok w' = links_ok w"
  by (simp add: links_ok_def subs_def)

lemma bc_event_views [simp]:
  "subs (bc_event e w) = subs w" "waiters (bc_event e w) = waiters w" "in_pool (bc_event e w) = in_pool w"
  "broadcasts (bc_event e w) = broadcasts w" "managers (bc_event e w) = managers w"
  "handlers (bc_event e w) = handlers w" "observers (bc_event e w) = observers w"
  "next_manager (bc_event e w) = next_manager w"
  by (auto simp: bc_event_def subs_def waiters_def in_pool_def fun_eq_iff)

lemma bc_inv_event [simp]: "bc_inv X (bc_event e w) = bc_inv X w"
  by (simp add: bc_inv_defs)

lemma bc_inv_cong:
  assumes "handlers w' = handlers w" "observers w' = observers w" "broadcasts w' = broadcasts w"
    "next_manager w' = next_manager w"
    and mgr: "\<And>k. routingData (managers w' k) = routingData (managers w k)"
    "\<And>k. sharedPromise (managers w' k) = sharedPromise (managers w k)"
    "\<And>k. manager_set (managers w' k) = manager_set (managers w k)"
  shows "bc_inv X w' = bc_inv X w" and "subs w' = subs w" and "waiters w' = waiters w"
    and "in_pool w' = in_pool w"
proof -
  show views: "subs w' = subs w" "waiters w' = waiters w" "in_pool w' = in_pool w"
    by (simp_all add: subs_def waiters_def in_pool_def assms fun_eq_iff)
  show "bc_inv X w' = bc_inv X w"
    unfolding bc_inv_defs views assms ..
qed

lemma set_map_erase [simp]: "set (map_erase k xs) = {e \<in> set xs. fst e \<noteq> k}"
  by (auto simp: map_erase_def)

lemma distinct_map_erase [simp]: "distinct (map fst xs) \<Longrightarrow> distinct (map fst (map_erase k xs))"
  by (simp add: map_erase_def distinct_map_filter)

lemma map_store_split:
  assumes "k \<notin> fst ` set xs"
  obtains ys zs where "xs = ys @ zs" and "map_store k v xs = ys @ (k, v) # zs"
proof
  have "dropWhile (\<lambda>e. fst e \<le> k) xs = dropWhile (\<lambda>e. fst e < k) xs"
    using assms by (intro dropWhile_cong) (auto simp: order_le_less image_iff)
  then show "map_store k v xs =
      takeWhile (\<lambda>e. fst e < k) xs @ (k, v) # dropWhile (\<lambda>e. fst e < k) xs"
    by (simp add: map_store_def)
qed simp

lemma set_map_store: "k \<notin> fst ` set xs \<Longrightarrow> set (map_store k v xs) = insert (k, v) (set xs)"
  by (rule map_store_split [of k xs v]) auto

lemma distinct_map_store:
  "k \<notin> fst ` set xs \<Longrightarrow> distinct (map fst xs) \<Longrightarrow> distinct (map fst (map_store k v xs))"
  by (rule map_store_split [of k xs v]) auto

section \<open>Closing and leaving\<close>

lemma delete_own:
  assumes "pool_ok w" and "in_pool w m"
  shows "map_of (broadcasts w) (routingData (managers w m)) = Some m"
  using assms(2) conjunct1 [OF assms(1) [unfolded pool_ok_def]]
  unfolding in_pool_def by (intro map_of_is_SomeI)

lemma in_pool_unique:
  assumes "pool_ok w" and "in_pool w m" and "in_pool w m'"
    and "routingData (managers w m) = routingData (managers w m')"
  shows "m = m'"
  using delete_own [OF assms(1,2)] delete_own [OF assms(1,3)] assms(4) by (metis option.inject)

text \<open>Taking a broadcast without subscribers out of the pool.\<close>

lemma bc_inv_drop:
  assumes inv: "bc_inv (insert m X) w" and pool: "in_pool w m" and idle: "subs w m = []"
    and w': "w' = deleteBroadcast (routingData (managers w m)) w"
  shows "bc_inv X w' \<and> \<not> in_pool w' m"
proof -
  let ?r = "routingData (managers w m)"
  have ok: "pool_ok w" using inv by (simp add: bc_inv_def)
  have w'_eq: "w' = upd_manager m (\<lambda>x. x\<lparr>manager_set := False\<rparr>)
      (w\<lparr>broadcasts := map_erase ?r (broadcasts w)\<rparr>)"
    using delete_own [OF ok pool] w' by (simp add: deleteBroadcast_def)
  have views: "subs w' = subs w" "waiters w' = waiters w" "observers w' = observers w"
    "handlers w' = handlers w" "next_manager w' = next_manager w"
    "broadcasts w' = map_erase ?r (broadcasts w)"
    "\<And>k. routingData (managers w' k) = routingData (managers w k)"
    "\<And>k. sharedPromise (managers w' k) = sharedPromise (managers w k)"
    "\<And>k. manager_set (managers w' k) = (k \<noteq> m \<and> manager_set (managers w k))"
    by (auto simp: w'_eq upd_manager_def subs_def waiters_def fun_eq_iff)
  have "in_pool w' k \<longleftrightarrow> in_pool w k \<and> routingData (managers w k) \<noteq> ?r" for k
    unfolding in_pool_def views set_map_erase by simp
  then have pool': "in_pool w' k \<longleftrightarrow> in_pool w k \<and> k \<noteq> m" for k
    using in_pool_unique [OF ok pool, of k] by metis
  have "pool_ok w'"
    unfolding pool_ok_def
  proof (intro conjI allI impI)
    show "distinct (map fst (broadcasts w'))" using ok by (simp add: views pool_ok_def)
    show "\<forall>(r, k) \<in> set (broadcasts w'). k < next_manager w' \<and> routingData (managers w' k) = r"
      using ok by (auto simp: views pool_ok_def)
    show "in_pool w' k" if "manager_set (managers w' k)" for k
      using ok that by (simp add: pool' views pool_ok_def)
  qed
  moreover have "links_ok w'" using inv links_ok_cong [OF views(4,3)] by (simp add: bc_inv_def)
  moreover have "subs_live w'"
    using inv idle unfolding bc_inv_def subs_live_def views by metis
  moreover have "waiters_ok w'"
    using inv unfolding bc_inv_def waiters_ok_def views by simp
  moreover have "no_leak X w'"
    using inv unfolding bc_inv_def no_leak_def pool' views by simp
  ultimately show ?thesis by (simp add: bc_inv_def pool')
qed

lemma deleting_views:
  assumes "w' = upd_manager m (\<lambda>x. x\<lparr>deletingBroadcast := True\<rparr>) w"
  shows "bc_inv X w' = bc_inv X w" "subs w' = subs w" "waiters w' = waiters w" "in_pool w' = in_pool w"
  using bc_inv_cong [of w' w] assms by (simp_all add: upd_manager_def)

lemma bc_inv_deletePipeline:
  assumes "bc_inv (insert m X) w" and "in_pool w m" and "subs w m = []"
  shows "bc_inv X (bm_deletePipeline m w)"
    and "map_of (broadcasts (bm_deletePipeline m w)) (routingData (managers w m)) = None"
proof -
  define w1 where "w1 = upd_manager m (\<lambda>x. x\<lparr>deletingBroadcast := True\<rparr>) w"
  note w1 = deleting_views [OF w1_def]
  have r: "routingData (managers w m) = routingData (managers w1 m)"
    by (simp add: w1_def upd_manager_def)
  show "bc_inv X (bm_deletePipeline m w)"
    unfolding bm_deletePipeline_def w1_def [symmetric] r
    by (rule conjunct1 [OF bc_inv_drop [OF _ _ _ refl]]) (simp_all add: w1 assms)
  show "map_of (broadcasts (bm_deletePipeline m w)) (routingData (managers w m)) = None"
    by (auto simp: bm_deletePipeline_def deleteBroadcast_def upd_manager_def map_of_eq_None_iff
        split: option.split)
qed

lemma bc_inv_closeIfIdle:
  assumes "bc_inv (insert m X) w"
  shows "bc_inv X (closeIfIdle m w)"
proof (cases "subs w m = []")
  case True
  show ?thesis
  proof (cases "manager_set (managers w m)")
    case set: True
    then have "in_pool w m" using assms by (simp add: bc_inv_def pool_ok_def)
    with bc_inv_deletePipeline(1) [of m X "bc_event (CloseBroadcast m) w"] assms True set show ?thesis
      by (simp add: closeIfIdle_def bh_close_def subs_def [symmetric] Let_def)
  next
    case False
    with assms have "bc_inv X w" unfolding bc_inv_def no_leak_def by blast
    with True False show ?thesis
      by (simp add: closeIfIdle_def bh_close_def subs_def [symmetric] Let_def)
  qed
next
  case False
  with assms have "bc_inv X w" unfolding bc_inv_def no_leak_def by blast
  with False show ?thesis by (simp add: closeIfIdle_def subs_def [symmetric])
qed

lemma links_okD:
  assumes "links_ok w"
  shows "distinct (map fst (subs w m))"
    and "(i, ob) \<in> set (subs w m) \<Longrightarrow> unat i < unat (nextSubscriptionId (handlers w m))"
    and "(i, ob) \<in> set (subs w m) \<longleftrightarrow>
      broadcastHandler (observers w ob) = Some m \<and> subscriptionId (observers w ob) = i"
    and "deleted (observers w ob) \<Longrightarrow> broadcastHandler (observers w ob) = None"
  using assms unfolding links_ok_def by (blast, force, blast, blast)

text \<open>An observer leaves the table it is in.\<close>

lemma bc_inv_leave:
  assumes inv: "bc_inv X w" and bh: "broadcastHandler (observers w ob) = Some m"
    and i: "i = subscriptionId (observers w ob)"
    and w': "w' = upd_bhandler m (\<lambda>h. h\<lparr>subscribers := map_erase i (subscribers h)\<rparr>)
      (upd_observer ob (\<lambda>x. x\<lparr>broadcastHandler := None\<rparr>) w)"
  shows "bc_inv (insert m X) w'"
proof -
  have links: "links_ok w" using inv by (simp add: bc_inv_def)
  note L = links_okD [OF links]
  have views: "managers w' = managers w" "broadcasts w' = broadcasts w" "next_manager w' = next_manager w"
    "waiters w' = waiters w" "in_pool w' = in_pool w"
    "\<And>k. subs w' k = (if k = m then map_erase i (subs w m) else subs w k)"
    "\<And>k. nextSubscriptionId (handlers w' k) = nextSubscriptionId (handlers w k)"
    "\<And>q. observers w' q = (if q = ob then (observers w ob)\<lparr>broadcastHandler := None\<rparr> else observers w q)"
    by (auto simp: w' upd_bhandler_def upd_observer_def subs_def waiters_def in_pool_def fun_eq_iff)
  have own: "(i, ob) \<in> set (subs w m)" using L(3) bh i by simp
  have only: "q = ob" if "(i, q) \<in> set (subs w m)" for q
    using eq_key_imp_eq_value [OF L(1) that own] .
  have sub: "set (subs w' k) \<subseteq> set (subs w k)" for k by (auto simp: views)
  have "links_ok w'"
    unfolding links_ok_def
  proof (intro conjI allI impI ballI)
    show "distinct (map fst (subs w' k))" for k using L(1) by (simp add: views)
    show "unat (fst e) < unat (nextSubscriptionId (handlers w' k))" if "e \<in> set (subs w' k)" for k e
      using L(2) [of "fst e" "snd e" k] sub [of k] that by (auto simp: views(7))
    show "broadcastHandler (observers w' q) = None" if "deleted (observers w' q)" for q
      using that L(4) [of q] by (auto simp: views(8) split: if_splits)
    show "(j, q) \<in> set (subs w' k) \<longleftrightarrow>
        broadcastHandler (observers w' q) = Some k \<and> subscriptionId (observers w' q) = j" for j q k
      using L(3) [of j q k] only [of q] bh i by (auto simp: views(6,8))
  qed
  moreover have "subs_live w'"
    using inv sub unfolding bc_inv_def subs_live_def views(1) by (metis set_empty2 subset_empty)
  moreover have "waiters_ok w'"
    using inv unfolding bc_inv_def waiters_ok_def views(3,4) by (simp add: views(8))
  moreover have "no_leak (insert m X) w'"
    using inv unfolding bc_inv_def no_leak_def views(1,5) by (simp add: views(6))
  moreover have "pool_ok w'"
    using inv unfolding bc_inv_def pool_ok_def views(1,2,3,5) by simp
  ultimately show ?thesis by (simp add: bc_inv_def)
qed

lemma bc_inv_mark_deleted:
  assumes "bc_inv X w" and "broadcastHandler (observers w ob) = None"
  shows "bc_inv X (upd_observer ob (\<lambda>x. x\<lparr>deleted := True\<rparr>) w)" (is "bc_inv X ?w")
proof -
  have views: "managers ?w = managers w" "broadcasts ?w = broadcasts w" "next_manager ?w = next_manager w"
    "waiters ?w = waiters w" "in_pool ?w = in_pool w" "subs ?w = subs w" "handlers ?w = handlers w"
    "\<And>q. broadcastHandler (observers ?w q) = broadcastHandler (observers w q)"
    "\<And>q. subscriptionId (observers ?w q) = subscriptionId (observers w q)"
    "\<And>q. deleted (observers ?w q) = (q = ob \<or> deleted (observers w q))"
    by (auto simp: upd_observer_def subs_def waiters_def in_pool_def fun_eq_iff)
  show ?thesis
    using assms unfolding bc_inv_defs views by blast
qed

lemma closeIfIdle_observers [simp]: "observers (closeIfIdle m w) = observers w"
  by (simp add: closeIfIdle_def bh_close_def bm_deletePipeline_def deleteBroadcast_def upd_manager_def
      Let_def split: option.split)

lemma bc_inv_destroy:
  assumes "bc_inv X w"
  shows "bc_inv X (ObservingHandler_destroy ob w)"
proof (cases "broadcastHandler (observers w ob)")
  case None
  then show ?thesis using bc_inv_mark_deleted [OF assms] by (simp add: ObservingHandler_destroy_def)
next
  case (Some m)
  let ?i = "subscriptionId (observers w ob)"
  let ?w = "upd_bhandler m (\<lambda>h. h\<lparr>subscribers := map_erase ?i (subscribers h)\<rparr>)
      (upd_observer ob (\<lambda>x. x\<lparr>broadcastHandler := None\<rparr>) w)"
  have links: "links_ok w" using assms by (simp add: bc_inv_def)
  with Some have "(?i, ob) \<in> set (subs w m)" using links_okD(3) [OF links] by blast
  then have "map_of (subscribers (handlers w m)) ?i = Some ob"
    using links_okD(1) [OF links] by (simp add: subs_def)
  then have eq: "ObservingHandler_destroy ob w =
      upd_observer ob (\<lambda>x. x\<lparr>deleted := True\<rparr>) (closeIfIdle m ?w)"
    using Some by (simp add: ObservingHandler_destroy_def unsubscribe_def upd_observer_def Let_def)
  have "bc_inv X (closeIfIdle m ?w)"
    by (rule bc_inv_closeIfIdle) (rule bc_inv_leave [OF assms Some refl refl])
  moreover have "broadcastHandler (observers (closeIfIdle m ?w) ob) = None"
    by (simp add: upd_bhandler_def upd_observer_def)
  ultimately show ?thesis unfolding eq by (rule bc_inv_mark_deleted)
qed

lemma bc_inv_close: "bc_inv X w \<Longrightarrow> bc_inv X (observer_close V ob w)"
  by (simp add: observer_close_def bc_inv_destroy Let_def)

lemma bc_inv_onNext: "bc_inv X w \<Longrightarrow> bc_inv X (observer_onNext V d ob w)"
  by (simp add: observer_onNext_def bc_inv_close Let_def)

lemma bc_inv_failed: "bc_inv X w \<Longrightarrow> bc_inv X (observer_failed V ob w)"
  by (simp add: observer_failed_def bc_inv_close)

lemma bc_inv_fold: "(\<And>x v. bc_inv X v \<Longrightarrow> bc_inv X (f x v)) \<Longrightarrow> bc_inv X w \<Longrightarrow> bc_inv X (fold f xs w)"
  by (induction xs arbitrary: w) auto

lemma bc_inv_read: "bc_inv X w \<Longrightarrow> bc_inv X (bh_read V m d w)"
  unfolding bh_read_def by (rule bc_inv_fold [OF bc_inv_onNext])

section \<open>The upstream ends\<close>

text \<open>What \<open>onCompleted\<close> and \<open>onError\<close> do to an observer: it forgets the handler and may be destroyed.\<close>

definition gone :: "'t observer_env \<Rightarrow> nat \<Rightarrow> 'r ObservingHandler \<Rightarrow> 'r ObservingHandler" where
  "gone V ob x = x\<lparr>broadcastHandler := None, deleted := deleted x \<or> dies_on_close V ob\<rparr>"

lemma gone_fields [simp]:
  "broadcastHandler (gone V ob x) = None" "subscriptionId (gone V ob x) = subscriptionId x"
  "gone V ob (gone V ob x) = gone V ob x"
  by (auto simp: gone_def)

definition leaves :: "'t observer_env \<Rightarrow> (nat \<Rightarrow> ('r, 't) bcast \<Rightarrow> ('r, 't) bcast) \<Rightarrow> bool" where
  "leaves V g \<longleftrightarrow> (\<forall>ob w. \<exists>l. g ob w =
     w\<lparr>observers := (observers w)(ob := gone V ob (observers w ob)), bc_log := l\<rparr>)"

lemma leaves_on: "leaves V (observer_onCompleted V)" "leaves V (observer_onError V)"
  by (auto simp: leaves_def observer_onCompleted_def observer_onError_def observer_close_def gone_def
      ObservingHandler_destroy_def upd_observer_def bc_event_def Let_def intro!: exI bcast.equality)

lemma fold_leaves:
  assumes "leaves V g"
  shows "\<exists>l. fold (\<lambda>e. g (snd e)) es w =
    w\<lparr>observers := (\<lambda>q. if q \<in> snd ` set es then gone V q (observers w q) else observers w q), bc_log := l\<rparr>"
proof (induction es arbitrary: w)
  case Nil
  have "w = w\<lparr>observers := observers w, bc_log := bc_log w\<rparr>" by simp
  then show ?case by (auto intro: exI [of _ "bc_log w"])
next
  case (Cons e es)
  obtain l where l: "g (snd e) w =
      w\<lparr>observers := (observers w)(snd e := gone V (snd e) (observers w (snd e))), bc_log := l\<rparr>"
    using assms unfolding leaves_def by blast
  obtain l' where "fold (\<lambda>e. g (snd e)) es (g (snd e) w) =
      (g (snd e) w)\<lparr>observers := (\<lambda>q. if q \<in> snd ` set es then gone V q (observers (g (snd e) w) q)
        else observers (g (snd e) w) q), bc_log := l'\<rparr>"
    using Cons by blast
  moreover have "(\<lambda>q. if q \<in> snd ` set es then gone V q (observers (g (snd e) w) q)
        else observers (g (snd e) w) q) =
      (\<lambda>q. if q \<in> snd ` set (e # es) then gone V q (observers w q) else observers w q)"
    by (auto simp: l fun_eq_iff)
  ultimately show ?case by (auto simp: l)
qed

lemma bc_inv_end:
  assumes inv: "bc_inv X w" and "leaves V g"
  shows "bc_inv X (closeIfIdle m (clear_subscribers m (fold (\<lambda>e. g (snd e)) (subscribers (handlers w m)) w)))"
proof (rule bc_inv_closeIfIdle)
  obtain l where fold: "fold (\<lambda>e. g (snd e)) (subs w m) w =
      w\<lparr>observers := (\<lambda>q. if q \<in> snd ` set (subs w m) then gone V q (observers w q) else observers w q),
        bc_log := l\<rparr>"
    using fold_leaves [OF assms(2)] by blast
  define w' where "w' = clear_subscribers m (fold (\<lambda>e. g (snd e)) (subs w m) w)"
  have links: "links_ok w" using inv by (simp add: bc_inv_def)
  note L = links_okD [OF links]
  have views: "managers w' = managers w" "broadcasts w' = broadcasts w" "next_manager w' = next_manager w"
    "waiters w' = waiters w" "in_pool w' = in_pool w"
    "\<And>k. subs w' k = (if k = m then [] else subs w k)"
    "\<And>k. nextSubscriptionId (handlers w' k) = nextSubscriptionId (handlers w k)"
    "\<And>q. observers w' q = (if q \<in> snd ` set (subs w m) then gone V q (observers w q) else observers w q)"
    unfolding w'_def fold
    by (auto simp: clear_subscribers_def upd_bhandler_def subs_def waiters_def in_pool_def fun_eq_iff)
  have member: "q \<in> snd ` set (subs w m) \<longleftrightarrow> broadcastHandler (observers w q) = Some m" for q
    using L(3) [of _ q m] by force
  have "links_ok w'"
    unfolding links_ok_def
  proof (intro conjI allI impI ballI)
    show "distinct (map fst (subs w' k))" for k using L(1) by (simp add: views)
    show "unat (fst e) < unat (nextSubscriptionId (handlers w' k))" if "e \<in> set (subs w' k)" for k e
      using L(2) [of "fst e" "snd e" k] that by (auto simp: views(6,7) split: if_splits)
    show "broadcastHandler (observers w' q) = None" if "deleted (observers w' q)" for q
      using that L(4) [of q] by (auto simp: views(8) split: if_splits)
    show "(j, q) \<in> set (subs w' k) \<longleftrightarrow>
        broadcastHandler (observers w' q) = Some k \<and> subscriptionId (observers w' q) = j" for j q k
      using L(3) [of j q k] by (auto simp: views(6,8) member)
  qed
  moreover have "subs_live w'"
    using inv unfolding bc_inv_def subs_live_def views(1) by (simp add: views(6))
  moreover have "waiters_ok w'"
    using inv unfolding bc_inv_def waiters_ok_def views(3,4) by (simp add: views(8))
  moreover have "no_leak (insert m X) w'"
    using inv unfolding bc_inv_def no_leak_def views(1,5) by (simp add: views(6))
  moreover have "pool_ok w'"
    using inv unfolding bc_inv_def pool_ok_def views(1,2,3,5) by simp
  ultimately show "bc_inv (insert m X) (clear_subscribers m (fold (\<lambda>e. g (snd e)) (subscribers (handlers w m)) w))"
    unfolding subs_def [symmetric] w'_def [symmetric] by (simp add: bc_inv_def)
qed

section \<open>Connecting\<close>

lemma bc_inv_connected:
  assumes inv: "bc_inv X w" and bh: "broadcastHandler (observers w ob) = None"
    and m: "manager_set (managers w m)" "sharedPromise (managers w m) = Fulfilled"
    and free: "\<And>k. ob \<notin> set (waiters w k)"
    and room: "unat (nextSubscriptionId (handlers w m)) + 1 < 2 ^ 64"
    and w': "w' = observer_connected m ob w"
  shows "bc_inv X w'" and "managers w' = managers w" and "waiters w' = waiters w"
    and "\<And>q. q \<noteq> ob \<Longrightarrow> observers w' q = observers w q"
    and "unat (nextSubscriptionId (handlers w' m)) \<le> Suc (unat (nextSubscriptionId (handlers w m)))"
    and "deleted (observers w ob) \<or> subs w' m \<noteq> []"
proof -
  let ?i = "nextSubscriptionId (handlers w m)"
  have links: "links_ok w" using inv by (simp add: bc_inv_def)
  note L = links_okD [OF links]
  have succ: "unat (?i + 1) = Suc (unat ?i)" using room unat_add_lem [of ?i 1] by simp
  have new: "?i \<notin> fst ` set (subs w m)" using L(2) [of ?i _ m] by force
  show mgr: "managers w' = managers w" "waiters w' = waiters w"
    and other: "\<And>q. q \<noteq> ob \<Longrightarrow> observers w' q = observers w q"
    by (auto simp: w' observer_connected_def subscribe_def bc_upds waiters_def Let_def fun_eq_iff)
  show "unat (nextSubscriptionId (handlers w' m)) \<le> Suc (unat ?i)"
    by (auto simp: w' observer_connected_def subscribe_def bc_upds succ Let_def)
  show "deleted (observers w ob) \<or> subs w' m \<noteq> []"
    by (auto simp: w' observer_connected_def subscribe_def bc_upds subs_def map_store_def Let_def)
  show "bc_inv X w'"
  proof (cases "deleted (observers w ob)")
    case True
    then show ?thesis using inv by (simp add: w' observer_connected_def)
  next
    case False
    then have views: "broadcasts w' = broadcasts w" "next_manager w' = next_manager w" "in_pool w' = in_pool w"
      "\<And>k. subs w' k = (if k = m then map_store ?i ob (subs w m) else subs w k)"
      "\<And>k. nextSubscriptionId (handlers w' k) = (if k = m then ?i + 1 else nextSubscriptionId (handlers w k))"
      "observers w' ob = (observers w ob)\<lparr>broadcastHandler := Some m, subscriptionId := ?i\<rparr>"
      by (auto simp: w' observer_connected_def subscribe_def bc_upds subs_def in_pool_def Let_def fun_eq_iff)
    have "links_ok w'"
      unfolding links_ok_def
    proof (intro conjI allI impI ballI)
      show "distinct (map fst (subs w' k))" for k
        using L(1) new by (simp add: views(4) distinct_map_store)
      show "unat (fst e) < unat (nextSubscriptionId (handlers w' k))" if "e \<in> set (subs w' k)" for k e
        using L(2) [of "fst e" "snd e" k] that new
        by (auto simp: views(4,5) set_map_store succ split: if_splits)
      show "broadcastHandler (observers w' q) = None" if "deleted (observers w' q)" for q
        using that L(4) [of q] False other [of q] by (cases "q = ob") (auto simp: views(6))
      show "(j, q) \<in> set (subs w' k) \<longleftrightarrow>
          broadcastHandler (observers w' q) = Some k \<and> subscriptionId (observers w' q) = j" for j q k
        using L(3) [of j q k] bh other [of q] new
        by (cases "q = ob") (auto simp: views(4,6) set_map_store)
    qed
    moreover have "subs_live w'"
      using inv m unfolding bc_inv_def subs_live_def mgr(1) by (simp add: views(4))
    moreover have "waiters_ok w'"
      unfolding waiters_ok_def mgr(2) views(2)
    proof (intro conjI allI impI ballI)
      fix k q assume "q \<in> set (waiters w k)"
      with inv free other [of q] show "broadcastHandler (observers w' q) = None"
        unfolding bc_inv_def waiters_ok_def by metis
    qed (use inv in \<open>unfold bc_inv_def waiters_ok_def, blast+\<close>)
    moreover have "no_leak X w'"
      using inv unfolding bc_inv_def no_leak_def mgr(1) views(3) by (simp add: views(4) map_store_def)
    moreover have "pool_ok w'"
      using inv unfolding bc_inv_def pool_ok_def mgr(1) views(1,2,3) by simp
    ultimately show ?thesis by (simp add: bc_inv_def)
  qed
qed

lemma bc_inv_connect_all:
  assumes "bc_inv X w" and "manager_set (managers w m)" and "sharedPromise (managers w m) = Fulfilled"
    and "distinct obs" and "unat (nextSubscriptionId (handlers w m)) + length obs < 2 ^ 64"
    and "\<forall>ob \<in> set obs. broadcastHandler (observers w ob) = None \<and> (\<forall>k. ob \<notin> set (waiters w k))"
  shows "bc_inv X (fold (observer_connected m) obs w)"
  using assms
proof (induction obs arbitrary: w)
  case (Cons ob obs)
  note step = bc_inv_connected [OF Cons.prems(1) _ Cons.prems(2,3) _ _ refl, of ob]
  have "bc_inv X (fold (observer_connected m) obs (observer_connected m ob w))"
  proof (rule Cons.IH)
    show "\<forall>q \<in> set obs. broadcastHandler (observers (observer_connected m ob w) q) = None \<and>
        (\<forall>k. q \<notin> set (waiters (observer_connected m ob w) k))"
      using step(3,4) Cons.prems(4-6) by (metis distinct.simps(2) list.set_intros le_add1 length_Cons
          add.assoc add.commute add_lessD1 plus_1_eq_Suc)
  qed (use step Cons.prems in auto)
  then show ?case by simp
qed simp

text \<open>Changing what a pending promise holds.\<close>

lemma bc_inv_promise:
  assumes inv: "bc_inv X w" and idle: "sharedPromise (managers w m) \<noteq> Fulfilled" and "in_pool w m \<or> obs = []"
    and w': "w' = upd_manager m (\<lambda>x. x\<lparr>sharedPromise := Pending obs\<rparr>) w"
    and obs: "distinct obs" "\<forall>ob \<in> set obs. broadcastHandler (observers w ob) = None"
      "\<forall>ob \<in> set obs. \<forall>k. k \<noteq> m \<longrightarrow> ob \<notin> set (waiters w k)"
  shows "bc_inv X w'" and "in_pool w' = in_pool w" and "subs w' = subs w"
proof -
  have views: "handlers w' = handlers w" "observers w' = observers w" "broadcasts w' = broadcasts w"
    "next_manager w' = next_manager w" "subs w' = subs w" "in_pool w' = in_pool w"
    "\<And>k. routingData (managers w' k) = routingData (managers w k)"
    "\<And>k. manager_set (managers w' k) = manager_set (managers w k)"
    "\<And>k. sharedPromise (managers w' k) = (if k = m then Pending obs else sharedPromise (managers w k))"
    "\<And>k. waiters w' k = (if k = m then obs else waiters w k)"
    by (auto simp: w' upd_manager_def subs_def waiters_def in_pool_def fun_eq_iff)
  show "in_pool w' = in_pool w" "subs w' = subs w" by (fact views)+
  have less: "m < next_manager w \<or> obs = []"
    using inv assms(3) unfolding bc_inv_def pool_ok_def in_pool_def by fast
  have "links_ok w'" using inv links_ok_cong [OF views(1,2)] by (simp add: bc_inv_def)
  moreover have "subs_live w'"
    using inv idle unfolding bc_inv_def subs_live_def views(5,8) by (simp add: views(9)) blast
  moreover have "no_leak X w'"
    using inv unfolding bc_inv_def no_leak_def views(5,6,8) by (simp add: views(9))
  moreover have "pool_ok w'"
    using inv unfolding bc_inv_def pool_ok_def views(3,4,6,7,8) by simp
  moreover have "waiters_ok w'"
    unfolding waiters_ok_def views(2,4)
  proof (intro conjI allI impI ballI)
    fix k k' ob assume "ob \<in> set (waiters w' k)" "ob \<in> set (waiters w' k')"
    with obs(3) inv show "k = k'"
      unfolding bc_inv_def waiters_ok_def views(10) by (metis (full_types))
  qed (use inv obs(1,2) less in \<open>auto simp: bc_inv_def waiters_ok_def views(10) split: if_splits\<close>)
  ultimately show "bc_inv X w'" by (simp add: bc_inv_def)
qed

lemma pending_idle: "bc_inv X w \<Longrightarrow> sharedPromise (managers w m) \<noteq> Fulfilled \<Longrightarrow> subs w m = []"
  unfolding bc_inv_def subs_live_def by blast

lemma bc_inv_mono: "bc_inv X w \<Longrightarrow> X \<subseteq> Y \<Longrightarrow> bc_inv Y w"
  unfolding bc_inv_def no_leak_def by blast

lemma bc_inv_connect_error:
  assumes "bc_inv X w" and "in_pool w m" and "sharedPromise (managers w m) = Pending obs"
  shows "bc_inv X (handleConnectError V m w)"
proof -
  define w1 where "w1 = upd_manager m (\<lambda>x. x\<lparr>sharedPromise := Pending []\<rparr>) w"
  have w1: "bc_inv X w1" "in_pool w1 = in_pool w" "subs w1 = subs w"
    using bc_inv_promise [OF assms(1) _ _ w1_def] assms(3) by auto
  have r: "routingData (managers w m) = routingData (managers w1 m)" by (simp add: w1_def upd_manager_def)
  have "bc_inv X (deleteBroadcast (routingData (managers w1 m)) w1)"
    using bc_inv_drop [OF bc_inv_mono [OF w1(1) subset_insertI] _ _ refl, of m]
      assms pending_idle [OF assms(1), of m] w1 by auto
  with assms(3) show ?thesis
    unfolding handleConnectError_def w1_def [symmetric] r
    by (simp add: bc_inv_fold [OF bc_inv_failed])
qed

lemma bc_inv_getHandler:
  assumes inv: "bc_inv X w" and pool: "in_pool w m" and bh: "broadcastHandler (observers w ob) = None"
    and free: "\<And>k. ob \<notin> set (waiters w k)"
    and room: "unat (nextSubscriptionId (handlers w m)) + 1 < 2 ^ 64"
  shows "bc_inv X (bm_getHandler m ob w)"
proof -
  define w1 where "w1 = (if connectStarted (managers w m) then w
    else bc_event (StartConnect m) (upd_manager m (\<lambda>x. x\<lparr>connectStarted := True\<rparr>) w))"
  have views: "handlers w1 = handlers w" "observers w1 = observers w" "broadcasts w1 = broadcasts w"
    "next_manager w1 = next_manager w" "\<And>k. routingData (managers w1 k) = routingData (managers w k)"
    "\<And>k. sharedPromise (managers w1 k) = sharedPromise (managers w k)"
    "\<And>k. manager_set (managers w1 k) = manager_set (managers w k)"
    by (simp_all add: w1_def bc_upds)
  note w1 = bc_inv_cong [OF views]
  show ?thesis
  proof (cases "sharedPromise (managers w m)")
    case Fulfilled
    then have "manager_set (managers w m)" using inv pool by (simp add: bc_inv_def no_leak_def)
    with bc_inv_connected(1) [of X w1 ob m, OF _ _ _ _ _ _ refl] inv bh free room Fulfilled show ?thesis
      unfolding bm_getHandler_def w1_def [symmetric] by (simp add: w1 views)
  next
    case (Pending obs)
    then have obs: "waiters w m = obs" by (simp add: waiters_def)
    have "bc_inv X (upd_manager m (\<lambda>x. x\<lparr>sharedPromise := Pending (obs @ [ob])\<rparr>) w1)"
    proof (rule bc_inv_promise(1) [OF _ _ _ refl])
      show "distinct (obs @ [ob])" "\<forall>q \<in> set (obs @ [ob]). broadcastHandler (observers w1 q) = None"
        using inv free bh unfolding obs [symmetric] views(2) by (auto simp: bc_inv_def waiters_ok_def)
      show "\<forall>q \<in> set (obs @ [ob]). \<forall>k. k \<noteq> m \<longrightarrow> q \<notin> set (waiters w1 k)"
        using inv free unfolding obs [symmetric] w1 bc_inv_def waiters_ok_def by auto
    qed (use inv pool Pending in \<open>simp_all add: w1 views\<close>)
    with Pending show ?thesis unfolding bm_getHandler_def w1_def [symmetric] by simp
  qed
qed

lemma bc_inv_new_manager:
  assumes inv: "bc_inv X w" and new: "map_of (broadcasts w) r = None" and m: "m = next_manager w"
    and w': "w' = w\<lparr>next_manager := Suc m, managers := (managers w)(m := BroadcastManager_new r),
      handlers := (handlers w)(m := \<lparr>subscribers = [], nextSubscriptionId = 0\<rparr>),
      broadcasts := (r, m) # broadcasts w\<rparr>"
  shows "bc_inv X w'" and "in_pool w' m" and "waiters w' = waiters w"
proof -
  have pool: "k < m \<and> routingData (managers w k) = q" if "(q, k) \<in> set (broadcasts w)" for q k
    using inv that unfolding bc_inv_def pool_ok_def m by fast
  have unset: "\<not> manager_set (managers w m)" "\<not> in_pool w m"
    using inv pool unfolding bc_inv_def pool_ok_def in_pool_def by (metis less_irrefl)+
  then have idle: "subs w m = []" using inv unfolding bc_inv_def subs_live_def by metis
  have nowait: "waiters w m = []" using inv m unfolding bc_inv_def waiters_ok_def by blast
  have views: "observers w' = observers w" "subs w' = subs w" "waiters w' = waiters w"
    "\<And>k. in_pool w' k = (k = m \<or> in_pool w k)"
    "\<And>k. manager_set (managers w' k) = manager_set (managers w k)"
    "\<And>k. k \<noteq> m \<Longrightarrow> managers w' k = managers w k \<and> handlers w' k = handlers w k"
    "managers w' m = BroadcastManager_new r" "broadcasts w' = (r, m) # broadcasts w" "next_manager w' = Suc m"
    using unset idle nowait pool
    by (auto simp: w' subs_def waiters_def in_pool_def BroadcastManager_new_def fun_eq_iff)
  show "in_pool w' m" "waiters w' = waiters w" by (simp_all add: views)
  have links: "links_ok w" using inv by (simp add: bc_inv_def)
  have "links_ok w'"
    unfolding links_ok_def
  proof (intro conjI allI impI ballI)
    fix k e assume "e \<in> set (subs w' k)"
    then show "unat (fst e) < unat (nextSubscriptionId (handlers w' k))"
      using links_okD(2) [OF links, of "fst e" "snd e" k] idle views(6) [of k]
      by (cases "k = m") (auto simp: views(2))
  qed (use links_okD [OF links] in \<open>auto simp: views(1,2)\<close>)
  moreover have "subs_live w'"
    unfolding subs_live_def
  proof (intro allI impI)
    fix k assume "subs w' k \<noteq> []"
    with idle have "k \<noteq> m" "subs w k \<noteq> []" by (auto simp: views(2))
    with inv views(6) show "manager_set (managers w' k) \<and> sharedPromise (managers w' k) = Fulfilled"
      unfolding bc_inv_def subs_live_def by metis
  qed
  moreover have "waiters_ok w'"
    using inv unfolding bc_inv_def waiters_ok_def views(1,3,9) m by (metis less_SucI)
  moreover have "no_leak X w'"
    unfolding no_leak_def
  proof (intro allI impI)
    fix k assume "in_pool w' k" "sharedPromise (managers w' k) = Fulfilled"
    then have "k \<noteq> m" by (auto simp: views(7) BroadcastManager_new_def)
    with inv \<open>in_pool w' k\<close> \<open>sharedPromise (managers w' k) = Fulfilled\<close> views(6) [of k]
    show "manager_set (managers w' k) \<and> (k \<notin> X \<longrightarrow> subs w' k \<noteq> [])"
      unfolding bc_inv_def no_leak_def views(2,4) by metis
  qed
  moreover have "pool_ok w'"
    unfolding pool_ok_def
  proof (intro conjI allI impI)
    show "distinct (map fst (broadcasts w'))"
      using inv new by (auto simp: views(8) bc_inv_def pool_ok_def map_of_eq_None_iff)
    show "\<forall>(q, k) \<in> set (broadcasts w'). k < next_manager w' \<and> routingData (managers w' k) = q"
      using pool views(6) by (fastforce simp: views(7,8,9) BroadcastManager_new_def)
    show "in_pool w' k" if "manager_set (managers w' k)" for k
      using inv that unfolding views(4,5) bc_inv_def pool_ok_def by blast
  qed
  ultimately show "bc_inv X w'" by (simp add: bc_inv_def)
qed

lemma bc_inv_manager_set:
  assumes inv: "bc_inv X w" and pool: "in_pool w m" and w': "w' = upd_manager m (\<lambda>x. x\<lparr>manager_set := True\<rparr>) w"
  shows "bc_inv X w'" and "in_pool w' = in_pool w" and "subs w' = subs w" and "waiters w' = waiters w"
proof -
  have views: "handlers w' = handlers w" "observers w' = observers w" "broadcasts w' = broadcasts w"
    "next_manager w' = next_manager w" "subs w' = subs w" "waiters w' = waiters w" "in_pool w' = in_pool w"
    "\<And>k. routingData (managers w' k) = routingData (managers w k)"
    "\<And>k. sharedPromise (managers w' k) = sharedPromise (managers w k)"
    "\<And>k. manager_set (managers w' k) = (k = m \<or> manager_set (managers w k))"
    by (auto simp: w' upd_manager_def subs_def waiters_def in_pool_def fun_eq_iff)
  show "in_pool w' = in_pool w" "subs w' = subs w" "waiters w' = waiters w" by (fact views)+
  have "links_ok w'" using inv links_ok_cong [OF views(1,2)] by (simp add: bc_inv_def)
  then show "bc_inv X w'"
    using inv pool
    unfolding bc_inv_def subs_live_def no_leak_def pool_ok_def waiters_ok_def views(2-10) by blast
qed

lemma bc_inv_fulfil:
  assumes inv: "bc_inv X w" and m: "manager_set (managers w m)" "subs w m = []"
    and w': "w' = upd_manager m (\<lambda>x. x\<lparr>sharedPromise := Fulfilled\<rparr>) w"
  shows "bc_inv (insert m X) w'" and "\<And>k. waiters w' k = (if k = m then [] else waiters w k)"
proof -
  have views: "handlers w' = handlers w" "observers w' = observers w" "broadcasts w' = broadcasts w"
    "next_manager w' = next_manager w" "subs w' = subs w" "in_pool w' = in_pool w"
    "\<And>k. routingData (managers w' k) = routingData (managers w k)"
    "\<And>k. manager_set (managers w' k) = manager_set (managers w k)"
    "\<And>k. sharedPromise (managers w' k) = (if k = m then Fulfilled else sharedPromise (managers w k))"
    "\<And>k. waiters w' k = (if k = m then [] else waiters w k)"
    by (auto simp: w' upd_manager_def subs_def waiters_def in_pool_def fun_eq_iff)
  show "\<And>k. waiters w' k = (if k = m then [] else waiters w k)" by (fact views)
  have "links_ok w'" using inv links_ok_cong [OF views(1,2)] by (simp add: bc_inv_def)
  moreover have "subs_live w'" "no_leak (insert m X) w'"
    using inv m unfolding bc_inv_def subs_live_def no_leak_def views(5,6,8) by (auto simp: views(9))
  moreover have "pool_ok w'"
    using inv unfolding bc_inv_def pool_ok_def views(3,4,6,7,8) by simp
  moreover have "waiters_ok w'"
    using inv unfolding bc_inv_def waiters_ok_def views(2,4,10) by (auto split: if_splits)
  ultimately show "bc_inv (insert m X) w'" by (simp add: bc_inv_def)
qed

lemma bc_inv_connect_done:
  assumes inv: "bc_inv X w" and pool: "in_pool w m" and pend: "sharedPromise (managers w m) = Pending obs"
    and room: "unat (nextSubscriptionId (handlers w m)) + length obs < 2 ^ 64"
  shows "bc_inv X (connect_done V res m w)"
proof -
  define w1 where "w1 = upd_manager m (\<lambda>x. x\<lparr>manager_set := True\<rparr>) w"
  note w1 = bc_inv_manager_set [OF inv pool w1_def]
  have mgr: "sharedPromise (managers w1 m) = Pending obs" "manager_set (managers w1 m)"
    and same: "handlers w1 = handlers w" "observers w1 = observers w"
    using pend by (simp_all add: w1_def upd_manager_def)
  have idle: "subs w1 m = []" using pending_idle [OF inv, of m] pend w1 by simp
  show ?thesis
  proof (cases res)
    case RoutingThrows
    with bc_inv_connect_error [OF w1(1) _ mgr(1)] pool show ?thesis
      by (simp add: connect_done_def w1_def [symmetric] w1(2) Let_def)
  next
    case RoutingCloses
    define w2 where "w2 = bm_deletePipeline m w1"
    define w3 where "w3 = upd_manager m (\<lambda>x. x\<lparr>sharedPromise := Pending []\<rparr>) w2"
    have del: "bc_inv X w2" "map_of (broadcasts w2) (routingData (managers w1 m)) = None"
      unfolding w2_def using bc_inv_deletePipeline [OF bc_inv_mono [OF w1(1) subset_insertI], of m] pool idle
      by (simp_all add: w1(2))
    have w2: "sharedPromise (managers w2 m) = Pending obs" "routingData (managers w2 m) = routingData (managers w1 m)"
      using mgr(1) by (auto simp: w2_def bm_deletePipeline_def deleteBroadcast_def upd_manager_def split: option.split)
    have "bc_inv X w3" using bc_inv_promise(1) [OF del(1) _ _ w3_def] w2(1) by simp
    moreover have "deleteBroadcast (routingData (managers w2 m)) w3 = w3"
      using del(2) w2(2) by (simp add: deleteBroadcast_def w3_def upd_manager_def)
    ultimately show ?thesis
      using RoutingCloses w2(1)
      by (simp add: connect_done_def w1_def [symmetric] w2_def [symmetric] handleConnectError_def
          w3_def [symmetric] Let_def bc_inv_fold [OF bc_inv_failed])
  next
    case RoutingOk
    define w2 where "w2 = upd_manager m (\<lambda>x. x\<lparr>sharedPromise := Fulfilled\<rparr>) w1"
    note w2 = bc_inv_fulfil [OF w1(1) mgr(2) idle w2_def]
    have obs: "waiters w m = obs" using pend by (simp add: waiters_def)
    have "bc_inv (insert m X) (fold (observer_connected m) obs w2)"
    proof (rule bc_inv_connect_all [OF w2(1)])
      show "distinct obs" using inv unfolding obs [symmetric] bc_inv_def waiters_ok_def by blast
      show "\<forall>ob \<in> set obs. broadcastHandler (observers w2 ob) = None \<and> (\<forall>k. ob \<notin> set (waiters w2 k))"
        using inv unfolding obs [symmetric] bc_inv_def waiters_ok_def
        by (auto simp: w2(2) w1(4)) (simp add: w2_def upd_manager_def same)
    qed (use mgr same room in \<open>simp_all add: w2_def upd_manager_def\<close>)
    then show ?thesis
      using RoutingOk mgr(1) bc_inv_closeIfIdle
      by (simp add: connect_done_def w1_def [symmetric] w2_def [symmetric] Let_def)
  qed
qed

section \<open>Every call\<close>

datatype 't broadcast_op =
    ObserverActive nat
  | ObserverDestroyed nat
  | ConnectDone routing_result nat
  | ConnectFailed nat
  | UpstreamData nat 't
  | UpstreamEOF nat
  | UpstreamError nat
  | ObserverEOF nat
  | ObserverError nat

fun broadcast_do :: "'t observer_env \<Rightarrow> 't broadcast_op \<Rightarrow> ('r, 't) bcast \<Rightarrow> ('r, 't) bcast" where
  "broadcast_do V (ObserverActive ob) w = observer_transportActive ob w"
| "broadcast_do V (ObserverDestroyed ob) w = ObservingHandler_destroy ob w"
| "broadcast_do V (ConnectDone res m) w = connect_done V res m w"
| "broadcast_do V (ConnectFailed m) w = connect_failed V m w"
| "broadcast_do V (UpstreamData m d) w = bh_read V m d w"
| "broadcast_do V (UpstreamEOF m) w = bh_readEOF V m w"
| "broadcast_do V (UpstreamError m) w = bh_readException V m w"
| "broadcast_do V (ObserverEOF ob) w = observer_readEOF V ob w"
| "broadcast_do V (ObserverError ob) w = observer_readException V ob w"

text \<open>
  When a call can happen: an observer becomes active when it is not already waiting, a connection
  attempt ends that is under way, and the 64-bit subscription ids are not used up.
\<close>

definition ids_left :: "nat \<Rightarrow> ('r, 't) bcast \<Rightarrow> bool" where
  "ids_left n w \<longleftrightarrow> (\<forall>m < next_manager w. unat (nextSubscriptionId (handlers w m)) + n < 2 ^ 64)"

definition connecting :: "nat \<Rightarrow> ('r, 't) bcast \<Rightarrow> bool" where
  "connecting m w \<longleftrightarrow> in_pool w m \<and> sharedPromise (managers w m) \<noteq> Fulfilled"

fun broadcast_ok :: "'t broadcast_op \<Rightarrow> ('r, 't) bcast \<Rightarrow> bool" where
  "broadcast_ok (ObserverActive ob) w \<longleftrightarrow> list_all (\<lambda>m. ob \<notin> set (waiters w m)) [0..<next_manager w] \<and> ids_left 1 w"
| "broadcast_ok (ConnectDone res m) w \<longleftrightarrow> connecting m w \<and> ids_left (length (waiters w m)) w"
| "broadcast_ok (ConnectFailed m) w \<longleftrightarrow> connecting m w"
| "broadcast_ok _ w \<longleftrightarrow> True"

lemma in_pool_less: "bc_inv X w \<Longrightarrow> in_pool w m \<Longrightarrow> m < next_manager w"
  unfolding bc_inv_def pool_ok_def in_pool_def by fast

lemma bc_inv_active:
  assumes inv: "bc_inv X w" and ok: "broadcast_ok (ObserverActive ob) w"
  shows "bc_inv X (observer_transportActive ob w)"
proof (cases "broadcastHandler (observers w ob)")
  case None
  define w1 where "w1 = bc_event (PauseIngress ob) w"
  have w1: "bc_inv X w1" using inv by (simp add: w1_def)
  have free: "ob \<notin> set (waiters w1 k)" for k
  proof (cases "k < next_manager w")
    case True
    with ok show ?thesis by (simp add: w1_def list_all_iff)
  next
    case False
    then have "waiters w k = []" using inv unfolding bc_inv_def waiters_ok_def by blast
    then show ?thesis by (simp add: w1_def)
  qed
  have room: "unat (nextSubscriptionId (handlers w1 k)) + 1 < 2 ^ 64" if "k < next_manager w1" for k
    using ok that by (simp add: ids_left_def w1_def)
  let ?r = "ob_routingData (observers w ob)"
  have "bc_inv X (pool_getHandler ?r ob w1)"
  proof (cases "map_of (broadcasts w1) ?r")
    case (Some m)
    have "routingData (managers w1 m) = ?r"
      using w1 map_of_SomeD [OF Some] unfolding bc_inv_def pool_ok_def by fast
    with map_of_SomeD [OF Some] have "in_pool w1 m" by (simp add: in_pool_def)
    with bc_inv_getHandler [OF w1 _ _ free, of m] room in_pool_less [OF w1] None Some show ?thesis
      by (simp add: pool_getHandler_def w1_def)
  next
    case new: None
    note mgr = bc_inv_new_manager [OF w1 new refl refl]
    show ?thesis
      using bc_inv_getHandler [OF mgr(1,2)] mgr(3) free None new
      by (simp add: pool_getHandler_def w1_def Let_def)
  qed
  with None show ?thesis by (simp add: observer_transportActive_def w1_def)
qed (use inv in \<open>simp add: observer_transportActive_def\<close>)

lemma bc_inv_do:
  assumes "bc_inv {} w" and "broadcast_ok a w"
  shows "bc_inv {} (broadcast_do V a w)"
proof (cases a)
  case (ConnectDone res m)
  then obtain obs where "sharedPromise (managers w m) = Pending obs"
    using assms(2) by (cases "sharedPromise (managers w m)") (auto simp: connecting_def)
  with bc_inv_connect_done [OF assms(1)] in_pool_less [OF assms(1)] ConnectDone assms(2) show ?thesis
    by (simp add: connecting_def ids_left_def waiters_def)
next
  case (ConnectFailed m)
  then obtain obs where "sharedPromise (managers w m) = Pending obs"
    using assms(2) by (cases "sharedPromise (managers w m)") (auto simp: connecting_def)
  with bc_inv_connect_error [OF assms(1)] ConnectFailed assms(2) show ?thesis
    by (simp add: connecting_def connect_failed_def)
qed (use assms in \<open>simp_all add: bc_inv_active bc_inv_destroy bc_inv_read bh_readEOF_def bh_readException_def
    observer_readEOF_def observer_readException_def bc_inv_close bc_inv_end [OF _ leaves_on(1)] bc_inv_end [OF _ leaves_on(2)]\<close>)


definition sample_env :: "char observer_env" where
  "sample_env = \<lparr>write_fails = (\<lambda>ob d. ob = 1), dies_on_close = (\<lambda>ob. True)\<rparr>"

definition empty_bcast :: "(nat, char) bcast" where
  "empty_bcast = \<lparr>broadcasts = [], managers = (\<lambda>_. BroadcastManager_new 0),
     handlers = (\<lambda>_. \<lparr>subscribers = [], nextSubscriptionId = 0\<rparr>),
     observers = (\<lambda>_. \<lparr>ob_routingData = 7, broadcastHandler = None, subscriptionId = 0, deleted = False\<rparr>),
     next_manager = 0, bc_log = []\<rparr>"

lemma bc_inv_empty: "bc_inv {} empty_bcast"
  by (simp add: bc_inv_defs empty_bcast_def subs_def waiters_def in_pool_def BroadcastManager_new_def)


end
