(* ===== verification/SSL_TicketKeys.thy ===== *)
theory SSL_TicketKeys
  imports Wangle_Prelude
begin

text \<open>
  \<open>ssl/TLSTicketKeyManager.{h,cpp}\<close> and \<open>ssl/TLSTicketKeySeeds.h\<close>: the keys that encrypt and decrypt
  TLS session tickets are derived from configured seeds, so that servers that share seeds read each
  other's tickets, also while the seeds are rotated.
\<close>

section \<open>TLSTicketKeySeeds\<close>

record TLSTicketKeySeeds =
  oldSeeds :: "string list"
  currentSeeds :: "string list"
  newSeeds :: "string list"

definition areSeedsSubset :: "string list \<Rightarrow> string list \<Rightarrow> bool" where
  "areSeedsSubset lhs rhs \<longleftrightarrow> \<not> length lhs > length rhs \<and> list_all (\<lambda>v. v \<in> set rhs) lhs"

definition seeds_isEmpty :: "TLSTicketKeySeeds \<Rightarrow> bool" where
  "seeds_isEmpty s \<longleftrightarrow> oldSeeds s = [] \<and> currentSeeds s = [] \<and> newSeeds s = []"

definition seeds_isNotEmpty :: "TLSTicketKeySeeds \<Rightarrow> bool" where
  "seeds_isNotEmpty s \<longleftrightarrow> oldSeeds s \<noteq> [] \<and> currentSeeds s \<noteq> [] \<and> newSeeds s \<noteq> []"

definition isValidRotation :: "TLSTicketKeySeeds \<Rightarrow> TLSTicketKeySeeds \<Rightarrow> bool" where
  "isValidRotation s nxt \<longleftrightarrow>
     (seeds_isEmpty s \<and> seeds_isNotEmpty nxt) \<or>
     (areSeedsSubset (newSeeds s) (currentSeeds nxt) \<and> areSeedsSubset (currentSeeds s) (oldSeeds nxt)) \<or>
     (areSeedsSubset (oldSeeds s) (oldSeeds nxt) \<and> areSeedsSubset (currentSeeds s) (currentSeeds nxt) \<and>
      areSeedsSubset (newSeeds s) (newSeeds nxt))"

section \<open>State\<close>

datatype TLSTicketSeedType = SEED_OLD | SEED_CURRENT | SEED_NEW

record TLSTicketSeed =
  seed_bytes :: "byte list"
  seed_type :: TLSTicketSeedType
  seedName :: "byte list"

record TLSTicketKeySource =
  hashCount :: u32
  keyName :: "byte list"
  key_type :: TLSTicketSeedType
  keySource :: "byte list"

text \<open>
  The map of keys is by name; the active keys are pointers into it, here the keys themselves, which
  never change. \<open>callback_set\<close> is whether the SSL library has been given the manager's callback.
  \<open>SSLStats\<close> is the list of what has been recorded.
\<close>

datatype ticket_stat = TicketStat bool int | RotationStat bool

record TLSTicketKeyManager =
  ticketSeeds :: "TLSTicketSeed list"
  ticketKeys :: "(byte list \<times> TLSTicketKeySource) list"
  activeKeys :: "TLSTicketKeySource list"
  callback_set :: bool
  ticket_stats :: "ticket_stat list option"

text \<open>
  What the manager calls: SHA-256, folly's conversions between bytes and hexadecimal digits (\<open>None\<close>
  where they fail).
\<close>

record ticket_ops =
  sha256 :: "byte list \<Rightarrow> byte list"
  hexlify :: "byte list \<Rightarrow> string option"
  unhexlify :: "string \<Rightarrow> byte list option"

definition TLSTicketKeyManager_new :: "bool \<Rightarrow> TLSTicketKeyManager" where
  "TLSTicketKeyManager_new stats =
     \<lparr>ticketSeeds = [], ticketKeys = [], activeKeys = [], callback_set = False,
      ticket_stats = (if stats then Some [] else None)\<rparr>"

definition record_stat :: "ticket_stat \<Rightarrow> TLSTicketKeyManager \<Rightarrow> TLSTicketKeyManager" where
  "record_stat x m = m\<lparr>ticket_stats := map_option (\<lambda>l. l @ [x]) (ticket_stats m)\<rparr>"

section \<open>Seeds and keys\<close>

text \<open>\<open>n\<close> is asserted to be positive.\<close>

fun hashNth :: "ticket_ops \<Rightarrow> byte list \<Rightarrow> nat \<Rightarrow> byte list" where
  "hashNth H input 0 = input"
| "hashNth H input (Suc n) = hashNth H (sha256 H input) n"

text \<open>The count is hashed in the byte order of the host, which is taken to be little endian.\<close>

definition kTLSTicketKeyNameLen :: nat where
  "kTLSTicketKeyNameLen = 4"

definition kTLSTicketKeySaltLen :: nat where
  "kTLSTicketKeySaltLen = 12"

definition makeKeyName :: "ticket_ops \<Rightarrow> TLSTicketSeed \<Rightarrow> u32 \<Rightarrow> byte list" where
  "makeKeyName H seed n = take kTLSTicketKeyNameLen (sha256 H (seedName seed @ le_bytes 4 (unat n)))"

definition insertSeed :: "ticket_ops \<Rightarrow> string \<Rightarrow> TLSTicketSeedType \<Rightarrow> TLSTicketKeyManager
    \<Rightarrow> TLSTicketSeed option \<times> TLSTicketKeyManager" where
  "insertSeed H seedInput type m =
     (case unhexlify H seedInput of
        None \<Rightarrow> (None, m)
      | Some seedOutput \<Rightarrow>
          (let seed = \<lparr>seed_bytes = seedOutput, seed_type = type, seedName = sha256 H seedOutput\<rparr> in
           (Some seed, m\<lparr>ticketSeeds := ticketSeeds m @ [seed]\<rparr>)))"

text \<open>\<open>std::map::insert\<close> leaves an entry of the same name in place and answers it.\<close>

definition insertNewKey :: "ticket_ops \<Rightarrow> TLSTicketSeed \<Rightarrow> u32 \<Rightarrow> TLSTicketKeySource option
    \<Rightarrow> TLSTicketKeyManager \<Rightarrow> TLSTicketKeySource \<times> TLSTicketKeyManager" where
  "insertNewKey H seed n prevKey m =
     (let newKey = \<lparr>hashCount = n, keyName = makeKeyName H seed n, key_type = seed_type seed,
        keySource = (case prevKey of
            Some prev \<Rightarrow> hashNth H (keySource prev) 1
          | None \<Rightarrow> hashNth H (seed_bytes seed) (unat n))\<rparr>;
        key = (case map_of (ticketKeys m) (keyName newKey) of Some k \<Rightarrow> k | None \<Rightarrow> newKey);
        m1 = (if map_of (ticketKeys m) (keyName newKey) = None
              then m\<lparr>ticketKeys := ticketKeys m @ [(keyName newKey, newKey)]\<rparr> else m) in
      (key, if key_type key = SEED_CURRENT then m1\<lparr>activeKeys := activeKeys m1 @ [key]\<rparr> else m1))"

section \<open>Setting and reading the seeds\<close>

definition getTLSTicketKeySeeds :: "ticket_ops \<Rightarrow> TLSTicketKeyManager \<Rightarrow> bool \<times> TLSTicketKeySeeds" where
  "getTLSTicketKeySeeds H m =
     (let of_type = (\<lambda>ty. List.map_filter
            (\<lambda>s. if seed_type s = ty then hexlify H (seed_bytes s) else None) (ticketSeeds m)) in
      (list_all (\<lambda>s. hexlify H (seed_bytes s) \<noteq> None) (ticketSeeds m),
       \<lparr>oldSeeds = of_type SEED_OLD, currentSeeds = of_type SEED_CURRENT, newSeeds = of_type SEED_NEW\<rparr>))"

definition recordTlsTicketRotation :: "ticket_ops \<Rightarrow> TLSTicketKeySeeds \<Rightarrow> TLSTicketKeyManager
    \<Rightarrow> TLSTicketKeyManager" where
  "recordTlsTicketRotation H nxt m =
     record_stat (RotationStat (isValidRotation (snd (getTLSTicketKeySeeds H m)) nxt)) m"

text \<open>The inner loop, with the flag that tells whether every seed could be decoded.\<close>

fun insert_seeds :: "ticket_ops \<Rightarrow> TLSTicketSeedType \<Rightarrow> string list \<Rightarrow> bool \<times> TLSTicketKeyManager
    \<Rightarrow> bool \<times> TLSTicketKeyManager" where
  "insert_seeds H type [] (result, m) = (result, m)"
| "insert_seeds H type (seedInput # seeds) (result, m) =
     (case insertSeed H seedInput type m of
        (None, m1) \<Rightarrow> insert_seeds H type seeds (False, m1)
      | (Some seed, m1) \<Rightarrow> insert_seeds H type seeds (result, snd (insertNewKey H seed 1 None m1)))"

definition setTLSTicketKeySeeds :: "ticket_ops \<Rightarrow> TLSTicketKeySeeds \<Rightarrow> TLSTicketKeyManager
    \<Rightarrow> bool \<times> TLSTicketKeyManager" where
  "setTLSTicketKeySeeds H nxt m =
     (let m1 = (recordTlsTicketRotation H nxt m)\<lparr>activeKeys := [], ticketKeys := [], ticketSeeds := []\<rparr> in
      (case insert_seeds H SEED_NEW (newSeeds nxt) (insert_seeds H SEED_CURRENT (currentSeeds nxt)
             (insert_seeds H SEED_OLD (oldSeeds nxt) (True, m1))) of
         (result, m2) \<Rightarrow>
           if ticketKeys m2 = [] \<or> activeKeys m2 = [] then (False, m2\<lparr>callback_set := False\<rparr>)
           else (True, m2\<lparr>callback_set := True\<rparr>)))"

section \<open>Tickets\<close>

text \<open>\<open>rand\<close> is what \<open>folly::Random::rand32(numKeys)\<close> answers, a number below \<open>numKeys\<close>.\<close>

definition findEncryptionKey :: "nat \<Rightarrow> TLSTicketKeyManager \<Rightarrow> TLSTicketKeySource option" where
  "findEncryptionKey rand m =
     (let numKeys = length (activeKeys m) in
      if numKeys > 0 then Some (activeKeys m ! (if numKeys = 1 then 0 else rand)) else None)"

definition findDecryptionKey :: "byte list \<Rightarrow> TLSTicketKeyManager \<Rightarrow> TLSTicketKeySource option" where
  "findDecryptionKey name m = map_of (ticketKeys m) (take kTLSTicketKeyNameLen name)"

definition makeUniqueKeys :: "ticket_ops \<Rightarrow> byte list \<Rightarrow> byte list \<Rightarrow> byte list" where
  "makeUniqueKeys H parentKey salt = sha256 H (parentKey @ take kTLSTicketKeySaltLen salt)"

text \<open>What the cipher and MAC contexts are initialised with: both keys are halves of a digest.\<close>

record ticket_ctx =
  hmacKey :: "byte list"
  aesKey :: "byte list"
  ctx_iv :: "byte list"

definition init_ctx :: "byte list \<Rightarrow> byte list \<Rightarrow> ticket_ctx" where
  "init_ctx output iv = \<lparr>hmacKey = take 16 output, aesKey = drop 16 output, ctx_iv = iv\<rparr>"

text \<open>
  \<open>processTicket\<close>: the result, the key name field and the initialisation, if any. For encryption
  \<open>rand\<close>, \<open>salt\<close> (12 bytes) and \<open>iv\<close> are the random choices; for decryption \<open>name\<close> and \<open>iv\<close> come from the
  ticket. When there is no key to encrypt with it returns before anything is recorded.
\<close>

definition processTicket :: "ticket_ops \<Rightarrow> bool \<Rightarrow> nat \<Rightarrow> byte list \<Rightarrow> byte list \<Rightarrow> byte list
    \<Rightarrow> TLSTicketKeyManager \<Rightarrow> int \<times> byte list \<times> ticket_ctx option \<times> TLSTicketKeyManager" where
  "processTicket H encrypt rand salt name iv m =
     (if encrypt then
        (case findEncryptionKey rand m of
           None \<Rightarrow> (-1, name, None, m)
         | Some key \<Rightarrow>
             (1, take kTLSTicketKeyNameLen (keyName key) @ salt,
              Some (init_ctx (makeUniqueKeys H (keySource key) salt) iv),
              record_stat (TicketStat True 1) m))
      else
        (case findDecryptionKey name m of
           None \<Rightarrow> (0, name, None, record_stat (TicketStat False 0) m)
         | Some key \<Rightarrow>
             (1, name,
              Some (init_ctx (makeUniqueKeys H (keySource key) (drop kTLSTicketKeyNameLen name)) iv),
              record_stat (TicketStat False 1) m)))"

end
