(* ===== verification/SSL_TicketKeys_Props.thy ===== *)
theory SSL_TicketKeys_Props
  imports SSL_TicketKeys
begin

text \<open>
  The keys a manager holds as a function of the seeds it was given, and what follows for tickets:
  which seeds encrypt, that a valid rotation leaves the tickets of before readable, and that the seeds
  read from one manager give another the same keys.
\<close>

section \<open>The manager as a function of its seeds\<close>

abbreviation the_seed :: "ticket_ops \<Rightarrow> TLSTicketSeedType \<times> byte list \<Rightarrow> TLSTicketSeed" where
  "the_seed H p \<equiv> \<lparr>seed_bytes = snd p, seed_type = fst p, seedName = sha256 H (snd p)\<rparr>"

text \<open>The name of the key of a seed, and the key.\<close>

definition seed_key_name :: "ticket_ops \<Rightarrow> byte list \<Rightarrow> byte list" where
  "seed_key_name H b = take 4 (sha256 H (sha256 H b @ le_bytes 4 1))"

definition seed_key :: "ticket_ops \<Rightarrow> TLSTicketSeedType \<times> byte list \<Rightarrow> TLSTicketKeySource" where
  "seed_key H p = \<lparr>hashCount = 1, keyName = seed_key_name H (snd p), key_type = fst p,
     keySource = sha256 H (snd p)\<rparr>"

lemma seed_key_simps [simp]:
  "keyName (seed_key H p) = seed_key_name H (snd p)" "key_type (seed_key H p) = fst p"
  "keySource (seed_key H p) = sha256 H (snd p)"
  by (simp_all add: seed_key_def)

text \<open>The seeds that can be decoded, with their type, in the order in which they are inserted.\<close>

definition decoded :: "ticket_ops \<Rightarrow> TLSTicketSeedType \<Rightarrow> string list \<Rightarrow> (TLSTicketSeedType \<times> byte list) list" where
  "decoded H ty ss = List.map_filter (\<lambda>s. map_option (Pair ty) (unhexlify H s)) ss"

definition decoded_seeds :: "ticket_ops \<Rightarrow> TLSTicketKeySeeds \<Rightarrow> (TLSTicketSeedType \<times> byte list) list" where
  "decoded_seeds H s = decoded H SEED_OLD (oldSeeds s) @ decoded H SEED_CURRENT (currentSeeds s) @
     decoded H SEED_NEW (newSeeds s)"

lemma in_decoded: "(ty', b) \<in> set (decoded H ty ss) \<longleftrightarrow> ty' = ty \<and> (\<exists>s\<in>set ss. unhexlify H s = Some b)"
  by (force simp: decoded_def map_filter_def)

definition add_seed :: "ticket_ops \<Rightarrow> TLSTicketSeedType \<times> byte list \<Rightarrow> TLSTicketKeyManager \<Rightarrow> TLSTicketKeyManager" where
  "add_seed H p m = snd (insertNewKey H (the_seed H p) 1 None (m\<lparr>ticketSeeds := ticketSeeds m @ [the_seed H p]\<rparr>))"

lemma insert_seeds_fold:
  "insert_seeds H ty ss (r, m) =
     (r \<and> list_all (\<lambda>s. unhexlify H s \<noteq> None) ss, fold (add_seed H) (decoded H ty ss) m)"
  by (induction ss arbitrary: r m)
    (auto simp: insertSeed_def decoded_def map_filter_simps add_seed_def Let_def split: option.splits)

text \<open>The first of the seeds with a key name is the one the key is made from.\<close>

definition key_named :: "ticket_ops \<Rightarrow> (TLSTicketSeedType \<times> byte list) list \<Rightarrow> byte list \<Rightarrow> TLSTicketKeySource option" where
  "key_named H ps n = map_option (seed_key H) (List.find (\<lambda>p. seed_key_name H (snd p) = n) ps)"

lemma find_append:
  "List.find P (xs @ ys) = (case List.find P xs of None \<Rightarrow> List.find P ys | Some x \<Rightarrow> Some x)"
  by (induction xs) auto

lemma key_named_snoc:
  "key_named H (ps @ [p]) n = (case key_named H ps n of
     Some k \<Rightarrow> Some k
   | None \<Rightarrow> if seed_key_name H (snd p) = n then Some (seed_key H p) else None)"
  by (auto simp: key_named_def find_append split: option.splits)

lemma key_named_Some:
  assumes "key_named H ps n = Some k"
  shows "\<exists>p\<in>set ps. k = seed_key H p \<and> seed_key_name H (snd p) = n"
  using assms by (auto simp: key_named_def find_Some_iff)

lemma key_named_None: "key_named H ps n = None \<longleftrightarrow> (\<forall>p\<in>set ps. seed_key_name H (snd p) \<noteq> n)"
  unfolding key_named_def map_option_is_None find_None_iff by blast

lemma key_named_self:
  assumes "p \<in> set ps"
  obtains k where "key_named H ps (seed_key_name H (snd p)) = Some k"
  using assms key_named_None [of H ps "seed_key_name H (snd p)"] by (metis not_Some_eq)

definition keys_spec :: "ticket_ops \<Rightarrow> (TLSTicketSeedType \<times> byte list) list \<Rightarrow> TLSTicketKeyManager \<Rightarrow> bool" where
  "keys_spec H ps m \<longleftrightarrow>
     ticketSeeds m = map (the_seed H) ps \<and>
     (\<forall>n. map_of (ticketKeys m) n = key_named H ps n) \<and>
     activeKeys m = filter (\<lambda>k. key_type k = SEED_CURRENT)
       (map (\<lambda>p. the (key_named H ps (seed_key_name H (snd p)))) ps)"

lemma makeKeyName_seed: "makeKeyName H (the_seed H p) 1 = seed_key_name H (snd p)"
  by (simp add: makeKeyName_def seed_key_name_def kTLSTicketKeyNameLen_def)

lemma add_seed_eq:
  "add_seed H p m =
     (let k = (case map_of (ticketKeys m) (seed_key_name H (snd p)) of Some k \<Rightarrow> k | None \<Rightarrow> seed_key H p) in
      m\<lparr>ticketSeeds := ticketSeeds m @ [the_seed H p],
        ticketKeys := ticketKeys m @ (if map_of (ticketKeys m) (seed_key_name H (snd p)) = None
          then [(seed_key_name H (snd p), seed_key H p)] else []),
        activeKeys := activeKeys m @ (if key_type k = SEED_CURRENT then [k] else [])\<rparr>)"
  by (simp add: add_seed_def insertNewKey_def makeKeyName_seed seed_key_def Let_def split: option.splits)

lemma keys_spec_add:
  assumes spec: "keys_spec H ps m"
  shows "keys_spec H (ps @ [p]) (add_seed H p m)"
proof -
  let ?n = "seed_key_name H (snd p)"
  have old: "key_named H (ps @ [p]) (seed_key_name H (snd q)) = key_named H ps (seed_key_name H (snd q))"
    if "q \<in> set ps" for q
    using that key_named_None [of H ps "seed_key_name H (snd q)"] by (auto simp: key_named_snoc split: option.splits)
  have new: "the (key_named H (ps @ [p]) ?n) = (case key_named H ps ?n of Some k \<Rightarrow> k | None \<Rightarrow> seed_key H p)"
    by (simp add: key_named_snoc split: option.splits)
  have "map_of (ticketKeys (add_seed H p m)) n = key_named H (ps @ [p]) n" for n
    using spec by (auto simp: keys_spec_def add_seed_eq Let_def key_named_snoc map_add_def split: option.splits)
  moreover have "activeKeys (add_seed H p m) = filter (\<lambda>k. key_type k = SEED_CURRENT)
      (map (\<lambda>q. the (key_named H (ps @ [p]) (seed_key_name H (snd q)))) (ps @ [p]))"
    using spec new old by (simp add: keys_spec_def add_seed_eq Let_def cong: map_cong)
  moreover have "ticketSeeds (add_seed H p m) = map (the_seed H) (ps @ [p])"
    using spec by (simp add: keys_spec_def add_seed_eq Let_def)
  ultimately show ?thesis
    unfolding keys_spec_def by blast
qed

lemma keys_spec_fold:
  assumes "keys_spec H qs m"
  shows "keys_spec H (qs @ ps) (fold (add_seed H) ps m)"
  using assms
proof (induction ps arbitrary: qs m)
  case (Cons p ps)
  from Cons.IH [OF keys_spec_add [OF Cons.prems, of p]] show ?case by simp
qed simp

lemma setTLSTicketKeySeeds_fold:
  "setTLSTicketKeySeeds H nxt m =
     (let m2 = fold (add_seed H) (decoded_seeds H nxt)
        ((recordTlsTicketRotation H nxt m)\<lparr>activeKeys := [], ticketKeys := [], ticketSeeds := []\<rparr>);
        ok = (ticketKeys m2 \<noteq> [] \<and> activeKeys m2 \<noteq> []) in
      (ok, m2\<lparr>callback_set := ok\<rparr>))"
  by (auto simp: setTLSTicketKeySeeds_def insert_seeds_fold decoded_seeds_def Let_def)

lemma set_keys_spec: "keys_spec H (decoded_seeds H nxt) (snd (setTLSTicketKeySeeds H nxt m))"
proof -
  have "keys_spec H [] (m'\<lparr>activeKeys := [], ticketKeys := [], ticketSeeds := []\<rparr>)" for m'
    by (simp add: keys_spec_def key_named_def)
  from keys_spec_fold [OF this, of "decoded_seeds H nxt"] show ?thesis
    by (simp add: setTLSTicketKeySeeds_fold Let_def keys_spec_def)
qed

lemma set_result:
  "fst (setTLSTicketKeySeeds H nxt m) \<longleftrightarrow>
     ticketKeys (snd (setTLSTicketKeySeeds H nxt m)) \<noteq> [] \<and> activeKeys (snd (setTLSTicketKeySeeds H nxt m)) \<noteq> []"
  "callback_set (snd (setTLSTicketKeySeeds H nxt m)) = fst (setTLSTicketKeySeeds H nxt m)"
  by (simp_all add: setTLSTicketKeySeeds_fold Let_def)

section \<open>Which keys encrypt\<close>

lemma active_key:
  assumes "keys_spec H ps m" and "k \<in> set (activeKeys m)"
  shows "\<exists>b. (SEED_CURRENT, b) \<in> set ps \<and> k = seed_key H (SEED_CURRENT, b)"
proof -
  from assms obtain p where p: "p \<in> set ps" and k: "k = the (key_named H ps (seed_key_name H (snd p)))"
    and cur: "key_type k = SEED_CURRENT"
    by (auto simp: keys_spec_def)
  have "key_named H ps (seed_key_name H (snd p)) = Some k"
    using k key_named_self [OF p, of H] by (metis option.sel)
  from key_named_Some [OF this] cur show ?thesis by force
qed

lemma key_named_append:
  "key_named H (xs @ ys) n = (case key_named H xs n of None \<Rightarrow> key_named H ys n | Some k \<Rightarrow> Some k)"
  by (simp add: key_named_def find_append split: option.splits)

lemma key_named_current:
  assumes b: "(SEED_CURRENT, b) \<in> set (decoded_seeds H s)"
    and old: "\<And>b'. (SEED_OLD, b') \<in> set (decoded_seeds H s) \<Longrightarrow> seed_key_name H b' \<noteq> seed_key_name H b"
  shows "\<exists>k. key_named H (decoded_seeds H s) (seed_key_name H b) = Some k \<and> key_type k = SEED_CURRENT"
proof -
  let ?n = "seed_key_name H b"
  have "(SEED_CURRENT, b) \<in> set (decoded H SEED_CURRENT (currentSeeds s))"
    using b by (auto simp: decoded_seeds_def in_decoded)
  from key_named_self [OF this] obtain k
    where k: "key_named H (decoded H SEED_CURRENT (currentSeeds s)) ?n = Some k" by auto
  then have "key_type k = SEED_CURRENT"
    using key_named_Some [OF k] by (force simp: in_decoded)
  moreover have "key_named H (decoded H SEED_OLD (oldSeeds s)) ?n = None"
    using old by (force simp: key_named_None decoded_seeds_def in_decoded)
  ultimately show ?thesis
    using k by (simp add: decoded_seeds_def key_named_append)
qed

lemma key_named_old:
  assumes b: "(SEED_OLD, b) \<in> set (decoded_seeds H s)"
    and k: "key_named H (decoded_seeds H s) (seed_key_name H b) = Some k"
  shows "key_type k = SEED_OLD"
proof -
  have "(SEED_OLD, b) \<in> set (decoded H SEED_OLD (oldSeeds s))"
    using b by (auto simp: decoded_seeds_def in_decoded)
  from key_named_self [OF this] obtain k'
    where k': "key_named H (decoded H SEED_OLD (oldSeeds s)) (seed_key_name H b) = Some k'" by auto
  then have "k = k'" using k by (simp add: decoded_seeds_def key_named_append)
  then show ?thesis using key_named_Some [OF k'] by (force simp: in_decoded)
qed

lemma active_iff:
  assumes spec: "keys_spec H (decoded_seeds H s) m"
  shows "activeKeys m \<noteq> [] \<longleftrightarrow>
    (\<exists>b. (SEED_CURRENT, b) \<in> set (decoded_seeds H s) \<and>
      (\<forall>b'. (SEED_OLD, b') \<in> set (decoded_seeds H s) \<longrightarrow> seed_key_name H b' \<noteq> seed_key_name H b))"
    (is "?l \<longleftrightarrow> ?r")
proof
  assume ?l
  then obtain k where k: "k \<in> set (activeKeys m)" by (cases "activeKeys m") auto
  then obtain p where p: "p \<in> set (decoded_seeds H s)" "key_type k = SEED_CURRENT"
    and kp: "k = the (key_named H (decoded_seeds H s) (seed_key_name H (snd p)))"
    using spec by (auto simp: keys_spec_def)
  then have named: "key_named H (decoded_seeds H s) (seed_key_name H (snd p)) = Some k"
    using key_named_self [of p _ H] by (metis option.sel)
  from key_named_Some [OF this] obtain q where q: "q \<in> set (decoded_seeds H s)" "k = seed_key H q"
    "seed_key_name H (snd q) = seed_key_name H (snd p)" by blast
  have "seed_key_name H b' \<noteq> seed_key_name H (snd q)" if "(SEED_OLD, b') \<in> set (decoded_seeds H s)" for b'
    using key_named_old [OF that, of k] named q p(2) by (metis TLSTicketSeedType.distinct(1))
  moreover have "(SEED_CURRENT, snd q) \<in> set (decoded_seeds H s)"
    using q(1,2) p(2) by (metis prod.collapse seed_key_simps(2))
  ultimately show ?r by blast
next
  assume ?r
  then obtain b where b: "(SEED_CURRENT, b) \<in> set (decoded_seeds H s)"
    and old: "\<And>b'. (SEED_OLD, b') \<in> set (decoded_seeds H s) \<Longrightarrow> seed_key_name H b' \<noteq> seed_key_name H b" by blast
  from key_named_current [OF b old] obtain k
    where "key_named H (decoded_seeds H s) (seed_key_name H b) = Some k" "key_type k = SEED_CURRENT" by blast
  then have "k \<in> set (activeKeys m)"
    using b spec unfolding keys_spec_def by (auto intro!: image_eqI [of _ _ "(SEED_CURRENT, b)"])
  then show ?l by auto
qed

lemma keys_nonempty:
  assumes "keys_spec H ps m" and "activeKeys m \<noteq> []"
  shows "ticketKeys m \<noteq> []"
proof
  assume "ticketKeys m = []"
  then have "\<forall>n. key_named H ps n = None" using assms(1) by (simp add: keys_spec_def)
  then have "ps = []" by (cases ps) (auto simp: key_named_None)
  then show False using assms by (simp add: keys_spec_def)
qed

section \<open>Tickets and rotations\<close>

lemma rotation_keeps_current:
  assumes "isValidRotation s nxt" and "(SEED_CURRENT, b) \<in> set (decoded_seeds H s)"
  shows "\<exists>ty. (ty, b) \<in> set (decoded_seeds H nxt)"
proof -
  obtain x where x: "x \<in> set (currentSeeds s)" "unhexlify H x = Some b"
    using assms(2) by (auto simp: decoded_seeds_def in_decoded)
  then have "x \<in> set (oldSeeds nxt) \<or> x \<in> set (currentSeeds nxt)"
    using assms(1) by (auto simp: isValidRotation_def seeds_isEmpty_def areSeedsSubset_def list_all_iff)
  then show ?thesis
    using x(2) by (auto simp: decoded_seeds_def in_decoded)
qed

text \<open>What the manager relies on: the size of a digest, and that decoding inverts encoding.\<close>

locale ticket_crypto =
  fixes H :: ticket_ops
  assumes digest_length: "length (sha256 H x) = 32"
    and unhexlify_hexlify: "hexlify H b = Some h \<Longrightarrow> unhexlify H h = Some b"
    and hexlify_total: "hexlify H b \<noteq> None"
begin

lemma length_seed_key_name: "length (seed_key_name H b) = 4"
  by (simp add: seed_key_name_def digest_length)

lemma encrypt_active:
  assumes spec: "keys_spec H ps m" and rand: "rand < length (activeKeys m)" and salt: "length salt = 12"
  shows "\<exists>b m'. (SEED_CURRENT, b) \<in> set ps \<and> processTicket H True rand salt name iv m =
    (1, seed_key_name H b @ salt, Some (init_ctx (sha256 H (sha256 H b @ salt)) iv), m')"
proof -
  define k where "k = activeKeys m ! (if length (activeKeys m) = 1 then 0 else rand)"
  have "k \<in> set (activeKeys m)" using rand by (auto simp: k_def)
  from active_key [OF spec this] obtain b where b: "(SEED_CURRENT, b) \<in> set ps" "k = seed_key H (SEED_CURRENT, b)" by blast
  moreover have "findEncryptionKey rand m = Some k"
    using rand by (auto simp: findEncryptionKey_def k_def Let_def)
  ultimately show ?thesis
    using salt length_seed_key_name
    by (auto simp: processTicket_def makeUniqueKeys_def kTLSTicketKeyNameLen_def kTLSTicketKeySaltLen_def)
qed

lemma decrypt_known:
  assumes spec: "keys_spec H ps m" and b: "(ty, b) \<in> set ps" and inj: "inj_on (seed_key_name H) (snd ` set ps)"
    and salt: "length salt = 12"
  shows "\<exists>m'. processTicket H False rand salt' (seed_key_name H b @ salt) iv m =
    (1, seed_key_name H b @ salt, Some (init_ctx (sha256 H (sha256 H b @ salt)) iv), m')"
proof -
  obtain k where k: "key_named H ps (seed_key_name H b) = Some k" using key_named_self [OF b] by auto
  from key_named_Some [OF this] obtain p where p: "p \<in> set ps" "k = seed_key H p"
    "seed_key_name H (snd p) = seed_key_name H b" by blast
  moreover have "b \<in> snd ` set ps" using b by (rule image_eqI [rotated]) simp
  ultimately have "snd p = b" using inj by (meson imageI inj_onD)
  then have "keySource k = sha256 H b" using p by simp
  moreover have "findDecryptionKey (seed_key_name H b @ salt) m = Some k"
    using spec k length_seed_key_name by (simp add: findDecryptionKey_def keys_spec_def kTLSTicketKeyNameLen_def)
  ultimately show ?thesis
    using salt length_seed_key_name
    by (simp add: processTicket_def makeUniqueKeys_def kTLSTicketKeyNameLen_def kTLSTicketKeySaltLen_def)
qed

lemma read_decoded:
  "decoded H ty (List.map_filter (\<lambda>s. if seed_type s = ty then hexlify H (seed_bytes s) else None) (map (the_seed H) ps)) =
     filter (\<lambda>p. fst p = ty) ps"
proof (induction ps)
  case (Cons p ps)
  obtain h where h: "hexlify H (snd p) = Some h" using hexlify_total by blast
  then show ?case
    using Cons unhexlify_hexlify [OF h] by (cases p) (simp add: decoded_def map_filter_simps)
qed (simp add: decoded_def map_filter_simps)

lemma filter_decoded: "filter (\<lambda>p. fst p = ty) (decoded H ty' ss) = (if ty = ty' then decoded H ty ss else [])"
  using in_decoded [of _ _ H ty' ss] by (auto simp: filter_empty_conv intro!: filter_True)

lemma read_seeds:
  assumes "ticketSeeds m = map (the_seed H) ps"
  shows "decoded_seeds H (snd (getTLSTicketKeySeeds H m)) =
    filter (\<lambda>p. fst p = SEED_OLD) ps @ filter (\<lambda>p. fst p = SEED_CURRENT) ps @ filter (\<lambda>p. fst p = SEED_NEW) ps"
  unfolding decoded_seeds_def getTLSTicketKeySeeds_def assms Let_def by (simp add: read_decoded)

lemma read_decoded_seeds:
  assumes "keys_spec H (decoded_seeds H s) m"
  shows "decoded_seeds H (snd (getTLSTicketKeySeeds H m)) = decoded_seeds H s"
proof -
  have "ticketSeeds m = map (the_seed H) (decoded_seeds H s)" using assms by (simp only: keys_spec_def)
  from read_seeds [OF this] show ?thesis by (simp add: decoded_seeds_def filter_decoded)
qed

end

lemma same_seeds_same_keys:
  assumes "decoded_seeds H s = decoded_seeds H s'"
  shows "ticketKeys (snd (setTLSTicketKeySeeds H s m)) = ticketKeys (snd (setTLSTicketKeySeeds H s' m'))"
    "activeKeys (snd (setTLSTicketKeySeeds H s m)) = activeKeys (snd (setTLSTicketKeySeeds H s' m'))"
proof -
  have "ticketKeys (fold (add_seed H) ps m1) = ticketKeys (fold (add_seed H) ps m2) \<and>
      activeKeys (fold (add_seed H) ps m1) = activeKeys (fold (add_seed H) ps m2)"
    if "ticketKeys m1 = ticketKeys m2" "activeKeys m1 = activeKeys m2" for ps m1 m2
    using that by (induction ps arbitrary: m1 m2) (simp_all add: add_seed_eq Let_def)
  then show "ticketKeys (snd (setTLSTicketKeySeeds H s m)) = ticketKeys (snd (setTLSTicketKeySeeds H s' m'))"
    "activeKeys (snd (setTLSTicketKeySeeds H s m)) = activeKeys (snd (setTLSTicketKeySeeds H s' m'))"
    using assms by (simp_all add: setTLSTicketKeySeeds_fold Let_def)
qed

section \<open>An instance\<close>

text \<open>Hexadecimal digits, and in place of the digest the first bytes of the input.\<close>

definition hex_digit :: "nat \<Rightarrow> char" where
  "hex_digit n = ''0123456789abcdef'' ! n"

definition unhex_digit :: "char \<Rightarrow> nat option" where
  "unhex_digit c = map_of (zip ''0123456789abcdef'' [0..<16]) c"

lemma unhex_hex_digit: "n < 16 \<Longrightarrow> unhex_digit (hex_digit n) = Some n"
proof -
  have "\<forall>n\<in>set [0..<16]. unhex_digit (hex_digit n) = Some n" by code_simp
  then show "n < 16 \<Longrightarrow> unhex_digit (hex_digit n) = Some n" by simp
qed

fun unhex_bytes :: "string \<Rightarrow> byte list option" where
  "unhex_bytes [] = Some []"
| "unhex_bytes [c] = None"
| "unhex_bytes (c # d # cs) =
     (case (unhex_digit c, unhex_digit d, unhex_bytes cs) of
        (Some h, Some l, Some bs) \<Rightarrow> Some (of_nat (16 * h + l) # bs)
      | _ \<Rightarrow> None)"

definition hex_bytes :: "byte list \<Rightarrow> string" where
  "hex_bytes bs = concat (map (\<lambda>b. [hex_digit (unat b div 16), hex_digit (unat b mod 16)]) bs)"

lemma unhex_hex_bytes: "unhex_bytes (hex_bytes bs) = Some bs"
proof (induction bs)
  case (Cons b bs)
  have "unat b < 256" using unsigned_less [of b] by simp
  then have "unhex_digit (hex_digit (unat b div 16)) = Some (unat b div 16)"
    "unhex_digit (hex_digit (unat b mod 16)) = Some (unat b mod 16)"
    by (auto intro!: unhex_hex_digit)
  then show ?case using Cons by (simp add: hex_bytes_def)
qed (simp add: hex_bytes_def)

definition sample_ticket_ops :: ticket_ops where
  "sample_ticket_ops = \<lparr>sha256 = (\<lambda>x. take 32 (x @ replicate 32 0)), hexlify = (\<lambda>b. Some (hex_bytes b)),
     unhexlify = unhex_bytes\<rparr>"

interpretation sample_tickets: ticket_crypto sample_ticket_ops
  by unfold_locales (auto simp: sample_ticket_ops_def unhex_hex_bytes)

definition sample_seeds :: "TLSTicketKeySeeds" where
  "sample_seeds = \<lparr>oldSeeds = [''0a''], currentSeeds = [''0b''], newSeeds = [''0c'']\<rparr>"

definition sample_next_seeds :: "TLSTicketKeySeeds" where
  "sample_next_seeds = \<lparr>oldSeeds = [''0b''], currentSeeds = [''0c''], newSeeds = [''0d'']\<rparr>"

section \<open>Properties\<close>



text \<open>
  When ticket keys are in use: \<open>setTLSTicketKeySeeds\<close> answers true and installs the callback if and
  only if one of the current seeds can be decoded and its key name is not that of an old seed. So
  seeds that cannot be decoded are skipped, and a seed that is listed as old as well as current does
  not encrypt: the key inserted for the old seed stays.
\<close>

theorem setTLSTicketKeySeeds_result:
  assumes "setTLSTicketKeySeeds H s m = (ok, m')"
  shows "(ok \<longleftrightarrow> (\<exists>x b. x \<in> set (currentSeeds s) \<and> unhexlify H x = Some b \<and>
      (\<forall>y b'. y \<in> set (oldSeeds s) \<and> unhexlify H y = Some b' \<longrightarrow> seed_key_name H b' \<noteq> seed_key_name H b))) \<and>
    callback_set m' = ok \<and> (ok \<longleftrightarrow> findEncryptionKey 0 m' \<noteq> None)"
proof -
  have spec: "keys_spec H (decoded_seeds H s) m'" using set_keys_spec [of H s m] assms by simp
  have ok: "ok \<longleftrightarrow> activeKeys m' \<noteq> []" and cb: "callback_set m' = ok"
    using set_result [of H s m] keys_nonempty [OF spec] assms by auto
  have "(SEED_CURRENT, b) \<in> set (decoded_seeds H s) \<longleftrightarrow> (\<exists>x. x \<in> set (currentSeeds s) \<and> unhexlify H x = Some b)"
    "(SEED_OLD, b) \<in> set (decoded_seeds H s) \<longleftrightarrow> (\<exists>x. x \<in> set (oldSeeds s) \<and> unhexlify H x = Some b)" for b
    by (auto simp: decoded_seeds_def in_decoded)
  with active_iff [OF spec] ok have "ok \<longleftrightarrow> (\<exists>x b. x \<in> set (currentSeeds s) \<and> unhexlify H x = Some b \<and>
      (\<forall>y b'. y \<in> set (oldSeeds s) \<and> unhexlify H y = Some b' \<longrightarrow> seed_key_name H b' \<noteq> seed_key_name H b))"
    by blast
  with ok cb show ?thesis by (auto simp: findEncryptionKey_def Let_def)
qed

theorem setTLSTicketKeySeeds_result_witness:
  "\<not> fst (setTLSTicketKeySeeds sample_ticket_ops (sample_seeds\<lparr>oldSeeds := [''0b'']\<rparr>) (TLSTicketKeyManager_new True)) \<and>
   fst (setTLSTicketKeySeeds sample_ticket_ops (sample_seeds\<lparr>oldSeeds := [''x'']\<rparr>) (TLSTicketKeyManager_new True))"
proof -
  have dec: "unhexlify sample_ticket_ops ''0b'' = Some [11]" "unhexlify sample_ticket_ops ''x'' = None" by code_simp+
  have "\<not> fst (setTLSTicketKeySeeds sample_ticket_ops (sample_seeds\<lparr>oldSeeds := [''0b'']\<rparr>) (TLSTicketKeyManager_new True))"
    using setTLSTicketKeySeeds_result [OF prod.collapse [symmetric],
        of sample_ticket_ops "sample_seeds\<lparr>oldSeeds := [''0b'']\<rparr>" "TLSTicketKeyManager_new True"] dec
    by (simp add: sample_seeds_def)
  moreover have "fst (setTLSTicketKeySeeds sample_ticket_ops (sample_seeds\<lparr>oldSeeds := [''x'']\<rparr>) (TLSTicketKeyManager_new True))"
    using setTLSTicketKeySeeds_result [OF prod.collapse [symmetric],
        of sample_ticket_ops "sample_seeds\<lparr>oldSeeds := [''x'']\<rparr>" "TLSTicketKeyManager_new True"] dec
    by (simp add: sample_seeds_def)
  ultimately show ?thesis by blast
qed

text \<open>
  Seeds can be handed over: the seeds that \<open>getTLSTicketKeySeeds\<close> reads from a manager give any other
  manager the same keys, and the same keys to encrypt with.
\<close>

theorem seeds_handed_over:
  assumes "ticket_crypto H"
  shows "ticketKeys (snd (setTLSTicketKeySeeds H
      (snd (getTLSTicketKeySeeds H (snd (setTLSTicketKeySeeds H s m)))) m')) =
        ticketKeys (snd (setTLSTicketKeySeeds H s m)) \<and>
    activeKeys (snd (setTLSTicketKeySeeds H
      (snd (getTLSTicketKeySeeds H (snd (setTLSTicketKeySeeds H s m)))) m')) =
        activeKeys (snd (setTLSTicketKeySeeds H s m))"
  using same_seeds_same_keys [OF ticket_crypto.read_decoded_seeds [OF assms set_keys_spec]] by blast

theorem seeds_handed_over_witness:
  "snd (getTLSTicketKeySeeds sample_ticket_ops
     (snd (setTLSTicketKeySeeds sample_ticket_ops sample_seeds (TLSTicketKeyManager_new True)))) = sample_seeds \<and>
   activeKeys (snd (setTLSTicketKeySeeds sample_ticket_ops
      (snd (getTLSTicketKeySeeds sample_ticket_ops
         (snd (setTLSTicketKeySeeds sample_ticket_ops sample_seeds (TLSTicketKeyManager_new True)))))
      (TLSTicketKeyManager_new False))) =
        activeKeys (snd (setTLSTicketKeySeeds sample_ticket_ops sample_seeds (TLSTicketKeyManager_new True)))"
proof -
  have "snd (getTLSTicketKeySeeds sample_ticket_ops
     (snd (setTLSTicketKeySeeds sample_ticket_ops sample_seeds (TLSTicketKeyManager_new True)))) = sample_seeds"
    by code_simp
  then show ?thesis
    using seeds_handed_over [OF sample_tickets.ticket_crypto_axioms,
        of sample_seeds "TLSTicketKeyManager_new True" "TLSTicketKeyManager_new False"] by simp
qed

end
