(* ===== verification/Util_FilePoller.thy ===== *)
theory Util_FilePoller
  imports Wangle_Prelude "HOL-Library.AList"
begin

text \<open>
  \<open>util/FilePoller.{h,cpp}\<close> and \<open>util/MultiFilePoller.{h,cpp}\<close>: files are polled for a new modification
  time, and callbacks on sets of files are run with the contents of the files.
\<close>

section \<open>FilePoller\<close>

record FileModificationData =
  fm_exists :: bool
  modTime :: int

text \<open>A condition may read the clock, so it is a function of the time as well.\<close>

type_synonym poll_condition = "int \<Rightarrow> FileModificationData \<Rightarrow> FileModificationData \<Rightarrow> bool"

record 'c FileData =
  yCob :: "'c option"
  nCob :: "'c option"
  condition :: poll_condition
  modData :: FileModificationData

record 'c FilePoller =
  fileDatum :: "(string \<times> 'c FileData) list"
  pollerId :: u64

text \<open>The context all pollers share: the next id, and the functions the scheduler runs, by poller id.\<close>

record PollerContext =
  nextPollerId :: u64
  scheduled :: "(u64 \<times> int) list"

definition PollerContext_new :: PollerContext where
  "PollerContext_new = \<lparr>nextPollerId = 1, scheduled = []\<rparr>"

definition getNextId :: "PollerContext \<Rightarrow> u64 \<times> PollerContext" where
  "getNextId ctx = (nextPollerId ctx, ctx\<lparr>nextPollerId := nextPollerId ctx + 1\<rparr>)"

subsection \<open>Conditions\<close>

definition fileTouchedWithinCondInternal :: "int \<Rightarrow> poll_condition" where
  "fileTouchedWithinCondInternal expireTime now _ fModData \<longleftrightarrow>
     fm_exists fModData \<and> now < modTime fModData + expireTime"

definition doAlwaysCondInternal :: poll_condition where
  "doAlwaysCondInternal now _ _ = True"

definition fileTouchedCondInternal :: poll_condition where
  "fileTouchedCondInternal now oldModData newModData \<longleftrightarrow>
     (let fileStillExists = (fm_exists oldModData \<and> fm_exists newModData);
          fileTouched = (modTime newModData \<noteq> modTime oldModData);
          fileCreated = (\<not> fm_exists oldModData \<and> fm_exists newModData) in
      (fileStillExists \<and> fileTouched) \<or> fileCreated)"

subsection \<open>Operations\<close>

text \<open>The context is gone once the process is shutting down.\<close>

definition poller_init :: "int \<Rightarrow> PollerContext option \<Rightarrow> 'c FilePoller \<Rightarrow> 'c FilePoller \<times> PollerContext option" where
  "poller_init pollInterval context P =
     (case context of
        None \<Rightarrow> (P, None)
      | Some ctx \<Rightarrow>
          (case getNextId ctx of
             (i, ctx1) \<Rightarrow> (P\<lparr>pollerId := i\<rparr>, Some (ctx1\<lparr>scheduled := scheduled ctx1 @ [(i, pollInterval)]\<rparr>))))"

definition FilePoller_new :: "int \<Rightarrow> PollerContext option \<Rightarrow> 'c FilePoller \<times> PollerContext option" where
  "FilePoller_new pollInterval context = poller_init pollInterval context \<lparr>fileDatum = [], pollerId = 0\<rparr>"

definition poller_stop :: "'c FilePoller \<Rightarrow> PollerContext option \<Rightarrow> PollerContext option" where
  "poller_stop P context =
     map_option (\<lambda>ctx. ctx\<lparr>scheduled := filter (\<lambda>f. fst f \<noteq> pollerId P) (scheduled ctx)\<rparr>) context"

text \<open>\<open>stat\<close> is the system call, \<open>None\<close> where it fails.\<close>

definition getFileModData :: "(string \<Rightarrow> int option) \<Rightarrow> string \<Rightarrow> FileModificationData" where
  "getFileModData stat path =
     (case stat path of
        None \<Rightarrow> \<lparr>fm_exists = False, modTime = 0\<rparr>
      | Some st_mtime \<Rightarrow> \<lparr>fm_exists = True, modTime = st_mtime\<rparr>)"

text \<open>What runs for one file, and its new record.\<close>

definition check_file :: "(string \<Rightarrow> int option) \<Rightarrow> int \<Rightarrow> string \<times> 'c FileData \<Rightarrow> 'c option \<times> (string \<times> 'c FileData)" where
  "check_file stat now fData =
     (let md = getFileModData stat (fst fData);
          fileData = snd fData;
          cob = (if condition fileData now (modData fileData) md \<and> yCob fileData \<noteq> None then yCob fileData
                 else nCob fileData) in
      (cob, (fst fData, fileData\<lparr>modData := md\<rparr>)))"

text \<open>\<open>checkFiles\<close>, with the callbacks it runs in the order of the files.\<close>

definition checkFiles :: "(string \<Rightarrow> int option) \<Rightarrow> int \<Rightarrow> 'c FilePoller \<Rightarrow> 'c list \<times> 'c FilePoller" where
  "checkFiles stat now P =
     (let rs = map (check_file stat now) (fileDatum P) in
      (List.map_filter fst rs, P\<lparr>fileDatum := map snd rs\<rparr>))"

definition initFileData :: "(string \<Rightarrow> int option) \<Rightarrow> string \<Rightarrow> 'c FileData \<Rightarrow> 'c FileData" where
  "initFileData stat fName fData = fData\<lparr>modData := getFileModData stat fName\<rparr>"

text \<open>A callback of a poller runs with the thread marked; files cannot be added or removed from there.\<close>

definition addFileToTrack :: "bool \<Rightarrow> (string \<Rightarrow> int option) \<Rightarrow> string \<Rightarrow> 'c option \<Rightarrow> 'c option
    \<Rightarrow> poll_condition \<Rightarrow> 'c FilePoller \<Rightarrow> 'c FilePoller" where
  "addFileToTrack inPollerThread stat fileName y n cond P =
     (if fileName = [] then P
      else if inPollerThread then P
      else P\<lparr>fileDatum := AList.update fileName
             (initFileData stat fileName \<lparr>yCob = y, nCob = n, condition = cond,
                modData = \<lparr>fm_exists = False, modTime = 0\<rparr>\<rparr>) (fileDatum P)\<rparr>)"

definition removeFileToTrack :: "bool \<Rightarrow> string \<Rightarrow> 'c FilePoller \<Rightarrow> 'c FilePoller" where
  "removeFileToTrack inPollerThread fileName P =
     (if fileName = [] then P
      else if inPollerThread then P
      else P\<lparr>fileDatum := AList.delete fileName (fileDatum P)\<rparr>)"

section \<open>MultiFilePoller\<close>

record 'b CallbackDetail =
  cd_files :: "string list"
  cd_cb :: 'b

text \<open>The callback given to the poller for a path is \<open>onFileUpdated\<close> on that path: it is named by the path.\<close>

record 'b MultiFilePoller =
  lastCallbackId :: u64
  pathsToCallbackIds :: "string \<rightharpoonup> u64 list"
  idsToCallbacks :: "u64 \<rightharpoonup> 'b CallbackDetail"
  mf_poller :: "string FilePoller"

definition MultiFilePoller_new :: "int \<Rightarrow> PollerContext option \<Rightarrow> 'b MultiFilePoller \<times> PollerContext option" where
  "MultiFilePoller_new pollInterval context =
     (case FilePoller_new pollInterval context of
        (P, context') \<Rightarrow>
          (\<lparr>lastCallbackId = 0, pathsToCallbackIds = Map.empty, idsToCallbacks = Map.empty, mf_poller = P\<rparr>, context'))"

function next_id_loop :: "(u64 \<rightharpoonup> 'b) \<Rightarrow> u64 \<Rightarrow> u64 \<Rightarrow> cpp_exn + u64" where
  "next_id_loop ids lastId ret =
     (let ret1 = ret + 1 in
      if ret1 = lastId then Inl (RuntimeError ''Run out of callback ID.'')
      else if ids ret1 = None then Inr ret1
      else next_id_loop ids lastId ret1)"
  by pat_completeness auto

termination
proof (relation "measure (\<lambda>(ids, lastId, ret). unat (lastId - ret - 1))")
  fix ids :: "u64 \<rightharpoonup> 'b" and lastId ret x :: u64
  assume "x = ret + 1" "x \<noteq> lastId"
  then have "lastId - ret - 1 \<noteq> 0" by (metis diff_diff_eq eq_iff_diff_eq_0)
  then have "unat (lastId - ret - 1 - 1) < unat (lastId - ret - 1)"
    by (rule measure_unat)
  then show "((ids, lastId, x), ids, lastId, ret) \<in> measure (\<lambda>(ids, lastId, ret). unat (lastId - ret - 1))"
    using \<open>x = ret + 1\<close> by (simp add: algebra_simps)
qed simp

declare next_id_loop.simps [simp del]

definition getNextCallbackId :: "'b MultiFilePoller \<Rightarrow> cpp_exn + u64 \<times> 'b MultiFilePoller" where
  "getNextCallbackId M =
     (case next_id_loop (idsToCallbacks M) (lastCallbackId M) (lastCallbackId M) of
        Inl e \<Rightarrow> Inl e
      | Inr ret \<Rightarrow> Inr (ret, M\<lparr>lastCallbackId := ret\<rparr>))"

definition register_path :: "bool \<Rightarrow> (string \<Rightarrow> int option) \<Rightarrow> u64 \<Rightarrow> string \<Rightarrow> 'b MultiFilePoller \<Rightarrow> 'b MultiFilePoller" where
  "register_path inPollerThread stat cbId path M =
     (let ids = (case pathsToCallbackIds M path of None \<Rightarrow> [] | Some ids \<Rightarrow> ids) in
      M\<lparr>pathsToCallbackIds := (pathsToCallbackIds M)(path \<mapsto> ids @ [cbId]),
        mf_poller := addFileToTrack inPollerThread stat path (Some path) None fileTouchedCondInternal (mf_poller M)\<rparr>)"

definition registerFiles :: "bool \<Rightarrow> (string \<Rightarrow> int option) \<Rightarrow> string list \<Rightarrow> 'b \<Rightarrow> 'b MultiFilePoller
    \<Rightarrow> cpp_exn + u64 \<times> 'b MultiFilePoller" where
  "registerFiles inPollerThread stat paths cb M =
     (if paths = [] then Inl (InvalidArgument ''Argument paths must be non-empty.'')
      else case getNextCallbackId M of
        Inl e \<Rightarrow> Inl e
      | Inr (cbId, M1) \<Rightarrow>
          (let M2 = fold (register_path inPollerThread stat cbId) paths M1 in
           Inr (cbId, M2\<lparr>idsToCallbacks := (idsToCallbacks M2)(cbId \<mapsto> \<lparr>cd_files = paths, cd_cb = cb\<rparr>)\<rparr>)))"

definition registerFile :: "bool \<Rightarrow> (string \<Rightarrow> int option) \<Rightarrow> string \<Rightarrow> 'b \<Rightarrow> 'b MultiFilePoller
    \<Rightarrow> cpp_exn + u64 \<times> 'b MultiFilePoller" where
  "registerFile inPollerThread stat path cb M = registerFiles inPollerThread stat [path] cb M"

text \<open>
  \<open>erase(std::remove(...))\<close> with one iterator: \<open>remove\<close> moves what it keeps to the front and answers the
  position behind it, and the element there is erased. There is none when nothing was removed, which is
  undefined. The elements behind are taken to be as they were, as for integers they are in practice.
\<close>

definition erase_remove :: "u64 \<Rightarrow> u64 list \<Rightarrow> cpp_exn + u64 list" where
  "erase_remove i ids =
     (let kept = filter (\<lambda>j. j \<noteq> i) ids in
      if length kept = length ids then Inl Undefined
      else Inr (kept @ drop (length kept + 1) ids))"

text \<open>The loop over the paths of the callback, with the paths that are left without one.\<close>

fun cancel_paths :: "bool \<Rightarrow> u64 \<Rightarrow> string list \<Rightarrow> string list \<Rightarrow> 'b MultiFilePoller
    \<Rightarrow> cpp_exn + string list \<times> 'b MultiFilePoller" where
  "cancel_paths inPollerThread cbId [] pathsToErase M = Inr (pathsToErase, M)"
| "cancel_paths inPollerThread cbId (path # paths) pathsToErase M =
     (let callbackIds = (case pathsToCallbackIds M path of None \<Rightarrow> [] | Some ids \<Rightarrow> ids) in
      case erase_remove cbId callbackIds of
        Inl e \<Rightarrow> Inl e
      | Inr ids \<Rightarrow>
          (let M1 = M\<lparr>pathsToCallbackIds := (pathsToCallbackIds M)(path \<mapsto> ids)\<rparr> in
           if ids = [] then
             cancel_paths inPollerThread cbId paths (pathsToErase @ [path])
               (M1\<lparr>mf_poller := removeFileToTrack inPollerThread path (mf_poller M1)\<rparr>)
           else cancel_paths inPollerThread cbId paths pathsToErase M1))"

definition cancelCallback :: "bool \<Rightarrow> u64 \<Rightarrow> 'b MultiFilePoller \<Rightarrow> cpp_exn + 'b MultiFilePoller" where
  "cancelCallback inPollerThread cbId M =
     (case idsToCallbacks M cbId of
        None \<Rightarrow> Inl OutOfRange
      | Some d \<Rightarrow>
          (case cancel_paths inPollerThread cbId (cd_files d) [] M of
             Inl e \<Rightarrow> Inl e
           | Inr (pathsToErase, M1) \<Rightarrow>
               Inr (M1\<lparr>idsToCallbacks := (idsToCallbacks M1)(cbId := None),
                       pathsToCallbackIds := fold (\<lambda>path m. m(path := None)) pathsToErase (pathsToCallbackIds M1)\<rparr>)))"

text \<open>
  The contents read so far are kept for the callbacks that follow. A callback is run with all of them.
  \<open>readFile\<close> is \<open>None\<close> for a file that cannot be read.
\<close>

definition read_missing :: "(string \<Rightarrow> string option) \<Rightarrow> string list \<Rightarrow> (string \<rightharpoonup> string) \<Rightarrow> (string \<rightharpoonup> string)" where
  "read_missing readFile paths contents =
     fold (\<lambda>path m. if m path = None then
        (case readFile path of Some content \<Rightarrow> m(path \<mapsto> content) | None \<Rightarrow> m) else m) paths contents"

fun run_callbacks :: "(string \<Rightarrow> string option) \<Rightarrow> (u64 \<rightharpoonup> 'b CallbackDetail) \<Rightarrow> u64 list \<Rightarrow> (string \<rightharpoonup> string)
    \<Rightarrow> cpp_exn + ('b \<times> (string \<rightharpoonup> string)) list" where
  "run_callbacks readFile ids [] contents = Inr []"
| "run_callbacks readFile ids (cbId # cbIds) contents =
     (case ids cbId of
        None \<Rightarrow> Inl Undefined
      | Some d \<Rightarrow>
          (let contents1 = read_missing readFile (cd_files d) contents in
           case run_callbacks readFile ids cbIds contents1 of
             Inl e \<Rightarrow> Inl e
           | Inr calls \<Rightarrow> Inr ((cd_cb d, contents1) # calls)))"

definition onFileUpdated :: "(string \<Rightarrow> string option) \<Rightarrow> string \<Rightarrow> 'b MultiFilePoller
    \<Rightarrow> cpp_exn + ('b \<times> (string \<rightharpoonup> string)) list" where
  "onFileUpdated readFile triggeredPath M =
     (case pathsToCallbackIds M triggeredPath of
        None \<Rightarrow> Inr []
      | Some cbIds \<Rightarrow> run_callbacks readFile (idsToCallbacks M) cbIds Map.empty)"

end
