(* ===== verification/Util_FilePoller_Props.thy ===== *)
theory Util_FilePoller_Props
  imports Util_FilePoller
begin

text \<open>
  The two maps of a \<open>MultiFilePoller\<close> describe one relation between paths and callbacks, and the poller
  it uses tracks the paths of that relation; so a poll runs the callbacks of the files that changed.
\<close>

section \<open>What the poller tracks\<close>

definition tracks :: "string FilePoller \<Rightarrow> string set \<Rightarrow> bool" where
  "tracks P S \<longleftrightarrow>
     distinct (map fst (fileDatum P)) \<and>
     dom (map_of (fileDatum P)) = S - {[]} \<and>
     (\<forall>p d. map_of (fileDatum P) p = Some d \<longrightarrow>
        yCob d = Some p \<and> nCob d = None \<and> condition d = fileTouchedCondInternal)"

lemma tracks_add:
  assumes "tracks P S"
  shows "tracks (addFileToTrack False stat p (Some p) None fileTouchedCondInternal P) (insert p S)"
proof (cases "p = []")
  case False
  have "dom ((map_of (fileDatum P))(p \<mapsto> d)) = insert p S - {[]}" for d
    using assms False by (auto simp: tracks_def)
  with False assms show ?thesis
    by (simp add: tracks_def addFileToTrack_def initFileData_def update_conv' distinct_update)
qed (use assms in \<open>simp add: tracks_def addFileToTrack_def insert_Diff_if\<close>)

lemma tracks_remove:
  assumes "tracks P S"
  shows "tracks (removeFileToTrack False p P) (S - {p})"
proof (cases "p = []")
  case False
  have "dom ((map_of (fileDatum P))(p := None)) = S - {p} - {[]}"
    using assms False by (auto simp: tracks_def)
  with False assms show ?thesis
    by (simp add: tracks_def removeFileToTrack_def delete_conv' distinct_delete)
qed (use assms in \<open>simp add: tracks_def removeFileToTrack_def\<close>)

lemma map_of_check_files:
  "map_of (map snd (map (check_file stat now) xs)) p =
     map_option (\<lambda>d. d\<lparr>modData := getFileModData stat p\<rparr>) (map_of xs p)"
  by (induction xs) (auto simp: check_file_def Let_def)

lemma fst_check_files: "map fst (map snd (map (check_file stat now) xs)) = map fst xs"
  by (simp add: check_file_def Let_def)

lemma tracks_check:
  assumes "tracks P S"
  shows "tracks (snd (checkFiles stat now P)) S"
proof -
  have keys: "map fst (fileDatum (snd (checkFiles stat now P))) = map fst (fileDatum P)"
    using fst_check_files [of stat now "fileDatum P"] by (simp add: checkFiles_def Let_def del: map_map)
  have recs: "map_of (fileDatum (snd (checkFiles stat now P))) p =
      map_option (\<lambda>d. d\<lparr>modData := getFileModData stat p\<rparr>) (map_of (fileDatum P) p)" for p
    by (simp add: checkFiles_def Let_def map_of_check_files del: map_map)
  have "dom (map_of (fileDatum (snd (checkFiles stat now P)))) = dom (map_of (fileDatum P))"
    by (simp add: dom_def recs)
  with assms keys show ?thesis
    by (auto simp: tracks_def recs)
qed

text \<open>A poll runs the callbacks of the paths whose files are new or have another modification time.\<close>

definition file_changed :: "(string \<Rightarrow> int option) \<Rightarrow> 'c FilePoller \<Rightarrow> string \<Rightarrow> bool" where
  "file_changed stat P p \<longleftrightarrow>
     (\<exists>d t. map_of (fileDatum P) p = Some d \<and> stat p = Some t \<and> (fm_exists (modData d) \<longrightarrow> modTime (modData d) \<noteq> t))"

lemma check_file_call:
  assumes "yCob d = Some p" "nCob d = None" "condition d = fileTouchedCondInternal"
  shows "fst (check_file stat now (p, d)) =
    (if \<exists>t. stat p = Some t \<and> (fm_exists (modData d) \<longrightarrow> modTime (modData d) \<noteq> t) then Some p else None)"
  using assms
  by (auto simp: check_file_def Let_def fileTouchedCondInternal_def getFileModData_def split: option.splits)

lemma map_filter_fst:
  assumes "\<forall>x\<in>set xs. f x = (if Q (fst x) then Some (fst x) else None)"
  shows "List.map_filter f xs = filter Q (map fst xs)"
  using assms by (induction xs) (auto simp: map_filter_simps)

lemma checkFiles_calls:
  assumes "tracks P S"
  shows "fst (checkFiles stat now P) = filter (file_changed stat P) (map fst (fileDatum P))"
proof -
  have "fst (check_file stat now x) = (if file_changed stat P (fst x) then Some (fst x) else None)"
    if x: "x \<in> set (fileDatum P)" for x
  proof -
    have rec: "map_of (fileDatum P) (fst x) = Some (snd x)"
      using assms x by (simp add: tracks_def)
    then have "yCob (snd x) = Some (fst x)" "nCob (snd x) = None" "condition (snd x) = fileTouchedCondInternal"
      using assms unfolding tracks_def by blast+
    from check_file_call [OF this] rec show ?thesis by (simp add: file_changed_def)
  qed
  from map_filter_fst [of "fileDatum P" "\<lambda>x. fst (check_file stat now x)"] this
  have "List.map_filter (\<lambda>x. fst (check_file stat now x)) (fileDatum P) =
      filter (file_changed stat P) (map fst (fileDatum P))" by simp
  then show ?thesis
    by (simp add: checkFiles_def Let_def map_filter_def filter_map comp_def)
qed

section \<open>The relation between paths and callbacks\<close>

definition links :: "(string \<rightharpoonup> u64 list) \<Rightarrow> (u64 \<rightharpoonup> 'b CallbackDetail) \<Rightarrow> bool" where
  "links p2c ids \<longleftrightarrow>
     (\<forall>p is. p2c p = Some is \<longrightarrow> is \<noteq> [] \<and> distinct is) \<and>
     (\<forall>p i. (\<exists>is. p2c p = Some is \<and> i \<in> set is) \<longleftrightarrow> (\<exists>d. ids i = Some d \<and> p \<in> set (cd_files d))) \<and>
     (\<forall>i d. ids i = Some d \<longrightarrow> cd_files d \<noteq> [] \<and> distinct (cd_files d))"

definition mf_inv :: "'b MultiFilePoller \<Rightarrow> bool" where
  "mf_inv M \<longleftrightarrow> links (pathsToCallbackIds M) (idsToCallbacks M) \<and> tracks (mf_poller M) (dom (pathsToCallbackIds M))"

lemma mf_inv_new: "MultiFilePoller_new pollInterval context = (M, context') \<Longrightarrow> mf_inv M"
  by (auto simp: MultiFilePoller_new_def FilePoller_new_def poller_init_def mf_inv_def links_def tracks_def
      split: option.splits prod.splits)

subsection \<open>Registering\<close>

definition ids_of :: "(string \<rightharpoonup> u64 list) \<Rightarrow> string \<Rightarrow> u64 list" where
  "ids_of p2c p = (case p2c p of None \<Rightarrow> [] | Some ids \<Rightarrow> ids)"

lemma in_ids_of: "i \<in> set (ids_of p2c p) \<longleftrightarrow> (\<exists>is. p2c p = Some is \<and> i \<in> set is)"
  by (cases "p2c p") (auto simp: ids_of_def)

lemma next_id_loop_fresh: "next_id_loop ids lastId ret = Inr i \<Longrightarrow> ids i = None"
proof (induction ids lastId ret rule: next_id_loop.induct)
  case (1 ids lastId ret)
  then show ?case
    by (subst (asm) next_id_loop.simps) (auto simp: Let_def split: if_splits)
qed

lemma registerFiles_result:
  assumes "registerFiles b stat paths cb M = Inr (i, M')"
  obtains N where "paths \<noteq> []" "idsToCallbacks M i = None"
    "N = fold (register_path b stat i) paths (M\<lparr>lastCallbackId := i\<rparr>)"
    "M' = N\<lparr>idsToCallbacks := (idsToCallbacks N)(i \<mapsto> \<lparr>cd_files = paths, cd_cb = cb\<rparr>)\<rparr>"
proof -
  from assms have "paths \<noteq> []" by (auto simp: registerFiles_def)
  moreover from this assms obtain j where j: "next_id_loop (idsToCallbacks M) (lastCallbackId M) (lastCallbackId M) = Inr j"
    by (auto simp: registerFiles_def getNextCallbackId_def split: sum.splits)
  moreover from this assms \<open>paths \<noteq> []\<close> have "j = i"
    by (simp add: registerFiles_def getNextCallbackId_def Let_def)
  ultimately show ?thesis
    using assms next_id_loop_fresh [OF j] that by (simp add: registerFiles_def getNextCallbackId_def Let_def)
qed

lemma register_paths:
  assumes "distinct paths" and "tracks (mf_poller M) (dom (pathsToCallbackIds M))"
    and "M' = fold (register_path False stat i) paths M"
  shows "pathsToCallbackIds M' =
      (\<lambda>p. if p \<in> set paths then Some (ids_of (pathsToCallbackIds M) p @ [i]) else pathsToCallbackIds M p) \<and>
    idsToCallbacks M' = idsToCallbacks M \<and> tracks (mf_poller M') (dom (pathsToCallbackIds M'))"
  using assms(1,2) unfolding assms(3)
proof (induction paths arbitrary: M)
  case (Cons q qs)
  let ?M = "register_path False stat i q M"
  have views: "pathsToCallbackIds ?M = (pathsToCallbackIds M)(q \<mapsto> ids_of (pathsToCallbackIds M) q @ [i])"
    "idsToCallbacks ?M = idsToCallbacks M"
    by (simp_all add: register_path_def Let_def ids_of_def)
  have tr: "tracks (mf_poller ?M) (dom (pathsToCallbackIds ?M))"
    using tracks_add [OF Cons.prems(2)] by (simp add: register_path_def Let_def)
  have "distinct qs" "q \<notin> set qs" using Cons.prems(1) by simp_all
  note IH = Cons.IH [OF this(1) tr]
  have "pathsToCallbackIds (fold (register_path False stat i) qs ?M) =
      (\<lambda>p. if p \<in> set (q # qs) then Some (ids_of (pathsToCallbackIds M) p @ [i]) else pathsToCallbackIds M p)"
    using IH \<open>q \<notin> set qs\<close> unfolding views by (simp add: fun_eq_iff ids_of_def)
  moreover have "idsToCallbacks (fold (register_path False stat i) qs ?M) = idsToCallbacks M"
    using IH by (simp only: views)
  ultimately show ?case using IH unfolding fold_simps by blast
qed simp

text \<open>The relation in terms of the list of callbacks of a path, empty when there is none.\<close>

lemma links_iff:
  "links p2c ids \<longleftrightarrow>
     (\<forall>p. p2c p \<noteq> Some []) \<and> (\<forall>p. distinct (ids_of p2c p)) \<and>
     (\<forall>p i. i \<in> set (ids_of p2c p) \<longleftrightarrow> (\<exists>d. ids i = Some d \<and> p \<in> set (cd_files d))) \<and>
     (\<forall>i d. ids i = Some d \<longrightarrow> cd_files d \<noteq> [] \<and> distinct (cd_files d))"
proof -
  have "(\<forall>is. p2c p = Some is \<longrightarrow> is \<noteq> [] \<and> distinct is) \<longleftrightarrow> p2c p \<noteq> Some [] \<and> distinct (ids_of p2c p)" for p
    by (cases "p2c p") (auto simp: ids_of_def)
  then show ?thesis unfolding links_def in_ids_of by blast
qed

lemma links_register:
  assumes "links p2c ids" "ids i = None" "paths \<noteq> []" "distinct paths"
  shows "links (\<lambda>p. if p \<in> set paths then Some (ids_of p2c p @ [i]) else p2c p)
    (ids(i \<mapsto> \<lparr>cd_files = paths, cd_cb = cb\<rparr>))" (is "links ?p2c ?ids")
proof -
  have ne: "p2c p \<noteq> Some []" and dist: "distinct (ids_of p2c p)" and
    mem: "j \<in> set (ids_of p2c p) \<longleftrightarrow> (\<exists>d. ids j = Some d \<and> p \<in> set (cd_files d))" for p j
    using assms(1) unfolding links_iff by blast+
  have files: "cd_files d \<noteq> [] \<and> distinct (cd_files d)" if "ids j = Some d" for j d
    using assms(1) that unfolding links_iff by blast
  have ids: "ids_of ?p2c p = (if p \<in> set paths then ids_of p2c p @ [i] else ids_of p2c p)" for p by (simp add: ids_of_def)
  have "i \<notin> set (ids_of p2c p)" for p using mem assms(2) by simp
  then have "\<forall>p. distinct (ids_of ?p2c p)" using dist unfolding ids by simp
  moreover have "j \<in> set (ids_of ?p2c p) \<longleftrightarrow> (\<exists>d. ?ids j = Some d \<and> p \<in> set (cd_files d))" for p j
    using mem [of j p] assms(2) unfolding ids by (cases "j = i") auto
  moreover have "\<forall>j d. ?ids j = Some d \<longrightarrow> cd_files d \<noteq> [] \<and> distinct (cd_files d)"
    using files assms(3,4) by auto
  ultimately show ?thesis using ne unfolding links_iff by simp
qed

lemma mf_inv_register:
  assumes inv: "mf_inv M" and "distinct paths" and reg: "registerFiles False stat paths cb M = Inr (i, M')"
  shows "mf_inv M' \<and> idsToCallbacks M' = (idsToCallbacks M)(i \<mapsto> \<lparr>cd_files = paths, cd_cb = cb\<rparr>) \<and>
    idsToCallbacks M i = None"
proof -
  define M1 where M1: "M1 = M\<lparr>lastCallbackId := i\<rparr>"
  from reg obtain ne: "paths \<noteq> []" and fresh: "idsToCallbacks M i = None"
    and M': "M' = (fold (register_path False stat i) paths M1)\<lparr>idsToCallbacks :=
      (idsToCallbacks (fold (register_path False stat i) paths M1))(i \<mapsto> \<lparr>cd_files = paths, cd_cb = cb\<rparr>)\<rparr>"
    by (rule registerFiles_result) (simp add: M1)
  have "tracks (mf_poller M1) (dom (pathsToCallbackIds M1))" using inv M1 by (simp add: mf_inv_def)
  note fold_facts = register_paths [OF assms(2) this refl, of stat i]
  have views: "pathsToCallbackIds M1 = pathsToCallbackIds M" "idsToCallbacks M1 = idsToCallbacks M"
    by (simp_all add: M1)
  have views': "pathsToCallbackIds M' = pathsToCallbackIds (fold (register_path False stat i) paths M1)"
    "mf_poller M' = mf_poller (fold (register_path False stat i) paths M1)"
    by (simp_all add: M')
  have "tracks (mf_poller M') (dom (pathsToCallbackIds M'))"
    unfolding views' using fold_facts by blast
  moreover have "idsToCallbacks M' = (idsToCallbacks M)(i \<mapsto> \<lparr>cd_files = paths, cd_cb = cb\<rparr>)"
    using fold_facts by (simp add: M' views)
  moreover have "pathsToCallbackIds M' =
      (\<lambda>p. if p \<in> set paths then Some (ids_of (pathsToCallbackIds M) p @ [i]) else pathsToCallbackIds M p)"
    using fold_facts by (simp only: views views')
  ultimately show ?thesis
    using links_register [of "pathsToCallbackIds M" "idsToCallbacks M" i paths cb] inv fresh ne assms(2)
    unfolding mf_inv_def by simp
qed

subsection \<open>Cancelling\<close>

lemma erase_remove_distinct:
  assumes "distinct is" "i \<in> set is"
  shows "erase_remove i is = Inr (filter (\<lambda>j. j \<noteq> i) is)"
proof -
  have "length (filter (\<lambda>j. j \<noteq> i) is) = length is - 1"
    using assms distinct_remove1_removeAll [of "is" i] length_remove1 [of i "is"]
    by (simp add: removeAll_filter_not_eq eq_commute)
  moreover obtain n where "length is = Suc n" using assms(2) by (cases "is") auto
  ultimately show ?thesis by (simp add: erase_remove_def Let_def)
qed

definition drop_id :: "u64 \<Rightarrow> string list \<Rightarrow> (string \<rightharpoonup> u64 list) \<Rightarrow> (string \<rightharpoonup> u64 list)" where
  "drop_id i paths p2c = (\<lambda>p. if p \<in> set paths then Some (filter (\<lambda>j. j \<noteq> i) (ids_of p2c p)) else p2c p)"

lemma drop_id_simps: "drop_id i [] p2c = p2c"
  "p \<notin> set ps \<Longrightarrow> drop_id i ps (p2c(p \<mapsto> filter (\<lambda>j. j \<noteq> i) (ids_of p2c p))) = drop_id i (p # ps) p2c"
  by (auto simp: drop_id_def ids_of_def fun_eq_iff)

lemma cancel_paths:
  assumes "distinct paths" and "\<And>p. p \<in> set paths \<Longrightarrow> distinct (ids_of (pathsToCallbackIds M) p) \<and> i \<in> set (ids_of (pathsToCallbackIds M) p)"
    and "tracks (mf_poller M) S"
  shows "\<exists>M' gone. cancel_paths False i paths acc M = Inr (acc @ gone, M') \<and>
    gone = filter (\<lambda>p. filter (\<lambda>j. j \<noteq> i) (ids_of (pathsToCallbackIds M) p) = []) paths \<and>
    pathsToCallbackIds M' = drop_id i paths (pathsToCallbackIds M) \<and>
    idsToCallbacks M' = idsToCallbacks M \<and> tracks (mf_poller M') (S - set gone)"
  using assms
proof (induction paths arbitrary: M acc S)
  case (Cons p ps)
  let ?is = "ids_of (pathsToCallbackIds M) p" and ?rest = "filter (\<lambda>j. j \<noteq> i) (ids_of (pathsToCallbackIds M) p)"
  let ?P = "if ?rest = [] then removeFileToTrack False p (mf_poller M) else mf_poller M"
  let ?M = "M\<lparr>pathsToCallbackIds := (pathsToCallbackIds M)(p \<mapsto> ?rest), mf_poller := ?P\<rparr>"
  let ?acc = "acc @ (if ?rest = [] then [p] else [])" and ?S = "S - set (if ?rest = [] then [p] else [])"
  have p: "p \<notin> set ps" "distinct ps" using Cons.prems(1) by simp_all
  have step: "cancel_paths False i (p # ps) acc M = cancel_paths False i ps ?acc ?M"
    using Cons.prems(2) [of p] by (simp add: ids_of_def [symmetric] erase_remove_distinct Let_def)
  have others: "ids_of (pathsToCallbackIds ?M) q = ids_of (pathsToCallbackIds M) q" if "q \<in> set ps" for q
    using that p(1) by (auto simp: ids_of_def)
  have tr: "tracks (mf_poller ?M) ?S" using tracks_remove [OF Cons.prems(3), of p] Cons.prems(3) by simp
  have "distinct (ids_of (pathsToCallbackIds ?M) q) \<and> i \<in> set (ids_of (pathsToCallbackIds ?M) q)" if "q \<in> set ps" for q
    using Cons.prems(2) [of q] that others [OF that] by (simp only: list.set(2) insert_iff simp_thms)
  from Cons.IH [OF p(2) this tr, of ?acc] obtain M' gone where
    res: "cancel_paths False i ps ?acc ?M = Inr (?acc @ gone, M')"
    and gone: "gone = filter (\<lambda>q. filter (\<lambda>j. j \<noteq> i) (ids_of (pathsToCallbackIds ?M) q) = []) ps"
    and p2c: "pathsToCallbackIds M' = drop_id i ps (pathsToCallbackIds ?M)"
    and ids: "idsToCallbacks M' = idsToCallbacks ?M" and tr': "tracks (mf_poller M') (?S - set gone)"
    by blast
  let ?gone = "(if ?rest = [] then [p] else []) @ gone"
  have "cancel_paths False i (p # ps) acc M = Inr (acc @ ?gone, M')"
    unfolding step res append_assoc ..
  moreover have "?gone = filter (\<lambda>q. filter (\<lambda>j. j \<noteq> i) (ids_of (pathsToCallbackIds M) q) = []) (p # ps)"
    unfolding gone using others by (simp cong: filter_cong)
  moreover have "pathsToCallbackIds M' = drop_id i (p # ps) (pathsToCallbackIds M)"
    unfolding p2c drop_id_simps(2) [OF p(1), symmetric] by simp
  moreover have "idsToCallbacks M' = idsToCallbacks M" unfolding ids by simp
  moreover have "S - set ?gone = ?S - set gone" by auto
  then have "tracks (mf_poller M') (S - set ?gone)" using tr' by (simp only:)
  ultimately show ?case by blast
qed (auto simp: drop_id_simps)

lemma fold_erase: "fold (\<lambda>p m. m(p := None)) ps m = (\<lambda>p. if p \<in> set ps then None else m p)"
  by (induction ps arbitrary: m) (auto simp: fun_eq_iff)

lemma links_cancel:
  assumes "links p2c ids"
    and ids_of: "\<And>p. ids_of p2c' p = filter (\<lambda>j. j \<noteq> i) (ids_of p2c p)" and "\<And>p. p2c' p \<noteq> Some []"
  shows "links p2c' (ids(i := None))"
  using assms(1,3) unfolding links_iff ids_of by auto

lemma mf_inv_cancel:
  assumes inv: "mf_inv M" and d: "idsToCallbacks M i = Some d"
  shows "\<exists>M'. cancelCallback False i M = Inr M' \<and> mf_inv M' \<and> idsToCallbacks M' = (idsToCallbacks M)(i := None)"
proof -
  let ?p2c = "pathsToCallbackIds M"
  let ?rest = "\<lambda>p. filter (\<lambda>j. j \<noteq> i) (ids_of ?p2c p)"
  have links: "links ?p2c (idsToCallbacks M)" and tr: "tracks (mf_poller M) (dom ?p2c)"
    using inv by (simp_all add: mf_inv_def)
  then have files: "distinct (cd_files d)" and mem: "i \<in> set (ids_of ?p2c p) \<longleftrightarrow> p \<in> set (cd_files d)"
    and ne: "?p2c p \<noteq> Some []" and dist: "distinct (ids_of ?p2c p)" for p
    using d unfolding links_iff by simp_all
  have "\<And>p. p \<in> set (cd_files d) \<Longrightarrow> distinct (ids_of ?p2c p) \<and> i \<in> set (ids_of ?p2c p)"
    using mem dist by simp
  from cancel_paths [OF files this tr, of "[]"] obtain M1 gone where
    res: "cancel_paths False i (cd_files d) [] M = Inr (gone, M1)"
    and gone: "gone = filter (\<lambda>p. ?rest p = []) (cd_files d)"
    and p2c: "pathsToCallbackIds M1 = drop_id i (cd_files d) ?p2c"
    and ids: "idsToCallbacks M1 = idsToCallbacks M" and tr': "tracks (mf_poller M1) (dom ?p2c - set gone)"
    by auto
  let ?p2c' = "\<lambda>p. if p \<in> set gone then None else drop_id i (cd_files d) ?p2c p"
  have notin: "?rest p = ids_of ?p2c p" if "p \<notin> set (cd_files d)" for p
    using that mem [of p] by (intro filter_True) auto
  have "ids_of ?p2c' p = ?rest p" for p
    using notin [of p] by (auto simp: ids_of_def drop_id_def gone split: option.splits)
  moreover have "?p2c' p \<noteq> Some []" for p using ne [of p] by (auto simp: drop_id_def gone)
  ultimately have l: "links ?p2c' ((idsToCallbacks M)(i := None))" by (rule links_cancel [OF links])
  have "?p2c p \<noteq> None" if "p \<in> set (cd_files d)" for p
    using mem [of p] that in_ids_of [of i ?p2c p] by auto
  then have "dom ?p2c' = dom ?p2c - set gone"
    by (auto simp: drop_id_def gone split: if_splits)
  with tr' l show ?thesis
    by (simp add: cancelCallback_def d res mf_inv_def fold_erase p2c ids cong: if_cong)
qed

section \<open>Reachable states\<close>

text \<open>
  Callbacks are registered on distinct paths and cancelled from threads other than the poller's; an
  operation that throws leaves the state as it is.
\<close>

inductive mf_reach :: "'b MultiFilePoller \<Rightarrow> bool" where
  mf_start: "MultiFilePoller_new pollInterval context = (M, context') \<Longrightarrow> mf_reach M"
| mf_register: "mf_reach M \<Longrightarrow> distinct paths \<Longrightarrow> registerFiles False stat paths cb M = Inr (i, M') \<Longrightarrow> mf_reach M'"
| mf_cancel: "mf_reach M \<Longrightarrow> cancelCallback False i M = Inr M' \<Longrightarrow> mf_reach M'"
| mf_poll: "mf_reach M \<Longrightarrow> mf_reach (M\<lparr>mf_poller := snd (checkFiles stat now (mf_poller M))\<rparr>)"

lemma mf_reach_inv: "mf_reach M \<Longrightarrow> mf_inv M"
proof (induction rule: mf_reach.induct)
  case (mf_start n ctx M ctx')
  then show ?case by (rule mf_inv_new)
next
  case (mf_register M paths stat cb i M')
  from mf_inv_register [OF mf_register.IH mf_register.hyps(2,3)] show ?case by blast
next
  case (mf_cancel M i M')
  then obtain d where "idsToCallbacks M i = Some d"
    by (auto simp: cancelCallback_def split: option.splits)
  with mf_inv_cancel [of M i d] mf_cancel show ?case by auto
next
  case (mf_poll M stat now)
  then show ?case using tracks_check by (auto simp: mf_inv_def)
qed

section \<open>What callbacks are run with\<close>

definition fresh_contents :: "(string \<Rightarrow> string option) \<Rightarrow> (string \<rightharpoonup> string) \<Rightarrow> bool" where
  "fresh_contents readFile c \<longleftrightarrow> (\<forall>f. c f \<noteq> None \<longrightarrow> c f = readFile f)"

lemma read_missing:
  assumes "fresh_contents readFile c"
  shows "fresh_contents readFile (read_missing readFile fs c)"
    "f \<in> set fs \<Longrightarrow> read_missing readFile fs c f = readFile f"
proof -
  have "read_missing readFile fs c f = (if f \<in> set fs then readFile f else c f)" for f
    using assms unfolding read_missing_def
  proof (induction fs arbitrary: c)
    case (Cons g gs)
    let ?c = "if c g = None then case readFile g of Some x \<Rightarrow> c(g \<mapsto> x) | None \<Rightarrow> c else c"
    have "fresh_contents readFile ?c" "?c g = readFile g" "f \<noteq> g \<Longrightarrow> ?c f = c f"
      using Cons.prems by (auto simp: fresh_contents_def split: option.splits)
    then show ?case using Cons.IH [of ?c] by (cases "f = g") auto
  qed simp
  then show "fresh_contents readFile (read_missing readFile fs c)"
    "f \<in> set fs \<Longrightarrow> read_missing readFile fs c f = readFile f"
    using assms by (simp_all add: fresh_contents_def)
qed

definition served :: "(string \<Rightarrow> string option) \<Rightarrow> (u64 \<rightharpoonup> 'b CallbackDetail) \<Rightarrow> u64 \<Rightarrow> 'b \<times> (string \<rightharpoonup> string) \<Rightarrow> bool" where
  "served readFile ids i call \<longleftrightarrow>
     (\<exists>d. ids i = Some d \<and> fst call = cd_cb d \<and> (\<forall>f. f \<in> set (cd_files d) \<longrightarrow> snd call f = readFile f))"

lemma run_callbacks_served:
  assumes "\<And>i. i \<in> set is \<Longrightarrow> ids i \<noteq> None" and "fresh_contents readFile c"
  shows "\<exists>calls. run_callbacks readFile ids is c = Inr calls \<and> list_all2 (served readFile ids) is calls"
  using assms
proof (induction "is" arbitrary: c)
  case (Cons i "is")
  obtain d where d: "ids i = Some d" using Cons.prems(1) by fastforce
  let ?c = "read_missing readFile (cd_files d) c"
  from Cons.IH [of ?c] Cons.prems read_missing(1) obtain calls where
    "run_callbacks readFile ids is ?c = Inr calls" "list_all2 (served readFile ids) is calls" by fastforce
  moreover have "served readFile ids i (cd_cb d, ?c)"
    using read_missing(2) [OF Cons.prems(2)] d by (simp add: served_def)
  ultimately show ?case by (simp add: d Let_def)
qed simp

section \<open>Properties\<close>


text \<open>A poller with a callback on two files, and one more on the second file.\<close>

definition sample_multi :: "nat MultiFilePoller" where
  "sample_multi = snd (projr (registerFiles False (\<lambda>p. Some 5) [''b''] 2
     (snd (projr (registerFiles False (\<lambda>p. Some 5) [''a'', ''b''] 1
       (fst (MultiFilePoller_new 10 (Some PollerContext_new))))))))"

lemma sample_multi_reach: "mf_reach sample_multi"
proof -
  define M0 :: "nat MultiFilePoller" where "M0 = fst (MultiFilePoller_new 10 (Some PollerContext_new))"
  define M1 where "M1 = snd (projr (registerFiles False (\<lambda>p. Some 5) [''a'', ''b''] (1 :: nat) M0))"
  have "isl (registerFiles False (\<lambda>p. Some 5) [''a'', ''b''] (1 :: nat) M0) = False"
    "isl (registerFiles False (\<lambda>p. Some 5) [''b''] 2 M1) = False"
    unfolding M0_def M1_def by code_simp+
  then have r1: "registerFiles False (\<lambda>p. Some 5) [''a'', ''b''] (1 :: nat) M0 =
      Inr (fst (projr (registerFiles False (\<lambda>p. Some 5) [''a'', ''b''] 1 M0)), M1)"
    and r2: "registerFiles False (\<lambda>p. Some 5) [''b''] 2 M1 =
      Inr (fst (projr (registerFiles False (\<lambda>p. Some 5) [''b''] 2 M1)), sample_multi)"
    unfolding sample_multi_def M1_def [symmetric] M0_def [symmetric] by (simp_all add: M1_def)
  have "mf_reach M0" unfolding M0_def by (metis mf_start prod.collapse)
  then have "mf_reach M1" by (rule mf_register [OF _ _ r1]) simp
  then show ?thesis by (rule mf_register [OF _ _ r2]) simp
qed


text \<open>
  Registering a callback on a file that is already polled forgets a change the next poll would have
  seen: whatever has happened to the files since the last poll, right after \<open>registerFiles\<close> none of the
  paths given to it counts as changed, so the callbacks registered on them before are not run for it.
\<close>

theorem registering_forgets_changes:
  fixes M :: "'b MultiFilePoller"
  assumes "mf_reach M" and "distinct paths" and "registerFiles False stat paths cb M = Inr (i, M')"
    and "p \<in> set paths"
  shows "\<not> file_changed stat (mf_poller M') p \<and> p \<notin> set (fst (checkFiles stat now (mf_poller M')))"
proof -
  have rec: "map_of (fileDatum (mf_poller (fold (register_path False stat j) ps N))) p =
      (if p \<in> set ps \<and> p \<noteq> [] then Some \<lparr>yCob = Some p, nCob = None, condition = fileTouchedCondInternal,
         modData = getFileModData stat p\<rparr> else map_of (fileDatum (mf_poller N)) p)" for j ps and N :: "'b MultiFilePoller"
    by (induction ps arbitrary: N)
      (auto simp: register_path_def Let_def addFileToTrack_def initFileData_def update_conv')
  have inv: "mf_inv M'"
    using mf_reach_inv [OF mf_register [OF assms(1-3)]] .
  have "mf_poller M' = mf_poller (fold (register_path False stat i) paths (M\<lparr>lastCallbackId := i\<rparr>))"
    by (rule registerFiles_result [OF assms(3)]) simp
  moreover have "map_of (fileDatum (mf_poller M')) [] = None"
    using inv by (auto simp: mf_inv_def tracks_def)
  ultimately have "\<not> file_changed stat (mf_poller M') p"
    using rec [of i paths "M\<lparr>lastCallbackId := i\<rparr>"] assms(4)
    by (cases "p = []") (auto simp: file_changed_def getFileModData_def split: option.splits)
  moreover have "tracks (mf_poller M') (dom (pathsToCallbackIds M'))" using inv by (simp add: mf_inv_def)
  ultimately show ?thesis using checkFiles_calls by fastforce
qed

theorem registering_forgets_changes_witness:
  "fst (checkFiles (\<lambda>p. Some 7) 9 (mf_poller sample_multi)) = [''a'', ''b''] \<and>
   ''b'' \<notin> set (fst (checkFiles (\<lambda>p. Some 7) 9 (mf_poller
     (snd (projr (registerFiles False (\<lambda>p. Some 7) [''b''] 3 sample_multi))))))"
proof -
  have "isl (registerFiles False (\<lambda>p. Some 7) [''b''] 3 sample_multi) = False" by code_simp
  then have reg: "registerFiles False (\<lambda>p. Some 7) [''b''] 3 sample_multi =
      Inr (fst (projr (registerFiles False (\<lambda>p. Some 7) [''b''] 3 sample_multi)),
        snd (projr (registerFiles False (\<lambda>p. Some 7) [''b''] 3 sample_multi)))" by simp
  have "fst (checkFiles (\<lambda>p. Some 7) 9 (mf_poller sample_multi)) = [''a'', ''b'']" by code_simp
  then show ?thesis
    using registering_forgets_changes [OF sample_multi_reach _ reg, of "''b''" 9] by simp
qed

text \<open>
  A path listed twice: after a callback is registered with \<open>registerFiles\<close> on the same path twice, on a
  path that no other callback was on, and then another callback on that path, cancelling the first one
  erases behind the end of the list of callbacks, which is undefined.
\<close>

theorem cancel_duplicate_path_undefined:
  assumes "registerFiles b1 stat1 [p, p] cb M = Inr (i, M1)" and "registerFiles b2 stat2 [p] cb' M1 = Inr (j, M2)"
    and "pathsToCallbackIds M p = None"
  shows "cancelCallback b3 i M2 = Inl Undefined"
proof -
  have M1: "pathsToCallbackIds M1 p = Some [i, i]" "idsToCallbacks M1 i = Some \<lparr>cd_files = [p, p], cd_cb = cb\<rparr>"
    by (rule registerFiles_result [OF assms(1)]; simp add: register_path_def Let_def assms(3))+
  have "idsToCallbacks M1 j = None" "pathsToCallbackIds M2 p = Some [i, i, j]"
    "idsToCallbacks M2 = (idsToCallbacks M1)(j \<mapsto> \<lparr>cd_files = [p], cd_cb = cb'\<rparr>)"
    by (rule registerFiles_result [OF assms(2)]; simp add: register_path_def Let_def M1)+
  moreover from this M1 have "j \<noteq> i" by auto
  ultimately have "j \<noteq> i" "pathsToCallbackIds M2 p = Some [i, i, j]"
    "idsToCallbacks M2 i = Some \<lparr>cd_files = [p, p], cd_cb = cb\<rparr>"
    using M1 by simp_all
  then show ?thesis by (simp add: cancelCallback_def erase_remove_def Let_def)
qed

theorem cancel_duplicate_path_undefined_witness:
  "cancelCallback False 1 (snd (projr (registerFiles False (\<lambda>p. None) [''a''] 2
     (snd (projr (registerFiles False (\<lambda>p. None) [''a'', ''a''] (1 :: nat)
       (fst (MultiFilePoller_new 10 None)))))))) = Inl Undefined"
proof -
  define M0 :: "nat MultiFilePoller" where "M0 = fst (MultiFilePoller_new 10 None)"
  define M1 where "M1 = snd (projr (registerFiles False (\<lambda>p. None) [''a'', ''a''] (1 :: nat) M0))"
  define M2 where "M2 = snd (projr (registerFiles False (\<lambda>p. None) [''a''] 2 M1))"
  have "isl (registerFiles False (\<lambda>p. None) [''a'', ''a''] (1 :: nat) M0) = False"
    "fst (projr (registerFiles False (\<lambda>p. None) [''a'', ''a''] (1 :: nat) M0)) = 1"
    unfolding M0_def by code_simp+
  then have r1: "registerFiles False (\<lambda>p. None) [''a'', ''a''] (1 :: nat) M0 = Inr (1, M1)"
    unfolding M1_def by (metis isl_def old.sum.exhaust prod.collapse sum.sel(2))
  have "isl (registerFiles False (\<lambda>p. None) [''a''] 2 M1) = False"
    unfolding M0_def M1_def by code_simp
  then have r2: "registerFiles False (\<lambda>p. None) [''a''] 2 M1 =
      Inr (fst (projr (registerFiles False (\<lambda>p. None) [''a''] 2 M1)), M2)"
    unfolding M2_def by simp
  have "pathsToCallbackIds M0 ''a'' = None" unfolding M0_def by code_simp
  from cancel_duplicate_path_undefined [OF r1 r2 this, of False] show ?thesis
    unfolding M2_def M1_def M0_def .
qed

end
