(* ===== verification/Acceptor_Core.thy ===== *)
theory Acceptor_Core
  imports Complex_Main Wangle_Prelude
begin

text \<open>
  \<open>acceptor/Acceptor.{h,cpp}\<close> with the load shedding it decides by (\<open>acceptor/LoadShedConfiguration.*\<close>,
  \<open>acceptor/NetworkAddress.h\<close>, \<open>acceptor/ConnectionCounter.h\<close>) and the handshakes it waits for
  (\<open>acceptor/AcceptorHandshakeManager.*\<close>): which connections are let in, the count of pending
  handshakes, and the way from running over draining to done.
\<close>

section \<open>Load shedding\<close>

subsection \<open>NetworkAddress\<close>

text \<open>
  Socket addresses are folly's: an ordered type with the IP address of each, the test of a common
  prefix, and the conversions from text, \<open>None\<close> where they throw.
\<close>

record ('a, 'i) address_ops =
  getIPAddress :: "'a \<Rightarrow> 'i"
  prefixMatch :: "'a \<Rightarrow> 'a \<Rightarrow> nat \<Rightarrow> bool"
  parse_address :: "string \<Rightarrow> 'a option"
  to_unsigned :: "string \<Rightarrow> nat option"

record 'a NetworkAddress =
  na_addr :: 'a
  na_prefixLen :: nat

definition NetworkAddress_contains :: "('a, 'i) address_ops \<Rightarrow> 'a NetworkAddress \<Rightarrow> 'a \<Rightarrow> bool" where
  "NetworkAddress_contains I n addr = prefixMatch I (na_addr n) addr (na_prefixLen n)"

definition NetworkAddress_less :: "'a::linorder NetworkAddress \<Rightarrow> 'a NetworkAddress \<Rightarrow> bool" where
  "NetworkAddress_less x y =
     (if na_addr x < na_addr y then True
      else if na_addr y < na_addr x then False
      else na_prefixLen x < na_prefixLen y)"

subsection \<open>LoadShedConfiguration\<close>

text \<open>A \<open>std::set\<close> is a list that is sorted by its comparison; an element that is already there stays.\<close>

definition AddressOnlyCompare :: "('a, 'i::linorder) address_ops \<Rightarrow> 'a \<Rightarrow> 'a \<Rightarrow> bool" where
  "AddressOnlyCompare I addr1 addr2 \<longleftrightarrow> getIPAddress I addr1 < getIPAddress I addr2"

definition set_find :: "('e \<Rightarrow> 'e \<Rightarrow> bool) \<Rightarrow> 'e \<Rightarrow> 'e list \<Rightarrow> bool" where
  "set_find lt x xs \<longleftrightarrow> list_ex (\<lambda>y. \<not> lt x y \<and> \<not> lt y x) xs"

definition set_insert :: "('e \<Rightarrow> 'e \<Rightarrow> bool) \<Rightarrow> 'e \<Rightarrow> 'e list \<Rightarrow> 'e list" where
  "set_insert lt x xs =
     (if set_find lt x xs then xs else takeWhile (\<lambda>y. lt y x) xs @ x # dropWhile (\<lambda>y. lt y x) xs)"

text \<open>The fractions are rationals here where the source has doubles, \<open>None\<close> before they are set.\<close>

record 'a LoadShedConfiguration =
  whitelistAddrs :: "'a list"
  whitelistNetworks :: "'a NetworkAddress list"
  maxConnections :: u64
  maxActiveConnections :: u64
  maxMemUsage :: "rat option"
  maxCpuUsage :: "rat option"
  minCpuIdle :: rat

definition LoadShedConfiguration_new :: "'a LoadShedConfiguration" where
  "LoadShedConfiguration_new =
     \<lparr>whitelistAddrs = [], whitelistNetworks = [], maxConnections = 0, maxActiveConnections = 0,
      maxMemUsage = None, maxCpuUsage = None, minCpuIdle = 0\<rparr>"

definition setMaxMemUsage :: "rat \<Rightarrow> 'a LoadShedConfiguration \<Rightarrow> cpp_exn + 'a LoadShedConfiguration" where
  "setMaxMemUsage x L = (if x \<ge> 0 \<and> x \<le> 1 then Inr (L\<lparr>maxMemUsage := Some x\<rparr>) else Inl CheckFailed)"

definition setMaxCpuUsage :: "rat \<Rightarrow> 'a LoadShedConfiguration \<Rightarrow> cpp_exn + 'a LoadShedConfiguration" where
  "setMaxCpuUsage x L = (if x \<ge> 0 \<and> x \<le> 1 then Inr (L\<lparr>maxCpuUsage := Some x\<rparr>) else Inl CheckFailed)"

definition setMinCpuIdle :: "rat \<Rightarrow> 'a LoadShedConfiguration \<Rightarrow> cpp_exn + 'a LoadShedConfiguration" where
  "setMinCpuIdle x L = (if x \<ge> 0 \<and> x \<le> 1 then Inr (L\<lparr>minCpuIdle := x\<rparr>) else Inl CheckFailed)"

text \<open>The text before the first slash and the text behind it, if there is one.\<close>

definition addWhitelistAddr :: "('a::linorder, 'i::linorder) address_ops \<Rightarrow> string \<Rightarrow> 'a LoadShedConfiguration
    \<Rightarrow> cpp_exn + 'a LoadShedConfiguration" where
  "addWhitelistAddr I input L =
     (let addr = takeWhile (\<lambda>c. c \<noteq> CHR ''/'') input;
          rest = dropWhile (\<lambda>c. c \<noteq> CHR ''/'') input in
      if rest = [] then
        (case parse_address I addr of
           None \<Rightarrow> Inl (InvalidArgument addr)
         | Some a \<Rightarrow> Inr (L\<lparr>whitelistAddrs := set_insert (AddressOnlyCompare I) a (whitelistAddrs L)\<rparr>))
      else
        (case to_unsigned I (tl rest) of
           None \<Rightarrow> Inl (RuntimeError (tl rest))
         | Some prefixLen \<Rightarrow>
             (case parse_address I addr of
                None \<Rightarrow> Inl (InvalidArgument addr)
              | Some a \<Rightarrow> Inr (L\<lparr>whitelistNetworks :=
                  set_insert NetworkAddress_less \<lparr>na_addr = a, na_prefixLen = prefixLen\<rparr> (whitelistNetworks L)\<rparr>))))"

definition isWhitelisted :: "('a, 'i::linorder) address_ops \<Rightarrow> 'a \<Rightarrow> 'a LoadShedConfiguration \<Rightarrow> bool" where
  "isWhitelisted I address L \<longleftrightarrow>
     (if set_find (AddressOnlyCompare I) address (whitelistAddrs L) then True
      else list_ex (\<lambda>network. NetworkAddress_contains I network address) (whitelistNetworks L))"

subsection \<open>ConnectionCounter\<close>

record SimpleConnectionCounter =
  cc_maxConnections :: u64
  cc_numConnections :: u64

definition counter_onConnectionAdded :: "SimpleConnectionCounter \<Rightarrow> SimpleConnectionCounter" where
  "counter_onConnectionAdded k = k\<lparr>cc_numConnections := cc_numConnections k + 1\<rparr>"

definition counter_onConnectionRemoved :: "SimpleConnectionCounter \<Rightarrow> SimpleConnectionCounter" where
  "counter_onConnectionRemoved k = k\<lparr>cc_numConnections := cc_numConnections k - 1\<rparr>"

section \<open>The acceptor\<close>

datatype AcceptorState = kInit | kRunning | kDraining | kDone

text \<open>
  The connection manager as the acceptor uses it. Each operation also tells whether the manager called
  \<open>onEmpty\<close>; the operations that close connections also list those connections, in order. Dropping all
  connections may not return, and draining may fail a CHECK.
\<close>

record 'w downstream_ops =
  dm_num :: "'w \<Rightarrow> nat"
  dm_add :: "nat \<Rightarrow> 'w \<Rightarrow> 'w \<times> bool"
  dm_remove :: "nat \<Rightarrow> 'w \<Rightarrow> 'w \<times> bool"
  dm_shutdown :: "nat \<Rightarrow> 'w \<Rightarrow> cpp_exn + 'w \<times> bool"
  dm_drain :: "rat \<Rightarrow> nat \<Rightarrow> 'w \<Rightarrow> cpp_exn + 'w \<times> bool"
  dm_dropAll :: "'w \<Rightarrow> ('w \<times> nat list) option"
  dm_dropSome :: "rat \<Rightarrow> 'w \<Rightarrow> 'w \<times> nat list"

datatype acceptor_event =
    ShedConnection nat
  | HandshakeStarted nat
  | HandshakeDropped nat
  | NewConnection nat
  | ConnectionsDrained

text \<open>
  Sockets, handshakes and connections are numbers. \<open>sslCtxManager\<close> is whether there is a manager of SSL
  contexts, and if so whether it has a default context. \<open>handshakes\<close> are the handshake managers that
  have not called back. The counter of pending handshakes of all acceptors is \<open>totalNumPendingSSLConns\<close>.
\<close>

record ('w, 'a) Acceptor =
  acc_isSSL :: bool
  maxConcurrentSSLHandshakes :: u32
  gracefulShutdownTimeout :: nat
  sslCtxManager :: "bool option"
  acc_eventBase :: "nat option"
  acc_state :: AcceptorState
  numPendingSSLConns :: u64
  totalNumPendingSSLConns :: u64
  forceShutdownInProgress :: bool
  loadShedConfig :: "'a LoadShedConfiguration"
  connectionCounter :: "SimpleConnectionCounter option"
  downstream :: "'w option"
  handshakes :: "nat list"
  acc_log :: "acceptor_event list"

definition acc_event :: "acceptor_event \<Rightarrow> ('w, 'a) Acceptor \<Rightarrow> ('w, 'a) Acceptor" where
  "acc_event e A = A\<lparr>acc_log := acc_log A @ [e]\<rparr>"

definition cpp_bind :: "cpp_exn + 'x \<Rightarrow> ('x \<Rightarrow> cpp_exn + 'y) \<Rightarrow> cpp_exn + 'y" where
  "cpp_bind r f = (case r of Inl e \<Rightarrow> Inl e | Inr x \<Rightarrow> f x)"

subsection \<open>Setting up\<close>

definition Acceptor_new :: "bool \<Rightarrow> u32 \<Rightarrow> ('w, 'a) Acceptor" where
  "Acceptor_new isSSL maxHandshakes =
     \<lparr>acc_isSSL = isSSL, maxConcurrentSSLHandshakes = maxHandshakes, gracefulShutdownTimeout = 5000,
      sslCtxManager = None, acc_eventBase = None, acc_state = kInit, numPendingSSLConns = 0, totalNumPendingSSLConns = 0,
      forceShutdownInProgress = False, loadShedConfig = LoadShedConfiguration_new, connectionCounter = None,
      downstream = None, handshakes = [], acc_log = []\<rparr>"

text \<open>
  \<open>init\<close> gives the acceptor its manager \<open>w\<close> in the event base \<open>base\<close>. \<open>contexts\<close> is what adding the
  configured SSL contexts comes to: an exception, or whether there is a default context in the end.
\<close>

definition initDownstreamConnectionManager :: "nat \<Rightarrow> 'w \<Rightarrow> ('w, 'a) Acceptor \<Rightarrow> cpp_exn + ('w, 'a) Acceptor" where
  "initDownstreamConnectionManager base w A =
     (if acc_eventBase A = None \<or> acc_eventBase A = Some base
      then Inr (A\<lparr>acc_eventBase := Some base, acc_state := kRunning, downstream := Some w\<rparr>)
      else Inl CheckFailed)"

definition Acceptor_init :: "bool \<Rightarrow> cpp_exn + bool \<Rightarrow> nat \<Rightarrow> 'w \<Rightarrow> ('w, 'a) Acceptor \<Rightarrow> cpp_exn + ('w, 'a) Acceptor" where
  "Acceptor_init strictSSL contexts base w A =
     cpp_bind
       (if acc_isSSL A then
          (case contexts of
             Inr True \<Rightarrow> Inr (A\<lparr>sslCtxManager := Some True\<rparr>)
           | Inr False \<Rightarrow> Inl CheckFailed
           | Inl e \<Rightarrow> if strictSSL then Inl e else Inr (A\<lparr>sslCtxManager := Some False\<rparr>))
        else Inr A)
       (initDownstreamConnectionManager base w)"

definition setLoadShedConfig :: "'a LoadShedConfiguration \<Rightarrow> SimpleConnectionCounter option \<Rightarrow> ('w, 'a) Acceptor \<Rightarrow> ('w, 'a) Acceptor" where
  "setLoadShedConfig from counter A = A\<lparr>loadShedConfig := from, connectionCounter := counter\<rparr>"

subsection \<open>Shedding\<close>

text \<open>\<open>totalCount\<close> and \<open>activeCount\<close> are the virtual counts for load shedding.\<close>

definition canAccept :: "('a, 'i::linorder) address_ops \<Rightarrow> u64 \<Rightarrow> u64 \<Rightarrow> 'a \<Rightarrow> ('w, 'a) Acceptor \<Rightarrow> bool" where
  "canAccept I totalCount activeCount address A =
     (case connectionCounter A of
        None \<Rightarrow> True
      | Some counter \<Rightarrow>
          (let totalConnLimit = maxConnections (loadShedConfig A) in
           if totalConnLimit = 0 then True
           else if cc_numConnections counter < cc_maxConnections counter then True
           else if isWhitelisted I address (loadShedConfig A) then True
           else
             (let totalConnExceeded = (totalConnLimit > 0 \<and> totalCount \<ge> totalConnLimit);
                  activeConnLimit = maxActiveConnections (loadShedConfig A);
                  activeConnExceeded = (\<not> totalConnExceeded \<and> activeConnLimit > 0 \<and> activeCount \<ge> activeConnLimit) in
              \<not> activeConnExceeded \<and> \<not> totalConnExceeded)))"

subsection \<open>Draining\<close>

definition checkDrained :: "'w downstream_ops \<Rightarrow> ('w, 'a) Acceptor \<Rightarrow> cpp_exn + ('w, 'a) Acceptor" where
  "checkDrained D A =
     (if acc_state A \<noteq> kDraining then Inl CheckFailed
      else if forceShutdownInProgress A then Inr A
      else case downstream A of
        None \<Rightarrow> Inl Undefined
      | Some w \<Rightarrow>
          if dm_num D w \<noteq> 0 \<or> numPendingSSLConns A \<noteq> 0 then Inr A
          else Inr (acc_event ConnectionsDrained (A\<lparr>downstream := None, acc_state := kDone\<rparr>)))"

definition Acceptor_onEmpty :: "'w downstream_ops \<Rightarrow> ('w, 'a) Acceptor \<Rightarrow> cpp_exn + ('w, 'a) Acceptor" where
  "Acceptor_onEmpty D A = (if acc_state A = kDraining then checkDrained D A else Inr A)"

text \<open>The acceptor after an operation of its manager, which may have called back.\<close>

definition after_manager :: "'w downstream_ops \<Rightarrow> ('w, 'a) Acceptor \<Rightarrow> 'w \<times> bool \<Rightarrow> cpp_exn + ('w, 'a) Acceptor" where
  "after_manager D A r =
     (let A1 = A\<lparr>downstream := Some (fst r)\<rparr> in if snd r then Acceptor_onEmpty D A1 else Inr A1)"

definition drainAllConnections :: "'w downstream_ops \<Rightarrow> ('w, 'a) Acceptor \<Rightarrow> cpp_exn + ('w, 'a) Acceptor" where
  "drainAllConnections D A =
     (case downstream A of
        None \<Rightarrow> Inr A
      | Some w \<Rightarrow> cpp_bind (dm_shutdown D (gracefulShutdownTimeout A) w) (after_manager D A))"

definition Acceptor_drainConnections :: "'w downstream_ops \<Rightarrow> rat \<Rightarrow> ('w, 'a) Acceptor \<Rightarrow> cpp_exn + ('w, 'a) Acceptor" where
  "Acceptor_drainConnections D pctToDrain A =
     (case downstream A of
        None \<Rightarrow> Inr A
      | Some w \<Rightarrow> cpp_bind (dm_drain D pctToDrain (gracefulShutdownTimeout A) w) (after_manager D A))"

definition acceptStopped :: "'w downstream_ops \<Rightarrow> ('w, 'a) Acceptor \<Rightarrow> cpp_exn + ('w, 'a) Acceptor" where
  "acceptStopped D A =
     cpp_bind (drainAllConnections D A)
       (\<lambda>A1. if acc_state A1 \<noteq> kDone then checkDrained D (A1\<lparr>acc_state := kDraining\<rparr>) else Inr A1)"

subsection \<open>Connections\<close>

definition Acceptor_addConnection :: "'w downstream_ops \<Rightarrow> nat \<Rightarrow> ('w, 'a) Acceptor \<Rightarrow> cpp_exn + ('w, 'a) Acceptor" where
  "Acceptor_addConnection D c A =
     (case downstream A of
        None \<Rightarrow> Inl Undefined
      | Some w \<Rightarrow> after_manager D A (dm_add D c w))"

text \<open>
  The virtual \<open>onNewConnection\<close> is logged; \<open>app\<close> is the connection the application makes of the socket
  and adds, if it does.
\<close>

definition connectionReady :: "'w downstream_ops \<Rightarrow> nat \<Rightarrow> nat option \<Rightarrow> ('w, 'a) Acceptor \<Rightarrow> cpp_exn + ('w, 'a) Acceptor" where
  "connectionReady D sock app A =
     (if acc_state A = kInit \<or> acc_state A = kRunning then
        (let A1 = acc_event (NewConnection sock) A in
         case app of None \<Rightarrow> Inr A1 | Some c \<Rightarrow> Acceptor_addConnection D c A1)
      else Inr A)"

definition sslConnectionReady :: "'w downstream_ops \<Rightarrow> nat \<Rightarrow> nat option \<Rightarrow> ('w, 'a) Acceptor \<Rightarrow> cpp_exn + ('w, 'a) Acceptor" where
  "sslConnectionReady D sock app A =
     (if \<not> numPendingSSLConns A > 0 then Inl CheckFailed
      else cpp_bind (connectionReady D sock app (A\<lparr>numPendingSSLConns := numPendingSSLConns A - 1,
             totalNumPendingSSLConns := totalNumPendingSSLConns A - 1\<rparr>))
        (\<lambda>A1. if acc_state A1 = kDraining then checkDrained D A1 else Inr A1))"

definition sslConnectionError :: "'w downstream_ops \<Rightarrow> ('w, 'a) Acceptor \<Rightarrow> cpp_exn + ('w, 'a) Acceptor" where
  "sslConnectionError D A =
     (if \<not> numPendingSSLConns A > 0 then Inl CheckFailed
      else
        (let A1 = A\<lparr>numPendingSSLConns := numPendingSSLConns A - 1,
               totalNumPendingSSLConns := totalNumPendingSSLConns A - 1\<rparr> in
         if acc_state A1 = kDraining then checkDrained D A1 else Inr A1))"

subsection \<open>Handshakes\<close>

text \<open>
  An \<open>AcceptorHandshakeManager\<close> is registered as a connection until its helper calls back, in a later
  iteration of the event loop; \<open>startHandshakeTimeout\<close> only arms a timer whose expiry makes the helper
  call back with an error.
\<close>

definition hm_start :: "'w downstream_ops \<Rightarrow> nat \<Rightarrow> ('w, 'a) Acceptor \<Rightarrow> cpp_exn + ('w, 'a) Acceptor" where
  "hm_start D h A =
     cpp_bind (Acceptor_addConnection D h A)
       (\<lambda>A1. Inr (acc_event (HandshakeStarted h) (A1\<lparr>handshakes := handshakes A1 @ [h]\<rparr>)))"

definition hm_leave :: "'w downstream_ops \<Rightarrow> nat \<Rightarrow> ('w, 'a) Acceptor \<Rightarrow> cpp_exn + ('w, 'a) Acceptor" where
  "hm_leave D h A =
     (case downstream A of
        None \<Rightarrow> Inl Undefined
      | Some w \<Rightarrow> after_manager D (A\<lparr>handshakes := remove1 h (handshakes A)\<rparr>) (dm_remove D h w))"

definition hm_connectionReady :: "'w downstream_ops \<Rightarrow> nat \<Rightarrow> nat option \<Rightarrow> ('w, 'a) Acceptor \<Rightarrow> cpp_exn + ('w, 'a) Acceptor" where
  "hm_connectionReady D h app A = cpp_bind (hm_leave D h A) (sslConnectionReady D h app)"

definition hm_connectionError :: "'w downstream_ops \<Rightarrow> nat \<Rightarrow> ('w, 'a) Acceptor \<Rightarrow> cpp_exn + ('w, 'a) Acceptor" where
  "hm_connectionError D h A = cpp_bind (hm_leave D h A) (sslConnectionError D)"

subsection \<open>Accepting\<close>

definition processEstablishedConnection :: "'w downstream_ops \<Rightarrow> nat \<Rightarrow> nat option \<Rightarrow> ('w, 'a) Acceptor
    \<Rightarrow> cpp_exn + ('w, 'a) Acceptor" where
  "processEstablishedConnection D fd app A =
     (if acc_isSSL A \<and> sslCtxManager A = None then Inl CheckFailed
      else if acc_isSSL A \<and> sslCtxManager A = Some True then
        (let A1 = A\<lparr>numPendingSSLConns := numPendingSSLConns A + 1,
               totalNumPendingSSLConns := totalNumPendingSSLConns A + 1\<rparr> in
         if numPendingSSLConns A1 > ucast (maxConcurrentSSLHandshakes A1)
         then sslConnectionError D (acc_event (HandshakeDropped fd) A1)
         else hm_start D fd A1)
      else connectionReady D fd app A)"

definition connectionAccepted :: "('a, 'i::linorder) address_ops \<Rightarrow> 'w downstream_ops \<Rightarrow> u64 \<Rightarrow> u64 \<Rightarrow> nat \<Rightarrow> 'a
    \<Rightarrow> nat option \<Rightarrow> ('w, 'a) Acceptor \<Rightarrow> cpp_exn + ('w, 'a) Acceptor" where
  "connectionAccepted I D totalCount activeCount fd clientAddr app A =
     (if \<not> canAccept I totalCount activeCount clientAddr A then Inr (acc_event (ShedConnection fd) A)
      else processEstablishedConnection D fd app A)"

subsection \<open>Dropping\<close>

text \<open>The handshakes among the dropped connections call back with an error while they are dropped.\<close>

fun drop_handshakes :: "'w downstream_ops \<Rightarrow> nat list \<Rightarrow> ('w, 'a) Acceptor \<Rightarrow> cpp_exn + ('w, 'a) Acceptor" where
  "drop_handshakes D [] A = Inr A"
| "drop_handshakes D (c # cs) A =
     (if c \<in> set (handshakes A) then cpp_bind (hm_connectionError D c A) (drop_handshakes D cs)
      else drop_handshakes D cs A)"

definition Acceptor_dropAllConnections :: "'w downstream_ops \<Rightarrow> ('w, 'a) Acceptor \<Rightarrow> (cpp_exn + ('w, 'a) Acceptor) option" where
  "Acceptor_dropAllConnections D A =
     map_option (\<lambda>r. cpp_bind r (\<lambda>A1.
        if numPendingSSLConns A1 \<noteq> 0 then Inl CheckFailed
        else Inr (acc_event ConnectionsDrained (A1\<lparr>acc_state := kDone\<rparr>))))
       (case downstream A of
          None \<Rightarrow> Some (Inr A)
        | Some w \<Rightarrow>
            map_option (\<lambda>(w1, dropped).
              cpp_bind (drop_handshakes D dropped (A\<lparr>forceShutdownInProgress := True, downstream := Some w1\<rparr>))
                (\<lambda>A1. case downstream A1 of
                   None \<Rightarrow> Inl Undefined
                 | Some w2 \<Rightarrow> if dm_num D w2 \<noteq> 0 then Inl CheckFailed else Inr (A1\<lparr>downstream := None\<rparr>)))
              (dm_dropAll D w))"

definition Acceptor_dropConnections :: "'w downstream_ops \<Rightarrow> rat \<Rightarrow> ('w, 'a) Acceptor \<Rightarrow> cpp_exn + ('w, 'a) Acceptor" where
  "Acceptor_dropConnections D pctToDrop A =
     (case downstream A of
        None \<Rightarrow> Inr A
      | Some w \<Rightarrow>
          (case dm_dropSome D pctToDrop w of
             (w1, dropped) \<Rightarrow> drop_handshakes D dropped (A\<lparr>forceShutdownInProgress := True, downstream := Some w1\<rparr>)))"

end
