(* ===== verification/Acceptor_Core_Props.thy ===== *)
theory Acceptor_Core_Props
  imports Acceptor_Core
begin

text \<open>
  The acceptor over any connection manager that keeps its promises: the count of pending handshakes is
  right, an acceptor that has stopped becomes done as soon as its last connection is gone, and says so
  once. The connection manager of \<open>Acceptor_Connections\<close> keeps those promises.
\<close>

named_theorems acc_simps

lemma cpp_bind_simps [simp]: "cpp_bind (Inr x) f = f x" "cpp_bind (Inl e) f = Inl e"
  by (simp_all add: cpp_bind_def)

lemma acc_event_fields [acc_simps]:
  "acc_state (acc_event e A) = acc_state A" "downstream (acc_event e A) = downstream A"
  "handshakes (acc_event e A) = handshakes A" "numPendingSSLConns (acc_event e A) = numPendingSSLConns A"
  "forceShutdownInProgress (acc_event e A) = forceShutdownInProgress A"
  "maxConcurrentSSLHandshakes (acc_event e A) = maxConcurrentSSLHandshakes A"
  "acc_isSSL (acc_event e A) = acc_isSSL A" "sslCtxManager (acc_event e A) = sslCtxManager A"
  "acc_log (acc_event e A) = acc_log A @ [e]"
  by (simp_all add: acc_event_def)

section \<open>Runs of an acceptor\<close>

text \<open>
  What happens to an acceptor: a socket is accepted, a handshake succeeds or fails, a connection closes,
  the server socket stops accepting. The server socket accepts nothing after that, and a handshake
  calls back once; anything else in a list of events is passed over. The client's address and the
  counts for load shedding are given with a socket, and so is the connection the application makes.
\<close>

datatype 'a acceptor_op =
    Accepted nat 'a u64 u64 "nat option"
  | HandshakeReady nat "nat option"
  | HandshakeError nat
  | ConnectionClosed nat
  | AcceptStopped

definition acc_enabled :: "'a acceptor_op \<Rightarrow> ('w, 'a) Acceptor \<Rightarrow> bool" where
  "acc_enabled x A \<longleftrightarrow>
     (case x of
        Accepted fd addr t a app \<Rightarrow> acc_state A = kRunning \<and> fd \<notin> set (handshakes A)
      | HandshakeReady h app \<Rightarrow> h \<in> set (handshakes A)
      | HandshakeError h \<Rightarrow> h \<in> set (handshakes A)
      | ConnectionClosed c \<Rightarrow> c \<notin> set (handshakes A)
      | AcceptStopped \<Rightarrow> True)"

definition connection_closed :: "'w downstream_ops \<Rightarrow> nat \<Rightarrow> ('w, 'a) Acceptor \<Rightarrow> cpp_exn + ('w, 'a) Acceptor" where
  "connection_closed D c A =
     (case downstream A of None \<Rightarrow> Inr A | Some w \<Rightarrow> after_manager D A (dm_remove D c w))"

definition acc_do :: "('a, 'i::linorder) address_ops \<Rightarrow> 'w downstream_ops \<Rightarrow> 'a acceptor_op \<Rightarrow> ('w, 'a) Acceptor
    \<Rightarrow> cpp_exn + ('w, 'a) Acceptor" where
  "acc_do I D x A =
     (case x of
        Accepted fd addr t a app \<Rightarrow> connectionAccepted I D t a fd addr app A
      | HandshakeReady h app \<Rightarrow> hm_connectionReady D h app A
      | HandshakeError h \<Rightarrow> hm_connectionError D h A
      | ConnectionClosed c \<Rightarrow> connection_closed D c A
      | AcceptStopped \<Rightarrow> acceptStopped D A)"

fun acc_run :: "('a, 'i::linorder) address_ops \<Rightarrow> 'w downstream_ops \<Rightarrow> 'a acceptor_op list \<Rightarrow> ('w, 'a) Acceptor
    \<Rightarrow> cpp_exn + ('w, 'a) Acceptor" where
  "acc_run I D [] A = Inr A"
| "acc_run I D (x # xs) A =
     (if acc_enabled x A then cpp_bind (acc_do I D x A) (acc_run I D xs) else acc_run I D xs A)"

section \<open>The interface to the connection manager\<close>

text \<open>
  \<open>dconns\<close> are the connections a manager has. It tells when it becomes empty; a connection that is
  removed is gone; a graceful shutdown can be started.
\<close>

definition tells_empty :: "('w \<Rightarrow> nat list) \<Rightarrow> 'w \<Rightarrow> 'w \<times> bool \<Rightarrow> bool" where
  "tells_empty dconns w r \<longleftrightarrow> (dconns (fst r) = [] \<longrightarrow> dconns w = [] \<or> snd r)"

locale downstream_manager =
  fixes D :: "'w downstream_ops" and dconns :: "'w \<Rightarrow> nat list" and dok :: "'w \<Rightarrow> bool"
  assumes dm_num: "dok w \<Longrightarrow> dm_num D w = length (dconns w)"
    and dm_add: "dok w \<Longrightarrow> dok (fst (dm_add D c w)) \<and> tells_empty dconns w (dm_add D c w)"
    and dm_remove: "dok w \<Longrightarrow> dok (fst (dm_remove D c w)) \<and> tells_empty dconns w (dm_remove D c w) \<and>
      set (dconns (fst (dm_remove D c w))) = set (dconns w) - {c}"
    and dm_shutdown: "dok w \<Longrightarrow> \<exists>r. dm_shutdown D g w = Inr r \<and> dok (fst r) \<and> tells_empty dconns w r"
begin

definition acc_base :: "('w, 'a) Acceptor \<Rightarrow> bool" where
  "acc_base A \<longleftrightarrow> \<not> forceShutdownInProgress A \<and> (acc_isSSL A \<longrightarrow> sslCtxManager A \<noteq> None) \<and>
     unat (numPendingSSLConns A) = length (handshakes A) \<and>
     length (handshakes A) \<le> unat (maxConcurrentSSLHandshakes A)"

definition waits_for :: "'w \<Rightarrow> ('w, 'a) Acceptor \<Rightarrow> bool" where
  "waits_for w A \<longleftrightarrow> dconns w \<noteq> [] \<or> handshakes A \<noteq> []"

definition acc_inv :: "('w, 'a) Acceptor \<Rightarrow> bool" where
  "acc_inv A \<longleftrightarrow> acc_base A \<and>
     (case acc_state A of
        kInit \<Rightarrow> False
      | kRunning \<Rightarrow> (\<exists>w. downstream A = Some w \<and> dok w)
      | kDraining \<Rightarrow> (\<exists>w. downstream A = Some w \<and> dok w \<and> waits_for w A)
      | kDone \<Rightarrow> downstream A = None \<and> handshakes A = []) \<and>
     count_list (acc_log A) ConnectionsDrained = (if acc_state A = kDone then 1 else 0)"

lemma pending_zero: "acc_base A \<Longrightarrow> numPendingSSLConns A = 0 \<longleftrightarrow> handshakes A = []"
  by (metis acc_base_def length_0_conv unat_0 unsigned_word_eqI unsigned_0)

lemma checkDrained_ok:
  assumes "acc_base A" "acc_state A = kDraining" "downstream A = Some w" "dok w"
    "count_list (acc_log A) ConnectionsDrained = 0"
  shows "\<exists>A'. checkDrained D A = Inr A' \<and> acc_inv A' \<and> acc_state A' \<in> {kDraining, kDone}"
proof (cases "waits_for w A")
  case True
  then have "checkDrained D A = Inr A"
    using assms pending_zero [OF assms(1)] by (auto simp: checkDrained_def acc_base_def dm_num waits_for_def)
  then show ?thesis using assms True by (auto simp: acc_inv_def)
next
  case False
  then have "checkDrained D A = Inr (acc_event ConnectionsDrained (A\<lparr>downstream := None, acc_state := kDone\<rparr>))"
    using assms pending_zero [OF assms(1)] by (auto simp: checkDrained_def acc_base_def dm_num waits_for_def)
  then show ?thesis using assms False by (auto simp: acc_inv_def acc_base_def acc_simps waits_for_def)
qed

lemma after_manager_ok:
  assumes inv: "acc_inv A" and w: "downstream A = Some w" and ok: "dok (fst r)" and tells: "tells_empty dconns w r"
  shows "\<exists>A'. after_manager D A r = Inr A' \<and> acc_inv A' \<and>
    (acc_state A' = acc_state A \<or> acc_state A = kDraining \<and> acc_state A' = kDone)"
proof (cases "acc_state A = kDraining")
  case False
  then have "after_manager D A r = Inr (A\<lparr>downstream := Some (fst r)\<rparr>)"
    by (simp add: after_manager_def Acceptor_onEmpty_def Let_def)
  moreover have "acc_state A = kRunning"
    using inv w False by (simp add: acc_inv_def split: AcceptorState.splits)
  ultimately show ?thesis
    using inv ok by (simp add: acc_inv_def acc_base_def)
next
  case True
  show ?thesis
  proof (cases "snd r")
    case True
    have "acc_base (A\<lparr>downstream := Some (fst r)\<rparr>)" using inv by (simp add: acc_inv_def acc_base_def)
    from checkDrained_ok [OF this _ _ ok] inv \<open>acc_state A = kDraining\<close> True show ?thesis
      by (auto simp: after_manager_def Acceptor_onEmpty_def acc_inv_def Let_def)
  next
    case False
    then show ?thesis
      using inv w ok tells \<open>acc_state A = kDraining\<close>
      by (auto simp: after_manager_def acc_inv_def acc_base_def waits_for_def tells_empty_def Let_def)
  qed
qed

lemma drainAll_ok:
  assumes inv: "acc_inv A"
  shows "\<exists>A'. drainAllConnections D A = Inr A' \<and> acc_inv A' \<and>
    (acc_state A' = acc_state A \<or> acc_state A = kDraining \<and> acc_state A' = kDone)"
proof (cases "downstream A")
  case None
  then show ?thesis using inv by (simp add: drainAllConnections_def)
next
  case (Some w)
  then have "dok w" using inv by (auto simp: acc_inv_def split: AcceptorState.splits)
  then obtain r where r: "dm_shutdown D (gracefulShutdownTimeout A) w = Inr r" "dok (fst r)" "tells_empty dconns w r"
    using dm_shutdown by blast
  from after_manager_ok [OF inv Some r(2,3)] show ?thesis
    by (simp add: drainAllConnections_def Some r(1))
qed

lemma acceptStopped_ok:
  assumes "acc_inv A"
  shows "\<exists>A'. acceptStopped D A = Inr A' \<and> acc_inv A' \<and> acc_state A' \<in> {kDraining, kDone}"
proof -
  obtain A1 where A1: "drainAllConnections D A = Inr A1" "acc_inv A1" using drainAll_ok [OF assms] by blast
  show ?thesis
  proof (cases "acc_state A1 = kDone")
    case True
    then show ?thesis using A1 by (simp add: acceptStopped_def)
  next
    case False
    then obtain w where "downstream A1 = Some w" "dok w"
      using A1(2) by (auto simp: acc_inv_def split: AcceptorState.splits)
    with checkDrained_ok [of "A1\<lparr>acc_state := kDraining\<rparr>" w] A1 False show ?thesis
      by (simp add: acceptStopped_def acc_inv_def acc_base_def)
  qed
qed

lemma addConnection_ok:
  assumes "acc_inv A" "downstream A = Some w"
  shows "\<exists>A'. Acceptor_addConnection D c A = Inr A' \<and> acc_inv A' \<and>
    (acc_state A' = acc_state A \<or> acc_state A = kDraining \<and> acc_state A' = kDone)"
proof -
  have "dok w" using assms by (auto simp: acc_inv_def split: AcceptorState.splits)
  from after_manager_ok [OF assms conjunct1 [OF dm_add [OF this]] conjunct2 [OF dm_add [OF this]]]
  show ?thesis by (simp add: Acceptor_addConnection_def assms(2))
qed

lemma inv_event: "e \<noteq> ConnectionsDrained \<Longrightarrow> acc_inv (acc_event e A) = acc_inv A"
  unfolding acc_inv_def acc_base_def waits_for_def acc_simps by simp

lemma connectionReady_ok:
  assumes "acc_inv A"
  shows "\<exists>A'. connectionReady D s app A = Inr A' \<and> acc_inv A' \<and> acc_state A' = acc_state A"
proof (cases "acc_state A = kRunning")
  case True
  have inv: "acc_inv (acc_event (NewConnection s) A)" using assms by (simp add: inv_event)
  obtain w where "downstream (acc_event (NewConnection s) A) = Some w"
    using assms True by (auto simp: acc_inv_def acc_simps)
  from addConnection_ok [OF inv this] inv True show ?thesis
    by (auto simp: connectionReady_def Let_def acc_simps split: option.splits)
next
  case False
  then show ?thesis using assms by (auto simp: connectionReady_def acc_inv_def split: AcceptorState.splits)
qed

text \<open>Between the two parts of a handshake's callback the count is one more than the handshakes left.\<close>

lemma hm_leave_eq:
  assumes inv: "acc_inv A" and h: "h \<in> set (handshakes A)"
  obtains w where "downstream A = Some w" "dok w"
    "hm_leave D h A = Inr (A\<lparr>handshakes := remove1 h (handshakes A), downstream := Some (fst (dm_remove D h w))\<rparr>)"
    "dok (fst (dm_remove D h w))"
proof -
  obtain w where w: "downstream A = Some w" "dok w"
    using inv h by (auto simp: acc_inv_def split: AcceptorState.splits)
  have "numPendingSSLConns A \<noteq> 0" "\<not> forceShutdownInProgress A"
    using inv h pending_zero [of A] by (auto simp: acc_inv_def acc_base_def)
  then have "hm_leave D h A = Inr (A\<lparr>handshakes := remove1 h (handshakes A), downstream := Some (fst (dm_remove D h w))\<rparr>)"
    by (simp add: hm_leave_def w after_manager_def Acceptor_onEmpty_def checkDrained_def Let_def)
  then show ?thesis using that w dm_remove by blast
qed

text \<open>One handshake fewer, with its connection removed from the manager.\<close>

definition less_one :: "nat \<Rightarrow> 'w \<Rightarrow> ('w, 'a) Acceptor \<Rightarrow> ('w, 'a) Acceptor" where
  "less_one h w A = A\<lparr>handshakes := remove1 h (handshakes A), downstream := Some w,
     numPendingSSLConns := numPendingSSLConns A - 1, totalNumPendingSSLConns := totalNumPendingSSLConns A - 1\<rparr>"

lemma less_one_ok:
  assumes "acc_inv A" "h \<in> set (handshakes A)" "dok w"
  shows "acc_base (less_one h w A)" "acc_state A = kRunning \<Longrightarrow> acc_inv (less_one h w A)"
    "count_list (acc_log (less_one h w A)) ConnectionsDrained = 0" "acc_state A \<in> {kRunning, kDraining}"
    "numPendingSSLConns A > 0"
proof -
  have n: "unat (numPendingSSLConns A) = length (handshakes A)" and "length (handshakes A) > 0"
    using assms by (auto simp: acc_inv_def acc_base_def)
  then have pos: "numPendingSSLConns A > 0" by (metis unat_0 word_gt_0 less_numeral_extra(3))
  then have "unat (numPendingSSLConns A - 1) = length (handshakes A) - 1"
    using n by (metis unat_minus_one word_gt_0)
  then show base: "acc_base (less_one h w A)"
    using assms by (auto simp: acc_inv_def acc_base_def less_one_def length_remove1)
  show st: "acc_state A \<in> {kRunning, kDraining}"
    using assms by (auto simp: acc_inv_def split: AcceptorState.splits)
  then show "count_list (acc_log (less_one h w A)) ConnectionsDrained = 0"
    using assms by (auto simp: acc_inv_def less_one_def)
  then show "acc_state A = kRunning \<Longrightarrow> acc_inv (less_one h w A)"
    using base assms by (auto simp: acc_inv_def less_one_def)
  show "numPendingSSLConns A > 0" by (rule pos)
qed

lemma handshake_ok:
  assumes inv: "acc_inv A" and h: "h \<in> set (handshakes A)"
  shows "\<exists>A'. hm_connectionError D h A = Inr A' \<and> acc_inv A' \<and>
      (acc_state A' = acc_state A \<or> acc_state A = kDraining \<and> acc_state A' = kDone)"
    "\<exists>A'. hm_connectionReady D h app A = Inr A' \<and> acc_inv A' \<and>
      (acc_state A' = acc_state A \<or> acc_state A = kDraining \<and> acc_state A' = kDone)"
proof -
  obtain w where leave: "hm_leave D h A = Inr (A\<lparr>handshakes := remove1 h (handshakes A),
      downstream := Some (fst (dm_remove D h w))\<rparr>)" and ok: "dok (fst (dm_remove D h w))"
    by (rule hm_leave_eq [OF inv h])
  let ?A = "less_one h (fst (dm_remove D h w)) A"
  note l = less_one_ok [OF inv h ok]
  have err: "hm_connectionError D h A = (if acc_state A = kDraining then checkDrained D ?A else Inr ?A)"
    using l(5) by (simp add: hm_connectionError_def leave sslConnectionError_def less_one_def Let_def)
  have st: "acc_state ?A = acc_state A" "downstream ?A = Some (fst (dm_remove D h w))" by (simp_all add: less_one_def)
  have ready: "hm_connectionReady D h app A =
      cpp_bind (connectionReady D h app ?A) (\<lambda>A1. if acc_state A1 = kDraining then checkDrained D A1 else Inr A1)"
    using l(5) by (simp add: hm_connectionReady_def leave sslConnectionReady_def less_one_def)
  have drain: "\<exists>A'. checkDrained D ?A = Inr A' \<and> acc_inv A' \<and> acc_state A' \<in> {kDraining, kDone}"
    if "acc_state A = kDraining"
    using checkDrained_ok [OF l(1) _ st(2) ok l(3)] that st(1) by simp
  show "\<exists>A'. hm_connectionError D h A = Inr A' \<and> acc_inv A' \<and>
      (acc_state A' = acc_state A \<or> acc_state A = kDraining \<and> acc_state A' = kDone)"
    using drain l(2,4) st unfolding err by auto
  have "connectionReady D h app ?A = Inr ?A" if "acc_state A = kDraining"
    using that st by (simp add: connectionReady_def)
  then show "\<exists>A'. hm_connectionReady D h app A = Inr A' \<and> acc_inv A' \<and>
      (acc_state A' = acc_state A \<or> acc_state A = kDraining \<and> acc_state A' = kDone)"
    using drain l(2,4) st(1) connectionReady_ok [of ?A h app] unfolding ready by auto
qed

lemma init_ok:
  assumes "Acceptor_init strictSSL contexts base w (Acceptor_new isSSL n) = Inr A" "dok w"
  shows "acc_inv A \<and> acc_state A = kRunning"
  using assms
  by (auto simp: Acceptor_init_def Acceptor_new_def initDownstreamConnectionManager_def acc_inv_def acc_base_def
      split: if_splits sum.splits bool.splits)

lemma pending_plus_one:
  assumes "acc_base A"
  shows "unat (numPendingSSLConns A + 1) = length (handshakes A) + 1"
proof -
  have "unat (maxConcurrentSSLHandshakes A) < 2 ^ 32" by (rule unat_less_32)
  then have "unat (numPendingSSLConns A) + 1 < 2 ^ 64" and n: "unat (numPendingSSLConns A) = length (handshakes A)"
    using assms by (auto simp: acc_base_def)
  then show ?thesis by (simp add: unat_word_ariths)
qed

lemma process_ok:
  assumes inv: "acc_inv A" and run: "acc_state A = kRunning"
  shows "\<exists>A'. processEstablishedConnection D fd app A = Inr A' \<and> acc_inv A' \<and> acc_state A' = kRunning"
proof (cases "acc_isSSL A \<and> sslCtxManager A = Some True")
  case False
  moreover have "\<not> (acc_isSSL A \<and> sslCtxManager A = None)" using inv by (auto simp: acc_inv_def acc_base_def)
  ultimately show ?thesis
    using connectionReady_ok [OF inv, of fd app] run by (auto simp: processEstablishedConnection_def)
next
  case True
  let ?A = "A\<lparr>numPendingSSLConns := numPendingSSLConns A + 1, totalNumPendingSSLConns := totalNumPendingSSLConns A + 1\<rparr>"
  obtain w where w: "downstream A = Some w" "dok w" using inv run by (auto simp: acc_inv_def)
  have base: "acc_base A" and log: "count_list (acc_log A) ConnectionsDrained = 0"
    using inv run by (simp_all add: acc_inv_def)
  note plus = pending_plus_one [OF base]
  then have pos: "numPendingSSLConns A + 1 > 0" by (metis add_is_0 unat_0 word_gt_0 zero_neq_one)
  show ?thesis
  proof (cases "numPendingSSLConns A + 1 > ucast (maxConcurrentSSLHandshakes A)")
    case drop: True
    have "processEstablishedConnection D fd app A = Inr (acc_event (HandshakeDropped fd) A)"
      using True drop pos run by (simp add: processEstablishedConnection_def sslConnectionError_def Let_def acc_event_def)
    then show ?thesis using inv run by (simp add: inv_event acc_simps)
  next
    case False
    then have "length (handshakes A) + 1 \<le> unat (maxConcurrentSSLHandshakes A)"
      using plus by (simp add: word_less_nat_alt not_less)
    moreover have "processEstablishedConnection D fd app A = Inr (acc_event (HandshakeStarted fd)
        (?A\<lparr>downstream := Some (fst (dm_add D fd w)), handshakes := handshakes A @ [fd]\<rparr>))"
      using True False run w by (simp add: processEstablishedConnection_def hm_start_def Acceptor_addConnection_def
          after_manager_def Acceptor_onEmpty_def Let_def)
    moreover have "dok (fst (dm_add D fd w))" using dm_add w(2) by blast
    ultimately show ?thesis
      using base run log plus by (simp add: acc_inv_def acc_base_def acc_simps)
  qed
qed

lemma acc_do_ok:
  assumes inv: "acc_inv A" and en: "acc_enabled x A"
  shows "\<exists>A'. acc_do I D x A = Inr A' \<and> acc_inv A' \<and>
    (if x = AcceptStopped then acc_state A' \<in> {kDraining, kDone}
     else acc_state A' = acc_state A \<or> acc_state A = kDraining \<and> acc_state A' = kDone)"
proof (cases x)
  case (Accepted fd addr t a app)
  with en inv process_ok [OF inv, of fd app] show ?thesis
    by (auto simp: acc_do_def acc_enabled_def connectionAccepted_def inv_event acc_simps)
next
  case (HandshakeReady h app)
  with en handshake_ok(2) [OF inv, of h app] show ?thesis by (simp add: acc_do_def acc_enabled_def)
next
  case (HandshakeError h)
  with en handshake_ok(1) [OF inv, of h] show ?thesis by (simp add: acc_do_def acc_enabled_def)
next
  case (ConnectionClosed c)
  show ?thesis
  proof (cases "downstream A")
    case None
    then show ?thesis using inv ConnectionClosed by (simp add: acc_do_def connection_closed_def)
  next
    case (Some w)
    then have "dok w" using inv by (auto simp: acc_inv_def split: AcceptorState.splits)
    with after_manager_ok [OF inv Some] dm_remove [of w c] ConnectionClosed Some show ?thesis
      by (simp add: acc_do_def connection_closed_def)
  qed
next
  case AcceptStopped
  with acceptStopped_ok [OF inv] show ?thesis by (simp add: acc_do_def)
qed

lemma acc_run_ok:
  assumes "acc_inv A"
  shows "\<exists>A'. acc_run I D xs A = Inr A' \<and> acc_inv A' \<and>
    (if AcceptStopped \<in> set xs then acc_state A' \<in> {kDraining, kDone}
     else acc_state A' = acc_state A \<or> acc_state A = kDraining \<and> acc_state A' = kDone)"
  using assms
proof (induction xs arbitrary: A)
  case (Cons x xs)
  show ?case
  proof (cases "acc_enabled x A")
    case False
    then have "x \<noteq> AcceptStopped" by (auto simp: acc_enabled_def)
    with False Cons show ?thesis by auto
  next
    case True
    from acc_do_ok [OF Cons.prems True] obtain A1 where A1: "acc_do I D x A = Inr A1" "acc_inv A1"
      "if x = AcceptStopped then acc_state A1 \<in> {kDraining, kDone}
       else acc_state A1 = acc_state A \<or> acc_state A = kDraining \<and> acc_state A1 = kDone" by blast
    from Cons.IH [OF A1(2)] A1(1,3) True show ?thesis by (auto split: if_splits)
  qed
qed simp

end

section \<open>Dropping some connections\<close>

text \<open>Once the flag of a forced shutdown is set, nothing but dropping all connections makes the acceptor done.\<close>

definition stuck :: "('w, 'a) Acceptor \<Rightarrow> bool" where
  "stuck A \<longleftrightarrow> forceShutdownInProgress A \<and> acc_state A \<noteq> kDone \<and> ConnectionsDrained \<notin> set (acc_log A)"

lemma stuck_check: "stuck A \<Longrightarrow> checkDrained D A = Inr A' \<Longrightarrow> stuck A'"
  by (auto simp: checkDrained_def stuck_def split: if_splits)

lemma stuck_after: "stuck A \<Longrightarrow> after_manager D A r = Inr A' \<Longrightarrow> stuck A'"
  using stuck_check [of "A\<lparr>downstream := Some (fst r)\<rparr>" D A']
  by (auto simp: after_manager_def Acceptor_onEmpty_def Let_def stuck_def split: if_splits)

lemma cpp_bind_Inr: "cpp_bind r f = Inr y \<longleftrightarrow> (\<exists>x. r = Inr x \<and> f x = Inr y)"
  by (simp add: cpp_bind_def split: sum.splits)

lemma stuck_add: "stuck A \<Longrightarrow> Acceptor_addConnection D c A = Inr A' \<Longrightarrow> stuck A'"
  by (auto simp: Acceptor_addConnection_def split: option.splits dest: stuck_after)

lemma stuck_ready: "stuck A \<Longrightarrow> connectionReady D s app A = Inr A' \<Longrightarrow> stuck A'"
  using stuck_add [of "acc_event (NewConnection s) A" D _ A']
  by (auto simp: connectionReady_def Let_def stuck_def acc_simps split: if_splits option.splits)

lemma stuck_leave: "stuck A \<Longrightarrow> hm_leave D h A = Inr A' \<Longrightarrow> stuck A'"
  using stuck_after [of "A\<lparr>handshakes := remove1 h (handshakes A)\<rparr>" D _ A']
  by (auto simp: hm_leave_def stuck_def split: option.splits)

lemma stuck_upd [simp]:
  "stuck (A\<lparr>numPendingSSLConns := n, totalNumPendingSSLConns := t\<rparr>) = stuck A"
  "stuck A \<Longrightarrow> stuck (A\<lparr>acc_state := kDraining\<rparr>)"
  by (simp_all add: stuck_def)

lemma stuck_ssl_error: "stuck A \<Longrightarrow> sslConnectionError D A = Inr A' \<Longrightarrow> stuck A'"
  by (auto simp: sslConnectionError_def Let_def split: if_splits dest: stuck_check [rotated])

lemma stuck_ssl_ready: "stuck A \<Longrightarrow> sslConnectionReady D s app A = Inr A' \<Longrightarrow> stuck A'"
  by (auto simp: sslConnectionReady_def cpp_bind_Inr split: if_splits dest!: stuck_ready [rotated] dest: stuck_check)

lemma stuck_error: "stuck A \<Longrightarrow> hm_connectionError D h A = Inr A' \<Longrightarrow> stuck A'"
  by (auto simp: hm_connectionError_def cpp_bind_Inr dest: stuck_leave stuck_ssl_error)

lemma stuck_process:
  assumes "stuck A" "processEstablishedConnection D fd app A = Inr A'"
  shows "stuck A'"
proof -
  let ?A = "A\<lparr>numPendingSSLConns := numPendingSSLConns A + 1, totalNumPendingSSLConns := totalNumPendingSSLConns A + 1\<rparr>"
  have A: "stuck ?A" "stuck (acc_event (HandshakeDropped fd) ?A)" using assms(1) by (simp_all add: stuck_def acc_simps)
  have "stuck B' " if "hm_start D fd ?A = Inr B'" for B'
    using that stuck_add [OF A(1)] by (fastforce simp: hm_start_def cpp_bind_Inr stuck_def acc_simps)
  with A assms show ?thesis
    by (auto simp: processEstablishedConnection_def Let_def split: if_splits dest: stuck_ssl_error stuck_ready)
qed

lemma stuck_do:
  assumes "stuck A" "acc_do I D x A = Inr A'"
  shows "stuck A'"
proof (cases x)
  case (Accepted fd addr t a app)
  with assms show ?thesis
    by (auto simp: acc_do_def connectionAccepted_def stuck_def [of "acc_event _ _"] acc_simps split: if_splits
        dest: stuck_process) (auto simp: stuck_def)
next
  case (HandshakeReady h app)
  with assms show ?thesis
    by (auto simp: acc_do_def hm_connectionReady_def cpp_bind_Inr dest: stuck_leave stuck_ssl_ready)
next
  case (HandshakeError h)
  with assms show ?thesis by (auto simp: acc_do_def dest: stuck_error)
next
  case (ConnectionClosed c)
  with assms show ?thesis
    by (auto simp: acc_do_def connection_closed_def split: option.splits dest: stuck_after)
next
  case AcceptStopped
  have "stuck A1" if "drainAllConnections D A = Inr A1" for A1
    using that assms(1) by (auto simp: drainAllConnections_def cpp_bind_Inr split: option.splits dest: stuck_after)
  with AcceptStopped assms show ?thesis
    by (auto simp: acc_do_def acceptStopped_def cpp_bind_Inr split: if_splits dest: stuck_check [rotated])
qed

lemma stuck_run: "stuck A \<Longrightarrow> acc_run I D xs A = Inr A' \<Longrightarrow> stuck A'"
  by (induction xs arbitrary: A) (auto simp: cpp_bind_Inr split: if_splits dest: stuck_do)

lemma stuck_drop: "stuck A \<Longrightarrow> drop_handshakes D cs A = Inr A' \<Longrightarrow> stuck A'"
  by (induction cs arbitrary: A) (auto simp: cpp_bind_Inr split: if_splits dest: stuck_error)

section \<open>The whitelist\<close>

lemma set_set_insert: "set (set_insert lt x xs) = (if set_find lt x xs then set xs else insert x (set xs))"
proof -
  have "set (takeWhile P xs) \<union> set (dropWhile P xs) = set xs" for P
    by (metis set_append takeWhile_dropWhile_id)
  then show ?thesis by (auto simp: set_insert_def)
qed

text \<open>What one text given to \<open>addWhitelistAddr\<close> lets through.\<close>

definition lets_through :: "('a, 'i) address_ops \<Rightarrow> 'a \<Rightarrow> string \<Rightarrow> bool" where
  "lets_through I address input \<longleftrightarrow>
     (let addr = takeWhile (\<lambda>c. c \<noteq> CHR ''/'') input; rest = dropWhile (\<lambda>c. c \<noteq> CHR ''/'') input in
      if rest = [] then (\<exists>a. parse_address I addr = Some a \<and> getIPAddress I a = getIPAddress I address)
      else (\<exists>a n. parse_address I addr = Some a \<and> to_unsigned I (tl rest) = Some n \<and> prefixMatch I a address n))"

lemma find_address:
  "set_find (AddressOnlyCompare I) address (set_insert (AddressOnlyCompare I) a xs) \<longleftrightarrow>
     set_find (AddressOnlyCompare I) address xs \<or> getIPAddress I a = getIPAddress I address"
proof -
  have "set_find (AddressOnlyCompare I) b ys \<longleftrightarrow> (\<exists>y\<in>set ys. getIPAddress I y = getIPAddress I b)" for b ys
    unfolding set_find_def AddressOnlyCompare_def list_ex_iff by (metis linorder_neq_iff)
  then show ?thesis by (auto simp: set_set_insert)
qed

lemma network_set: "set (set_insert NetworkAddress_less n xs) = insert n (set xs)"
proof -
  have "n \<in> set xs" if "set_find NetworkAddress_less n xs"
    using that by (auto simp: set_find_def NetworkAddress_less_def list_ex_iff split: if_splits)
      (metis NetworkAddress.equality linorder_neqE old.unit.exhaust)
  then show ?thesis by (auto simp: set_set_insert)
qed

lemma whitelisted_iff:
  "isWhitelisted I address L \<longleftrightarrow> set_find (AddressOnlyCompare I) address (whitelistAddrs L) \<or>
     (\<exists>n\<in>set (whitelistNetworks L). prefixMatch I (na_addr n) address (na_prefixLen n))"
  by (simp add: isWhitelisted_def NetworkAddress_contains_def list_ex_iff)

lemma addWhitelistAddr_lets_through:
  assumes "addWhitelistAddr I input L = Inr L'"
  shows "isWhitelisted I address L' \<longleftrightarrow> isWhitelisted I address L \<or> lets_through I address input"
proof -
  define addr rest where ar: "addr = takeWhile (\<lambda>c. c \<noteq> CHR ''/'') input" "rest = dropWhile (\<lambda>c. c \<noteq> CHR ''/'') input"
  obtain a where a: "parse_address I addr = Some a"
    using assms by (auto simp: addWhitelistAddr_def Let_def ar [symmetric] split: if_splits option.splits)
  show ?thesis
  proof (cases "rest = []")
    case True
    then have "L' = L\<lparr>whitelistAddrs := set_insert (AddressOnlyCompare I) a (whitelistAddrs L)\<rparr>"
      using assms a by (simp add: addWhitelistAddr_def Let_def ar [symmetric])
    moreover have "lets_through I address input \<longleftrightarrow> getIPAddress I a = getIPAddress I address"
      using True a by (simp add: lets_through_def Let_def ar [symmetric])
    ultimately show ?thesis by (auto simp: whitelisted_iff find_address)
  next
    case False
    then obtain n where n: "to_unsigned I (tl rest) = Some n"
      "L' = L\<lparr>whitelistNetworks := set_insert NetworkAddress_less \<lparr>na_addr = a, na_prefixLen = n\<rparr> (whitelistNetworks L)\<rparr>"
      using assms a by (auto simp: addWhitelistAddr_def Let_def ar [symmetric] split: option.splits)
    have "lets_through I address input \<longleftrightarrow> prefixMatch I a address n"
      using False a n(1) by (simp add: lets_through_def Let_def ar [symmetric])
    then show ?thesis unfolding n(2) by (auto simp: whitelisted_iff network_set)
  qed
qed

fun add_whitelist :: "('a::linorder, 'i::linorder) address_ops \<Rightarrow> string list \<Rightarrow> 'a LoadShedConfiguration
    \<Rightarrow> cpp_exn + 'a LoadShedConfiguration" where
  "add_whitelist I [] L = Inr L"
| "add_whitelist I (x # xs) L = cpp_bind (addWhitelistAddr I x L) (add_whitelist I xs)"

lemma add_whitelist_lets_through:
  "add_whitelist I xs L = Inr L' \<Longrightarrow>
     isWhitelisted I address L' \<longleftrightarrow> isWhitelisted I address L \<or> list_ex (lets_through I address) xs"
proof (induction xs arbitrary: L)
  case (Cons x xs)
  then obtain L1 where "addWhitelistAddr I x L = Inr L1" "add_whitelist I xs L1 = Inr L'"
    by (auto simp: cpp_bind_Inr)
  with Cons.IH [OF this(2)] addWhitelistAddr_lets_through [OF this(1)] show ?case by auto
qed simp

lemma addWhitelistAddr_limits:
  assumes "addWhitelistAddr I x L = Inr L'"
  shows "maxConnections L' = maxConnections L" "maxActiveConnections L' = maxActiveConnections L"
proof -
  define addr rest where ar: "addr = takeWhile (\<lambda>c. c \<noteq> CHR ''/'') x" "rest = dropWhile (\<lambda>c. c \<noteq> CHR ''/'') x"
  show "maxConnections L' = maxConnections L" "maxActiveConnections L' = maxActiveConnections L"
    using assms by (auto simp: addWhitelistAddr_def Let_def ar [symmetric] split: if_splits option.splits)
qed

lemma add_whitelist_limits:
  "add_whitelist I xs L = Inr L' \<Longrightarrow> maxConnections L' = maxConnections L \<and> maxActiveConnections L' = maxActiveConnections L"
proof (induction xs arbitrary: L)
  case (Cons x xs)
  then obtain L1 where "addWhitelistAddr I x L = Inr L1" "add_whitelist I xs L1 = Inr L'"
    by (auto simp: cpp_bind_Inr)
  with Cons.IH [OF this(2)] addWhitelistAddr_limits [OF this(1)] show ?case by simp
qed simp

section \<open>Properties\<close>


text \<open>Addresses of a byte that is also the IP address; a prefix of \<open>n\<close> bits.\<close>

definition sample_addresses :: "(nat, nat) address_ops" where
  "sample_addresses = \<lparr>getIPAddress = (\<lambda>a. a), prefixMatch = (\<lambda>a b n. a div 2 ^ (8 - n) = b div 2 ^ (8 - n)),
     parse_address = map_of [(''10'', 10), (''64'', 64)], to_unsigned = map_of [(''2'', 2)]\<rparr>"


end
