(* ===== verification/Acceptor_Drain_Props.thy ===== *)
theory Acceptor_Drain_Props
  imports Acceptor_Core_Props Acceptor_Connections_Props
begin

text \<open>
  The acceptor with the connection manager of \<open>Acceptor_Connections\<close>, for any connections that at most
  unregister themselves when they are notified, asked to close or dropped.
\<close>

section \<open>The connection manager as the acceptor's downstream\<close>

definition told_empty :: "mgr_id \<Rightarrow> World \<Rightarrow> World \<Rightarrow> bool" where
  "told_empty m w w' \<longleftrightarrow> OnEmpty m \<in> set (drop (length (cm_log w)) (cm_log w'))"

definition dropped_since :: "World \<Rightarrow> World \<Rightarrow> conn_id list" where
  "dropped_since w w' =
     List.map_filter (\<lambda>e. case e of DropConnection c \<Rightarrow> Some c | _ \<Rightarrow> None) (drop (length (cm_log w)) (cm_log w'))"

definition world_downstream :: "conn_ops \<Rightarrow> mgr_id \<Rightarrow> World downstream_ops" where
  "world_downstream C m =
     \<lparr>dm_num = (\<lambda>w. length (conns (mgr w m))),
      dm_add = (\<lambda>c w. (addConnection C m c True w, told_empty m w (addConnection C m c True w))),
      dm_remove = (\<lambda>c w. (removeConnection m c w, told_empty m w (removeConnection m c w))),
      dm_shutdown = (\<lambda>g w. cpp_bind (initiateGracefulShutdown C m g w) (\<lambda>w'. Inr (w', told_empty m w w'))),
      dm_drain = (\<lambda>p g w. cpp_bind (cm_drainConnections C m p g w) (\<lambda>w'. Inr (w', told_empty m w w'))),
      dm_dropAll = (\<lambda>w. map_option (\<lambda>w'. (w', dropped_since w w')) (dropAllConnections C m w)),
      dm_dropSome = (\<lambda>p w. (dropConnections C m p w, dropped_since w (dropConnections C m p w)))\<rparr>"

definition reg_ok :: "mgr_id \<Rightarrow> World \<Rightarrow> bool" where
  "reg_ok m w \<longleftrightarrow> has_callback (mgr w m) \<and> distinct (conns (mgr w m)) \<and>
     (\<forall>c. c \<in> set (conns (mgr w m)) \<longleftrightarrow> connectionManager (conn w c) = Some m)"

text \<open>From \<open>w0\<close> to \<open>w\<close> the manager keeps its registrations and tells when it becomes empty.\<close>

definition watched :: "mgr_id \<Rightarrow> World \<Rightarrow> World \<Rightarrow> bool" where
  "watched m w0 w \<longleftrightarrow> reg_ok m w \<and> (\<exists>es. cm_log w = cm_log w0 @ es \<and>
     (conns (mgr w m) = [] \<longrightarrow> conns (mgr w0 m) = [] \<or> OnEmpty m \<in> set es))"

lemma watched_refl: "reg_ok m w \<Longrightarrow> watched m w w"
  by (simp add: watched_def)

lemma watched_tells: "watched m w0 w \<Longrightarrow> conns (mgr w m) = [] \<Longrightarrow> conns (mgr w0 m) = [] \<or> told_empty m w0 w"
  by (auto simp: watched_def told_empty_def)

lemma watched_log: "watched m w0 w \<Longrightarrow> watched m w0 (log_event e w)"
  by (auto simp: watched_def reg_ok_def log_event_def)

lemma watched_callback: "watched m w0 w \<Longrightarrow> watched m w0 (callback k e w)"
  by (simp add: callback_def watched_log)

lemma watched_conn:
  "watched m w0 w \<Longrightarrow> (\<And>x. connectionManager (f x) = connectionManager x) \<Longrightarrow> watched m w0 (upd_conn c f w)"
  by (auto simp: watched_def reg_ok_def upd_conn_def)

lemma watched_mgr:
  "watched m w0 w \<Longrightarrow> conns (f (mgr w k)) = conns (mgr w k) \<Longrightarrow> has_callback (f (mgr w k)) = has_callback (mgr w k)
     \<Longrightarrow> watched m w0 (upd_mgr k f w)"
  by (auto simp: watched_def reg_ok_def upd_mgr_def)

lemma reg_ok_unregister:
  assumes "reg_ok m w" "connectionManager (conn w c) = Some k"
  shows "reg_ok m (upd_mgr k (cm_unlink c) (upd_conn c (\<lambda>x. x\<lparr>conn_timeout := None, connectionManager := None\<rparr>) w))"
  using assms by (auto simp: reg_ok_def upd_mgr_def upd_conn_def cm_unlink_def set_remove1_eq)

lemma watched_remove:
  assumes "watched m w0 w"
  shows "watched m w0 (removeConnection k c w)"
proof (cases "connectionManager (conn w c) = Some k")
  case True
  let ?w2 = "upd_mgr k (cm_unlink c) (upd_conn c (\<lambda>x. x\<lparr>conn_timeout := None, connectionManager := None\<rparr>) w)"
  let ?w3 = "callback k (OnConnectionRemoved k) ?w2"
  have reg: "reg_ok m w" and reg2: "reg_ok m ?w2"
    using assms True reg_ok_unregister by (auto simp: watched_def)
  have eq: "removeConnection k c w = (if conns (mgr ?w2 k) = [] then callback k (OnEmpty k) ?w3 else ?w3)"
    using True by (simp add: removeConnection_def Let_def callback_def log_event_def)
  have views: "mgr (removeConnection k c w) = mgr ?w2" "conn (removeConnection k c w) = conn ?w2"
    unfolding eq by (simp_all add: callback_def log_event_def)
  have "reg_ok m (removeConnection k c w)" using reg2 by (simp add: reg_ok_def views)
  moreover obtain es where es: "cm_log w = cm_log w0 @ es" "conns (mgr w m) = [] \<Longrightarrow> conns (mgr w0 m) = [] \<or> OnEmpty m \<in> set es"
    using assms by (auto simp: watched_def)
  moreover have "\<exists>fs. cm_log (removeConnection k c w) = cm_log w @ fs \<and>
      (conns (mgr ?w2 m) = [] \<longrightarrow> conns (mgr w m) = [] \<or> OnEmpty m \<in> set fs)"
    using reg2 unfolding eq
    by (cases "k = m") (auto simp: callback_def log_event_def upd_mgr_def upd_conn_def reg_ok_def)
  ultimately show ?thesis by (fastforce simp: watched_def views)
next
  case False
  then show ?thesis using assms by (simp add: removeConnection_def)
qed

lemma watched_destroy: "watched m w0 w \<Longrightarrow> watched m w0 (ManagedConnection_destroy c w)"
  by (simp add: ManagedConnection_destroy_def watched_remove split: option.splits)

lemma watched_enter:
  assumes "watched m w0 w" and "connectionManager (conn w c) = None"
  shows "watched m w0 (upd_conn c (\<lambda>x. x\<lparr>connectionManager := Some m\<rparr>) (upd_mgr m (\<lambda>x. x\<lparr>conns := c # conns x\<rparr>) w))"
  using assms by (auto simp: watched_def reg_ok_def upd_conn_def upd_mgr_def)

context self_closing
begin

lemma watched_fire:
  assumes "watched m w0 w"
  shows "watched m w0 (fireNotifyPendingShutdown C c w)" "watched m w0 (fireCloseWhenIdle C force c w)"
proof -
  have n: "watched m w0 (log_event e (upd_conn c (\<lambda>x. x\<lparr>drain_state := s\<rparr>) w))" for e s
    using assms by (intro watched_log watched_conn) simp_all
  show "watched m w0 (fireNotifyPendingShutdown C c w)"
    using assms n watched_destroy [OF n] notify_self by (auto simp: fireNotifyPendingShutdown_def) metis
  show "watched m w0 (fireCloseWhenIdle C force c w)"
    using assms n watched_destroy [OF n] close_self by (auto simp: fireCloseWhenIdle_def) metis+
qed

lemma watched_drain_loop: "watched m w0 w \<Longrightarrow> watched m w0 (snd (drain_loop C k n it w))"
proof (induction n arbitrary: it w)
  case (Suc n)
  then show ?case by (cases it) (simp_all add: Let_def watched_fire)
qed simp

lemma watched_drainConnections:
  assumes "watched m w0 w" "shutdownState (mgr w k) \<in> {NOTIFY_PENDING_SHUTDOWN, CLOSE_WHEN_IDLE}"
  shows "\<exists>w'. drainConnections C k w = Inr w' \<and> watched m w0 w'"
proof -
  obtain it w1 where loop: "drain_loop C k 64 (drainIterator (mgr w k)) w = (it, w1)" by fastforce
  then have "watched m w0 w1" using watched_drain_loop [OF assms(1), of k 64 "drainIterator (mgr w k)"] by simp
  then have "watched m w0 (upd_mgr k (drain_next it) w1)"
    by (rule watched_mgr) (simp_all add: drain_next_def Let_def)
  then show ?thesis using assms(2) loop by (auto simp: drainConnections_def)
qed

lemma watched_startDrain:
  assumes "watched m w0 w"
  shows "\<exists>w'. startDrain C k g w = Inr w' \<and> watched m w0 w'"
  unfolding startDrain_def
proof (rule watched_drainConnections, goal_cases)
  case 1
  show ?case by (rule watched_mgr [OF assms]) (simp_all add: Let_def)
next
  case 2
  show ?case by (simp add: upd_mgr_def Let_def)
qed

lemma watched_shutdown:
  assumes "watched m w0 w"
  shows "\<exists>w'. initiateGracefulShutdown C k g w = Inr w' \<and> watched m w0 w'"
proof -
  have "\<exists>w'. startDrainAll C k g w = Inr w' \<and> watched m w0 w'"
    unfolding startDrainAll_def by (intro watched_startDrain watched_mgr [OF assms]) simp_all
  then show ?thesis using assms by (simp add: initiateGracefulShutdown_def)
qed

lemma watched_add:
  assumes "watched m w0 w"
  shows "watched m w0 (addConnection C m c t w)"
proof -
  define w1 where "w1 = (if connectionManager (conn w c) \<noteq> Some m then
      callback m (OnConnectionAdded m) (upd_conn c (\<lambda>x. x\<lparr>connectionManager := Some m\<rparr>)
        (upd_mgr m (\<lambda>x. x\<lparr>conns := c # conns x\<rparr>) (ManagedConnection_destroy c w))) else w)"
  define w2 where "w2 = (if t then cm_scheduleTimeout c (default_timeout (mgr w1 m)) w1 else w1)"
  define w3 where "w3 = (if shutdown_code (getShutdownState (mgr w2 m)) \<ge> shutdown_code NOTIFY_PENDING_SHUTDOWN \<and>
      notifyPendingShutdown (mgr w2 m) then fireNotifyPendingShutdown C c w2 else w2)"
  have "connectionManager (conn (ManagedConnection_destroy c w) c) = None"
    by (simp add: ManagedConnection_destroy_def removeConnection_fields split: option.splits)
  then have "watched m w0 w1"
    using assms watched_enter [OF watched_destroy [OF assms], of c] by (simp add: w1_def watched_callback)
  then have "watched m w0 w2" by (simp add: w2_def cm_scheduleTimeout_def watched_conn)
  then have "watched m w0 w3" by (simp add: w3_def watched_fire)
  then have "watched m w0 (if P then log_event (DeferredClose m c) w3 else w3)" for P by (simp add: watched_log)
  then show ?thesis
    unfolding addConnection_def Let_def w1_def [unfolded ManagedConnection_destroy_def, symmetric]
      w2_def [symmetric] w3_def [symmetric] .
qed

lemma manager_is_downstream: "downstream_manager (world_downstream C m) (\<lambda>w. conns (mgr w m)) (reg_ok m)"
proof
  fix w c g
  assume ok: "reg_ok m w"
  have tells: "tells_empty (\<lambda>w. conns (mgr w m)) w (w', told_empty m w w')" "reg_ok m w'" if "watched m w w'" for w'
    using watched_tells [OF that] that by (auto simp: tells_empty_def watched_def)
  note refl = watched_refl [OF ok]
  show "dm_num (world_downstream C m) w = length (conns (mgr w m))" by (simp add: world_downstream_def)
  show "reg_ok m (fst (dm_add (world_downstream C m) c w)) \<and>
      tells_empty (\<lambda>w. conns (mgr w m)) w (dm_add (world_downstream C m) c w)"
    using tells [OF watched_add [OF refl]] by (simp add: world_downstream_def)
  have "set (conns (mgr (removeConnection m c w) m)) = set (conns (mgr w m)) - {c}"
    using ok by (auto simp: reg_ok_def removeConnection_fields cm_unlink_def set_remove1_eq)
  then show "reg_ok m (fst (dm_remove (world_downstream C m) c w)) \<and>
      tells_empty (\<lambda>w. conns (mgr w m)) w (dm_remove (world_downstream C m) c w) \<and>
      set (conns (mgr (fst (dm_remove (world_downstream C m) c w)) m)) = set (conns (mgr w m)) - {c}"
    using tells [OF watched_remove [OF refl]] by (simp add: world_downstream_def)
  obtain w' where "initiateGracefulShutdown C m g w = Inr w'" "watched m w w'"
    using watched_shutdown [OF refl] by blast
  then show "\<exists>r. dm_shutdown (world_downstream C m) g w = Inr r \<and> reg_ok m (fst r) \<and>
      tells_empty (\<lambda>w. conns (mgr w m)) w r"
    using tells by (auto simp: world_downstream_def)
qed

end

interpretation closing_down: downstream_manager "world_downstream closing_ops 0" "\<lambda>w. conns (mgr w 0)" "reg_ok 0"
  by (rule closing.manager_is_downstream)

section \<open>Properties\<close>

text \<open>
  C6. An acceptor drains, and reports it once. Whatever is accepted, handshaken and closed after \<open>init\<close>, no
  CHECK fails and the count of pending handshakes is their number and within the configured bound.
  Before \<open>acceptStopped\<close> the acceptor is running. After it, it is done as soon as its manager has no
  connection and no handshake is pending, and draining until then; \<open>onConnectionsDrained\<close> has been
  called once if it is done and not before. This holds over every connection manager that tells when
  it becomes empty.
\<close>

theorem acceptor_drains_once:
  assumes "downstream_manager D dconns dok" and "dok w"
    and "Acceptor_init strictSSL contexts base w (Acceptor_new isSSL n) = Inr A"
  shows "\<exists>A'. acc_run I D xs A = Inr A' \<and>
    unat (numPendingSSLConns A') = length (handshakes A') \<and>
    length (handshakes A') \<le> unat (maxConcurrentSSLHandshakes A') \<and>
    (AcceptStopped \<notin> set xs \<longrightarrow> acc_state A' = kRunning) \<and>
    (AcceptStopped \<in> set xs \<longrightarrow>
       acc_state A' = kDone \<and> downstream A' = None \<and> handshakes A' = [] \<or>
       acc_state A' = kDraining \<and> (\<exists>w'. downstream A' = Some w' \<and> (dconns w' \<noteq> [] \<or> handshakes A' \<noteq> []))) \<and>
    count_list (acc_log A') ConnectionsDrained = (if acc_state A' = kDone then 1 else 0)"
proof -
  note inv = downstream_manager.init_ok [OF assms(1,3,2)]
  from downstream_manager.acc_run_ok [OF assms(1) conjunct1 [OF inv], of I xs] obtain A' where
    A': "acc_run I D xs A = Inr A'" "downstream_manager.acc_inv dconns dok A'"
    "if AcceptStopped \<in> set xs then acc_state A' \<in> {kDraining, kDone}
     else acc_state A' = acc_state A \<or> acc_state A = kDraining \<and> acc_state A' = kDone" by blast
  note defs = downstream_manager.acc_inv_def [OF assms(1)] downstream_manager.acc_base_def [OF assms(1)]
    downstream_manager.waits_for_def [OF assms(1)]
  have "AcceptStopped \<notin> set xs \<longrightarrow> acc_state A' = kRunning" using A'(3) inv by auto
  moreover have "AcceptStopped \<in> set xs \<longrightarrow>
       acc_state A' = kDone \<and> downstream A' = None \<and> handshakes A' = [] \<or>
       acc_state A' = kDraining \<and> (\<exists>w'. downstream A' = Some w' \<and> (dconns w' \<noteq> [] \<or> handshakes A' \<noteq> []))"
  proof
    assume "AcceptStopped \<in> set xs"
    then consider "acc_state A' = kDraining" | "acc_state A' = kDone" using A'(3) by auto
    then show "acc_state A' = kDone \<and> downstream A' = None \<and> handshakes A' = [] \<or>
       acc_state A' = kDraining \<and> (\<exists>w'. downstream A' = Some w' \<and> (dconns w' \<noteq> [] \<or> handshakes A' \<noteq> []))"
      using A'(2) unfolding defs by cases auto
  qed
  ultimately show ?thesis using A'(1,2) unfolding defs by blast
qed

definition sample_acceptor :: "(World, nat) Acceptor" where
  "sample_acceptor = projr (Acceptor_init True (Inr True) 0 empty_world (Acceptor_new True 2))"

lemma sample_acceptor_init: "Acceptor_init True (Inr True) 0 empty_world (Acceptor_new True 2) = Inr sample_acceptor"
  by (simp add: sample_acceptor_def Acceptor_init_def Acceptor_new_def initDownstreamConnectionManager_def)

lemma reg_ok_empty: "reg_ok 0 empty_world"
  by (simp add: reg_ok_def empty_world_def sample_mgr_def sample_conn_def)

theorem acceptor_drains_once_witness:
  "\<exists>A'. acc_run sample_addresses (world_downstream closing_ops 0)
      [Accepted 5 9 0 0 None, HandshakeReady 5 (Some 6), AcceptStopped, ConnectionClosed 6] sample_acceptor = Inr A' \<and>
    (acc_state A' = kDone \<and> downstream A' = None \<and> handshakes A' = [] \<or>
     acc_state A' = kDraining \<and> (\<exists>w'. downstream A' = Some w' \<and> (conns (mgr w' 0) \<noteq> [] \<or> handshakes A' \<noteq> []))) \<and>
    count_list (acc_log A') ConnectionsDrained = (if acc_state A' = kDone then 1 else 0)"
proof -
  let ?xs = "[Accepted 5 9 0 0 None, HandshakeReady 5 (Some 6), AcceptStopped, ConnectionClosed 6] :: nat acceptor_op list"
  have "AcceptStopped \<in> set ?xs" by simp
  with acceptor_drains_once [OF closing_down.downstream_manager_axioms reg_ok_empty sample_acceptor_init,
      of sample_addresses ?xs] show ?thesis by blast
qed

text \<open>
  Dropping some connections keeps an acceptor from ever draining: after \<open>dropConnections\<close> on an acceptor
  that is not done, no course of accepts, handshakes, closed connections and stops makes it done or
  calls \<open>onConnectionsDrained\<close>, even when all its connections are gone, because the flag of a forced
  shutdown is never cleared.
\<close>

theorem dropConnections_keeps_from_draining:
  assumes "Acceptor_dropConnections D p A = Inr A1" and "downstream A = Some w"
    and "acc_state A \<noteq> kDone" and "ConnectionsDrained \<notin> set (acc_log A)"
    and "acc_run I D xs A1 = Inr A2"
  shows "acc_state A2 \<noteq> kDone \<and> ConnectionsDrained \<notin> set (acc_log A2)"
proof -
  have "stuck A1"
    using assms(1-4) stuck_drop [of "A\<lparr>forceShutdownInProgress := True, downstream := Some (fst (dm_dropSome D p w))\<rparr>"
        D "snd (dm_dropSome D p w)" A1]
    by (simp add: Acceptor_dropConnections_def stuck_def split: prod.splits)
  from stuck_run [OF this assms(5)] show ?thesis by (simp add: stuck_def)
qed

definition dropped_acceptor :: "(World, nat) Acceptor" where
  "dropped_acceptor = projr (Acceptor_dropConnections (world_downstream closing_ops 0) 1 sample_acceptor)"

theorem dropConnections_keeps_from_draining_witness:
  "acc_state (projr (acc_run sample_addresses (world_downstream closing_ops 0) [AcceptStopped] dropped_acceptor)) = kDraining \<and>
   ConnectionsDrained \<notin> set (acc_log (projr (acc_run sample_addresses (world_downstream closing_ops 0)
     [AcceptStopped] dropped_acceptor)))"
proof -
  let ?D = "world_downstream closing_ops 0"
  let ?r = "acc_run sample_addresses ?D [AcceptStopped] dropped_acceptor"
  have sample: "downstream sample_acceptor = Some empty_world" "acc_state sample_acceptor = kRunning"
    "acc_log sample_acceptor = []"
    by (simp_all add: sample_acceptor_def Acceptor_init_def Acceptor_new_def initDownstreamConnectionManager_def)
  have "isl (Acceptor_dropConnections ?D 1 sample_acceptor) = False" by code_simp
  then have drop: "Acceptor_dropConnections ?D 1 sample_acceptor = Inr dropped_acceptor"
    by (simp add: dropped_acceptor_def)
  have eval: "isl ?r = False \<and> acc_state (projr ?r) = kDraining" by code_simp
  then have "?r = Inr (projr ?r)" by (metis sum.collapse(2))
  from dropConnections_keeps_from_draining [OF drop sample(1) _ _ this] sample(2,3)
  have "ConnectionsDrained \<notin> set (acc_log (projr ?r))" by (metis AcceptorState.distinct(10) empty_iff list.set(1))
  with eval show ?thesis by (rule conjI [OF conjunct2])
qed

end
