(* ===== verification/SSL_SessionCache.thy ===== *)
theory SSL_SessionCache
  imports Folly_EvictingCacheMap
begin

text \<open>
  \<open>ssl/SSLSessionCacheManager.{h,cpp}\<close> with \<open>ssl/SSLCacheProvider.h\<close>: the server's cache of TLS sessions,
  sharded over buckets and backed by an external cache that answers later. OpenSSL's reference
  counts are part of the state, because the cache hands references in and out.
\<close>

section \<open>The map of a bucket\<close>

text \<open>
  \<open>folly::EvictingCacheMap\<close> with a prune hook: setting a key also tells which entries were evicted, and
  so does clearing the map. Keys that are overwritten or erased are not evicted.
\<close>

record ('k, 'v, 'c) pruning_ops =
  pm_new :: "nat \<Rightarrow> nat \<Rightarrow> 'c"
  pm_find :: "'k \<Rightarrow> 'c \<Rightarrow> 'v option \<times> 'c"
  pm_set :: "'k \<Rightarrow> 'v \<Rightarrow> 'c \<Rightarrow> 'c \<times> ('k \<times> 'v) list"
  pm_erase :: "'k \<Rightarrow> 'c \<Rightarrow> 'c"
  pm_clear :: "'c \<Rightarrow> 'c \<times> ('k \<times> 'v) list"

section \<open>State\<close>

type_synonym session = nat
type_synonym ssl_socket = nat

record PendingLookup =
  request_in_progress :: bool
  pl_session :: "session option"
  pl_waiters :: "ssl_socket list"

definition PendingLookup_new :: PendingLookup where
  "PendingLookup_new = \<lparr>request_in_progress = True, pl_session = None, pl_waiters = []\<rparr>"

record CacheContext =
  cc_sessionId :: string
  cc_sslSocket :: ssl_socket

datatype session_stat = SessionStat bool bool bool | SessionFreeStat nat | SessionRemoveStat

text \<open>
  A session is an object of OpenSSL with a reference count; \<open>sess_held\<close> are the references that OpenSSL
  itself holds. \<open>sess_fault\<close> records that a session without references was used or freed. A null
  pointer in a cache is \<open>None\<close>. \<open>requests\<close> are the contexts given to the external cache, \<open>stored\<close> the
  sessions sent to it, \<open>restarted\<close> and \<open>resumed\<close> the sockets whose handshake was restarted and those
  that resume a session.
\<close>

record 'c session_world =
  caches :: "'c list"
  sess_refs :: "session \<Rightarrow> nat"
  sess_held :: "session \<Rightarrow> nat"
  sess_fault :: bool
  pendingLookups :: "string \<rightharpoonup> PendingLookup"
  hasExternalCache :: bool
  requests :: "CacheContext list"
  stored :: "(string \<times> session) list"
  sess_stats :: "session_stat list option"
  restarted :: "ssl_socket list"
  resumed :: "ssl_socket list"

type_synonym 'c session_ops = "(string, session option, 'c) pruning_ops"

definition session_stat :: "session_stat \<Rightarrow> 'c session_world \<Rightarrow> 'c session_world" where
  "session_stat x w = w\<lparr>sess_stats := map_option (\<lambda>l. l @ [x]) (sess_stats w)\<rparr>"

text \<open>OpenSSL's counts. Freeing a null pointer does nothing.\<close>

definition SSL_SESSION_up_ref :: "session \<Rightarrow> 'c session_world \<Rightarrow> 'c session_world" where
  "SSL_SESSION_up_ref s w =
     w\<lparr>sess_fault := sess_fault w \<or> sess_refs w s = 0, sess_refs := (sess_refs w)(s := sess_refs w s + 1)\<rparr>"

definition SSL_SESSION_free :: "session option \<Rightarrow> 'c session_world \<Rightarrow> 'c session_world" where
  "SSL_SESSION_free p w =
     (case p of
        None \<Rightarrow> w
      | Some s \<Rightarrow> w\<lparr>sess_fault := sess_fault w \<or> sess_refs w s = 0, sess_refs := (sess_refs w)(s := sess_refs w s - 1)\<rparr>)"

section \<open>The sharded local cache\<close>

definition NUM_CACHE_BUCKETS :: nat where
  "NUM_CACHE_BUCKETS = 16"

definition ShardedLocalSSLSessionCache_new :: "'c session_ops \<Rightarrow> u32 \<Rightarrow> u32 \<Rightarrow> u32 \<Rightarrow> cpp_exn + 'c list" where
  "ShardedLocalSSLSessionCache_new E n_buckets maxCacheSize cacheCullSize =
     (if \<not> n_buckets > 0 then Inl CheckFailed
      else
        (let maxSize = unat maxCacheSize div unat n_buckets;
             cullSize = unat cacheCullSize div unat n_buckets in
         Inr (replicate (unat n_buckets)
           (pm_new E (if maxSize = 0 then 1 else maxSize) (if cullSize = 0 then 1 else cullSize)))))"

text \<open>\<open>H\<close> is folly's hash function.\<close>

definition cache_hash :: "(string \<Rightarrow> nat) \<Rightarrow> string \<Rightarrow> 'c session_world \<Rightarrow> nat" where
  "cache_hash H key w = H key mod length (caches w)"

definition lookupSession :: "'c session_ops \<Rightarrow> (string \<Rightarrow> nat) \<Rightarrow> string \<Rightarrow> 'c session_world
    \<Rightarrow> session option \<times> 'c session_world" where
  "lookupSession E H sessionId w =
     (let bucket = cache_hash H sessionId w in
      case pm_find E sessionId (caches w ! bucket) of
        (found, c) \<Rightarrow>
          (let w1 = w\<lparr>caches := (caches w)[bucket := c]\<rparr> in
           case found of
             Some (Some session) \<Rightarrow> (Some session, SSL_SESSION_up_ref session w1)
           | _ \<Rightarrow> (None, w1)))"

text \<open>The prune hook frees what is evicted and counts it.\<close>

definition pruneSessions :: "(string \<times> session option) list \<Rightarrow> 'c session_world \<Rightarrow> 'c session_world" where
  "pruneSessions evicted w = fold (\<lambda>kv. SSL_SESSION_free (snd kv)) evicted w"

definition storeSession :: "'c session_ops \<Rightarrow> (string \<Rightarrow> nat) \<Rightarrow> string \<Rightarrow> session option \<Rightarrow> 'c session_world
    \<Rightarrow> 'c session_world" where
  "storeSession E H sessionId session w =
     (let bucket = cache_hash H sessionId w in
      case pm_find E sessionId (caches w ! bucket) of
        (found, c) \<Rightarrow>
          (let oldSession = (case found of Some p \<Rightarrow> p | None \<Rightarrow> None);
               w1 = SSL_SESSION_free oldSession w in
           case pm_set E sessionId session c of
             (c', evicted) \<Rightarrow>
               session_stat (SessionFreeStat (length evicted))
                 (pruneSessions evicted (w1\<lparr>caches := (caches w1)[bucket := c']\<rparr>))))"

definition local_removeSession :: "'c session_ops \<Rightarrow> (string \<Rightarrow> nat) \<Rightarrow> string \<Rightarrow> 'c session_world \<Rightarrow> 'c session_world" where
  "local_removeSession E H sessionId w =
     (let bucket = cache_hash H sessionId w in
      w\<lparr>caches := (caches w)[bucket := pm_erase E sessionId (caches w ! bucket)]\<rparr>)"

text \<open>The destructor of a bucket clears its map.\<close>

definition LocalSSLSessionCache_destroy :: "'c session_ops \<Rightarrow> nat \<Rightarrow> 'c session_world \<Rightarrow> 'c session_world" where
  "LocalSSLSessionCache_destroy E bucket w =
     (case pm_clear E (caches w ! bucket) of
        (c, evicted) \<Rightarrow> pruneSessions evicted (w\<lparr>caches := (caches w)[bucket := c]\<rparr>))"

section \<open>SSLSessionCacheManager\<close>

text \<open>The cache is shared: it is made for the first manager that asks for it.\<close>

definition getLocalCache :: "'c session_ops \<Rightarrow> u32 \<Rightarrow> u32 \<Rightarrow> 'c list option \<Rightarrow> cpp_exn + 'c list" where
  "getLocalCache E maxCacheSize cacheCullSize sCache =
     (case sCache of
        Some cs \<Rightarrow> Inr cs
      | None \<Rightarrow> ShardedLocalSSLSessionCache_new E (of_nat NUM_CACHE_BUCKETS) maxCacheSize cacheCullSize)"

definition SSLSessionCacheManager_new :: "'c list \<Rightarrow> bool \<Rightarrow> bool \<Rightarrow> 'c session_world" where
  "SSLSessionCacheManager_new localCache external stats =
     \<lparr>caches = localCache, sess_refs = (\<lambda>_. 0), sess_held = (\<lambda>_. 0), sess_fault = False,
      pendingLookups = Map.empty, hasExternalCache = external, requests = [], stored = [],
      sess_stats = (if stats then Some [] else None), restarted = [], resumed = []\<rparr>"

text \<open>The serialized session is sent to the external cache with its time to live; the answer is not used.\<close>

definition storeCacheRecord :: "string \<Rightarrow> session \<Rightarrow> 'c session_world \<Rightarrow> 'c session_world" where
  "storeCacheRecord sessionId session w = w\<lparr>stored := stored w @ [(sessionId, session)]\<rparr>"

text \<open>OpenSSL gives a reference to the session to the callback, which keeps it by answering 1.\<close>

definition newSession :: "'c session_ops \<Rightarrow> (string \<Rightarrow> nat) \<Rightarrow> string \<Rightarrow> session \<Rightarrow> 'c session_world
    \<Rightarrow> nat \<times> 'c session_world" where
  "newSession E H sessionId session w =
     (let w1 = session_stat (SessionStat True False False) w;
          w2 = storeSession E H sessionId (Some session) w1;
          w3 = (if hasExternalCache w2 then storeCacheRecord sessionId session w2 else w2) in
      (1, w3))"

definition manager_removeSession :: "'c session_ops \<Rightarrow> (string \<Rightarrow> nat) \<Rightarrow> string \<Rightarrow> 'c session_world \<Rightarrow> 'c session_world" where
  "manager_removeSession E H sessionId w = session_stat SessionRemoveStat (local_removeSession E H sessionId w)"

text \<open>\<open>getAsync\<close> of the external cache accepts a request or not; it answers after it has returned.\<close>

definition lookupCacheRecord :: "bool \<Rightarrow> string \<Rightarrow> ssl_socket \<Rightarrow> 'c session_world \<Rightarrow> bool \<times> 'c session_world" where
  "lookupCacheRecord accepts sessionId sslSocket w =
     (if accepts
      then (True, w\<lparr>requests := requests w @ [\<lparr>cc_sessionId = sessionId, cc_sslSocket = sslSocket\<rparr>]\<rparr>)
      else (False, w))"

definition MIN_SESSION_ID_LENGTH :: nat where
  "MIN_SESSION_ID_LENGTH = 16"

text \<open>What \<open>getSession\<close> does after the lookup: record it and answer the session, with its reference.\<close>

definition session_found :: "ssl_socket \<Rightarrow> bool \<Rightarrow> session option \<Rightarrow> 'c session_world
    \<Rightarrow> session option \<times> bool \<times> 'c session_world" where
  "session_found sslSocket foreign session w =
     (let hit = (session \<noteq> None);
          w1 = session_stat (SessionStat False hit foreign) w;
          w2 = (if hit then w1\<lparr>resumed := resumed w1 @ [sslSocket]\<rparr> else w1) in
      (session, False, w2))"

text \<open>
  \<open>getSession\<close>: the session, and whether the handshake would block. \<open>want\<close> is
  \<open>SSL_want_sess_cache_lookup\<close>, \<open>accepts\<close> whether the external cache takes a request.
\<close>

definition getSession :: "'c session_ops \<Rightarrow> (string \<Rightarrow> nat) \<Rightarrow> bool \<Rightarrow> bool \<Rightarrow> ssl_socket \<Rightarrow> string \<Rightarrow> 'c session_world
    \<Rightarrow> session option \<times> bool \<times> 'c session_world" where
  "getSession E H want accepts sslSocket sessionId w =
     (if length sessionId < MIN_SESSION_ID_LENGTH then (None, False, w)
      else
        (case lookupSession E H sessionId w of
           (session, w1) \<Rightarrow>
             if session = None \<and> hasExternalCache w1 then
               (if \<not> want then session_found sslSocket True None w1
                else
                  (case pendingLookups w1 sessionId of
                     None \<Rightarrow>
                       (case lookupCacheRecord accepts sessionId sslSocket
                               (w1\<lparr>pendingLookups := (pendingLookups w1)(sessionId \<mapsto> PendingLookup_new)\<rparr>) of
                          (res, w2) \<Rightarrow>
                            if res then (None, True, w2)
                            else session_found sslSocket True None
                              (w2\<lparr>pendingLookups := (pendingLookups w2)(sessionId := None)\<rparr>))
                   | Some pl \<Rightarrow>
                       if request_in_progress pl then
                         (None, True, w1\<lparr>pendingLookups := (pendingLookups w1)
                            (sessionId \<mapsto> pl\<lparr>pl_waiters := pl_waiters pl @ [sslSocket]\<rparr>)\<rparr>)
                       else session_found sslSocket True (pl_session pl)
                         (case pl_session pl of Some s \<Rightarrow> SSL_SESSION_up_ref s w1 | None \<Rightarrow> w1)))
             else session_found sslSocket False session w1))"

text \<open>
  Restarting a handshake makes OpenSSL ask for the session again: what it does is the argument \<open>R\<close>.
\<close>

definition restart_socket :: "(ssl_socket \<Rightarrow> 'c session_world \<Rightarrow> 'c session_world) \<Rightarrow> ssl_socket \<Rightarrow> 'c session_world
    \<Rightarrow> 'c session_world" where
  "restart_socket R sock w = R sock (w\<lparr>restarted := restarted w @ [sock]\<rparr>)"

definition restartSSLAccept :: "(ssl_socket \<Rightarrow> 'c session_world \<Rightarrow> 'c session_world) \<Rightarrow> CacheContext \<Rightarrow> session option
    \<Rightarrow> 'c session_world \<Rightarrow> cpp_exn + 'c session_world" where
  "restartSSLAccept R cacheCtx session w =
     (case pendingLookups w (cc_sessionId cacheCtx) of
        None \<Rightarrow> Inl CheckFailed
      | Some pl \<Rightarrow>
          (let w1 = w\<lparr>pendingLookups := (pendingLookups w)(cc_sessionId cacheCtx \<mapsto>
                      pl\<lparr>request_in_progress := False, pl_session := session\<rparr>)\<rparr>;
               w2 = restart_socket R (cc_sslSocket cacheCtx) w1;
               w3 = fold (restart_socket R) (pl_waiters pl) w2 in
           Inr (w3\<lparr>pendingLookups := (pendingLookups w3)(cc_sessionId cacheCtx := None)\<rparr>)))"

text \<open>
  \<open>session\<close> is what \<open>d2i_SSL_SESSION\<close> makes of the data, \<open>None\<close> if it cannot; the caller has one reference.
\<close>

definition restoreSession :: "'c session_ops \<Rightarrow> (string \<Rightarrow> nat) \<Rightarrow> (ssl_socket \<Rightarrow> 'c session_world \<Rightarrow> 'c session_world)
    \<Rightarrow> CacheContext \<Rightarrow> session option \<Rightarrow> 'c session_world \<Rightarrow> cpp_exn + 'c session_world" where
  "restoreSession E H R cacheCtx session w =
     (case restartSSLAccept R cacheCtx session w of
        Inl e \<Rightarrow> Inl e
      | Inr w1 \<Rightarrow> Inr (storeSession E H (cc_sessionId cacheCtx) session w1))"

text \<open>
  The external cache answers one of its requests. A new session has one reference, the caller's.
\<close>

definition onGetSuccess :: "'c session_ops \<Rightarrow> (string \<Rightarrow> nat) \<Rightarrow> (ssl_socket \<Rightarrow> 'c session_world \<Rightarrow> 'c session_world)
    \<Rightarrow> CacheContext \<Rightarrow> session option \<Rightarrow> 'c session_world \<Rightarrow> cpp_exn + 'c session_world" where
  "onGetSuccess E H R cacheCtx session w =
     restoreSession E H R cacheCtx session
       (w\<lparr>requests := remove1 cacheCtx (requests w),
          sess_refs := (case session of Some s \<Rightarrow> (sess_refs w)(s := 1) | None \<Rightarrow> sess_refs w)\<rparr>)"

definition onGetFailure :: "(ssl_socket \<Rightarrow> 'c session_world \<Rightarrow> 'c session_world) \<Rightarrow> CacheContext \<Rightarrow> 'c session_world
    \<Rightarrow> cpp_exn + 'c session_world" where
  "onGetFailure R cacheCtx w = restartSSLAccept R cacheCtx None (w\<lparr>requests := remove1 cacheCtx (requests w)\<rparr>)"

end
