(* ===== verification/SSL_SessionCache_Props.thy ===== *)
theory SSL_SessionCache_Props
  imports SSL_SessionCache
begin

text \<open>
  The references the session cache holds and hands out add up to OpenSSL's counts, so no session is
  used after it was freed and none is leaked; and every handshake that was told to wait for the
  external cache is waited for or has been restarted.
\<close>

section \<open>Counting\<close>

definition entries :: "session \<Rightarrow> ('k \<times> session option) list \<Rightarrow> nat" where
  "entries s kvs = length (filter (\<lambda>kv. snd kv = Some s) kvs)"

lemma entries_simps [simp]:
  "entries s [] = 0" "entries s (kv # kvs) = (if snd kv = Some s then 1 else 0) + entries s kvs"
  "entries s (xs @ ys) = entries s xs + entries s ys"
  by (simp_all add: entries_def)

lemma entries_del:
  assumes "distinct (map fst kvs)"
  shows "entries s kvs = entries s (lru_del k kvs) + (if map_of kvs k = Some (Some s) then 1 else 0)"
  using assms
proof (induction kvs)
  case (Cons kv kvs)
  obtain a v where kv: "kv = (a, v)" by fastforce
  show ?case
  proof (cases "a = k")
    case True
    then have "lru_del k (kv # kvs) = lru_del k kvs" by (simp add: kv lru_del_def)
    moreover have "lru_del k kvs = kvs" using Cons.prems True kv by (intro lru_del_id) auto
    ultimately show ?thesis using kv True by simp
  next
    case False
    then have "lru_del k (kv # kvs) = kv # lru_del k kvs" by (simp add: kv lru_del_def)
    then show ?thesis using Cons kv False by simp
  qed
qed (simp add: lru_del_def)

lemma entries_touch: "distinct (map fst kvs) \<Longrightarrow> entries s (lru_touch k kvs) = entries s kvs"
  using entries_del [of kvs s k] by (auto simp: lru_touch_def split: option.splits)

lemma distinct_touch: "distinct (map fst kvs) \<Longrightarrow> distinct (map fst (lru_touch k kvs))"
  using lru_ok_touch [of 0 kvs k] by (simp add: lru_ok_def)

lemma sum_list_map_update:
  "i < length xs \<Longrightarrow> sum_list (map f (xs[i := y])) + f (xs ! i) = sum_list (map f xs) + (f y :: nat)"
  by (induction xs arbitrary: i) (auto split: nat.splits)

section \<open>The laws of the map\<close>

locale pruning_cache_map =
  fixes E :: "'c session_ops" and content :: "'c \<Rightarrow> (string \<times> session option) list"
  assumes new_content: "content (pm_new E m n) = []"
    and find_value: "fst (pm_find E k c) = map_of (content c) k"
    and find_content: "content (snd (pm_find E k c)) = lru_touch k (content c)"
    and set_content: "content (fst (pm_set E k v c)) @ snd (pm_set E k v c) = (k, v) # lru_del k (content c)"
    and erase_content: "content (pm_erase E k c) = lru_del k (content c)"
    and clear_content: "content (fst (pm_clear E c)) = [] \<and> snd (pm_clear E c) = content c"

text \<open>The sessions a manager refers to, and the counts that follow; \<open>own\<close> is what a caller owns on top.\<close>

definition cached :: "('c \<Rightarrow> (string \<times> session option) list) \<Rightarrow> 'c list \<Rightarrow> session \<Rightarrow> nat" where
  "cached content cs s = sum_list (map (\<lambda>c. entries s (content c)) cs)"

definition balanced :: "('c \<Rightarrow> (string \<times> session option) list) \<Rightarrow> (session \<Rightarrow> nat) \<Rightarrow> 'c session_world \<Rightarrow> bool" where
  "balanced content own w \<longleftrightarrow> \<not> sess_fault w \<and> caches w \<noteq> [] \<and>
     (\<forall>c\<in>set (caches w). distinct (map fst (content c))) \<and>
     (\<forall>s. sess_refs w s = cached content (caches w) s + sess_held w s + own s)"

abbreviation owns :: "session option \<Rightarrow> (session \<Rightarrow> nat) \<Rightarrow> session \<Rightarrow> nat" where
  "owns p own s \<equiv> own s + (if p = Some s then 1 else 0)"

lemma balanced_cong:
  assumes "caches w' = caches w" "sess_refs w' = sess_refs w" "sess_held w' = sess_held w" "sess_fault w' = sess_fault w"
  shows "balanced content own w' = balanced content own w"
  using assms by (simp add: balanced_def)

lemma session_stat_fields [simp]:
  "caches (session_stat x w) = caches w" "sess_refs (session_stat x w) = sess_refs w"
  "sess_held (session_stat x w) = sess_held w" "sess_fault (session_stat x w) = sess_fault w"
  "pendingLookups (session_stat x w) = pendingLookups w" "requests (session_stat x w) = requests w"
  "restarted (session_stat x w) = restarted w" "hasExternalCache (session_stat x w) = hasExternalCache w"
  by (simp_all add: session_stat_def)

lemma balanced_stat: "balanced content own (session_stat x w) = balanced content own w"
  by (simp add: balanced_def)

lemma balanced_free:
  assumes "balanced content (owns p own) w"
  shows "balanced content own (SSL_SESSION_free p w)"
proof (cases p)
  case None
  then show ?thesis using assms by (simp add: SSL_SESSION_free_def)
next
  case (Some s)
  then have "sess_refs w s = cached content (caches w) s + sess_held w s + own s + 1"
    using assms by (simp add: balanced_def)
  then show ?thesis using assms Some by (auto simp: balanced_def SSL_SESSION_free_def)
qed

lemma balanced_up_ref:
  assumes "balanced content own w" "sess_refs w s > 0"
  shows "balanced content (owns (Some s) own) (SSL_SESSION_up_ref s w)"
  using assms by (auto simp: balanced_def SSL_SESSION_up_ref_def)

context pruning_cache_map
begin

lemma set_distinct:
  assumes "distinct (map fst (content c))"
  shows "distinct (map fst (content (fst (pm_set E k v c))))"
proof -
  have "distinct (map fst (content (fst (pm_set E k v c)) @ snd (pm_set E k v c)))"
    unfolding set_content using assms by auto
  then show ?thesis by simp
qed


lemma cached_update:
  assumes "b < length cs"
  shows "cached content (cs[b := c]) s + entries s (content (cs ! b)) = cached content cs s + entries s (content c)"
  using sum_list_map_update [OF assms, of "\<lambda>c. entries s (content c)" c] by (simp add: cached_def)

lemma balanced_caches:
  assumes "balanced content own w" "b < length (caches w)" "distinct (map fst (content c))"
    and "\<And>s. entries s (content c) + own' s = entries s (content (caches w ! b)) + own s"
  shows "balanced content own' (w\<lparr>caches := (caches w)[b := c]\<rparr>)"
proof -
  have "sess_refs w s = cached content ((caches w)[b := c]) s + sess_held w s + own' s" for s
    using assms(1) assms(4) [of s] cached_update [OF assms(2), of c s] by (simp add: balanced_def)
  moreover have "distinct (map fst (content c'))" if "c' \<in> set ((caches w)[b := c])" for c'
    using that assms(1,3) set_update_subset_insert [of "caches w" b c] by (auto simp: balanced_def)
  ultimately show ?thesis using assms(1) by (simp add: balanced_def)
qed

lemma balanced_bucket:
  "balanced content own w \<Longrightarrow> cache_hash H sid w < length (caches w)
    \<and> distinct (map fst (content (caches w ! cache_hash H sid w)))"
  by (simp add: balanced_def cache_hash_def)

lemma find_entries:
  assumes "distinct (map fst (content c))"
  shows "entries s (content (snd (pm_find E k c))) = entries s (content c)"
    and "distinct (map fst (content (snd (pm_find E k c))))"
  using assms by (simp_all add: find_content entries_touch distinct_touch)

lemma entries_pos: "map_of kvs k = Some (Some s) \<Longrightarrow> entries s kvs > 0"
  by (induction kvs) (auto split: if_splits)

lemma set_entries:
  assumes "distinct (map fst (content c))"
  shows "entries s (content (fst (pm_set E k v c))) + entries s (snd (pm_set E k v c))
      + (if map_of (content c) k = Some (Some s) then 1 else 0)
    = entries s (content c) + (if v = Some s then 1 else 0)"
proof -
  have "entries s (content (fst (pm_set E k v c)) @ snd (pm_set E k v c)) = entries s ((k, v) # lru_del k (content c))"
    unfolding set_content ..
  then show ?thesis using entries_del [OF assms, of s k] by simp
qed

lemma balanced_prune:
  "balanced content (\<lambda>s. own s + entries s evicted) w \<Longrightarrow> balanced content own (pruneSessions evicted w)"
proof (induction evicted arbitrary: w)
  case (Cons kv evicted)
  have "balanced content (owns (snd kv) (\<lambda>s. own s + entries s evicted)) w"
    using Cons.prems by (simp add: balanced_def)
  from Cons.IH [OF balanced_free [OF this]] show ?case by (simp add: pruneSessions_def)
qed (simp add: pruneSessions_def)

lemma lookupSession_balanced:
  assumes "balanced content own w"
  shows "balanced content (owns (fst (lookupSession E H sid w)) own) (snd (lookupSession E H sid w))"
proof -
  define b where "b = cache_hash H sid w"
  define c where "c = caches w ! b"
  define w1 where "w1 = w\<lparr>caches := (caches w)[b := snd (pm_find E sid c)]\<rparr>"
  have b: "b < length (caches w)" "distinct (map fst (content c))"
    using balanced_bucket [OF assms] by (simp_all add: b_def c_def)
  have w1: "balanced content own w1"
    unfolding w1_def using assms b by (intro balanced_caches) (simp_all add: find_entries c_def [symmetric])
  show ?thesis
  proof (cases "fst (pm_find E sid c)")
    case (Some p)
    show ?thesis
    proof (cases p)
      case (Some s)
      have "entries s (content c) > 0"
        using \<open>fst (pm_find E sid c) = Some p\<close> Some by (intro entries_pos) (simp add: find_value)
      moreover have "entries s (content c) \<le> cached content (caches w) s"
        using elem_le_sum_list [of b "map (\<lambda>c. entries s (content c)) (caches w)"] b(1) by (simp add: cached_def c_def)
      ultimately have "sess_refs w1 s > 0" using assms by (simp add: w1_def balanced_def)
      then have "balanced content (owns (Some s) own) (SSL_SESSION_up_ref s w1)" by (rule balanced_up_ref [OF w1])
      then show ?thesis using \<open>fst (pm_find E sid c) = Some p\<close> Some
        by (simp add: lookupSession_def Let_def b_def [symmetric] c_def [symmetric] w1_def [symmetric] split_beta)
    qed (use w1 \<open>fst (pm_find E sid c) = Some p\<close> in
         \<open>simp add: lookupSession_def Let_def b_def [symmetric] c_def [symmetric] w1_def [symmetric] split_beta\<close>)
  qed (use w1 in \<open>simp add: lookupSession_def Let_def b_def [symmetric] c_def [symmetric] w1_def [symmetric] split_beta\<close>)
qed

lemma storeSession_balanced:
  assumes "balanced content (owns p own) w"
  shows "balanced content own (storeSession E H sid p w)"
proof -
  define b where "b = cache_hash H sid w"
  define c where "c = snd (pm_find E sid (caches w ! b))"
  define old where "old = (case map_of (content (caches w ! b)) sid of Some q \<Rightarrow> q | None \<Rightarrow> None)"
  define c' where "c' = fst (pm_set E sid p c)"
  define ev where "ev = snd (pm_set E sid p c)"
  have b: "b < length (caches w)" "distinct (map fst (content (caches w ! b)))"
    using balanced_bucket [OF assms] by (simp_all add: b_def)
  have c: "distinct (map fst (content c))" "\<And>s. entries s (content c) = entries s (content (caches w ! b))"
      "map_of (content c) = map_of (content (caches w ! b))"
    using b(2) by (simp_all add: c_def find_entries) (simp add: find_content)
  have old: "(map_of (content c) sid = Some (Some s)) = (old = Some s)" for s
    by (simp add: old_def c(3) split: option.splits)
  have "balanced content (owns old (\<lambda>s. own s + entries s ev)) (w\<lparr>caches := (caches w)[b := c']\<rparr>)"
  proof (rule balanced_caches [OF assms b(1)])
    show "distinct (map fst (content c'))" unfolding c'_def by (rule set_distinct [OF c(1)])
    show "entries s (content c') + owns old (\<lambda>s. own s + entries s ev) s
      = entries s (content (caches w ! b)) + owns p own s" for s
      using set_entries [OF c(1), of s sid p] unfolding c'_def [symmetric] ev_def [symmetric] old c(2) by simp
  qed
  then have "balanced content own (pruneSessions ev (SSL_SESSION_free old (w\<lparr>caches := (caches w)[b := c']\<rparr>)))"
    by (intro balanced_prune balanced_free)
  moreover have "SSL_SESSION_free old (w\<lparr>caches := (caches w)[b := c']\<rparr>)
      = (SSL_SESSION_free old w)\<lparr>caches := (caches (SSL_SESSION_free old w))[b := c']\<rparr>"
    by (cases old) (simp_all add: SSL_SESSION_free_def)
  moreover have "(case fst (pm_find E sid (caches w ! b)) of Some q \<Rightarrow> q | None \<Rightarrow> None) = old"
    by (simp add: old_def find_value)
  ultimately show ?thesis
    by (simp add: storeSession_def Let_def split_beta b_def [symmetric] c_def [symmetric] c'_def [symmetric]
        ev_def [symmetric] balanced_stat)
qed

end

section \<open>Pending lookups\<close>

text \<open>
  Every lookup in progress has one request outstanding at the external cache and the other way round.
  \<open>x\<close> is the lookup whose answer is being handed to the sockets.
\<close>

definition lookup_at :: "(string \<times> session option) option \<Rightarrow> bool \<Rightarrow> PendingLookup option \<Rightarrow> string \<Rightarrow> bool" where
  "lookup_at x outstanding q sid \<longleftrightarrow>
     (case q of
        None \<Rightarrow> \<not> outstanding \<and> map_option fst x \<noteq> Some sid
      | Some pl \<Rightarrow>
          if request_in_progress pl then outstanding \<and> map_option fst x \<noteq> Some sid
          else \<not> outstanding \<and> x = Some (sid, pl_session pl))"

definition lookups_ok :: "(string \<times> session option) option \<Rightarrow> 'c session_world \<Rightarrow> bool" where
  "lookups_ok x w \<longleftrightarrow> distinct (map cc_sessionId (requests w)) \<and>
     (\<forall>sid. lookup_at x (sid \<in> cc_sessionId ` set (requests w)) (pendingLookups w sid) sid)"

lemma lookups_ok_upd:
  assumes "lookups_ok x w" "distinct (map cc_sessionId (requests w'))" "pendingLookups w' = (pendingLookups w)(sid := q)"
    and "\<And>k. k \<noteq> sid \<Longrightarrow> (k \<in> cc_sessionId ` set (requests w')) = (k \<in> cc_sessionId ` set (requests w))"
    and "lookup_at x' (sid \<in> cc_sessionId ` set (requests w')) q sid"
    and "x' = x \<or> map_option fst x = Some sid \<and> x' = None \<or> x = None \<and> map_option fst x' = Some sid"
  shows "lookups_ok x' w'"
proof -
  have "lookup_at x' (k \<in> cc_sessionId ` set (requests w')) (pendingLookups w' k) k" for k
  proof (cases "k = sid")
    case False
    have "lookup_at x (k \<in> cc_sessionId ` set (requests w)) (pendingLookups w k) k"
      using assms(1) by (simp add: lookups_ok_def)
    moreover have "(x' = Some (k, p)) = (x = Some (k, p))" "(map_option fst x' = Some k) = (map_option fst x = Some k)" for p
      using assms(6) False by auto
    ultimately show ?thesis
      unfolding assms(3) assms(4) [OF False] using False
      by (simp add: lookup_at_def del: map_option_eq_Some split: option.splits if_splits)
  qed (use assms(3,5) in simp)
  then show ?thesis using assms(2) by (simp add: lookups_ok_def)
qed

text \<open>A socket waits for a session: it has asked for it, or has been attached to the lookup.\<close>

definition waiting :: "ssl_socket \<Rightarrow> string \<Rightarrow> 'c session_world \<Rightarrow> bool" where
  "waiting sock sid w \<longleftrightarrow> (\<exists>pl. pendingLookups w sid = Some pl \<and> request_in_progress pl \<and>
     (\<lparr>cc_sessionId = sid, cc_sslSocket = sock\<rparr> \<in> set (requests w) \<or> sock \<in> set (pl_waiters pl)))"

definition same_lookups :: "'c session_world \<Rightarrow> 'c session_world \<Rightarrow> bool" where
  "same_lookups w' w \<longleftrightarrow> pendingLookups w' = pendingLookups w \<and> requests w' = requests w \<and> restarted w' = restarted w
     \<and> hasExternalCache w' = hasExternalCache w"

lemma same_lookups_iff:
  assumes "same_lookups w' w"
  shows "lookups_ok x w' = lookups_ok x w" "waiting sock sid w' = waiting sock sid w" "restarted w' = restarted w"
proof -
  have fields: "pendingLookups w' = pendingLookups w" "requests w' = requests w" "restarted w' = restarted w"
    using assms by (simp_all add: same_lookups_def)
  show "lookups_ok x w' = lookups_ok x w" "waiting sock sid w' = waiting sock sid w" "restarted w' = restarted w"
    by (simp_all only: lookups_ok_def waiting_def fields)
qed

lemma same_lookups_free: "same_lookups (SSL_SESSION_free p w) w"
  by (cases p) (simp_all add: same_lookups_def SSL_SESSION_free_def)

lemma same_lookups_prune: "same_lookups (pruneSessions evicted w) w"
proof (induction evicted arbitrary: w)
  case (Cons kv evicted)
  from Cons.IH [of "SSL_SESSION_free (snd kv) w"] same_lookups_free [of "snd kv" w] show ?case
    by (simp add: pruneSessions_def same_lookups_def)
qed (simp add: pruneSessions_def same_lookups_def)

lemma same_lookups_lookup: "same_lookups (snd (lookupSession E H sid w)) w"
  by (simp add: same_lookups_def lookupSession_def SSL_SESSION_up_ref_def split_beta Let_def split: option.splits)

lemma same_lookups_store: "same_lookups (storeSession E H sid p w) w"
  by (simp add: storeSession_def Let_def split_beta same_lookups_def
      same_lookups_prune [unfolded same_lookups_def] same_lookups_free [unfolded same_lookups_def])

text \<open>What \<open>getSession\<close> answers and does, for each of its ways out.\<close>

definition attach_waiter :: "ssl_socket \<Rightarrow> string \<Rightarrow> PendingLookup \<Rightarrow> 'c session_world \<Rightarrow> 'c session_world" where
  "attach_waiter sock sid pl w = w\<lparr>pendingLookups := (pendingLookups w)
     (sid \<mapsto> pl\<lparr>pl_waiters := pl_waiters pl @ [sock]\<rparr>)\<rparr>"

definition start_lookup :: "ssl_socket \<Rightarrow> string \<Rightarrow> 'c session_world \<Rightarrow> 'c session_world" where
  "start_lookup sock sid w = w\<lparr>pendingLookups := (pendingLookups w)(sid \<mapsto> PendingLookup_new),
     requests := requests w @ [\<lparr>cc_sessionId = sid, cc_sslSocket = sock\<rparr>]\<rparr>"

lemma balanced_start: "balanced content own (start_lookup sock sid w) = balanced content own w"
  by (simp add: balanced_def start_lookup_def)

lemma balanced_attach: "balanced content own (attach_waiter sock sid pl w) = balanced content own w"
  by (simp add: balanced_def attach_waiter_def)

lemma session_found_fields [simp]:
  "fst (session_found sock foreign p w) = p" "fst (snd (session_found sock foreign p w)) = False"
  "same_lookups (snd (snd (session_found sock foreign p w))) w"
  "balanced content own (snd (snd (session_found sock foreign p w))) = balanced content own w"
  by (simp_all add: session_found_def Let_def same_lookups_def balanced_def)

lemma getSession_cases:
  assumes L: "lookupSession E H sid w = (r, w1)"
  obtains (short) "getSession E H want accepts sock sid w = (None, False, w)"
    | (local_hit) "getSession E H want accepts sock sid w = session_found sock False r w1"
    | (miss) foreign where "r = None" "getSession E H want accepts sock sid w = session_found sock foreign None w1"
    | (fetch) "r = None" "pendingLookups w1 sid = None"
        "getSession E H want accepts sock sid w = (None, True, start_lookup sock sid w1)"
    | (attach) pl where "r = None" "pendingLookups w1 sid = Some pl" "request_in_progress pl"
        "getSession E H want accepts sock sid w = (None, True, attach_waiter sock sid pl w1)"
    | (complete) pl where "r = None" "pendingLookups w1 sid = Some pl" "\<not> request_in_progress pl"
        "getSession E H want accepts sock sid w = session_found sock True (pl_session pl)
           (case pl_session pl of Some s \<Rightarrow> SSL_SESSION_up_ref s w1 | None \<Rightarrow> w1)"
proof -
  note G = getSession_def [of E H want accepts sock sid w, unfolded L, simplified]
  consider "length sid < MIN_SESSION_ID_LENGTH" | "length sid \<ge> MIN_SESSION_ID_LENGTH" by linarith
  then show thesis
  proof cases
    case 1
    then show thesis using short by (simp add: G)
  next
    case 2
    consider "r \<noteq> None \<or> \<not> hasExternalCache w1" | "r = None" "hasExternalCache w1" "\<not> want"
      | "r = None" "hasExternalCache w1" "want" by blast
    then show thesis
    proof cases
      case 3
      show thesis
      proof (cases "pendingLookups w1 sid")
        case None
        then have "getSession E H want accepts sock sid w
          = (if accepts then (None, True, start_lookup sock sid w1) else session_found sock True None w1)"
          unfolding G using 2 3 by (simp add: lookupCacheRecord_def start_lookup_def fun_upd_idem)
        then show thesis using 3 None fetch miss [of True] by (cases accepts) simp_all
      next
        case (Some pl)
        then have "getSession E H want accepts sock sid w
          = (if request_in_progress pl then (None, True, attach_waiter sock sid pl w1)
             else session_found sock True (pl_session pl)
               (case pl_session pl of Some s \<Rightarrow> SSL_SESSION_up_ref s w1 | None \<Rightarrow> w1))"
          unfolding G using 2 3 by (simp add: attach_waiter_def)
        then show thesis using 3 Some attach [of pl] complete [of pl] by (cases "request_in_progress pl") simp_all
      qed
    next
      case 1
      then have "getSession E H want accepts sock sid w = session_found sock False r w1" unfolding G using 2 by auto
      then show thesis by (rule local_hit)
    next
      case 2
      then have "getSession E H want accepts sock sid w = session_found sock True None w1"
        unfolding G using \<open>length sid \<ge> MIN_SESSION_ID_LENGTH\<close> by simp
      with 2 show thesis by (intro miss)
    qed
  qed
qed

lemma lookups_ok_pending:
  assumes "lookups_ok x w"
  shows "pendingLookups w sid = None \<Longrightarrow> sid \<notin> cc_sessionId ` set (requests w) \<and> map_option fst x \<noteq> Some sid"
    and "pendingLookups w sid = Some pl \<Longrightarrow> request_in_progress pl
      \<Longrightarrow> sid \<in> cc_sessionId ` set (requests w) \<and> map_option fst x \<noteq> Some sid"
    and "pendingLookups w sid = Some pl \<Longrightarrow> \<not> request_in_progress pl
      \<Longrightarrow> sid \<notin> cc_sessionId ` set (requests w) \<and> x = Some (sid, pl_session pl)"
proof -
  have "lookup_at x (sid \<in> cc_sessionId ` set (requests w)) (pendingLookups w sid) sid"
    using assms by (simp add: lookups_ok_def)
  then show "pendingLookups w sid = None \<Longrightarrow> sid \<notin> cc_sessionId ` set (requests w) \<and> map_option fst x \<noteq> Some sid"
    "pendingLookups w sid = Some pl \<Longrightarrow> request_in_progress pl
      \<Longrightarrow> sid \<in> cc_sessionId ` set (requests w) \<and> map_option fst x \<noteq> Some sid"
    "pendingLookups w sid = Some pl \<Longrightarrow> \<not> request_in_progress pl
      \<Longrightarrow> sid \<notin> cc_sessionId ` set (requests w) \<and> x = Some (sid, pl_session pl)"
    by (simp_all add: lookup_at_def)
qed

lemma lookups_ok_start:
  assumes "lookups_ok x w" "pendingLookups w sid = None"
  shows "lookups_ok x (start_lookup sock sid w)"
  using assms(1)
proof (rule lookups_ok_upd)
  show "pendingLookups (start_lookup sock sid w) = (pendingLookups w)(sid := Some PendingLookup_new)"
    by (simp add: start_lookup_def)
  show "distinct (map cc_sessionId (requests (start_lookup sock sid w)))"
    using assms lookups_ok_pending(1) [OF assms] by (simp add: lookups_ok_def start_lookup_def)
qed (use lookups_ok_pending(1) [OF assms] in \<open>auto simp: start_lookup_def lookup_at_def PendingLookup_new_def\<close>)

lemma lookups_ok_attach:
  assumes "lookups_ok x w" "pendingLookups w sid = Some pl" "request_in_progress pl"
  shows "lookups_ok x (attach_waiter sock sid pl w)"
  using assms(1)
proof (rule lookups_ok_upd)
  show "pendingLookups (attach_waiter sock sid pl w) = (pendingLookups w)(sid := Some (pl\<lparr>pl_waiters := pl_waiters pl @ [sock]\<rparr>))"
    by (simp add: attach_waiter_def)
qed (use assms lookups_ok_pending(2) [OF assms] in \<open>auto simp: attach_waiter_def lookup_at_def lookups_ok_def\<close>)

lemma same_lookups_up_ref:
  "same_lookups (case p of Some s \<Rightarrow> SSL_SESSION_up_ref s w | None \<Rightarrow> w) w"
  by (simp add: same_lookups_def SSL_SESSION_up_ref_def split: option.splits)

lemma same_lookups_trans: "same_lookups w2 w1 \<Longrightarrow> same_lookups w1 w \<Longrightarrow> same_lookups w2 w"
  by (simp add: same_lookups_def)

text \<open>A call of \<open>getSession\<close> changes the lookups by starting one, attaching to one, or not at all.\<close>

lemma getSession_lookups:
  fixes w :: "'c session_world"
  obtains (same) "\<not> fst (snd (getSession E H want accepts sock sid w))"
      "same_lookups (snd (snd (getSession E H want accepts sock sid w))) w"
    | (fetch) w1 where "same_lookups w1 w" "pendingLookups w1 sid = None"
      "snd (snd (getSession E H want accepts sock sid w)) = start_lookup sock sid w1"
    | (attach) w1 pl where "same_lookups w1 w" "pendingLookups w1 sid = Some pl" "request_in_progress pl"
      "snd (snd (getSession E H want accepts sock sid w)) = attach_waiter sock sid pl w1"
proof -
  obtain r w1 where L: "lookupSession E H sid w = (r, w1)" by fastforce
  have w1: "same_lookups w1 w" using same_lookups_lookup [of E H sid w] by (simp add: L)
  show thesis
  proof (rule getSession_cases [OF L, of want accepts sock])
    assume "getSession E H want accepts sock sid w = (None, False, w)"
    then show thesis by (intro same) (simp_all add: same_lookups_def)
  next
    fix pl assume "getSession E H want accepts sock sid w = session_found sock True (pl_session pl)
      (case pl_session pl of Some s \<Rightarrow> SSL_SESSION_up_ref s w1 | None \<Rightarrow> w1)"
    then show thesis
      by (intro same) (simp_all add: same_lookups_trans [OF session_found_fields(3) same_lookups_trans [OF same_lookups_up_ref w1]])
  qed (use w1 in \<open>auto intro: same fetch attach simp: same_lookups_trans [OF session_found_fields(3) w1]\<close>)
qed

lemma getSession_lookups_ok:
  assumes "lookups_ok x w"
  shows "lookups_ok x (snd (snd (getSession E H want accepts sock sid w)))"
  by (rule getSession_lookups [of E H want accepts sock sid w])
    (simp_all add: assms same_lookups_iff lookups_ok_start lookups_ok_attach)

lemma getSession_restarted: "restarted (snd (snd (getSession E H want accepts sock sid w))) = restarted w"
  by (rule getSession_lookups [of E H want accepts sock sid w])
    (simp_all add: same_lookups_iff start_lookup_def attach_waiter_def)

lemma getSession_waiting:
  assumes "waiting sock' sid' w"
  shows "waiting sock' sid' (snd (snd (getSession E H want accepts sock sid w)))"
proof (rule getSession_lookups [of E H want accepts sock sid w])
  fix w1 assume "same_lookups w1 w" "pendingLookups w1 sid = None"
    "snd (snd (getSession E H want accepts sock sid w)) = start_lookup sock sid w1"
  then show ?thesis using assms same_lookups_iff(2) [of w1 w sock' sid']
    by (auto simp: waiting_def start_lookup_def)
next
  fix w1 pl assume "same_lookups w1 w" "pendingLookups w1 sid = Some pl" "request_in_progress pl"
    "snd (snd (getSession E H want accepts sock sid w)) = attach_waiter sock sid pl w1"
  then show ?thesis using assms same_lookups_iff(2) [of w1 w sock' sid']
    by (auto simp: waiting_def attach_waiter_def)
qed (use assms in \<open>simp add: same_lookups_iff\<close>)

lemma getSession_blocks:
  assumes "fst (snd (getSession E H want accepts sock sid w))"
  shows "waiting sock sid (snd (snd (getSession E H want accepts sock sid w)))"
  using assms
  by (cases rule: getSession_lookups [of E H want accepts sock sid w])
    (auto simp: waiting_def start_lookup_def attach_waiter_def PendingLookup_new_def)

context pruning_cache_map
begin

lemma getSession_balanced:
  assumes "balanced content own w" "lookups_ok x w" "\<And>k s. x = Some (k, Some s) \<Longrightarrow> own s > 0"
  shows "balanced content (owns (fst (getSession E H want accepts sock sid w)) own)
    (snd (snd (getSession E H want accepts sock sid w)))"
proof -
  obtain r w1 where L: "lookupSession E H sid w = (r, w1)" by fastforce
  have w1: "balanced content (owns r own) w1" using lookupSession_balanced [OF assms(1), of H sid] by (simp add: L)
  have ok: "lookups_ok x w1" using same_lookups_lookup [of E H sid w] assms(2) by (simp add: L same_lookups_iff)
  show ?thesis
  proof (rule getSession_cases [OF L, of want accepts sock])
    assume "getSession E H want accepts sock sid w = (None, False, w)"
    then show ?thesis using assms(1) by simp
  next
    fix pl assume pl: "r = None" "pendingLookups w1 sid = Some pl" "\<not> request_in_progress pl"
      "getSession E H want accepts sock sid w = session_found sock True (pl_session pl)
        (case pl_session pl of Some s \<Rightarrow> SSL_SESSION_up_ref s w1 | None \<Rightarrow> w1)"
    have "balanced content (owns (pl_session pl) own) (case pl_session pl of Some s \<Rightarrow> SSL_SESSION_up_ref s w1 | None \<Rightarrow> w1)"
    proof (cases "pl_session pl")
      case (Some s)
      then have "own s > 0" using assms(3) lookups_ok_pending(3) [OF ok pl(2,3)] by auto
      then have "sess_refs w1 s > 0" using w1 by (auto simp: balanced_def)
      then show ?thesis using balanced_up_ref [of content own w1 s] w1 pl(1) Some by simp
    qed (use w1 pl(1) in simp)
    then show ?thesis using pl(4) by simp
  qed (use w1 in \<open>simp_all add: balanced_start balanced_attach\<close>)
qed

end

end
