(* ===== verification/SSL_SessionCache_Run.thy ===== *)
theory SSL_SessionCache_Run
  imports SSL_SessionCache_Props
begin

text \<open>
  Runs of a session cache manager with OpenSSL and an external cache: what OpenSSL asks for and
  creates and releases, and what the external cache answers, in any order.
\<close>

section \<open>OpenSSL\<close>

text \<open>
  OpenSSL keeps the reference \<open>getSession\<close> hands out. When a handshake is restarted it asks for a session
  again, or does not: \<open>asks\<close> says what it does with a socket in a state.
\<close>

definition openssl_hold :: "session option \<times> bool \<times> 'c session_world \<Rightarrow> 'c session_world" where
  "openssl_hold res = (case res of (r, _, w) \<Rightarrow>
     w\<lparr>sess_held := (\<lambda>s. sess_held w s + (if r = Some s then 1 else 0))\<rparr>)"

definition openssl_ask :: "'c session_ops \<Rightarrow> (string \<Rightarrow> nat) \<Rightarrow> ssl_socket \<Rightarrow> bool \<times> bool \<times> string \<Rightarrow> 'c session_world
    \<Rightarrow> 'c session_world" where
  "openssl_ask E H sock q w = (case q of (want, accepts, sid) \<Rightarrow> openssl_hold (getSession E H want accepts sock sid w))"

definition openssl_restart :: "'c session_ops \<Rightarrow> (string \<Rightarrow> nat)
    \<Rightarrow> (ssl_socket \<Rightarrow> 'c session_world \<Rightarrow> (bool \<times> bool \<times> string) option)
    \<Rightarrow> ssl_socket \<Rightarrow> 'c session_world \<Rightarrow> 'c session_world" where
  "openssl_restart E H asks sock w = (case asks sock w of None \<Rightarrow> w | Some q \<Rightarrow> openssl_ask E H sock q w)"

lemma openssl_hold_fields [simp]:
  "lookups_ok x (openssl_hold res) = lookups_ok x (snd (snd res))"
  "waiting sock sid (openssl_hold res) = waiting sock sid (snd (snd res))"
  "restarted (openssl_hold res) = restarted (snd (snd res))"
  by (simp_all add: openssl_hold_def split_beta lookups_ok_def waiting_def)

lemma openssl_hold_balanced:
  "balanced content (owns (fst res) own) (snd (snd res)) \<Longrightarrow> balanced content own (openssl_hold res)"
  by (auto simp: openssl_hold_def split_beta balanced_def)

context pruning_cache_map
begin

text \<open>What holds between two calls; \<open>x\<close> is the answer being handed out, which the caller owns.\<close>

definition manager_ok :: "(string \<times> session option) option \<Rightarrow> 'c session_world \<Rightarrow> bool" where
  "manager_ok x w \<longleftrightarrow> balanced content (owns (Option.bind x snd) (\<lambda>_. 0)) w \<and> lookups_ok x w"

lemma openssl_ask_ok: "manager_ok x w \<Longrightarrow> manager_ok x (openssl_ask E H sock q w)"
  unfolding manager_ok_def openssl_ask_def
  by (cases q) (auto intro!: openssl_hold_balanced getSession_balanced [of _ _ x] getSession_lookups_ok)

lemma restart_socket_ok:
  assumes "manager_ok x w"
  shows "manager_ok x (restart_socket (openssl_restart E H asks) sock w)"
proof -
  have "manager_ok x (w\<lparr>restarted := restarted w @ [sock]\<rparr>)"
    using assms by (simp add: manager_ok_def balanced_def lookups_ok_def)
  then show ?thesis
    using openssl_ask_ok by (simp add: restart_socket_def openssl_restart_def split: option.splits)
qed

lemma restart_fold_ok: "manager_ok x w \<Longrightarrow> manager_ok x (fold (restart_socket (openssl_restart E H asks)) socks w)"
  by (induction socks arbitrary: w) (simp_all add: restart_socket_ok)

end

lemma openssl_ask_waiting: "waiting sock' sid' w \<Longrightarrow> waiting sock' sid' (openssl_ask E H sock q w)"
  by (cases q) (simp add: openssl_ask_def getSession_waiting)

lemma openssl_ask_restarted: "restarted (openssl_ask E H sock q w) = restarted w"
  by (cases q) (simp add: openssl_ask_def getSession_restarted)

lemma restart_socket_waiting:
  assumes "waiting sock' sid' w"
  shows "waiting sock' sid' (restart_socket (openssl_restart E H asks) sock w)"
proof -
  have "waiting sock' sid' (w\<lparr>restarted := restarted w @ [sock]\<rparr>)" using assms by (simp add: waiting_def)
  then show ?thesis
    by (simp add: restart_socket_def openssl_restart_def openssl_ask_waiting split: option.splits)
qed

lemma restart_socket_restarted:
  "restarted (restart_socket (openssl_restart E H asks) sock w) = restarted w @ [sock]"
  by (simp add: restart_socket_def openssl_restart_def openssl_ask_restarted split: option.splits)

lemma restart_fold:
  "waiting sock' sid' w \<Longrightarrow> waiting sock' sid' (fold (restart_socket (openssl_restart E H asks)) socks w)"
  "restarted (fold (restart_socket (openssl_restart E H asks)) socks w) = restarted w @ socks"
  by (induction socks arbitrary: w) (simp_all add: restart_socket_waiting restart_socket_restarted)

section \<open>Answers\<close>

text \<open>The state in which an answer is handed to the sockets: the request is done, the lookup complete.\<close>

definition completed :: "CacheContext \<Rightarrow> session option \<Rightarrow> PendingLookup \<Rightarrow> 'c session_world \<Rightarrow> 'c session_world" where
  "completed ctx p pl w = w\<lparr>pendingLookups := (pendingLookups w)(cc_sessionId ctx \<mapsto>
     pl\<lparr>request_in_progress := False, pl_session := p\<rparr>)\<rparr>"

definition forgotten :: "string \<Rightarrow> 'c session_world \<Rightarrow> 'c session_world" where
  "forgotten sid w = w\<lparr>pendingLookups := (pendingLookups w)(sid := None)\<rparr>"

lemma restartSSLAccept_eq:
  "restartSSLAccept R ctx p w =
     (case pendingLookups w (cc_sessionId ctx) of
        None \<Rightarrow> Inl CheckFailed
      | Some pl \<Rightarrow> Inr (forgotten (cc_sessionId ctx)
          (fold (restart_socket R) (cc_sslSocket ctx # pl_waiters pl) (completed ctx p pl w))))"
  by (simp add: restartSSLAccept_def completed_def forgotten_def Let_def split: option.splits)

lemma lookups_ok_request:
  assumes "lookups_ok None w" "ctx \<in> set (requests w)"
  obtains pl where "pendingLookups w (cc_sessionId ctx) = Some pl" "request_in_progress pl"
    "cc_sessionId ctx \<notin> cc_sessionId ` set (remove1 ctx (requests w))"
proof -
  have "distinct (map cc_sessionId (requests w))" using assms(1) by (simp add: lookups_ok_def)
  moreover from split_list [OF assms(2)] obtain as bs where r: "requests w = as @ ctx # bs" by blast
  ultimately have "cc_sessionId ctx \<notin> cc_sessionId ` set (remove1 ctx (requests w))"
    by (auto simp: remove1_append)
  moreover have "cc_sessionId ctx \<in> cc_sessionId ` set (requests w)" using assms(2) by simp
  ultimately show thesis
    using that lookups_ok_pending [OF assms(1), of "cc_sessionId ctx"]
    by (cases "pendingLookups w (cc_sessionId ctx)") auto
qed

lemma lookups_ok_completed:
  assumes "lookups_ok None w" "ctx \<in> set (requests w)"
    and "w1 = w\<lparr>requests := remove1 ctx (requests w), sess_refs := f\<rparr>"
  shows "lookups_ok (Some (cc_sessionId ctx, p)) (completed ctx p pl w1)"
  using assms(1)
proof (rule lookups_ok_upd)
  show "pendingLookups (completed ctx p pl w1) = (pendingLookups w)(cc_sessionId ctx := Some
      (pl\<lparr>request_in_progress := False, pl_session := p\<rparr>))"
    by (simp add: completed_def assms(3))
  show "distinct (map cc_sessionId (requests (completed ctx p pl w1)))"
    using assms by (simp add: completed_def lookups_ok_def distinct_map inj_on_def)
  show "lookup_at (Some (cc_sessionId ctx, p)) (cc_sessionId ctx \<in> cc_sessionId ` set (requests (completed ctx p pl w1)))
      (Some (pl\<lparr>request_in_progress := False, pl_session := p\<rparr>)) (cc_sessionId ctx)"
    using lookups_ok_request [OF assms(1,2)] by (auto simp: lookup_at_def completed_def assms(3))
  fix k assume "k \<noteq> cc_sessionId ctx"
  then have "(y \<in> set (remove1 ctx (requests w)) \<and> cc_sessionId y = k) = (y \<in> set (requests w) \<and> cc_sessionId y = k)" for y
    by (metis in_set_remove1)
  then show "(k \<in> cc_sessionId ` set (requests (completed ctx p pl w1))) = (k \<in> cc_sessionId ` set (requests w))"
    by (auto simp: completed_def assms(3) image_iff)
qed simp

lemma lookups_ok_forgotten:
  assumes "lookups_ok (Some (sid, p)) w"
  shows "lookups_ok None (forgotten sid w)"
  using assms
proof (rule lookups_ok_upd)
  show "pendingLookups (forgotten sid w) = (pendingLookups w)(sid := None)" by (simp add: forgotten_def)
  have "sid \<notin> cc_sessionId ` set (requests w)"
    using lookups_ok_pending [OF assms, of sid] by (cases "pendingLookups w sid") force+
  then show "lookup_at None (sid \<in> cc_sessionId ` set (requests (forgotten sid w))) None sid"
    by (simp add: lookup_at_def forgotten_def)
qed (use assms in \<open>simp_all add: forgotten_def lookups_ok_def\<close>)

text \<open>A socket that waits for another session goes on waiting.\<close>

lemma completed_waiting:
  assumes "waiting sock sid w" "sid \<noteq> cc_sessionId ctx"
    and "w1 = w\<lparr>requests := remove1 ctx (requests w), sess_refs := f\<rparr>"
  shows "waiting sock sid (completed ctx p pl w1)"
proof -
  have "\<lparr>cc_sessionId = sid, cc_sslSocket = sock\<rparr> \<noteq> ctx" using assms(2) by auto
  then show ?thesis using assms by (simp add: waiting_def completed_def)
qed

lemma forgotten_waiting: "waiting sock sid w \<Longrightarrow> sid \<noteq> sid' \<Longrightarrow> waiting sock sid (forgotten sid' w)"
  by (simp add: waiting_def forgotten_def)

context pruning_cache_map
begin

lemma restartSSLAccept_ok:
  assumes ok: "manager_ok None w" and ctx: "ctx \<in> set (requests w)"
    and w1: "w1 = w\<lparr>requests := remove1 ctx (requests w), sess_refs := f\<rparr>"
    and bal: "balanced content (owns p (\<lambda>_. 0)) w1"
  obtains w2 pl where "restartSSLAccept (openssl_restart E H asks) ctx p w1 = Inr w2"
    "balanced content (owns p (\<lambda>_. 0)) w2" "lookups_ok None w2"
    "pendingLookups w (cc_sessionId ctx) = Some pl"
    "restarted w2 = restarted w @ cc_sslSocket ctx # pl_waiters pl"
    "\<And>sock sid. waiting sock sid w \<Longrightarrow> sid \<noteq> cc_sessionId ctx \<Longrightarrow> waiting sock sid w2"
proof -
  have lookups: "lookups_ok None w" using ok by (simp add: manager_ok_def)
  from lookups_ok_request [OF lookups ctx] obtain pl where pl: "pendingLookups w (cc_sessionId ctx) = Some pl" by metis
  define w2 where "w2 = fold (restart_socket (openssl_restart E H asks)) (cc_sslSocket ctx # pl_waiters pl) (completed ctx p pl w1)"
  have "balanced content (owns p (\<lambda>_. 0)) (completed ctx p pl w1)" using bal by (simp add: balanced_def completed_def)
  then have "manager_ok (Some (cc_sessionId ctx, p)) (completed ctx p pl w1)"
    using lookups_ok_completed [OF lookups ctx w1] by (simp add: manager_ok_def)
  then have w2: "manager_ok (Some (cc_sessionId ctx, p)) w2" unfolding w2_def by (rule restart_fold_ok)
  show thesis
  proof (rule that [of "forgotten (cc_sessionId ctx) w2" pl])
    show "restartSSLAccept (openssl_restart E H asks) ctx p w1 = Inr (forgotten (cc_sessionId ctx) w2)"
      using pl by (simp add: restartSSLAccept_eq w2_def w1)
    show "balanced content (owns p (\<lambda>_. 0)) (forgotten (cc_sessionId ctx) w2)"
      using w2 by (simp add: manager_ok_def balanced_def forgotten_def)
    show "lookups_ok None (forgotten (cc_sessionId ctx) w2)"
      using w2 by (auto simp: manager_ok_def intro: lookups_ok_forgotten)
    show "restarted (forgotten (cc_sessionId ctx) w2) = restarted w @ cc_sslSocket ctx # pl_waiters pl"
      by (simp add: forgotten_def w2_def restart_fold(2) restart_socket_restarted completed_def w1)
    show "waiting sock sid (forgotten (cc_sessionId ctx) w2)" if "waiting sock sid w" "sid \<noteq> cc_sessionId ctx" for sock sid
      unfolding w2_def by (intro forgotten_waiting restart_fold(1) completed_waiting [OF that w1] that(2))
  qed (rule pl)
qed

lemma onGetFailure_ok:
  assumes "manager_ok None w" "ctx \<in> set (requests w)"
  obtains w' pl where "onGetFailure (openssl_restart E H asks) ctx w = Inr w'" "manager_ok None w'"
    "pendingLookups w (cc_sessionId ctx) = Some pl"
    "restarted w' = restarted w @ cc_sslSocket ctx # pl_waiters pl"
    "\<And>sock sid. waiting sock sid w \<Longrightarrow> sid \<noteq> cc_sessionId ctx \<Longrightarrow> waiting sock sid w'"
proof (rule restartSSLAccept_ok [OF assms refl, where f = "sess_refs w" and p = None and H = H and asks = asks])
  show "balanced content (owns None (\<lambda>_. 0)) (w\<lparr>requests := remove1 ctx (requests w), sess_refs := sess_refs w\<rparr>)"
    using assms(1) by (simp add: manager_ok_def balanced_def)
next
  fix w2 pl
  assume "restartSSLAccept (openssl_restart E H asks) ctx None (w\<lparr>requests := remove1 ctx (requests w), sess_refs := sess_refs w\<rparr>) = Inr w2"
    "balanced content (owns None (\<lambda>_. 0)) w2" "lookups_ok None w2"
    "pendingLookups w (cc_sessionId ctx) = Some pl" "restarted w2 = restarted w @ cc_sslSocket ctx # pl_waiters pl"
    "\<And>sock sid. waiting sock sid w \<Longrightarrow> sid \<noteq> cc_sessionId ctx \<Longrightarrow> waiting sock sid w2"
  then show thesis by (intro that [of w2 pl]) (simp_all add: onGetFailure_def manager_ok_def)
qed

lemma onGetSuccess_ok:
  assumes "manager_ok None w" "ctx \<in> set (requests w)" "\<And>s. p = Some s \<Longrightarrow> sess_refs w s = 0"
  obtains w' pl where "onGetSuccess E H (openssl_restart E H asks) ctx p w = Inr w'" "manager_ok None w'"
    "pendingLookups w (cc_sessionId ctx) = Some pl"
    "restarted w' = restarted w @ cc_sslSocket ctx # pl_waiters pl"
    "\<And>sock sid. waiting sock sid w \<Longrightarrow> sid \<noteq> cc_sessionId ctx \<Longrightarrow> waiting sock sid w'"
proof -
  define f where "f = (case p of Some s \<Rightarrow> (sess_refs w)(s := 1) | None \<Rightarrow> sess_refs w)"
  define w1 where "w1 = w\<lparr>requests := remove1 ctx (requests w), sess_refs := f\<rparr>"
  have "balanced content (owns p (\<lambda>_. 0)) w1"
    using assms(1,3) by (auto simp: manager_ok_def balanced_def w1_def f_def split: option.splits)
  from restartSSLAccept_ok [OF assms(1,2) w1_def this] obtain w2 pl where w2:
    "restartSSLAccept (openssl_restart E H asks) ctx p w1 = Inr w2"
    "balanced content (owns p (\<lambda>_. 0)) w2" "lookups_ok None w2"
    "pendingLookups w (cc_sessionId ctx) = Some pl"
    "restarted w2 = restarted w @ cc_sslSocket ctx # pl_waiters pl"
    "\<And>sock sid. waiting sock sid w \<Longrightarrow> sid \<noteq> cc_sessionId ctx \<Longrightarrow> waiting sock sid w2" by metis
  have "onGetSuccess E H (openssl_restart E H asks) ctx p w = Inr (storeSession E H (cc_sessionId ctx) p w2)"
    using w2(1) by (simp add: onGetSuccess_def restoreSession_def w1_def f_def)
  moreover note same = same_lookups_iff [OF same_lookups_store [of E H "cc_sessionId ctx" p w2]]
  moreover have "manager_ok None (storeSession E H (cc_sessionId ctx) p w2)"
    using storeSession_balanced [OF w2(2)] w2(3) by (simp add: manager_ok_def same)
  ultimately show thesis using that w2(4-6) by simp
qed

lemma newSession_ok:
  assumes "manager_ok None w" "sess_refs w s = 0"
  shows "manager_ok None (snd (newSession E H sid s (w\<lparr>sess_refs := (sess_refs w)(s := 2), sess_held := (sess_held w)(s := 1)\<rparr>)))"
proof -
  define w1 where "w1 = w\<lparr>sess_refs := (sess_refs w)(s := 2), sess_held := (sess_held w)(s := 1)\<rparr>"
  have "balanced content (owns (Some s) (\<lambda>_. 0)) (session_stat (SessionStat True False False) w1)"
    using assms by (auto simp: balanced_stat manager_ok_def balanced_def w1_def)
  note bal = storeSession_balanced [OF this, of H sid]
  have "lookups_ok None (session_stat (SessionStat True False False) w1)"
    using assms(1) by (simp add: manager_ok_def lookups_ok_def w1_def)
  then have "lookups_ok None (storeSession E H sid (Some s) (session_stat (SessionStat True False False) w1))"
    by (simp add: same_lookups_iff [OF same_lookups_store])
  with bal show ?thesis
    unfolding w1_def [symmetric] by (simp add: newSession_def storeCacheRecord_def Let_def manager_ok_def balanced_def lookups_ok_def)
qed

end

lemma same_lookups_new:
  "same_lookups (snd (newSession E H sid s (w\<lparr>sess_refs := f, sess_held := g\<rparr>))) w"
  by (simp add: newSession_def storeCacheRecord_def Let_def same_lookups_def same_lookups_store [unfolded same_lookups_def])

lemma same_lookups_release: "same_lookups (SSL_SESSION_free p (w\<lparr>sess_held := g\<rparr>)) w"
  by (cases p) (simp_all add: same_lookups_def SSL_SESSION_free_def)

section \<open>Runs\<close>

text \<open>
  OpenSSL creates a session and gives the manager a reference next to its own, asks for one, or
  releases one it holds; the external cache answers a request, with a session decoded from its data
  (if it can be decoded) or with a failure.
\<close>

inductive session_step :: "'c session_ops \<Rightarrow> (string \<Rightarrow> nat)
    \<Rightarrow> (ssl_socket \<Rightarrow> 'c session_world \<Rightarrow> (bool \<times> bool \<times> string) option)
    \<Rightarrow> 'c session_world \<Rightarrow> cpp_exn + 'c session_world \<Rightarrow> bool"
  for E :: "'c session_ops" and H :: "string \<Rightarrow> nat"
    and asks :: "ssl_socket \<Rightarrow> 'c session_world \<Rightarrow> (bool \<times> bool \<times> string) option" where
  created: "sess_refs w s = 0 \<Longrightarrow> session_step E H asks w
     (Inr (snd (newSession E H sid s (w\<lparr>sess_refs := (sess_refs w)(s := 2), sess_held := (sess_held w)(s := 1)\<rparr>))))"
| released: "sess_held w s > 0 \<Longrightarrow> session_step E H asks w
     (Inr (SSL_SESSION_free (Some s) (w\<lparr>sess_held := (sess_held w)(s := sess_held w s - 1)\<rparr>)))"
| asked: "session_step E H asks w (Inr (openssl_ask E H sock q w))"
| answered: "ctx \<in> set (requests w) \<Longrightarrow> (\<And>s. p = Some s \<Longrightarrow> sess_refs w s = 0) \<Longrightarrow>
     session_step E H asks w (onGetSuccess E H (openssl_restart E H asks) ctx p w)"
| failed: "ctx \<in> set (requests w) \<Longrightarrow> session_step E H asks w (onGetFailure (openssl_restart E H asks) ctx w)"

inductive session_reachable :: "'c session_ops \<Rightarrow> (string \<Rightarrow> nat)
    \<Rightarrow> (ssl_socket \<Rightarrow> 'c session_world \<Rightarrow> (bool \<times> bool \<times> string) option) \<Rightarrow> 'c session_world \<Rightarrow> bool"
  for E :: "'c session_ops" and H :: "string \<Rightarrow> nat"
    and asks :: "ssl_socket \<Rightarrow> 'c session_world \<Rightarrow> (bool \<times> bool \<times> string) option" where
  start: "getLocalCache E maxSize cullSize None = Inr cs \<Longrightarrow>
     session_reachable E H asks (SSLSessionCacheManager_new cs external stats)"
| move: "session_reachable E H asks w \<Longrightarrow> session_step E H asks w (Inr w') \<Longrightarrow> session_reachable E H asks w'"

context pruning_cache_map
begin

lemma manager_ok_new:
  assumes "getLocalCache E maxSize cullSize None = Inr cs"
  shows "manager_ok None (SSLSessionCacheManager_new cs external stats)"
proof -
  from assms obtain m n where cs: "cs = replicate NUM_CACHE_BUCKETS (pm_new E m n)"
    by (auto simp: getLocalCache_def ShardedLocalSSLSessionCache_new_def NUM_CACHE_BUCKETS_def Let_def split: if_splits)
  then have "cached content cs s = 0" for s by (simp add: cached_def new_content sum_list_replicate)
  then show ?thesis
    using cs by (simp add: manager_ok_def balanced_def lookups_ok_def lookup_at_def SSLSessionCacheManager_new_def
        new_content NUM_CACHE_BUCKETS_def)
qed

lemma session_step_ok:
  assumes "session_step E H asks w res" "manager_ok None w"
  shows "\<exists>w'. res = Inr w' \<and> manager_ok None w'"
  using assms
proof cases
  case (released s)
  have "balanced content (owns (Some s) (\<lambda>_. 0)) (w\<lparr>sess_held := (sess_held w)(s := sess_held w s - 1)\<rparr>)"
    using released assms(2) by (auto simp: manager_ok_def balanced_def)
  from balanced_free [OF this]
  have "manager_ok None (SSL_SESSION_free (Some s) (w\<lparr>sess_held := (sess_held w)(s := sess_held w s - 1)\<rparr>))"
    using assms(2) by (simp add: manager_ok_def same_lookups_iff [OF same_lookups_release])
  with released(1) show ?thesis by blast
next
  case (answered ctx p)
  from onGetSuccess_ok [OF assms(2) answered(2,3), where H = H and asks = asks]
  obtain w' where "onGetSuccess E H (openssl_restart E H asks) ctx p w = Inr w'" "manager_ok None w'" by metis
  with answered(1) show ?thesis by blast
next
  case (failed ctx)
  from onGetFailure_ok [OF assms(2) failed(2), where H = H and asks = asks]
  obtain w' where "onGetFailure (openssl_restart E H asks) ctx w = Inr w'" "manager_ok None w'" by metis
  with failed(1) show ?thesis by blast
qed (use assms(2) newSession_ok openssl_ask_ok in blast)+

lemma session_reachable_ok: "session_reachable E H asks w \<Longrightarrow> manager_ok None w"
proof (induction rule: session_reachable.induct)
  case (start maxSize cullSize cs external stats)
  then show ?case by (rule manager_ok_new)
next
  case (move w w')
  then show ?case using session_step_ok by blast
qed

end

text \<open>A step restarts a waiting socket or leaves it waiting.\<close>

lemma answered_restarts:
  assumes "lookups_ok None w" "ctx \<in> set (requests w)" "waiting sock (cc_sessionId ctx) w"
    and "pendingLookups w (cc_sessionId ctx) = Some pl"
  shows "sock \<in> set (cc_sslSocket ctx # pl_waiters pl)"
proof -
  have "inj_on cc_sessionId (set (requests w))" using assms(1) by (simp add: lookups_ok_def distinct_map)
  then have "cc_sslSocket ctx = sock" if "\<lparr>cc_sessionId = cc_sessionId ctx, cc_sslSocket = sock\<rparr> \<in> set (requests w)"
    using that assms(2) by (metis CacheContext.select_convs inj_onD)
  then show ?thesis using assms(3,4) by (auto simp: waiting_def)
qed

lemma answered_waiting:
  assumes "lookups_ok None w" "ctx \<in> set (requests w)" "waiting sock sid w"
    and "pendingLookups w (cc_sessionId ctx) = Some pl" "restarted w' = restarted w @ cc_sslSocket ctx # pl_waiters pl"
    and "\<And>sock sid. waiting sock sid w \<Longrightarrow> sid \<noteq> cc_sessionId ctx \<Longrightarrow> waiting sock sid w'"
  shows "waiting sock sid w' \<or> sock \<in> set (drop (length (restarted w)) (restarted w'))"
  using assms(3,6) answered_restarts [OF assms(1,2) _ assms(4), of sock]
  by (cases "sid = cc_sessionId ctx") (simp_all add: assms(5))

context pruning_cache_map
begin

lemma session_step_waiting:
  assumes "session_step E H asks w (Inr w')" "manager_ok None w" "waiting sock sid w"
  shows "waiting sock sid w' \<or> sock \<in> set (drop (length (restarted w)) (restarted w'))"
  using assms(1)
proof cases
  case (created s sid')
  then show ?thesis using assms(3) by (simp add: same_lookups_iff [OF same_lookups_new])
next
  case (released s)
  then show ?thesis using assms(3) by (simp add: same_lookups_iff [OF same_lookups_release])
next
  case (asked sock' q)
  then show ?thesis using assms(3) openssl_ask_waiting by blast
next
  case (answered ctx p)
  from onGetSuccess_ok [OF assms(2) answered(2,3), where H = H and asks = asks]
  obtain w2 pl where w2: "onGetSuccess E H (openssl_restart E H asks) ctx p w = Inr w2"
    "pendingLookups w (cc_sessionId ctx) = Some pl" "restarted w2 = restarted w @ cc_sslSocket ctx # pl_waiters pl"
    "\<And>sock sid. waiting sock sid w \<Longrightarrow> sid \<noteq> cc_sessionId ctx \<Longrightarrow> waiting sock sid w2" by metis
  have "w' = w2" using w2(1) answered(1) by simp
  then show ?thesis using answered_waiting [OF _ answered(2) assms(3) w2(2-4)] assms(2) by (simp add: manager_ok_def)
next
  case (failed ctx)
  from onGetFailure_ok [OF assms(2) failed(2), where H = H and asks = asks]
  obtain w2 pl where w2: "onGetFailure (openssl_restart E H asks) ctx w = Inr w2"
    "pendingLookups w (cc_sessionId ctx) = Some pl" "restarted w2 = restarted w @ cc_sslSocket ctx # pl_waiters pl"
    "\<And>sock sid. waiting sock sid w \<Longrightarrow> sid \<noteq> cc_sessionId ctx \<Longrightarrow> waiting sock sid w2" by metis
  have "w' = w2" using w2(1) failed(1) by simp
  then show ?thesis using answered_waiting [OF _ failed(2) assms(3) w2(2-4)] assms(2) by (simp add: manager_ok_def)
qed

end

context pruning_cache_map
begin

text \<open>A waiting socket has a request outstanding, whose answer restarts it.\<close>

lemma waiting_answered:
  assumes "manager_ok None w" "waiting sock sid w"
  obtains ctx where "ctx \<in> set (requests w)" "cc_sessionId ctx = sid"
    "\<And>p. (\<And>s. p = Some s \<Longrightarrow> sess_refs w s = 0) \<Longrightarrow>
      \<exists>w'. onGetSuccess E H (openssl_restart E H asks) ctx p w = Inr w' \<and> sock \<in> set (drop (length (restarted w)) (restarted w'))"
    "\<exists>w'. onGetFailure (openssl_restart E H asks) ctx w = Inr w' \<and> sock \<in> set (drop (length (restarted w)) (restarted w'))"
proof -
  have ok: "lookups_ok None w" using assms(1) by (simp add: manager_ok_def)
  from assms(2) obtain pl where "pendingLookups w sid = Some pl" "request_in_progress pl" by (auto simp: waiting_def)
  from lookups_ok_pending(2) [OF ok this] obtain ctx where ctx: "ctx \<in> set (requests w)" "cc_sessionId ctx = sid" by auto
  note restarts = answered_restarts [OF ok ctx(1), of sock, unfolded ctx(2), OF assms(2)]
  show thesis
  proof (rule that [OF ctx])
    fix p :: "session option" assume fresh: "\<And>s. p = Some s \<Longrightarrow> sess_refs w s = 0"
    from onGetSuccess_ok [OF assms(1) ctx(1) fresh, where H = H and asks = asks]
    obtain w' pl where "onGetSuccess E H (openssl_restart E H asks) ctx p w = Inr w'"
      "pendingLookups w sid = Some pl" "restarted w' = restarted w @ cc_sslSocket ctx # pl_waiters pl"
      unfolding ctx(2) by metis
    then show "\<exists>w'. onGetSuccess E H (openssl_restart E H asks) ctx p w = Inr w' \<and> sock \<in> set (drop (length (restarted w)) (restarted w'))"
      using restarts by simp
  next
    from onGetFailure_ok [OF assms(1) ctx(1), where H = H and asks = asks]
    obtain w' pl where "onGetFailure (openssl_restart E H asks) ctx w = Inr w'"
      "pendingLookups w sid = Some pl" "restarted w' = restarted w @ cc_sslSocket ctx # pl_waiters pl"
      unfolding ctx(2) by metis
    then show "\<exists>w'. onGetFailure (openssl_restart E H asks) ctx w = Inr w' \<and> sock \<in> set (drop (length (restarted w)) (restarted w'))"
      using restarts by simp
  qed
qed

end

section \<open>A map as the list of its entries\<close>

text \<open>The bounds of a map, and its entries; setting a key evicts a block of old entries when the map is full.\<close>

type_synonym pruning_list = "(nat \<times> nat) \<times> (string \<times> session option) list"

definition pruning_list_set :: "string \<Rightarrow> session option \<Rightarrow> pruning_list \<Rightarrow> pruning_list \<times> (string \<times> session option) list" where
  "pruning_list_set k v c =
     (case c of ((m, n), kvs) \<Rightarrow>
        (let kvs' = (k, v) # lru_del k kvs; keep = (if length kvs' > m then length kvs' - n else length kvs') in
         (((m, n), take keep kvs'), drop keep kvs')))"

definition pruning_list :: "pruning_list session_ops" where
  "pruning_list = \<lparr>
     pm_new = (\<lambda>m n. ((m, n), [])),
     pm_find = (\<lambda>k (mn, kvs). (map_of kvs k, (mn, lru_touch k kvs))),
     pm_set = pruning_list_set,
     pm_erase = (\<lambda>k (mn, kvs). (mn, lru_del k kvs)),
     pm_clear = (\<lambda>(mn, kvs). ((mn, []), kvs))\<rparr>"

interpretation plist: pruning_cache_map pruning_list snd
  by unfold_locales (auto simp: pruning_list_def pruning_list_set_def Let_def split: prod.splits)

section \<open>A run\<close>

text \<open>A socket asks for a session the external cache may have, and another handshake creates a session.\<close>

definition example_id :: string where
  "example_id = replicate 16 (CHR ''a'')"

definition example_start :: "pruning_list session_world" where
  "example_start = SSLSessionCacheManager_new (replicate 16 ((6, 2), [])) True False"

definition example_asked :: "pruning_list session_world" where
  "example_asked = openssl_ask pruning_list length 1 (True, True, example_id) example_start"

definition example_created :: "pruning_list session_world" where
  "example_created = snd (newSession pruning_list length ''b'' 5 (example_asked\<lparr>
     sess_refs := (sess_refs example_asked)(5 := 2), sess_held := (sess_held example_asked)(5 := 1)\<rparr>))"

lemma example_asked_refs: "sess_refs example_asked 5 = 0"
  by code_simp

lemma example_asked_reachable: "session_reachable pruning_list length (\<lambda>_ _. None) example_asked"
proof -
  have "getLocalCache pruning_list 100 32 None = Inr (replicate 16 ((6, 2), []))"
    by (simp add: getLocalCache_def ShardedLocalSSLSessionCache_new_def NUM_CACHE_BUCKETS_def pruning_list_def)
  then have "session_reachable pruning_list length (\<lambda>_ _. None) example_start"
    unfolding example_start_def by (rule session_reachable.start)
  then show ?thesis unfolding example_asked_def by (rule session_reachable.move) (rule session_step.asked)
qed

lemma example_created_reachable: "session_reachable pruning_list length (\<lambda>_ _. None) example_created"
  using session_reachable.move [OF example_asked_reachable session_step.created [OF example_asked_refs]]
  unfolding example_created_def .

section \<open>Properties\<close>

text \<open>
  C14. In every run of a session cache manager that has made its local cache, OpenSSL's count of each session is the number of cache
  entries that hold it plus what OpenSSL itself holds, so sessions are neither leaked nor freed
  while a cache refers to them; no session is used or freed without a reference; and no step fails
  its \<open>CHECK\<close>. The hook for removing sessions, which OpenSSL never calls here, is not a step.
\<close>

theorem session_references:
  assumes "pruning_cache_map E content" and "session_reachable E H asks w"
  shows "\<not> sess_fault w \<and> (\<forall>s. sess_refs w s = cached content (caches w) s + sess_held w s)
    \<and> (\<nexists>e. session_step E H asks w (Inl e))"
proof -
  have ok: "pruning_cache_map.manager_ok content None w"
    using assms(2) by (rule pruning_cache_map.session_reachable_ok [OF assms(1)])
  then have "\<nexists>e. session_step E H asks w (Inl e)"
    using pruning_cache_map.session_step_ok [OF assms(1)] by fastforce
  with ok show ?thesis by (simp add: pruning_cache_map.manager_ok_def [OF assms(1)] balanced_def)
qed

theorem session_references_witness:
  "pruning_cache_map pruning_list snd \<and> session_reachable pruning_list length (\<lambda>_ _. None) example_created
   \<and> \<not> sess_fault example_created
   \<and> sess_refs example_created 5 = cached snd (caches example_created) 5 + sess_held example_created 5
   \<and> cached snd (caches example_created) 5 = 1 \<and> sess_refs example_created 5 = 2"
proof -
  have "cached snd (caches example_created) 5 = 1" "sess_refs example_created 5 = 2" by code_simp+
  then show ?thesis
    using plist.pruning_cache_map_axioms example_created_reachable
      session_references [OF plist.pruning_cache_map_axioms example_created_reachable] by blast
qed



end
