(* ===== verification/SSL_ContextManager.thy ===== *)
theory SSL_ContextManager
  imports SSL_TicketKeys "HOL-Library.Char_ord" "HOL-Library.List_Lexorder"
begin

text \<open>
  \<open>ssl/SSLContextManager.{h,cpp}\<close> with \<open>ssl/ServerSSLContext.{h,cpp}\<close>, \<open>ssl/SSLContextConfig.h\<close>,
  \<open>acceptor/SSLContextSelectionMisc.h\<close> and the name functions of \<open>ssl/SSLUtil.cpp\<close>: the TLS contexts of a
  listening address, built from configurations, and the choice among them by server name.
\<close>

section \<open>Domain names\<close>

text \<open>\<open>char\<close> is signed: its value as an \<open>int\<close>. \<open>tolower\<close> is that of the C locale.\<close>

definition char_value :: "char \<Rightarrow> int" where
  "char_value c = (let n = of_char c :: int in if n < 128 then n else n - 256)"

definition tolower :: "char \<Rightarrow> char" where
  "tolower c = (let n = of_char c :: nat in if 65 \<le> n \<and> n \<le> 90 then char_of (n + 32) else c)"

definition dn_eq_char :: "char \<Rightarrow> char \<Rightarrow> bool" where
  "dn_eq_char c1 c2 \<longleftrightarrow> tolower c1 = tolower c2"

definition dn_lt_char :: "char \<Rightarrow> char \<Rightarrow> bool" where
  "dn_lt_char c1 c2 \<longleftrightarrow> char_value (tolower c1) < char_value (tolower c2)"

text \<open>\<open>dn_char_traits::compare\<close> reads the same number of characters of both strings.\<close>

fun dn_compare :: "string \<Rightarrow> string \<Rightarrow> nat \<Rightarrow> int" where
  "dn_compare (a # s1) (b # s2) (Suc n) =
     (if char_value (tolower a) < char_value (tolower b) then -1
      else if char_value (tolower a) > char_value (tolower b) then 1
      else dn_compare s1 s2 n)"
| "dn_compare s1 s2 n = 0"

fun dn_find :: "string \<Rightarrow> char \<Rightarrow> nat option" where
  "dn_find [] a = None"
| "dn_find (c # s) a = (if tolower c = tolower a then Some 0 else map_option Suc (dn_find s a))"

text \<open>The standard string on top of these: equality compares sizes and characters.\<close>

definition dn_eq :: "string \<Rightarrow> string \<Rightarrow> bool" where
  "dn_eq s t \<longleftrightarrow> length s = length t \<and> dn_compare s t (length s) = 0"

fun find_first_of :: "string \<Rightarrow> string \<Rightarrow> nat option" where
  "find_first_of cs [] = None"
| "find_first_of cs (c # s) = (if dn_find cs c \<noteq> None then Some 0 else map_option Suc (find_first_of cs s))"

datatype CertCrypto = BEST_AVAILABLE | SHA1_SIGNATURE

record SSLContextKey =
  dnString :: string
  key_certCrypto :: CertCrypto

definition key_eq :: "SSLContextKey \<Rightarrow> SSLContextKey \<Rightarrow> bool" where
  "key_eq k k' \<longleftrightarrow> dn_eq (dnString k) (dnString k') \<and> key_certCrypto k = key_certCrypto k'"

text \<open>\<open>lower\<close> is folly's \<open>toLowerAscii\<close>, \<open>combine\<close> its \<open>hash_combine\<close>.\<close>

definition SSLContextKeyHash :: "(string \<Rightarrow> string) \<Rightarrow> (string \<Rightarrow> nat \<Rightarrow> nat) \<Rightarrow> SSLContextKey \<Rightarrow> nat" where
  "SSLContextKeyHash lower combine k =
     combine (lower (dnString k)) (case key_certCrypto k of BEST_AVAILABLE \<Rightarrow> 0 | SHA1_SIGNATURE \<Rightarrow> 1)"

section \<open>Certificates\<close>

text \<open>
  What the manager reads of a certificate through OpenSSL: the text \<open>X509_NAME_get_text_by_NID\<close> copies of
  the common name into a buffer of a given length (\<open>None\<close> without a subject or on an error), the
  alternative names and the signature algorithm. A list of names has fewer than \<open>INT_MAX\<close> entries.
\<close>

datatype general_name = GEN_DNS string | GEN_OTHER

datatype signature_nid = NID_sha1WithRSAEncryption | NID_ecdsa_with_SHA1 | NID_other

record x509 =
  x509_subject_text :: "nat \<Rightarrow> string option"
  x509_names :: "general_name list option"
  x509_signature :: signature_nid

definition NUL :: char where
  "NUL = char_of (0::nat)"

definition c_str :: "string \<Rightarrow> string" where
  "c_str s = takeWhile (\<lambda>c. c \<noteq> NUL) s"

definition ub_common_name :: nat where
  "ub_common_name = 64"

definition getCommonName :: "x509 \<Rightarrow> string option" where
  "getCommonName cert =
     (case x509_subject_text cert ub_common_name of
        None \<Rightarrow> None
      | Some cn \<Rightarrow> if length cn = 0 then None else Some (c_str cn))"

fun dns_names :: "general_name list \<Rightarrow> string list \<Rightarrow> string list option" where
  "dns_names [] nameList = Some nameList"
| "dns_names (GEN_DNS name # names) nameList =
     (if length name \<noteq> length (c_str name) then None else dns_names names (nameList @ [name]))"
| "dns_names (GEN_OTHER # names) nameList = dns_names names nameList"

definition getSubjectAltName :: "x509 \<Rightarrow> string list option" where
  "getSubjectAltName cert =
     (case x509_names cert of None \<Rightarrow> Some [] | Some names \<Rightarrow> dns_names names [])"

section \<open>Configurations\<close>

record CertificateInfo =
  certPath :: string
  keyPath :: string
  passwordPath :: string

text \<open>\<open>'f\<close> are the functions a client can install for names that match nothing.\<close>

record 'f SSLContextConfig =
  certificates :: "CertificateInfo list"
  sessionCacheEnabled :: bool
  sessionTicketEnabled :: bool
  sslCiphers :: string
  eccCurveName :: string
  nextProtocols :: "string list list"
  isLocalPrivateKey :: bool
  isDefault :: bool
  sniNoMatchFn :: "'f option"
  clientCAFile :: string
  offloadType :: "string list"
  sessionContext :: "string option"

definition addCertificate :: "string \<Rightarrow> string \<Rightarrow> string \<Rightarrow> 'f SSLContextConfig \<Rightarrow> 'f SSLContextConfig" where
  "addCertificate crtPath kyPath passwdPath c =
     c\<lparr>certificates := certificates c @ [\<lparr>certPath = crtPath, keyPath = kyPath, passwordPath = passwdPath\<rparr>]\<rparr>"

definition setCertificate :: "string \<Rightarrow> string \<Rightarrow> string \<Rightarrow> 'f SSLContextConfig \<Rightarrow> 'f SSLContextConfig" where
  "setCertificate crtPath kyPath passwdPath c = addCertificate crtPath kyPath passwdPath (c\<lparr>certificates := []\<rparr>)"

definition setNextProtocols :: "string list \<Rightarrow> 'f SSLContextConfig \<Rightarrow> 'f SSLContextConfig" where
  "setNextProtocols inNextProtocols c = c\<lparr>nextProtocols := [inNextProtocols]\<rparr>"

record SSLCacheOptions =
  sslCacheTimeout :: nat
  maxSSLCacheSize :: u64
  sslCacheFlushSize :: u64

section \<open>ServerSSLContext\<close>

datatype ssl_option = OP_CIPHER_SERVER_PREFERENCE | OP_SINGLE_DH_USE | OP_SINGLE_ECDH_USE
  | OP_DONT_INSERT_EMPTY_FRAGMENTS | OP_NO_TICKET | OP_NO_COMPRESSION

text \<open>The arguments a context's session cache is made with.\<close>

record session_cache =
  sc_maxCacheSize :: u32
  sc_cacheCullSize :: u32
  sc_context :: string
  sc_external :: bool

record ServerSSLContext =
  ctx_certificate :: "x509 option"
  ctx_sessionContext :: string
  ctx_options :: "ssl_option list"
  ctx_ciphers :: string
  ctx_curve :: "string option"
  ctx_clientCA :: "string option"
  ctx_verifyCallback :: bool
  ctx_timeout :: nat
  ctx_sessionCache :: "session_cache option"
  ctx_ticketManager :: "TLSTicketKeyManager option"
  ctx_protocols :: "string list list"
  ctx_serverNameCallback :: bool

definition ServerSSLContext_new :: ServerSSLContext where
  "ServerSSLContext_new = \<lparr>ctx_certificate = None, ctx_sessionContext = ''ServerSSLContext'', ctx_options = [],
     ctx_ciphers = [], ctx_curve = None, ctx_clientCA = None, ctx_verifyCallback = False, ctx_timeout = 0,
     ctx_sessionCache = None, ctx_ticketManager = None, ctx_protocols = [], ctx_serverNameCallback = False\<rparr>"

definition ctx_setOptions :: "ssl_option list \<Rightarrow> ServerSSLContext \<Rightarrow> ServerSSLContext" where
  "ctx_setOptions ops c = c\<lparr>ctx_options := ctx_options c @ ops\<rparr>"

definition setupTicketManager :: "ticket_ops \<Rightarrow> TLSTicketKeySeeds option \<Rightarrow> 'f SSLContextConfig \<Rightarrow> bool
    \<Rightarrow> ServerSSLContext \<Rightarrow> ServerSSLContext" where
  "setupTicketManager T seeds ctxConfig stats c =
     (case seeds of
        Some s \<Rightarrow>
          if sessionTicketEnabled ctxConfig
          then c\<lparr>ctx_ticketManager := Some (snd (setTLSTicketKeySeeds T s (TLSTicketKeyManager_new stats)))\<rparr>
          else (ctx_setOptions [OP_NO_TICKET] c)\<lparr>ctx_ticketManager := None\<rparr>
      | None \<Rightarrow> (ctx_setOptions [OP_NO_TICKET] c)\<lparr>ctx_ticketManager := None\<rparr>)"

text \<open>The sizes are 64 bits wide in the options and 32 in the session cache.\<close>

definition setupSessionCache :: "'f SSLContextConfig \<Rightarrow> SSLCacheOptions \<Rightarrow> bool \<Rightarrow> string \<Rightarrow> ServerSSLContext
    \<Rightarrow> ServerSSLContext" where
  "setupSessionCache ctxConfig opts external sessionIdContext c =
     (let c1 = c\<lparr>ctx_timeout := sslCacheTimeout opts\<rparr> in
      if sessionCacheEnabled ctxConfig \<and> maxSSLCacheSize opts > 0 \<and> sslCacheFlushSize opts > 0
      then c1\<lparr>ctx_sessionCache := Some \<lparr>sc_maxCacheSize = ucast (maxSSLCacheSize opts),
             sc_cacheCullSize = ucast (sslCacheFlushSize opts), sc_context = sessionIdContext, sc_external = external\<rparr>\<rparr>
      else c1\<lparr>ctx_sessionCache := None\<rparr>)"

section \<open>SSLContextManager\<close>

text \<open>Contexts are shared objects; they are numbered in the order in which they are made.\<close>

type_synonym ctx_id = nat

record SslContexts =
  ctxs :: "ctx_id list"
  defaultCtx :: "ctx_id option"
  defaultCtxDomainName :: string
  dnMap :: "(SSLContextKey \<times> ctx_id) list"

definition SslContexts_empty :: SslContexts where
  "SslContexts_empty = \<lparr>ctxs = [], defaultCtx = None, defaultCtxDomainName = [], dnMap = []\<rparr>"

datatype hello_stat = AbsentHostname | HostMatch | HostNotMatch | ServedCrypto CertCrypto CertCrypto

record 'f SSLContextManager =
  mgr_contexts :: SslContexts
  ctx_objects :: "ServerSSLContext list"
  noMatchFn :: "'f option"
  mgr_strict :: bool
  mgr_stats :: bool
  clientCertVerifyCallback :: bool
  hello_stats :: "hello_stat list option"

definition SSLContextManager_new :: "bool \<Rightarrow> bool \<Rightarrow> 'f SSLContextManager" where
  "SSLContextManager_new strict stats = \<lparr>mgr_contexts = SslContexts_empty, ctx_objects = [], noMatchFn = None,
     mgr_strict = strict, mgr_stats = stats, clientCertVerifyCallback = False, hello_stats = None\<rparr>"

definition setSSLStats :: "bool \<Rightarrow> 'f SSLContextManager \<Rightarrow> 'f SSLContextManager" where
  "setSSLStats stats m = m\<lparr>mgr_stats := stats\<rparr>"

definition setClientHelloExtStats :: "bool \<Rightarrow> 'f SSLContextManager \<Rightarrow> 'f SSLContextManager" where
  "setClientHelloExtStats stats m = m\<lparr>hello_stats := (if stats then Some [] else None)\<rparr>"

definition setClientVerifyCallback :: "bool \<Rightarrow> 'f SSLContextManager \<Rightarrow> 'f SSLContextManager" where
  "setClientVerifyCallback cb m = m\<lparr>clientCertVerifyCallback := cb\<rparr>"

definition SslContexts_clear :: "SslContexts \<Rightarrow> SslContexts" where
  "SslContexts_clear cs = cs\<lparr>ctxs := [], defaultCtx := None, defaultCtxDomainName := [], dnMap := []\<rparr>"

definition SslContexts_swap :: "SslContexts \<Rightarrow> SslContexts \<Rightarrow> SslContexts \<times> SslContexts" where
  "SslContexts_swap cs other =
     (cs\<lparr>ctxs := ctxs other, defaultCtx := defaultCtx other,
         defaultCtxDomainName := defaultCtxDomainName other, dnMap := dnMap other\<rparr>,
      other\<lparr>ctxs := ctxs cs, defaultCtx := defaultCtx cs,
         defaultCtxDomainName := defaultCtxDomainName cs, dnMap := dnMap cs\<rparr>)"

definition manager_clear :: "'f SSLContextManager \<Rightarrow> 'f SSLContextManager" where
  "manager_clear m = m\<lparr>mgr_contexts := SslContexts_clear (mgr_contexts m)\<rparr>"

definition getDefaultSSLCtx :: "'f SSLContextManager \<Rightarrow> ctx_id option" where
  "getDefaultSSLCtx m = defaultCtx (mgr_contexts m)"

subsection \<open>Loading certificates\<close>

text \<open>
  What OpenSSL and folly's context do with files and names: the certificate a context has after
  loading, and which cipher lists, curves and files of authorities are accepted.
\<close>

record ssl_loader =
  loadCertKeyPairFromFiles :: "CertificateInfo \<Rightarrow> cpp_exn + x509 option"
  loadCertificate :: "string \<Rightarrow> cpp_exn + x509 option"
  ciphers_ok :: "string \<Rightarrow> bool"
  curve_ok :: "string \<Rightarrow> bool"
  clientCA_ok :: "string \<Rightarrow> bool"
  ticket_crypto_ops :: ticket_ops

text \<open>
  A \<open>catch\<close> of standard exceptions: a failed check ends the program instead. Messages are kept without
  the text of the exception that was caught.
\<close>

definition catch_std :: "string \<Rightarrow> cpp_exn + 'a \<Rightarrow> cpp_exn + 'a" where
  "catch_std msg r =
     (case r of
        Inl CheckFailed \<Rightarrow> Inl CheckFailed
      | Inl Undefined \<Rightarrow> Inl Undefined
      | Inl _ \<Rightarrow> Inl (RuntimeError msg)
      | Inr x \<Rightarrow> Inr x)"

text \<open>\<open>enableAsyncCrypto\<close> of the base class ends the program.\<close>

definition enableAsyncCrypto :: "cpp_exn + unit" where
  "enableAsyncCrypto = Inl CheckFailed"

definition load_cert :: "ssl_loader \<Rightarrow> 'f SSLContextConfig \<Rightarrow> CertificateInfo \<Rightarrow> cpp_exn + x509 option" where
  "load_cert L ctxConfig cert =
     catch_std (''error loading SSL certificate '' @ certPath cert @ '': '')
       (if isLocalPrivateKey ctxConfig \<or> offloadType ctxConfig = [] then loadCertKeyPairFromFiles L cert
        else
          (case loadCertificate L (certPath cert) of
             Inl e \<Rightarrow> Inl e
           | Inr x \<Rightarrow> (case enableAsyncCrypto of Inl e \<Rightarrow> Inl e | Inr _ \<Rightarrow> Inr x)))"

text \<open>The names of the first certificate, and the certificate loaded last.\<close>

record cert_scan =
  numCerts :: nat
  commonName :: string
  subjectAltName :: "string list option"
  scan_x509 :: "x509 option"

definition scan_cert :: "ssl_loader \<Rightarrow> 'f SSLContextConfig \<Rightarrow> CertificateInfo \<Rightarrow> cert_scan \<Rightarrow> cpp_exn + cert_scan" where
  "scan_cert L ctxConfig cert st =
     (case load_cert L ctxConfig cert of
        Inl e \<Rightarrow> Inl e
      | Inr None \<Rightarrow> Inl (RuntimeError (''Certificate: '' @ certPath cert @ '' is invalid''))
      | Inr (Some x) \<Rightarrow>
          (case getCommonName x of
             None \<Rightarrow> Inl (RuntimeError (''Cannot get CN for X509 '' @ certPath cert))
           | Some cn \<Rightarrow>
               (let altName = map_option sort (getSubjectAltName x);
                    st1 = st\<lparr>numCerts := numCerts st + 1, scan_x509 := Some x\<rparr> in
                if numCerts st1 = 1 then Inr (st1\<lparr>commonName := cn, subjectAltName := altName\<rparr>)
                else if commonName st1 \<noteq> cn
                then Inl (RuntimeError (''X509 '' @ certPath cert @ '' does not have same CN as ''))
                else
                  (case altName of
                     None \<Rightarrow>
                       if subjectAltName st1 \<noteq> None
                       then Inl (RuntimeError (''X509 '' @ certPath cert @ '' does not have same SAN as ''))
                       else Inr st1
                   | Some names \<Rightarrow>
                       if subjectAltName st1 = None \<or> subjectAltName st1 \<noteq> Some names
                       then Inl (RuntimeError (''X509 '' @ certPath cert @ '' does not have same SAN as ''))
                       else Inr st1))))"

fun scan_certs :: "ssl_loader \<Rightarrow> 'f SSLContextConfig \<Rightarrow> CertificateInfo list \<Rightarrow> cert_scan \<Rightarrow> cpp_exn + cert_scan" where
  "scan_certs L ctxConfig [] st = Inr st"
| "scan_certs L ctxConfig (cert # certs) st =
     (case scan_cert L ctxConfig cert st of Inl e \<Rightarrow> Inl e | Inr st1 \<Rightarrow> scan_certs L ctxConfig certs st1)"

text \<open>
  The first part of \<open>addSSLContextConfig\<close>: the context with its certificates, ciphers, curve, client
  authorities, session cache and tickets. An unknown curve ends the program.
\<close>

definition build_context :: "ssl_loader \<Rightarrow> 'f SSLContextConfig \<Rightarrow> SSLCacheOptions \<Rightarrow> TLSTicketKeySeeds option \<Rightarrow> bool
    \<Rightarrow> bool \<Rightarrow> bool \<Rightarrow> cpp_exn + ServerSSLContext" where
  "build_context L ctxConfig opts seeds external verifyCallback stats =
     (case scan_certs L ctxConfig (certificates ctxConfig)
             \<lparr>numCerts = 0, commonName = [], subjectAltName = None, scan_x509 = None\<rparr> of
        Inl e \<Rightarrow> Inl e
      | Inr st \<Rightarrow>
          (let c1 = ctx_setOptions [OP_CIPHER_SERVER_PREFERENCE, OP_SINGLE_DH_USE, OP_SINGLE_ECDH_USE,
                      OP_DONT_INSERT_EMPTY_FRAGMENTS] (ServerSSLContext_new\<lparr>ctx_certificate := scan_x509 st\<rparr>) in
           if \<not> ciphers_ok L (sslCiphers ctxConfig) then Inl (RuntimeError ''SSL_CTX_set_cipher_list'')
           else
             (let c2 = c1\<lparr>ctx_ciphers := sslCiphers ctxConfig\<rparr> in
              if eccCurveName ctxConfig \<noteq> [] \<and> \<not> curve_ok L (eccCurveName ctxConfig) then Inl CheckFailed
              else
                (let c3 = (if eccCurveName ctxConfig \<noteq> [] then c2\<lparr>ctx_curve := Some (eccCurveName ctxConfig)\<rparr> else c2) in
                 if clientCAFile ctxConfig \<noteq> [] \<and> \<not> clientCA_ok L (clientCAFile ctxConfig)
                 then Inl (RuntimeError (''error loading client CA'' @ clientCAFile ctxConfig @ '': ''))
                 else
                   (let c4 = (if clientCAFile ctxConfig \<noteq> []
                              then c3\<lparr>ctx_clientCA := Some (clientCAFile ctxConfig), ctx_verifyCallback := verifyCallback\<rparr>
                              else c3);
                        sessionIdContext = (case sessionContext ctxConfig of
                          Some sc \<Rightarrow> if sc \<noteq> [] then sc else commonName st | None \<Rightarrow> commonName st);
                        c5 = c4\<lparr>ctx_sessionContext := sessionIdContext\<rparr>;
                        c6 = setupSessionCache ctxConfig opts external sessionIdContext c5 in
                    Inr (setupTicketManager (ticket_crypto_ops L) seeds ctxConfig stats c6))))))"

subsection \<open>The map of domain names\<close>

definition dn_lookup :: "SSLContextKey \<Rightarrow> (SSLContextKey \<times> ctx_id) list \<Rightarrow> ctx_id option" where
  "dn_lookup k m = map_option snd (find (\<lambda>kv. key_eq (fst kv) k) m)"

definition dn_update :: "SSLContextKey \<Rightarrow> ctx_id \<Rightarrow> (SSLContextKey \<times> ctx_id) list \<Rightarrow> (SSLContextKey \<times> ctx_id) list" where
  "dn_update k c m = map (\<lambda>kv. if key_eq (fst kv) k then (fst kv, c) else kv) m"

definition insertIntoDnMap :: "SSLContextKey \<Rightarrow> ctx_id \<Rightarrow> bool \<Rightarrow> SslContexts \<Rightarrow> SslContexts" where
  "insertIntoDnMap key sslCtx overwrite cs =
     (case dn_lookup key (dnMap cs) of
        None \<Rightarrow> cs\<lparr>dnMap := (key, sslCtx) # dnMap cs\<rparr>
      | Some v \<Rightarrow>
          if v = sslCtx then cs
          else if overwrite then cs\<lparr>dnMap := dn_update key sslCtx (dnMap cs)\<rparr>
          else cs)"

text \<open>\<open>dn\<close> is a C string with its length: \<open>strchr\<close> looks no further than a zero byte.\<close>

definition insertSSLCtxByDomainNameImpl :: "string \<Rightarrow> ctx_id \<Rightarrow> CertCrypto \<Rightarrow> SslContexts \<Rightarrow> cpp_exn + SslContexts" where
  "insertSSLCtxByDomainNameImpl dn sslCtx crypto cs =
     (if length dn > 2 \<and> dn ! 0 = CHR ''*'' \<and> dn ! 1 \<noteq> CHR ''.''
      then Inl (RuntimeError (''Invalid wildcard CN/subject-alternative-name '' @ dn))
      else
        (let dn1 = (if length dn > 2 \<and> dn ! 0 = CHR ''*'' then tl dn else dn) in
         if length dn1 = 1 \<and> dn1 ! 0 = CHR ''.''
         then Inl (RuntimeError ''X509 has only . in the CN or subject alternative name'')
         else if CHR ''*'' \<in> set (c_str dn1)
         then Inl (RuntimeError ''X509 has * in the the CN or subject alternative name'')
         else
           (let cs1 = insertIntoDnMap \<lparr>dnString = dn1, key_certCrypto = crypto\<rparr> sslCtx True cs in
            Inr (if crypto \<noteq> BEST_AVAILABLE
                 then insertIntoDnMap \<lparr>dnString = dn1, key_certCrypto = BEST_AVAILABLE\<rparr> sslCtx False cs1
                 else cs1))))"

definition insertSSLCtxByDomainName :: "bool \<Rightarrow> string \<Rightarrow> ctx_id \<Rightarrow> CertCrypto \<Rightarrow> SslContexts \<Rightarrow> cpp_exn + SslContexts" where
  "insertSSLCtxByDomainName strict dn sslCtx crypto cs =
     (case insertSSLCtxByDomainNameImpl dn sslCtx crypto cs of
        Inl e \<Rightarrow> if strict then Inl e else Inr cs
      | Inr cs1 \<Rightarrow> Inr cs1)"

fun insert_names :: "bool \<Rightarrow> string list \<Rightarrow> ctx_id \<Rightarrow> CertCrypto \<Rightarrow> SslContexts \<Rightarrow> cpp_exn option \<times> SslContexts" where
  "insert_names strict [] sslCtx crypto cs = (None, cs)"
| "insert_names strict (name # names) sslCtx crypto cs =
     (case insertSSLCtxByDomainName strict name sslCtx crypto cs of
        Inl e \<Rightarrow> (Some e, cs)
      | Inr cs1 \<Rightarrow> insert_names strict names sslCtx crypto cs1)"

definition certCrypto_of :: "x509 \<Rightarrow> CertCrypto" where
  "certCrypto_of x = (if x509_signature x = NID_sha1WithRSAEncryption \<or> x509_signature x = NID_ecdsa_with_SHA1
     then SHA1_SIGNATURE else BEST_AVAILABLE)"

text \<open>
  \<open>insert\<close>: the exception, if it throws, and the contexts, which then may hold some of the names. It reads
  the certificate of the context.
\<close>

definition insert_context :: "bool \<Rightarrow> ctx_id \<Rightarrow> x509 option \<Rightarrow> bool \<Rightarrow> SslContexts \<Rightarrow> cpp_exn option \<times> SslContexts" where
  "insert_context strict sslCtx cert defaultFallback cs =
     (case cert of
        None \<Rightarrow> (Some (RuntimeError ''SSLCtx is invalid''), cs)
      | Some x \<Rightarrow>
          (case getCommonName x of
             None \<Rightarrow> (Some (RuntimeError ''Cannot get CN''), cs)
           | Some cn \<Rightarrow>
               if cn = ''*'' then
                 (if \<not> defaultFallback then (Some (RuntimeError ''STAR X509 is not the default''), cs)
                  else (None, cs\<lparr>ctxs := ctxs cs @ [sslCtx]\<rparr>))
               else
                 (case insert_names strict (cn # (case getSubjectAltName x of Some names \<Rightarrow> names | None \<Rightarrow> []))
                         sslCtx (certCrypto_of x) cs of
                    (Some e, cs1) \<Rightarrow> (Some e, cs1)
                  | (None, cs1) \<Rightarrow>
                      (let cs2 = (if defaultFallback then cs1\<lparr>defaultCtxDomainName := cn\<rparr> else cs1) in
                       (None, cs2\<lparr>ctxs := ctxs cs2 @ [sslCtx]\<rparr>)))))"

subsection \<open>Adding and replacing contexts\<close>

text \<open>
  \<open>ctxSetupByOpensslFeature\<close> with an OpenSSL that has ALPN and server names: the function for unmatched
  names is that of the configuration set up last. \<open>sslCtx\<close> is an object of the manager.
\<close>

definition ctxSetupByOpensslFeature :: "ctx_id \<Rightarrow> 'f SSLContextConfig \<Rightarrow> SslContexts \<Rightarrow> 'f SSLContextManager
    \<Rightarrow> cpp_exn option \<times> SslContexts \<times> 'f SSLContextManager" where
  "ctxSetupByOpensslFeature sslCtx ctxConfig cs m =
     (let o1 = ctx_setOptions [OP_NO_COMPRESSION] (ctx_objects m ! sslCtx);
          o2 = (if nextProtocols ctxConfig \<noteq> [] then o1\<lparr>ctx_protocols := nextProtocols ctxConfig\<rparr> else o1);
          m1 = m\<lparr>ctx_objects := (ctx_objects m)[sslCtx := o2], noMatchFn := sniNoMatchFn ctxConfig\<rparr> in
      if isDefault ctxConfig then
        (if defaultCtx cs \<noteq> None then (Some (RuntimeError ''>1 X509 is set as default''), cs, m1)
         else (None, cs\<lparr>defaultCtx := Some sslCtx\<rparr>,
               m1\<lparr>ctx_objects := (ctx_objects m1)[sslCtx := o2\<lparr>ctx_serverNameCallback := True\<rparr>]\<rparr>))
      else (None, cs, m1))"

text \<open>\<open>addSSLContextConfig\<close> for contexts that are given to it.\<close>

definition addSSLContextConfig_to :: "ssl_loader \<Rightarrow> SSLCacheOptions \<Rightarrow> TLSTicketKeySeeds option \<Rightarrow> bool
    \<Rightarrow> 'f SSLContextConfig \<Rightarrow> SslContexts \<Rightarrow> 'f SSLContextManager
    \<Rightarrow> cpp_exn option \<times> SslContexts \<times> 'f SSLContextManager" where
  "addSSLContextConfig_to L opts seeds external ctxConfig cs m =
     (case build_context L ctxConfig opts seeds external (clientCertVerifyCallback m) (mgr_stats m) of
        Inl e \<Rightarrow> (Some e, cs, m)
      | Inr obj \<Rightarrow>
          (let sslCtx = length (ctx_objects m); m1 = m\<lparr>ctx_objects := ctx_objects m @ [obj]\<rparr> in
           case ctxSetupByOpensslFeature sslCtx ctxConfig cs m1 of
             (Some e, cs1, m2) \<Rightarrow> (Some e, cs1, m2)
           | (None, cs1, m2) \<Rightarrow>
               (case insert_context (mgr_strict m2) sslCtx (ctx_certificate obj) (isDefault ctxConfig) cs1 of
                  (Some _, cs2) \<Rightarrow> (Some (RuntimeError ''Error adding certificate : ''), cs2, m2)
                | (None, cs2) \<Rightarrow> (None, cs2, m2))))"

text \<open>\<open>addSSLContextConfig\<close> without contexts works on those of the manager.\<close>

definition addSSLContextConfig :: "ssl_loader \<Rightarrow> SSLCacheOptions \<Rightarrow> TLSTicketKeySeeds option \<Rightarrow> bool
    \<Rightarrow> 'f SSLContextConfig \<Rightarrow> 'f SSLContextManager \<Rightarrow> cpp_exn option \<times> 'f SSLContextManager" where
  "addSSLContextConfig L opts seeds external ctxConfig m =
     (case addSSLContextConfig_to L opts seeds external ctxConfig (mgr_contexts m) m of
        (e, cs, m1) \<Rightarrow> (e, m1\<lparr>mgr_contexts := cs\<rparr>))"

fun add_configs :: "ssl_loader \<Rightarrow> SSLCacheOptions \<Rightarrow> TLSTicketKeySeeds option \<Rightarrow> bool \<Rightarrow> 'f SSLContextConfig list
    \<Rightarrow> SslContexts \<Rightarrow> 'f SSLContextManager \<Rightarrow> cpp_exn option \<times> SslContexts \<times> 'f SSLContextManager" where
  "add_configs L opts seeds external [] cs m = (None, cs, m)"
| "add_configs L opts seeds external (ctxConfig # ctxConfigs) cs m =
     (case addSSLContextConfig_to L opts seeds external ctxConfig cs m of
        (Some e, cs1, m1) \<Rightarrow> (Some e, cs1, m1)
      | (None, cs1, m1) \<Rightarrow> add_configs L opts seeds external ctxConfigs cs1 m1)"

text \<open>The seeds of the first context that has a ticket manager.\<close>

fun old_ticket_seeds :: "ticket_ops \<Rightarrow> ServerSSLContext list \<Rightarrow> TLSTicketKeySeeds" where
  "old_ticket_seeds T [] = \<lparr>oldSeeds = [], currentSeeds = [], newSeeds = []\<rparr>"
| "old_ticket_seeds T (c # cs) =
     (case ctx_ticketManager c of
        Some tm \<Rightarrow> snd (getTLSTicketKeySeeds T tm)
      | None \<Rightarrow> old_ticket_seeds T cs)"

definition resetSSLContextConfigs :: "ssl_loader \<Rightarrow> SSLCacheOptions \<Rightarrow> TLSTicketKeySeeds option \<Rightarrow> bool
    \<Rightarrow> 'f SSLContextConfig list \<Rightarrow> 'f SSLContextManager \<Rightarrow> cpp_exn option \<times> 'f SSLContextManager" where
  "resetSSLContextConfigs L opts seeds external ctxConfigs m =
     (let seeds' = (case seeds of
            Some s \<Rightarrow> s
          | None \<Rightarrow> old_ticket_seeds (ticket_crypto_ops L) (map ((!) (ctx_objects m)) (ctxs (mgr_contexts m)))) in
      case add_configs L opts (Some seeds') external ctxConfigs SslContexts_empty m of
        (Some e, cs, m1) \<Rightarrow> (Some e, m1)
      | (None, cs, m1) \<Rightarrow> (None, m1\<lparr>mgr_contexts := fst (SslContexts_swap (mgr_contexts m1) cs)\<rparr>))"

definition reload_ctx :: "ticket_ops \<Rightarrow> TLSTicketKeySeeds \<Rightarrow> ServerSSLContext \<Rightarrow> ServerSSLContext" where
  "reload_ctx T seeds c = c\<lparr>ctx_ticketManager := map_option (\<lambda>tm. snd (setTLSTicketKeySeeds T seeds tm)) (ctx_ticketManager c)\<rparr>"

definition reloadTLSTicketKeys :: "ssl_loader \<Rightarrow> TLSTicketKeySeeds \<Rightarrow> 'f SSLContextManager \<Rightarrow> 'f SSLContextManager" where
  "reloadTLSTicketKeys L seeds m =
     m\<lparr>ctx_objects := fold (\<lambda>i objs. objs[i := reload_ctx (ticket_crypto_ops L) seeds (objs ! i)])
         (ctxs (mgr_contexts m)) (ctx_objects m)\<rparr>"

subsection \<open>Choosing a context\<close>

definition getSSLCtxByExactDomain :: "SSLContextKey \<Rightarrow> 'f SSLContextManager \<Rightarrow> ctx_id option" where
  "getSSLCtxByExactDomain key m = dn_lookup key (dnMap (mgr_contexts m))"

definition getSSLCtxBySuffix :: "SSLContextKey \<Rightarrow> 'f SSLContextManager \<Rightarrow> ctx_id option" where
  "getSSLCtxBySuffix key m =
     (case find_first_of ''.'' (dnString key) of
        Some dot \<Rightarrow> dn_lookup (key\<lparr>dnString := drop dot (dnString key)\<rparr>) (dnMap (mgr_contexts m))
      | None \<Rightarrow> None)"

definition getSSLCtx :: "SSLContextKey \<Rightarrow> 'f SSLContextManager \<Rightarrow> ctx_id option" where
  "getSSLCtx key m =
     (case getSSLCtxByExactDomain key m of
        Some c \<Rightarrow> Some c
      | None \<Rightarrow> getSSLCtxBySuffix key m)"

text \<open>What a client hello tells: the hash algorithms of its signatures and its extensions.\<close>

datatype hash_algorithm = SHA256 | OTHER_HASH
datatype tls_extension = SERVER_NAME | OTHER_EXTENSION

record client_hello =
  clientHelloSigAlgs :: "hash_algorithm list"
  clientHelloExtensions :: "tls_extension list"

definition cert_crypto_req :: "client_hello option \<Rightarrow> CertCrypto" where
  "cert_crypto_req clientInfo =
     (case clientInfo of
        None \<Rightarrow> BEST_AVAILABLE
      | Some h \<Rightarrow>
          if SHA256 \<in> set (clientHelloSigAlgs h) then BEST_AVAILABLE
          else if SERVER_NAME \<in> set (clientHelloExtensions h) then BEST_AVAILABLE
          else SHA1_SIGNATURE)"

definition hello_stat :: "hello_stat list \<Rightarrow> 'f SSLContextManager \<Rightarrow> 'f SSLContextManager" where
  "hello_stat l m = m\<lparr>hello_stats := map_option (\<lambda>xs. xs @ l) (hello_stats m)\<rparr>"

text \<open>One round of the loop of \<open>serverNameCallback\<close>: the context found and the crypto it is served as.\<close>

definition find_context :: "string \<Rightarrow> CertCrypto \<Rightarrow> 'f SSLContextManager \<Rightarrow> (ctx_id \<times> CertCrypto) option" where
  "find_context dnstr req m =
     (case getSSLCtx \<lparr>dnString = dnstr, key_certCrypto = req\<rparr> m of
        Some c \<Rightarrow> Some (c, req)
      | None \<Rightarrow>
          if req \<noteq> BEST_AVAILABLE
          then map_option (\<lambda>c. (c, BEST_AVAILABLE)) (getSSLCtx \<lparr>dnString = dnstr, key_certCrypto = BEST_AVAILABLE\<rparr> m)
          else None)"

definition serve_context :: "bool \<Rightarrow> CertCrypto \<Rightarrow> ctx_id \<times> CertCrypto \<Rightarrow> 'f SSLContextManager
    \<Rightarrow> ctx_id option \<times> 'f SSLContextManager" where
  "serve_context reqHasServerName req found m =
     (Some (fst found), hello_stat ((if reqHasServerName then [HostMatch] else []) @ [ServedCrypto req (snd found)]) m)"

definition no_context :: "bool \<Rightarrow> 'f SSLContextManager \<Rightarrow> ctx_id option \<times> 'f SSLContextManager" where
  "no_context reqHasServerName m = (None, if reqHasServerName then hello_stat [HostNotMatch] m else m)"

text \<open>
  \<open>serverNameCallback\<close>: the context the socket is switched to, if one is found. \<open>N\<close> is what the function for
  unmatched names does, which may add a context and is asked once.
\<close>

definition serverNameCallback :: "('f \<Rightarrow> string \<Rightarrow> 'f SSLContextManager \<Rightarrow> bool \<times> 'f SSLContextManager)
    \<Rightarrow> string option \<Rightarrow> client_hello option \<Rightarrow> 'f SSLContextManager \<Rightarrow> ctx_id option \<times> 'f SSLContextManager" where
  "serverNameCallback N servername clientInfo m =
     (let reqHasServerName = (servername \<noteq> None);
          m1 = (if reqHasServerName then m else hello_stat [AbsentHostname] m);
          sn = (case servername of Some n \<Rightarrow> n | None \<Rightarrow> c_str (defaultCtxDomainName (mgr_contexts m)));
          req = cert_crypto_req clientInfo in
      case find_context sn req m1 of
        Some found \<Rightarrow> serve_context reqHasServerName req found m1
      | None \<Rightarrow>
          (case noMatchFn m1 of
             None \<Rightarrow> no_context reqHasServerName m1
           | Some f \<Rightarrow>
               (case N f sn m1 of
                  (False, m2) \<Rightarrow> no_context reqHasServerName m2
                | (True, m2) \<Rightarrow>
                    (case find_context sn req m2 of
                       Some found \<Rightarrow> serve_context reqHasServerName req found m2
                     | None \<Rightarrow> no_context reqHasServerName m2))))"

end
