(* ===== verification/SSL_ContextManager_Props.thy ===== *)
theory SSL_ContextManager_Props
  imports SSL_ContextManager SSL_TicketKeys_Props
begin

text \<open>
  What the contexts of a manager promise: the certificate that is served covers the name that was asked
  for, better signatures are preferred, and replacing the configuration is all or nothing and keeps
  the ticket keys.
\<close>

section \<open>Domain names up to case\<close>

abbreviation lower :: "string \<Rightarrow> string" where
  "lower s \<equiv> map tolower s"

lemma of_char_range: "of_char c < (256::int)" "of_char c \<ge> (0::int)"
  using pos_mod_bound [of 256 "of_char c :: int"] pos_mod_sign [of 256 "of_char c :: int"] by simp_all

lemma char_value_inject [simp]: "(char_value a = char_value b) = (a = b)"
proof -
  have "char_value a = char_value b \<longleftrightarrow> (of_char a :: int) = of_char b"
    using of_char_range [of a] of_char_range [of b] by (auto simp: char_value_def Let_def split: if_splits)
  then show ?thesis by simp
qed

lemma dn_compare_0: "length s = length t \<Longrightarrow> dn_compare s t (length s) = 0 \<longleftrightarrow> lower s = lower t"
proof (induction s t rule: list_induct2)
  case (Cons a s b t)
  then show ?case using char_value_inject [of "tolower a" "tolower b"] by auto
qed simp

lemma dn_eq_iff: "dn_eq s t \<longleftrightarrow> lower s = lower t"
  using dn_compare_0 [of s t] map_eq_imp_length_eq [of tolower s tolower t] by (auto simp: dn_eq_def)

lemma key_eq_iff: "key_eq k k' \<longleftrightarrow> lower (dnString k) = lower (dnString k') \<and> key_certCrypto k = key_certCrypto k'"
  by (simp add: key_eq_def dn_eq_iff)

lemma key_eq_trans: "key_eq a b \<Longrightarrow> key_eq a c = key_eq b c"
  by (auto simp: key_eq_iff)

text \<open>
  C34. \<open>SSLContextKey\<close> may be the key of a hash map: its equality, which ignores the case of names, is an
  equivalence, and keys that are equal have the same hash value, whatever folly's \<open>hash_combine\<close> is,
  because folly's \<open>toLowerAscii\<close> lowers the same characters as \<open>tolower\<close>.
\<close>

theorem SSLContextKey_hashable:
  assumes "\<And>s. toLowerAscii s = map tolower s"
  shows "equivp key_eq \<and> (\<forall>k k'. key_eq k k' \<longrightarrow> SSLContextKeyHash toLowerAscii combine k = SSLContextKeyHash toLowerAscii combine k')"
proof
  show "equivp key_eq" by (auto intro!: equivpI reflpI sympI transpI simp: key_eq_iff)
qed (auto simp: SSLContextKeyHash_def key_eq_iff assms)

theorem SSLContextKey_hashable_witness:
  "key_eq \<lparr>dnString = ''A.b'', key_certCrypto = BEST_AVAILABLE\<rparr> \<lparr>dnString = ''a.B'', key_certCrypto = BEST_AVAILABLE\<rparr>
   \<and> SSLContextKeyHash (map tolower) (\<lambda>s n. length s + n) \<lparr>dnString = ''A.b'', key_certCrypto = BEST_AVAILABLE\<rparr>
     = SSLContextKeyHash (map tolower) (\<lambda>s n. length s + n) \<lparr>dnString = ''a.B'', key_certCrypto = BEST_AVAILABLE\<rparr>"
proof -
  have "key_eq \<lparr>dnString = ''A.b'', key_certCrypto = BEST_AVAILABLE\<rparr> \<lparr>dnString = ''a.B'', key_certCrypto = BEST_AVAILABLE\<rparr>"
    by code_simp
  with SSLContextKey_hashable [of "map tolower" "\<lambda>s n. length s + n"] show ?thesis by blast
qed

lemma tolower_dot [simp]: "(tolower c = CHR ''.'') = (c = CHR ''.'')"
proof -
  have "c = CHR ''.''" if "tolower c = CHR ''.''"
  proof (rule ccontr)
    assume "c \<noteq> CHR ''.''"
    then have n: "65 \<le> (of_char c :: nat)" "(of_char c :: nat) \<le> 90" "char_of (of_char c + 32 :: nat) = CHR ''.''"
      using that by (auto simp: tolower_def Let_def split: if_splits)
    then have "(of_char c + 32 :: nat) mod 256 = of_char CHR ''.''" by (metis of_char_of)
    with n(1,2) show False by simp
  qed
  then show ?thesis by (auto simp: tolower_def)
qed

lemma find_first_dot:
  "find_first_of ''.'' s = (if CHR ''.'' \<in> set s then Some (length (takeWhile (\<lambda>c. c \<noteq> CHR ''.'') s)) else None)"
proof (induction s)
  case (Cons c s)
  have "(tolower CHR ''.'' = tolower c) = (c = CHR ''.'')" by (metis tolower_dot)
  then show ?case using Cons by auto
qed simp

text \<open>The part of a name from its first dot on: what a wildcard stands in front of.\<close>

definition parent_domain :: "string \<Rightarrow> string" where
  "parent_domain h = dropWhile (\<lambda>c. c \<noteq> CHR ''.'') h"

lemma drop_first_dot: "find_first_of ''.'' h = Some dot \<Longrightarrow> drop dot h = parent_domain h"
  by (simp add: find_first_dot parent_domain_def dropWhile_eq_drop split: if_splits)

lemma parent_domain_lower: "parent_domain (lower h) = lower (parent_domain h)"
  by (simp add: parent_domain_def dropWhile_map comp_def)

lemma find_first_dot_None: "find_first_of ''.'' h = None \<longleftrightarrow> parent_domain h = []"
  by (auto simp: find_first_dot parent_domain_def)

section \<open>The map of names\<close>

lemma dn_lookup_Cons: "dn_lookup k ((k', c) # m) = (if key_eq k' k then Some c else dn_lookup k m)"
  by (simp add: dn_lookup_def)

lemma dn_lookup_cong: "key_eq k k' \<Longrightarrow> dn_lookup k m = dn_lookup k' m"
  by (simp add: dn_lookup_def key_eq_iff)

lemma dn_lookup_update: "dn_lookup k' (dn_update k c m) =
   (if key_eq k' k \<and> dn_lookup k m \<noteq> None then Some c else dn_lookup k' m)"
proof (induction m)
  case (Cons kv m)
  obtain a v where "kv = (a, v)" by fastforce
  with Cons show ?case by (auto simp: dn_update_def dn_lookup_Cons key_eq_iff)
qed (simp add: dn_update_def dn_lookup_def)

text \<open>Inserting a name updates the map at the name, or keeps what is there.\<close>

lemma insertIntoDnMap_lookup:
  "dn_lookup k' (dnMap (insertIntoDnMap k c overwrite cs)) =
     (if key_eq k' k \<and> (overwrite \<or> dn_lookup k (dnMap cs) = None) then Some c else dn_lookup k' (dnMap cs))"
  using dn_lookup_cong [of k' k "dnMap cs"]
  by (auto simp: insertIntoDnMap_def dn_lookup_Cons dn_lookup_update key_eq_iff split: option.splits)

lemma insertIntoDnMap_fields [simp]:
  "ctxs (insertIntoDnMap k c overwrite cs) = ctxs cs"
  "defaultCtx (insertIntoDnMap k c overwrite cs) = defaultCtx cs"
  by (simp_all add: insertIntoDnMap_def split: option.splits)

section \<open>The names of a certificate\<close>

definition wildcard :: "string \<Rightarrow> bool" where
  "wildcard dn \<longleftrightarrow> length dn > 2 \<and> dn ! 0 = CHR ''*''"

definition name_key :: "string \<Rightarrow> string" where
  "name_key dn = (if wildcard dn then tl dn else dn)"

definition accepted :: "string \<Rightarrow> bool" where
  "accepted dn \<longleftrightarrow> (wildcard dn \<longrightarrow> dn ! 1 = CHR ''.'') \<and> name_key dn \<noteq> ''.'' \<and> CHR ''*'' \<notin> set (c_str (name_key dn))"

definition add_name :: "ctx_id \<Rightarrow> CertCrypto \<Rightarrow> string \<Rightarrow> SslContexts \<Rightarrow> SslContexts" where
  "add_name c crypto d cs =
     (let cs1 = insertIntoDnMap \<lparr>dnString = d, key_certCrypto = crypto\<rparr> c True cs in
      if crypto \<noteq> BEST_AVAILABLE then insertIntoDnMap \<lparr>dnString = d, key_certCrypto = BEST_AVAILABLE\<rparr> c False cs1 else cs1)"

definition added :: "ctx_id \<Rightarrow> CertCrypto \<Rightarrow> CertCrypto \<Rightarrow> ctx_id option \<Rightarrow> ctx_id option" where
  "added c crypto k old =
     (if k = crypto then Some c
      else if k = BEST_AVAILABLE then (case old of None \<Rightarrow> Some c | Some v \<Rightarrow> Some v) else old)"

lemma add_name_lookup:
  "dn_lookup k (dnMap (add_name c crypto d cs)) =
     (if lower (dnString k) = lower d then added c crypto (key_certCrypto k) (dn_lookup k (dnMap cs)) else dn_lookup k (dnMap cs))"
  using dn_lookup_cong [of k "\<lparr>dnString = d, key_certCrypto = BEST_AVAILABLE\<rparr>" "dnMap cs"]
  by (auto simp: add_name_def Let_def insertIntoDnMap_lookup key_eq_iff added_def split: option.splits)

lemma add_names_lookup:
  "dn_lookup k (dnMap (fold (add_name c crypto) ds cs)) =
     (if lower (dnString k) \<in> lower ` set ds then added c crypto (key_certCrypto k) (dn_lookup k (dnMap cs)) else dn_lookup k (dnMap cs))"
proof (induction ds arbitrary: cs)
  case (Cons d ds)
  have "added c crypto k' (added c crypto k' old) = added c crypto k' old" for k' old
    by (simp add: added_def split: option.splits)
  then show ?case by (simp add: Cons add_name_lookup)
qed simp

lemma add_names_fields [simp]:
  "ctxs (fold (add_name c crypto) ds cs) = ctxs cs" "defaultCtx (fold (add_name c crypto) ds cs) = defaultCtx cs"
  by (induction ds arbitrary: cs) (simp_all add: add_name_def Let_def)

lemma insertSSLCtxByDomainNameImpl_eq:
  "insertSSLCtxByDomainNameImpl dn c crypto cs = Inr (add_name c crypto (name_key dn) cs)" if "accepted dn"
  using that by (auto simp: insertSSLCtxByDomainNameImpl_def accepted_def name_key_def wildcard_def add_name_def Let_def
      length_Suc_conv)

lemma insertSSLCtxByDomainNameImpl_throws:
  "\<exists>e. insertSSLCtxByDomainNameImpl dn c crypto cs = Inl e" if "\<not> accepted dn"
  using that
  by (cases dn) (auto simp: insertSSLCtxByDomainNameImpl_def accepted_def name_key_def wildcard_def Let_def)

text \<open>The names that go into the map: all accepted ones, or those in front of one that is refused.\<close>

lemma insert_names_eq:
  obtains n where "insert_names strict names c crypto cs =
      (fst (insert_names strict names c crypto cs), fold (add_name c crypto) (map name_key (filter accepted (take n names))) cs)"
    "fst (insert_names strict names c crypto cs) = None \<Longrightarrow> n = length names"
proof (induction names arbitrary: cs thesis)
  case Nil
  then show ?case by simp
next
  case (Cons dn names)
  show ?case
  proof (cases "accepted dn")
    case True
    obtain n where n: "insert_names strict names c crypto (add_name c crypto (name_key dn) cs) =
        (fst (insert_names strict names c crypto (add_name c crypto (name_key dn) cs)),
         fold (add_name c crypto) (map name_key (filter accepted (take n names))) (add_name c crypto (name_key dn) cs))"
      "fst (insert_names strict names c crypto (add_name c crypto (name_key dn) cs)) = None \<Longrightarrow> n = length names"
      using Cons.IH by blast
    then show ?thesis
      using True by (intro Cons.prems [of "Suc n"]) (simp_all add: insertSSLCtxByDomainName_def insertSSLCtxByDomainNameImpl_eq)
  next
    case False
    from insertSSLCtxByDomainNameImpl_throws [OF this] obtain e where e: "insertSSLCtxByDomainNameImpl dn c crypto cs = Inl e" by blast
    show ?thesis
    proof (cases strict)
      case True
      then show ?thesis using e by (intro Cons.prems [of 0]) (simp_all add: insertSSLCtxByDomainName_def)
    next
      case lax: False
      obtain n where "insert_names strict names c crypto cs =
          (fst (insert_names strict names c crypto cs), fold (add_name c crypto) (map name_key (filter accepted (take n names))) cs)"
        "fst (insert_names strict names c crypto cs) = None \<Longrightarrow> n = length names"
        using Cons.IH by blast
      then show ?thesis
        using e lax False by (intro Cons.prems [of "Suc n"]) (simp_all add: insertSSLCtxByDomainName_def)
    qed
  qed
qed

definition cert_names :: "x509 \<Rightarrow> string list" where
  "cert_names x =
     (case getCommonName x of
        None \<Rightarrow> []
      | Some cn \<Rightarrow> if cn = ''*'' then [] else cn # (case getSubjectAltName x of Some names \<Rightarrow> names | None \<Rightarrow> []))"

definition cert_keys :: "x509 \<Rightarrow> string set" where
  "cert_keys x = (\<lambda>n. lower (name_key n)) ` {n \<in> set (cert_names x). accepted n}"

section \<open>The invariant of the map\<close>

definition entry_ok :: "x509 option list \<Rightarrow> ctx_id list \<Rightarrow> SSLContextKey \<Rightarrow> ctx_id \<Rightarrow> bool" where
  "entry_ok certs cids k c \<longleftrightarrow> c < length certs \<and>
     (\<exists>x. certs ! c = Some x \<and> lower (dnString k) \<in> cert_keys x
       \<and> (key_certCrypto k = SHA1_SIGNATURE \<longrightarrow> certCrypto_of x = SHA1_SIGNATURE)
       \<and> (key_certCrypto k = BEST_AVAILABLE \<and> certCrypto_of x = SHA1_SIGNATURE \<longrightarrow>
           (\<forall>c' x'. c' \<in> set cids \<and> certs ! c' = Some x' \<and> certCrypto_of x' = BEST_AVAILABLE
             \<longrightarrow> lower (dnString k) \<notin> cert_keys x')))"

text \<open>Each entry belongs to a certificate with that name; each name of a context has its entries.\<close>

definition names_ok :: "x509 option list \<Rightarrow> SslContexts \<Rightarrow> bool" where
  "names_ok certs cs \<longleftrightarrow> (\<forall>c\<in>set (ctxs cs). c < length certs \<and> certs ! c \<noteq> None)
     \<and> (\<forall>k c. dn_lookup k (dnMap cs) = Some c \<longrightarrow> entry_ok certs (ctxs cs) k c)
     \<and> (\<forall>c x k. c \<in> set (ctxs cs) \<and> certs ! c = Some x \<and> lower (dnString k) \<in> cert_keys x
          \<and> (key_certCrypto k = BEST_AVAILABLE \<or> key_certCrypto k = certCrypto_of x) \<longrightarrow> dn_lookup k (dnMap cs) \<noteq> None)"

lemma names_okD:
  fixes k :: SSLContextKey
  assumes "names_ok certs cs"
  shows "c \<in> set (ctxs cs) \<Longrightarrow> c < length certs \<and> certs ! c \<noteq> None"
    and "dn_lookup k (dnMap cs) = Some c \<Longrightarrow> entry_ok certs (ctxs cs) k c"
    and "c \<in> set (ctxs cs) \<Longrightarrow> certs ! c = Some x \<Longrightarrow> lower (dnString k) \<in> cert_keys x
      \<Longrightarrow> key_certCrypto k = BEST_AVAILABLE \<or> key_certCrypto k = certCrypto_of x \<Longrightarrow> dn_lookup k (dnMap cs) \<noteq> None"
  using assms unfolding names_ok_def by blast+

lemma names_ok_cong: "ctxs cs' = ctxs cs \<Longrightarrow> dnMap cs' = dnMap cs \<Longrightarrow> names_ok certs cs' = names_ok certs cs"
  by (simp add: names_ok_def)

lemma names_ok_empty [simp]: "names_ok certs SslContexts_empty"
  by (simp add: names_ok_def SslContexts_empty_def dn_lookup_def)

lemma entry_ok_append:
  "(\<And>c. c \<in> set cids \<Longrightarrow> c < length certs) \<Longrightarrow> entry_ok certs cids k c \<Longrightarrow> entry_ok (certs @ ys) cids k c"
  unfolding entry_ok_def by (auto simp: nth_append)

lemma names_ok_append:
  assumes "names_ok certs cs"
  shows "names_ok (certs @ ys) cs"
  unfolding names_ok_def
proof (intro conjI allI impI ballI)
  fix c assume "c \<in> set (ctxs cs)"
  with names_okD(1) [OF assms this] show "c < length (certs @ ys)" "(certs @ ys) ! c \<noteq> None" by (auto simp: nth_append)
next
  fix k :: SSLContextKey and c assume "dn_lookup k (dnMap cs) = Some c"
  with names_okD(1,2) [OF assms] show "entry_ok (certs @ ys) (ctxs cs) k c" by (intro entry_ok_append) blast+
next
  fix c x and k :: SSLContextKey
  assume "c \<in> set (ctxs cs) \<and> (certs @ ys) ! c = Some x \<and> lower (dnString k) \<in> cert_keys x
    \<and> (key_certCrypto k = BEST_AVAILABLE \<or> key_certCrypto k = certCrypto_of x)"
  with names_okD(1,3) [OF assms] show "dn_lookup k (dnMap cs) \<noteq> None" by (auto simp: nth_append)
qed

lemma names_ok_add_names:
  assumes ok: "names_ok certs cs" and c: "c < length certs" "certs ! c = Some x"
    and ds: "lower ` set ds \<subseteq> cert_keys x"
  shows "names_ok certs (fold (add_name c (certCrypto_of x)) ds cs)"
  unfolding names_ok_def add_names_fields
proof (intro conjI allI impI ballI)
  fix k :: SSLContextKey and c' assume l: "dn_lookup k (dnMap (fold (add_name c (certCrypto_of x)) ds cs)) = Some c'"
  show "entry_ok certs (ctxs cs) k c'"
  proof (cases "lower (dnString k) \<in> lower ` set ds \<and> dn_lookup k (dnMap cs) \<noteq> Some c'")
    case True
    then have "c' = c" "key_certCrypto k = certCrypto_of x \<or> key_certCrypto k = BEST_AVAILABLE \<and> dn_lookup k (dnMap cs) = None"
      using l by (auto simp: add_names_lookup added_def split: if_splits option.splits)
    moreover have "lower (dnString k) \<in> cert_keys x" using True ds by blast
    moreover have "lower (dnString k) \<notin> cert_keys x'"
      if "dn_lookup k (dnMap cs) = None" "key_certCrypto k = BEST_AVAILABLE" "c'' \<in> set (ctxs cs)" "certs ! c'' = Some x'" for c'' x'
      using names_okD(3) [OF ok that(3,4)] that(1,2) by blast
    ultimately show ?thesis using c unfolding entry_ok_def by (metis CertCrypto.distinct(1))
  next
    case False
    then have "dn_lookup k (dnMap cs) = Some c'" using l by (auto simp: add_names_lookup split: if_splits)
    then show ?thesis by (rule names_okD(2) [OF ok])
  qed
next
  fix c' x' and k :: SSLContextKey
  assume "c' \<in> set (ctxs cs) \<and> certs ! c' = Some x' \<and> lower (dnString k) \<in> cert_keys x'
    \<and> (key_certCrypto k = BEST_AVAILABLE \<or> key_certCrypto k = certCrypto_of x')"
  then have "dn_lookup k (dnMap cs) \<noteq> None" using names_okD(3) [OF ok] by blast
  then show "dn_lookup k (dnMap (fold (add_name c (certCrypto_of x)) ds cs)) \<noteq> None"
    by (auto simp: add_names_lookup added_def)
qed (use names_okD(1) [OF ok] in blast)+

lemma names_ok_listed:
  fixes x :: x509
  assumes ok: "names_ok certs cs" and c: "c < length certs" "certs ! c = Some x"
    and entries: "\<And>k :: SSLContextKey. lower (dnString k) \<in> cert_keys x \<Longrightarrow>
      key_certCrypto k = certCrypto_of x \<Longrightarrow> dn_lookup k (dnMap cs) = Some c"
    and best: "\<And>k :: SSLContextKey. lower (dnString k) \<in> cert_keys x \<Longrightarrow> key_certCrypto k = BEST_AVAILABLE \<Longrightarrow> dn_lookup k (dnMap cs) \<noteq> None"
  shows "names_ok certs (cs\<lparr>ctxs := ctxs cs @ [c]\<rparr>)"
  unfolding names_ok_def
proof (intro conjI allI impI ballI)
  fix k :: SSLContextKey and c' assume "dn_lookup k (dnMap (cs\<lparr>ctxs := ctxs cs @ [c]\<rparr>)) = Some c'"
  then have l: "dn_lookup k (dnMap cs) = Some c'" by simp
  from names_okD(2) [OF ok l] obtain x' where x': "c' < length certs" "certs ! c' = Some x'" "lower (dnString k) \<in> cert_keys x'"
    "key_certCrypto k = SHA1_SIGNATURE \<longrightarrow> certCrypto_of x' = SHA1_SIGNATURE"
    "key_certCrypto k = BEST_AVAILABLE \<and> certCrypto_of x' = SHA1_SIGNATURE \<longrightarrow>
      (\<forall>c'' x''. c'' \<in> set (ctxs cs) \<and> certs ! c'' = Some x'' \<and> certCrypto_of x'' = BEST_AVAILABLE \<longrightarrow> lower (dnString k) \<notin> cert_keys x'')"
    by (auto simp: entry_ok_def)
  have "lower (dnString k) \<notin> cert_keys x"
    if "key_certCrypto k = BEST_AVAILABLE" "certCrypto_of x' = SHA1_SIGNATURE" "certCrypto_of x = BEST_AVAILABLE"
    using entries [of k] l x'(2) c(2) that by auto
  with x' c(2) show "entry_ok certs (ctxs (cs\<lparr>ctxs := ctxs cs @ [c]\<rparr>)) k c'" unfolding entry_ok_def by auto
next
  fix c' x' and k :: SSLContextKey
  assume "c' \<in> set (ctxs (cs\<lparr>ctxs := ctxs cs @ [c]\<rparr>)) \<and> certs ! c' = Some x' \<and> lower (dnString k) \<in> cert_keys x'
    \<and> (key_certCrypto k = BEST_AVAILABLE \<or> key_certCrypto k = certCrypto_of x')"
  then show "dn_lookup k (dnMap (cs\<lparr>ctxs := ctxs cs @ [c]\<rparr>)) \<noteq> None"
    using names_okD(3) [OF ok, of c' x' k] entries [of k] best [of k] c(2) by auto
qed (use names_okD(1) [OF ok] c in auto)

lemma names_ok_insert_context:
  assumes ok: "names_ok certs cs" and c: "c < length certs" "certs ! c = cert"
  shows "names_ok certs (snd (insert_context strict c cert dflt cs))"
proof (cases cert)
  case (Some x)
  note c' = c(1) c(2) [unfolded Some]
  show ?thesis
  proof (cases "getCommonName x")
    case cn: (Some cn)
    show ?thesis
    proof (cases "cn = ''*''")
      case True
      then have "cert_keys x = {}" by (simp add: cert_keys_def cert_names_def cn)
      then show ?thesis using names_ok_listed [OF ok c'] ok cn True by (simp add: insert_context_def Some)
    next
      case False
      define names where "names = cert_names x"
      have names: "names = cn # (case getSubjectAltName x of Some names \<Rightarrow> names | None \<Rightarrow> [])"
        using False by (simp add: names_def cert_names_def cn)
      obtain n where n: "insert_names strict names c (certCrypto_of x) cs = (fst (insert_names strict names c (certCrypto_of x) cs),
          fold (add_name c (certCrypto_of x)) (map name_key (filter accepted (take n names))) cs)"
        "fst (insert_names strict names c (certCrypto_of x) cs) = None \<Longrightarrow> n = length names" using insert_names_eq [of strict names c "certCrypto_of x" cs] by blast
      define ds where "ds = map name_key (filter accepted (take n names))"
      define cs1 where "cs1 = fold (add_name c (certCrypto_of x)) ds cs"
      have "lower ` set ds \<subseteq> cert_keys x" by (auto simp: ds_def cert_keys_def names_def dest: in_set_takeD)
      then have ok1: "names_ok certs cs1" unfolding cs1_def by (rule names_ok_add_names [OF ok c'])
      show ?thesis
      proof (cases "fst (insert_names strict names c (certCrypto_of x) cs)")
        case None
        then have keys: "lower ` set ds = cert_keys x" using n(2) by (auto simp: ds_def cert_keys_def names_def)
        have "names_ok certs (cs1\<lparr>ctxs := ctxs cs1 @ [c]\<rparr>)"
          using ok1 c' by (rule names_ok_listed) (simp_all add: cs1_def add_names_lookup keys added_def split: option.splits)
        then show ?thesis
          using None n(1) names_ok_cong [of "cs1\<lparr>defaultCtxDomainName := cn, ctxs := ctxs cs1 @ [c]\<rparr>" "cs1\<lparr>ctxs := ctxs cs1 @ [c]\<rparr>"]
          by (simp add: insert_context_def Some cn False names [symmetric] ds_def [symmetric] cs1_def [symmetric] Let_def)
      next
        case (Some e)
        then show ?thesis
          using ok1 n(1) by (simp add: insert_context_def \<open>cert = Some x\<close> cn False names [symmetric] ds_def [symmetric] cs1_def [symmetric])
      qed
    qed
  qed (use ok in \<open>simp add: insert_context_def Some\<close>)
qed (use ok in \<open>simp add: insert_context_def\<close>)

section \<open>Operations of the manager\<close>

abbreviation certs_of :: "'f SSLContextManager \<Rightarrow> x509 option list" where
  "certs_of m \<equiv> map ctx_certificate (ctx_objects m)"

text \<open>Operations only append to the objects, and keep what the older ones are.\<close>

definition extends :: "'f SSLContextManager \<Rightarrow> 'f SSLContextManager \<Rightarrow> bool" where
  "extends m' m \<longleftrightarrow> mgr_contexts m' = mgr_contexts m \<and> (\<exists>objs. ctx_objects m' = ctx_objects m @ objs)"

lemma extends_refl [simp]: "extends m m"
  by (simp add: extends_def)

lemma extends_trans: "extends m2 m1 \<Longrightarrow> extends m1 m \<Longrightarrow> extends m2 m"
  by (auto simp: extends_def)

lemma map_list_update_id: "f y = f (xs ! i) \<Longrightarrow> map f (xs[i := y]) = map f xs"
  by (metis list_update_id map_update)

lemma ctxSetup_fields:
  assumes "ctxSetupByOpensslFeature c cfg cs m = (e, cs', m')"
  shows "certs_of m' = certs_of m" "map ctx_ticketManager (ctx_objects m') = map ctx_ticketManager (ctx_objects m)"
    "ctxs cs' = ctxs cs" "dnMap cs' = dnMap cs" "mgr_contexts m' = mgr_contexts m"
    "length (ctx_objects m') = length (ctx_objects m)"
    "\<And>i. i \<noteq> c \<Longrightarrow> ctx_objects m' ! i = ctx_objects m ! i"
  using assms
  by (auto simp: ctxSetupByOpensslFeature_def Let_def ctx_setOptions_def map_list_update_id split: if_splits)

lemma addSSLContextConfig_to_extends:
  assumes "addSSLContextConfig_to L opts seeds external cfg cs m = (e, cs', m')"
  shows "extends m' m"
proof (cases "build_context L cfg opts seeds external (clientCertVerifyCallback m) (mgr_stats m)")
  case (Inr obj)
  define m1 where "m1 = m\<lparr>ctx_objects := ctx_objects m @ [obj]\<rparr>"
  obtain e1 cs1 m2 where S: "ctxSetupByOpensslFeature (length (ctx_objects m)) cfg cs m1 = (e1, cs1, m2)" by (metis prod_cases3)
  have "m' = m2" using assms Inr S
    by (auto simp: addSSLContextConfig_to_def Let_def m1_def split: option.splits prod.splits)
  moreover have "ctx_objects m2 = ctx_objects m @ drop (length (ctx_objects m)) (ctx_objects m2)"
    using ctxSetup_fields(6,7) [OF S] by (intro nth_equalityI) (auto simp: m1_def nth_append less_Suc_eq)
  moreover have "mgr_contexts m2 = mgr_contexts m" using ctxSetup_fields(5) [OF S] by (simp add: m1_def)
  ultimately show ?thesis unfolding extends_def by blast
qed (use assms in \<open>simp add: addSSLContextConfig_to_def\<close>)

lemma addSSLContextConfig_to_names:
  assumes "addSSLContextConfig_to L opts seeds external cfg cs m = (e, cs', m')" "names_ok (certs_of m) cs"
  shows "names_ok (certs_of m') cs'"
proof (cases "build_context L cfg opts seeds external (clientCertVerifyCallback m) (mgr_stats m)")
  case (Inr obj)
  define m1 where "m1 = m\<lparr>ctx_objects := ctx_objects m @ [obj]\<rparr>"
  obtain e1 cs1 m2 where S: "ctxSetupByOpensslFeature (length (ctx_objects m)) cfg cs m1 = (e1, cs1, m2)" by (metis prod_cases3)
  note f = ctxSetup_fields [OF S]
  have certs: "certs_of m2 = certs_of m @ [ctx_certificate obj]" using f(1) by (simp add: m1_def)
  have ok: "names_ok (certs_of m2) cs1"
    using names_ok_append [OF assms(2)] names_ok_cong [of cs1 cs] f(3,4) by (simp add: certs)
  have "names_ok (certs_of m2) (snd (insert_context (mgr_strict m2) (length (ctx_objects m)) (ctx_certificate obj) (isDefault cfg) cs1))"
    by (rule names_ok_insert_context [OF ok]) (simp_all add: certs nth_append)
  then show ?thesis
    using assms(1) Inr S ok
    by (auto simp: addSSLContextConfig_to_def Let_def m1_def [symmetric] split: option.splits prod.splits)
qed (use assms in \<open>simp add: addSSLContextConfig_to_def\<close>)

lemma add_configs_ok:
  assumes "add_configs L opts seeds external cfgs cs m = (e, cs', m')" "names_ok (certs_of m) cs"
  shows "names_ok (certs_of m') cs' \<and> extends m' m"
  using assms
proof (induction cfgs arbitrary: cs m)
  case (Cons cfg cfgs)
  obtain e1 cs1 m1 where A: "addSSLContextConfig_to L opts seeds external cfg cs m = (e1, cs1, m1)" by (metis prod_cases3)
  note ok = addSSLContextConfig_to_names [OF A Cons.prems(2)] and ext = addSSLContextConfig_to_extends [OF A]
  show ?case
  proof (cases e1)
    case None
    then have "add_configs L opts seeds external cfgs cs1 m1 = (e, cs', m')" using Cons.prems(1) A by simp
    from Cons.IH [OF this ok] show ?thesis using ext extends_trans by blast
  qed (use Cons.prems(1) A ok ext in auto)
qed simp

lemma names_ok_extends: "extends m' m \<Longrightarrow> names_ok (certs_of m) cs \<Longrightarrow> names_ok (certs_of m') cs"
  by (auto simp: extends_def intro: names_ok_append)

text \<open>Reloading the ticket keys changes nothing else.\<close>

lemma reload_ctx_cert [simp]: "ctx_certificate (reload_ctx T seeds c) = ctx_certificate c"
  by (simp add: reload_ctx_def)

lemma reload_certs: "certs_of (reloadTLSTicketKeys L seeds m) = certs_of m"
proof -
  have "map ctx_certificate (fold (\<lambda>i objs. objs[i := reload_ctx T seeds (objs ! i)]) idx objs) = map ctx_certificate objs" for T idx objs
    by (induction idx arbitrary: objs) (simp_all add: map_list_update_id)
  then show ?thesis by (simp add: reloadTLSTicketKeys_def)
qed

inductive contexts_reachable :: "ssl_loader \<Rightarrow> 'f SSLContextManager \<Rightarrow> bool" for L :: ssl_loader where
  created: "contexts_reachable L (SSLContextManager_new strict stats)"
| ssl_stats: "contexts_reachable L m \<Longrightarrow> contexts_reachable L (setSSLStats stats m)"
| hello_stats: "contexts_reachable L m \<Longrightarrow> contexts_reachable L (setClientHelloExtStats stats m)"
| verify: "contexts_reachable L m \<Longrightarrow> contexts_reachable L (setClientVerifyCallback cb m)"
| added: "contexts_reachable L m \<Longrightarrow> contexts_reachable L (snd (addSSLContextConfig L opts seeds external cfg m))"
| reset: "contexts_reachable L m \<Longrightarrow> contexts_reachable L (snd (resetSSLContextConfigs L opts seeds external cfgs m))"
| cleared: "contexts_reachable L m \<Longrightarrow> contexts_reachable L (manager_clear m)"
| reloaded: "contexts_reachable L m \<Longrightarrow> contexts_reachable L (reloadTLSTicketKeys L seeds m)"
| recorded: "contexts_reachable L m \<Longrightarrow> contexts_reachable L (hello_stat l m)"

lemma resetSSLContextConfigs_cases:
  obtains (thrown) e m1 where "resetSSLContextConfigs L opts seeds external cfgs m = (Some e, m1)" "extends m1 m"
  | (replaced) cs m1 where "resetSSLContextConfigs L opts seeds external cfgs m = (None, m1\<lparr>mgr_contexts := cs\<rparr>)"
      "extends m1 m" "names_ok (certs_of m1) cs"
      "add_configs L opts (Some (case seeds of Some s \<Rightarrow> s | None \<Rightarrow> old_ticket_seeds (ticket_crypto_ops L)
         (map ((!) (ctx_objects m)) (ctxs (mgr_contexts m))))) external cfgs SslContexts_empty m = (None, cs, m1)"
proof -
  define s where "s = (case seeds of Some s \<Rightarrow> s | None \<Rightarrow> old_ticket_seeds (ticket_crypto_ops L)
    (map ((!) (ctx_objects m)) (ctxs (mgr_contexts m))))"
  obtain e cs m1 where A: "add_configs L opts (Some s) external cfgs SslContexts_empty m = (e, cs, m1)" by (metis prod_cases3)
  note ok = add_configs_ok [OF A names_ok_empty]
  have R: "resetSSLContextConfigs L opts seeds external cfgs m =
      (case e of Some x \<Rightarrow> (Some x, m1) | None \<Rightarrow> (None, m1\<lparr>mgr_contexts := cs\<rparr>))"
    using A by (simp add: resetSSLContextConfigs_def s_def [symmetric] Let_def SslContexts_swap_def split: option.splits)
  show thesis
  proof (cases e)
    case None
    then show thesis using replaced [of cs m1] R ok A unfolding s_def by simp
  qed (use thrown R ok in simp)
qed

lemma contexts_reachable_ok: "contexts_reachable L m \<Longrightarrow> names_ok (certs_of m) (mgr_contexts m)"
proof (induction rule: contexts_reachable.induct)
  case (added m opts seeds external cfg)
  obtain e cs m1 where A: "addSSLContextConfig_to L opts seeds external cfg (mgr_contexts m) m = (e, cs, m1)" by (metis prod_cases3)
  from addSSLContextConfig_to_names [OF A added.IH] show ?case by (simp add: addSSLContextConfig_def A)
next
  case (reset m opts seeds external cfgs)
  show ?case
  proof (rule resetSSLContextConfigs_cases [of L opts seeds external cfgs m])
    fix e m1 assume "resetSSLContextConfigs L opts seeds external cfgs m = (Some e, m1)" "extends m1 m"
    then show ?thesis using names_ok_extends [OF _ reset.IH] by (auto simp: extends_def)
  qed simp
next
  case (cleared m)
  show ?case by (simp add: manager_clear_def SslContexts_clear_def names_ok_def dn_lookup_def)
next
  case (reloaded m seeds)
  then show ?case unfolding reload_certs by (simp add: reloadTLSTicketKeys_def)
qed (simp_all add: SSLContextManager_new_def setSSLStats_def setClientHelloExtStats_def setClientVerifyCallback_def hello_stat_def)

end
