(* ===== verification/SSL_ContextManager_Serve.thy ===== *)
theory SSL_ContextManager_Serve
  imports SSL_ContextManager_Props
begin

text \<open>
  The properties of the context manager: which certificate is served for a server name, and what
  replacing the configuration does.
\<close>

section \<open>Names and certificates\<close>

text \<open>A name of a certificate covers a host: it is the host, or the host is one label in front of it.\<close>

definition name_covers :: "string \<Rightarrow> string \<Rightarrow> bool" where
  "name_covers n h \<longleftrightarrow> accepted n \<and>
     (lower h = lower (name_key n) \<or> parent_domain h \<noteq> [] \<and> lower (parent_domain h) = lower (name_key n))"

definition cert_covers :: "x509 \<Rightarrow> string \<Rightarrow> bool" where
  "cert_covers x h \<longleftrightarrow> (\<exists>n. n \<in> set (cert_names x) \<and> name_covers n h)"

lemma cert_covers_iff:
  "cert_covers x h \<longleftrightarrow> lower h \<in> cert_keys x \<or> parent_domain h \<noteq> [] \<and> lower (parent_domain h) \<in> cert_keys x"
  by (auto simp: cert_covers_def name_covers_def cert_keys_def)

text \<open>So \<open>*.d\<close> covers the hosts with one label, which has no dot, in front of \<open>.d\<close>, up to case.\<close>

lemma wildcard_covers:
  assumes "accepted (''*.'' @ d)" "d \<noteq> []"
  shows "name_covers (''*.'' @ d) h \<longleftrightarrow> (\<exists>label. CHR ''.'' \<notin> set label \<and> lower h = label @ ''.'' @ lower d)"
proof -
  have dot: "tolower CHR ''.'' = CHR ''.''" by simp
  have key: "lower (name_key (''*.'' @ d)) = ''.'' @ lower d"
    using assms(2) dot by (cases d) (simp_all add: name_key_def wildcard_def)
  have parent: "parent_domain (label @ ''.'' @ t) = ''.'' @ t" if "CHR ''.'' \<notin> set label" for label t
    using that by (simp add: parent_domain_def dropWhile_append)
  have split: "lower h = takeWhile (\<lambda>c. c \<noteq> CHR ''.'') (lower h) @ parent_domain (lower h)"
    by (simp add: parent_domain_def)
  have "name_covers (''*.'' @ d) h \<longleftrightarrow> lower h = ''.'' @ lower d \<or> parent_domain (lower h) = ''.'' @ lower d"
    unfolding name_covers_def key parent_domain_lower using assms(1) by auto
  also have "\<dots> \<longleftrightarrow> (\<exists>label. CHR ''.'' \<notin> set label \<and> lower h = label @ ''.'' @ lower d)"
  proof
    assume "lower h = ''.'' @ lower d \<or> parent_domain (lower h) = ''.'' @ lower d"
    then show "\<exists>label. CHR ''.'' \<notin> set label \<and> lower h = label @ ''.'' @ lower d"
    proof
      assume "lower h = ''.'' @ lower d"
      then show ?thesis by (intro exI [of _ "[]"]) simp
    next
      assume p: "parent_domain (lower h) = ''.'' @ lower d"
      have "CHR ''.'' \<notin> set (takeWhile (\<lambda>c. c \<noteq> CHR ''.'') (lower h))" by (auto dest: set_takeWhileD)
      then show ?thesis using split unfolding p by (intro exI conjI)
    qed
  next
    assume "\<exists>label. CHR ''.'' \<notin> set label \<and> lower h = label @ ''.'' @ lower d"
    then obtain label where "CHR ''.'' \<notin> set label" and h: "lower h = label @ ''.'' @ lower d" by blast
    then show "lower h = ''.'' @ lower d \<or> parent_domain (lower h) = ''.'' @ lower d"
      unfolding h using parent by blast
  qed
  finally show ?thesis .
qed

section \<open>Looking up a host\<close>

lemma getSSLCtx_eq:
  "getSSLCtx k m = (case dn_lookup k (dnMap (mgr_contexts m)) of
      Some c \<Rightarrow> Some c
    | None \<Rightarrow> if parent_domain (dnString k) = [] then None
        else dn_lookup (k\<lparr>dnString := parent_domain (dnString k)\<rparr>) (dnMap (mgr_contexts m)))"
proof (cases "find_first_of ''.'' (dnString k)")
  case None
  then show ?thesis
    using find_first_dot_None [of "dnString k"]
    by (simp add: getSSLCtx_def getSSLCtxByExactDomain_def getSSLCtxBySuffix_def split: option.splits)
next
  case (Some dot)
  then show ?thesis
    using find_first_dot_None [of "dnString k"] drop_first_dot [OF Some]
    by (auto simp: getSSLCtx_def getSSLCtxByExactDomain_def getSSLCtxBySuffix_def split: option.splits)
qed

lemma getSSLCtx_covers:
  assumes ok: "names_ok (certs_of m) (mgr_contexts m)" and found: "getSSLCtx k m = Some c"
  obtains x where "c < length (ctx_objects m)" "ctx_certificate (ctx_objects m ! c) = Some x" "cert_covers x (dnString k)"
    "key_certCrypto k = SHA1_SIGNATURE \<longrightarrow> certCrypto_of x = SHA1_SIGNATURE"
proof -
  from found consider "dn_lookup k (dnMap (mgr_contexts m)) = Some c"
    | "parent_domain (dnString k) \<noteq> []" "dn_lookup (k\<lparr>dnString := parent_domain (dnString k)\<rparr>) (dnMap (mgr_contexts m)) = Some c"
    by (auto simp: getSSLCtx_eq split: option.splits if_splits)
  then show thesis
  proof cases
    case 1
    from names_okD(2) [OF ok this] that show thesis by (auto simp: entry_ok_def cert_covers_iff)
  next
    case 2
    from names_okD(2) [OF ok 2(2)] 2(1) that show thesis by (auto simp: entry_ok_def cert_covers_iff)
  qed
qed

lemma getSSLCtx_complete:
  assumes ok: "names_ok (certs_of m) (mgr_contexts m)" and none: "getSSLCtx k m = None"
    and c: "c \<in> set (ctxs (mgr_contexts m))" "ctx_certificate (ctx_objects m ! c) = Some x"
    and crypto: "key_certCrypto k = BEST_AVAILABLE \<or> key_certCrypto k = certCrypto_of x"
  shows "\<not> cert_covers x (dnString k)"
proof -
  have cert: "certs_of m ! c = Some x" using names_okD(1) [OF ok c(1)] c(2) by simp
  from none have exact: "dn_lookup k (dnMap (mgr_contexts m)) = None"
    and parent: "parent_domain (dnString k) \<noteq> [] \<Longrightarrow>
      dn_lookup (k\<lparr>dnString := parent_domain (dnString k)\<rparr>) (dnMap (mgr_contexts m)) = None"
    by (auto simp: getSSLCtx_eq split: option.splits if_splits)
  show ?thesis
    using names_okD(3) [OF ok c(1) cert, of k] exact crypto parent
      names_okD(3) [OF ok c(1) cert, of "k\<lparr>dnString := parent_domain (dnString k)\<rparr>"]
    by (auto simp: cert_covers_iff)
qed

lemma find_context_covers:
  assumes ok: "names_ok (certs_of m) (mgr_contexts m)" and found: "find_context h req m = Some (c, k)"
  obtains x where "c < length (ctx_objects m)" "ctx_certificate (ctx_objects m ! c) = Some x" "cert_covers x h"
    "k = SHA1_SIGNATURE \<longrightarrow> certCrypto_of x = SHA1_SIGNATURE"
    "getSSLCtx \<lparr>dnString = h, key_certCrypto = k\<rparr> m = Some c"
proof -
  have g: "getSSLCtx \<lparr>dnString = h, key_certCrypto = k\<rparr> m = Some c"
    using found by (auto simp: find_context_def split: option.splits if_splits)
  from getSSLCtx_covers [OF ok g] that g show thesis by auto
qed

lemma find_context_complete:
  assumes ok: "names_ok (certs_of m) (mgr_contexts m)" and none: "find_context h req m = None"
    and c: "c \<in> set (ctxs (mgr_contexts m))" "ctx_certificate (ctx_objects m ! c) = Some x"
  shows "\<not> cert_covers x h"
proof -
  have "getSSLCtx \<lparr>dnString = h, key_certCrypto = BEST_AVAILABLE\<rparr> m = None"
    using none by (auto simp: find_context_def split: option.splits if_splits)
  from getSSLCtx_complete [OF ok this c] show ?thesis by simp
qed

lemma hello_stat_fields [simp]:
  "ctx_objects (hello_stat l m) = ctx_objects m" "mgr_contexts (hello_stat l m) = mgr_contexts m"
  "noMatchFn (hello_stat l m) = noMatchFn m"
  by (simp_all add: hello_stat_def)

lemma getSSLCtx_cong: "mgr_contexts m' = mgr_contexts m \<Longrightarrow> getSSLCtx k m' = getSSLCtx k m"
  by (simp only: getSSLCtx_eq)

lemma find_context_cong: "mgr_contexts m' = mgr_contexts m \<Longrightarrow> find_context h req m' = find_context h req m"
  by (simp only: find_context_def getSSLCtx_cong [of m' m])

definition asked_name :: "string option \<Rightarrow> 'f SSLContextManager \<Rightarrow> string" where
  "asked_name servername m = (case servername of Some n \<Rightarrow> n | None \<Rightarrow> c_str (defaultCtxDomainName (mgr_contexts m)))"

text \<open>What the callback answers: the context found at once, or the one found after the client's function.\<close>

lemma serverNameCallback_cases:
  assumes "serverNameCallback N servername hello m = (r, m')"
  obtains (at_once) k where "find_context (asked_name servername m) (cert_crypto_req hello) m = Some (the r, k)" "r \<noteq> None"
      "ctx_objects m' = ctx_objects m" "mgr_contexts m' = mgr_contexts m"
  | (later) f m1 m2 k where "find_context (asked_name servername m) (cert_crypto_req hello) m = None"
      "m1 = m \<or> m1 = hello_stat [AbsentHostname] m" "noMatchFn m = Some f" "N f (asked_name servername m) m1 = (True, m2)"
      "find_context (asked_name servername m) (cert_crypto_req hello) m2 = Some (the r, k)" "r \<noteq> None"
      "ctx_objects m' = ctx_objects m2" "mgr_contexts m' = mgr_contexts m2"
  | (not_found) "find_context (asked_name servername m) (cert_crypto_req hello) m = None" "r = None"
proof -
  define h where "h = asked_name servername m"
  define m1 where "m1 = (if servername \<noteq> None then m else hello_stat [AbsentHostname] m)"
  have m1: "find_context h req m1 = find_context h req m" "noMatchFn m1 = noMatchFn m"
      "ctx_objects m1 = ctx_objects m" "mgr_contexts m1 = mgr_contexts m" for req
    by (simp_all add: m1_def find_context_cong [of "hello_stat [AbsentHostname] m" m])
  note S = assms [unfolded serverNameCallback_def Let_def, folded m1_def asked_name_def h_def]
  have S': "(r, m') =
      (case find_context h (cert_crypto_req hello) m of
         Some found \<Rightarrow> serve_context (servername \<noteq> None) (cert_crypto_req hello) found m1
       | None \<Rightarrow>
           (case noMatchFn m of
              None \<Rightarrow> no_context (servername \<noteq> None) m1
            | Some f \<Rightarrow>
                (case N f h m1 of
                   (False, m2) \<Rightarrow> no_context (servername \<noteq> None) m2
                 | (True, m2) \<Rightarrow>
                     (case find_context h (cert_crypto_req hello) m2 of
                        Some found \<Rightarrow> serve_context (servername \<noteq> None) (cert_crypto_req hello) found m2
                      | None \<Rightarrow> no_context (servername \<noteq> None) m2))))"
    using S unfolding m1(1,2) by (rule sym)
  show thesis
  proof (cases "find_context h (cert_crypto_req hello) m")
    case (Some ck)
    then have "r = Some (fst ck)" "ctx_objects m' = ctx_objects m1" "mgr_contexts m' = mgr_contexts m1"
      using S' by (simp_all add: serve_context_def)
    then show thesis using at_once [of "snd ck"] Some m1(3,4) unfolding h_def by simp
  next
    case None
    show thesis
    proof (cases "r = None")
      case True
      then show thesis using None not_found unfolding h_def by blast
    next
      case False
      then obtain f m2 ck where "noMatchFn m = Some f" "N f h m1 = (True, m2)"
        "find_context h (cert_crypto_req hello) m2 = Some ck"
        "(r, m') = serve_context (servername \<noteq> None) (cert_crypto_req hello) ck m2"
        using S' None by (simp add: no_context_def split: option.splits prod.splits bool.splits)
      moreover from this(4) have "r = Some (fst ck)" "ctx_objects m' = ctx_objects m2" "mgr_contexts m' = mgr_contexts m2"
        by (simp_all add: serve_context_def)
      moreover have "m1 = m \<or> m1 = hello_stat [AbsentHostname] m" by (simp add: m1_def)
      ultimately show thesis using later [of m1 f m2 "snd ck"] None unfolding h_def by simp
    qed
  qed
qed

section \<open>Replacing the configuration\<close>

lemma ctxSetup_stats: "ctxSetupByOpensslFeature c cfg cs m = (e, cs', m') \<Longrightarrow> mgr_stats m' = mgr_stats m"
  by (auto simp: ctxSetupByOpensslFeature_def Let_def split: if_splits)

definition context_tickets :: "ssl_loader \<Rightarrow> TLSTicketKeySeeds option \<Rightarrow> bool \<Rightarrow> 'f SSLContextConfig \<Rightarrow> TLSTicketKeyManager option" where
  "context_tickets L seeds stats cfg =
     (if sessionTicketEnabled cfg
      then map_option (\<lambda>s. snd (setTLSTicketKeySeeds (ticket_crypto_ops L) s (TLSTicketKeyManager_new stats))) seeds
      else None)"

lemma build_context_tickets:
  "build_context L cfg opts seeds external verify stats = Inr obj \<Longrightarrow> ctx_ticketManager obj = context_tickets L seeds stats cfg"
  by (auto simp: build_context_def setupTicketManager_def context_tickets_def Let_def split: sum.splits if_splits option.splits)

lemma insert_context_listed: "insert_context strict c cert dflt cs = (None, cs') \<Longrightarrow> ctxs cs' = ctxs cs @ [c]"
proof -
  assume I: "insert_context strict c cert dflt cs = (None, cs')"
  have "ctxs (snd (insert_names strict names c crypto cs)) = ctxs cs" for names crypto
    by (rule insert_names_eq [of strict names c crypto cs]) (metis add_names_fields(1) snd_conv)
  then have "ctxs cs1 = ctxs cs" if "insert_names strict names c crypto cs = (None, cs1)" for names crypto cs1
    using that by (metis snd_conv)
  with I show ?thesis
    by (auto simp: insert_context_def Let_def simp del: insert_names.simps split: option.splits if_splits prod.splits)
qed

text \<open>A configuration that is added makes one context, with the tickets it asks for, at the end.\<close>

lemma addSSLContextConfig_to_context:
  assumes "addSSLContextConfig_to L opts seeds external cfg cs m = (e, cs', m')"
  shows "e = None \<Longrightarrow> ctxs cs' = ctxs cs @ [length (ctx_objects m)]"
    and "e = None \<Longrightarrow> map ctx_ticketManager (ctx_objects m') = map ctx_ticketManager (ctx_objects m) @ [context_tickets L seeds (mgr_stats m) cfg]"
    and "\<exists>ts. map ctx_ticketManager (ctx_objects m') = map ctx_ticketManager (ctx_objects m) @ ts \<and> set ts \<subseteq> {context_tickets L seeds (mgr_stats m) cfg}"
    and "mgr_stats m' = mgr_stats m"
proof -
  have *: "(e = None \<longrightarrow> ctxs cs' = ctxs cs @ [length (ctx_objects m)]) \<and> mgr_stats m' = mgr_stats m \<and>
    (map ctx_ticketManager (ctx_objects m') = map ctx_ticketManager (ctx_objects m) @ [context_tickets L seeds (mgr_stats m) cfg]
      \<or> e \<noteq> None \<and> m' = m)"
  proof (cases "build_context L cfg opts seeds external (clientCertVerifyCallback m) (mgr_stats m)")
    case (Inr obj)
    define m1 where "m1 = m\<lparr>ctx_objects := ctx_objects m @ [obj]\<rparr>"
    obtain e1 cs1 m2 where S: "ctxSetupByOpensslFeature (length (ctx_objects m)) cfg cs m1 = (e1, cs1, m2)" by (metis prod_cases3)
    obtain e2 cs2 where I: "insert_context (mgr_strict m2) (length (ctx_objects m)) (ctx_certificate obj) (isDefault cfg) cs1 = (e2, cs2)"
      by fastforce
    have R: "(e, cs', m') = (case e1 of Some x \<Rightarrow> (Some x, cs1, m2)
        | None \<Rightarrow> (case e2 of Some x \<Rightarrow> (Some (RuntimeError ''Error adding certificate : ''), cs2, m2) | None \<Rightarrow> (None, cs2, m2)))"
      using assms [symmetric] Inr S I by (simp add: addSSLContextConfig_to_def Let_def m1_def split: option.splits)
    have "map ctx_ticketManager (ctx_objects m2) = map ctx_ticketManager (ctx_objects m) @ [context_tickets L seeds (mgr_stats m) cfg]"
      using ctxSetup_fields(2) [OF S] build_context_tickets [OF Inr] by (simp add: m1_def)
    moreover have "mgr_stats m2 = mgr_stats m" using ctxSetup_stats [OF S] by (simp add: m1_def)
    moreover have "ctxs cs2 = ctxs cs @ [length (ctx_objects m)]" if "e2 = None"
      using insert_context_listed [of _ _ _ _ cs1 cs2] I that ctxSetup_fields(3) [OF S] by metis
    ultimately show ?thesis using R by (auto split: option.splits)
  qed (use assms in \<open>auto simp: addSSLContextConfig_to_def\<close>)
  then show "e = None \<Longrightarrow> ctxs cs' = ctxs cs @ [length (ctx_objects m)]" "mgr_stats m' = mgr_stats m"
    "e = None \<Longrightarrow> map ctx_ticketManager (ctx_objects m') = map ctx_ticketManager (ctx_objects m) @ [context_tickets L seeds (mgr_stats m) cfg]"
    by blast+
  from * show "\<exists>ts. map ctx_ticketManager (ctx_objects m') = map ctx_ticketManager (ctx_objects m) @ ts
      \<and> set ts \<subseteq> {context_tickets L seeds (mgr_stats m) cfg}"
    by (metis append_Nil2 bot.extremum empty_set list.simps(15) subset_refl)
qed

lemma add_configs_contexts:
  assumes "add_configs L opts seeds external cfgs cs m = (None, cs', m')"
  shows "ctxs cs' = ctxs cs @ [length (ctx_objects m) ..< length (ctx_objects m) + length cfgs]
    \<and> map ctx_ticketManager (ctx_objects m') = map ctx_ticketManager (ctx_objects m) @ map (context_tickets L seeds (mgr_stats m)) cfgs"
  using assms
proof (induction cfgs arbitrary: cs m)
  case (Cons cfg cfgs)
  obtain e1 cs1 m1 where A: "addSSLContextConfig_to L opts seeds external cfg cs m = (e1, cs1, m1)" by (metis prod_cases3)
  have "e1 = None" using Cons.prems A by (cases e1) simp_all
  then have IH: "add_configs L opts seeds external cfgs cs1 m1 = (None, cs', m')" using Cons.prems A by simp
  note one = addSSLContextConfig_to_context [OF A]
  have len: "length (ctx_objects m1) = Suc (length (ctx_objects m))"
    using arg_cong [OF one(2) [OF \<open>e1 = None\<close>], of length] by simp
  have "[n..<n + length (cfg # cfgs)] = n # [Suc n..<Suc n + length cfgs]" for n
    by (simp add: upt_conv_Cons del: upt_Suc)
  then show ?case
    using Cons.IH [OF IH] one(1,2) [OF \<open>e1 = None\<close>] one(4) by (simp add: len del: upt_Suc)
qed simp

text \<open>Every ticket manager was set up with seeds.\<close>

definition tickets_seeded :: "ticket_ops \<Rightarrow> TLSTicketKeyManager option list \<Rightarrow> bool" where
  "tickets_seeded T tms \<longleftrightarrow> (\<forall>tm. Some tm \<in> set tms \<longrightarrow> (\<exists>s m0. tm = snd (setTLSTicketKeySeeds T s m0)))"

lemma tickets_seeded_simps [simp]:
  "tickets_seeded T []" "tickets_seeded T (xs @ ys) \<longleftrightarrow> tickets_seeded T xs \<and> tickets_seeded T ys"
  by (auto simp: tickets_seeded_def)

lemma tickets_seeded_context: "set ts \<subseteq> {context_tickets L seeds stats cfg} \<Longrightarrow> tickets_seeded (ticket_crypto_ops L) ts"
  unfolding tickets_seeded_def
proof (intro allI impI)
  fix tm assume "set ts \<subseteq> {context_tickets L seeds stats cfg}" "Some tm \<in> set ts"
  then have "context_tickets L seeds stats cfg = Some tm" by (metis singletonD subsetD)
  then show "\<exists>s m0. tm = snd (setTLSTicketKeySeeds (ticket_crypto_ops L) s m0)"
    by (auto simp: context_tickets_def split: if_splits)
qed

lemma add_configs_seeded:
  assumes "add_configs L opts seeds external cfgs cs m = (e, cs', m')"
    and "tickets_seeded (ticket_crypto_ops L) (map ctx_ticketManager (ctx_objects m))"
  shows "tickets_seeded (ticket_crypto_ops L) (map ctx_ticketManager (ctx_objects m'))"
  using assms
proof (induction cfgs arbitrary: cs m)
  case (Cons cfg cfgs)
  obtain e1 cs1 m1 where A: "addSSLContextConfig_to L opts seeds external cfg cs m = (e1, cs1, m1)" by (metis prod_cases3)
  have "tickets_seeded (ticket_crypto_ops L) (map ctx_ticketManager (ctx_objects m1))"
    using addSSLContextConfig_to_context(3) [OF A] Cons.prems(2) tickets_seeded_context by fastforce
  then show ?case using Cons A by (cases e1) auto
qed simp

lemma tickets_seeded_reload:
  assumes "tickets_seeded T (map ctx_ticketManager objs)"
  shows "tickets_seeded T (map ctx_ticketManager (fold (\<lambda>i objs. objs[i := reload_ctx T seeds (objs ! i)]) idx objs))"
  using assms
proof (induction idx arbitrary: objs)
  case (Cons i idx)
  have "tickets_seeded T (map ctx_ticketManager (objs[i := reload_ctx T seeds (objs ! i)]))"
    unfolding tickets_seeded_def
  proof (intro allI impI)
    fix tm assume "Some tm \<in> set (map ctx_ticketManager (objs[i := reload_ctx T seeds (objs ! i)]))"
    then have "Some tm = ctx_ticketManager (reload_ctx T seeds (objs ! i)) \<or> Some tm \<in> set (map ctx_ticketManager objs)"
      using set_update_subset_insert [of objs i "reload_ctx T seeds (objs ! i)"] by auto
    then show "\<exists>s m0. tm = snd (setTLSTicketKeySeeds T s m0)"
      using Cons.prems by (cases "ctx_ticketManager (objs ! i)") (auto simp: tickets_seeded_def reload_ctx_def)
  qed
  then show ?case using Cons.IH by simp
qed simp

lemma contexts_reachable_seeded:
  "contexts_reachable L m \<Longrightarrow> tickets_seeded (ticket_crypto_ops L) (map ctx_ticketManager (ctx_objects m))"
proof (induction rule: contexts_reachable.induct)
  case (added m opts seeds external cfg)
  obtain e cs m1 where A: "addSSLContextConfig_to L opts seeds external cfg (mgr_contexts m) m = (e, cs, m1)" by (metis prod_cases3)
  then show ?case
    using addSSLContextConfig_to_context(3) [OF A] added.IH tickets_seeded_context
    by (fastforce simp: addSSLContextConfig_def)
next
  case (reset m opts seeds external cfgs)
  obtain e cs m1 where A: "add_configs L opts (Some (case seeds of Some s \<Rightarrow> s | None \<Rightarrow> old_ticket_seeds (ticket_crypto_ops L)
      (map ((!) (ctx_objects m)) (ctxs (mgr_contexts m))))) external cfgs SslContexts_empty m = (e, cs, m1)" by (metis prod_cases3)
  from add_configs_seeded [OF A reset.IH] show ?case
    using A by (simp add: resetSSLContextConfigs_def Let_def split: option.splits)
next
  case (reloaded m seeds)
  then show ?case by (simp add: reloadTLSTicketKeys_def tickets_seeded_reload)
qed (simp_all add: SSLContextManager_new_def setSSLStats_def setClientHelloExtStats_def setClientVerifyCallback_def
      manager_clear_def)

section \<open>A sample\<close>

definition sample_cert :: "signature_nid \<Rightarrow> x509" where
  "sample_cert nid = \<lparr>x509_subject_text = (\<lambda>n. Some (take (n - 1) ''example.com'')),
     x509_names = Some [GEN_OTHER, GEN_DNS ''*.Example.com''], x509_signature = nid\<rparr>"

definition sample_loader :: ssl_loader where
  "sample_loader = \<lparr>
     loadCertKeyPairFromFiles = (\<lambda>cert.
       if certPath cert = ''new.pem'' then Inr (Some (sample_cert NID_other))
       else if certPath cert = ''old.pem'' then Inr (Some (sample_cert NID_ecdsa_with_SHA1))
       else Inl (RuntimeError ''no such file'')),
     loadCertificate = (\<lambda>_. Inl (RuntimeError ''no such file'')),
     ciphers_ok = (\<lambda>_. True), curve_ok = (\<lambda>_. True), clientCA_ok = (\<lambda>_. True), ticket_crypto_ops = sample_ticket_ops\<rparr>"

definition sample_config :: "string \<Rightarrow> unit SSLContextConfig" where
  "sample_config path = \<lparr>certificates = [\<lparr>certPath = path, keyPath = ''key.pem'', passwordPath = []\<rparr>],
     sessionCacheEnabled = True, sessionTicketEnabled = True, sslCiphers = [], eccCurveName = ''prime256v1'',
     nextProtocols = [], isLocalPrivateKey = True, isDefault = False, sniNoMatchFn = None, clientCAFile = [],
     offloadType = [], sessionContext = None\<rparr>"

definition sample_options :: SSLCacheOptions where
  "sample_options = \<lparr>sslCacheTimeout = 60, maxSSLCacheSize = 1024, sslCacheFlushSize = 64\<rparr>"

text \<open>A manager with a context for each signature.\<close>

definition sample_manager :: "unit SSLContextManager" where
  "sample_manager = snd (addSSLContextConfig sample_loader sample_options (Some sample_seeds) False (sample_config ''old.pem'')
     (snd (addSSLContextConfig sample_loader sample_options (Some sample_seeds) False (sample_config ''new.pem'')
       (SSLContextManager_new True False))))"

lemma sample_manager_reachable: "contexts_reachable sample_loader sample_manager"
  unfolding sample_manager_def by (intro contexts_reachable.intros)

definition old_client :: client_hello where
  "old_client = \<lparr>clientHelloSigAlgs = [OTHER_HASH], clientHelloExtensions = [OTHER_EXTENSION]\<rparr>"

section \<open>Properties\<close>



text \<open>
  Better signatures are preferred. A client that knows SHA-256 is served a certificate with a SHA-1
  signature only if no certificate with a better one names the host itself, and, when the served one
  covers it by a wildcard, if no better one covers it at all. A client that does not is served a SHA-1
  certificate whenever one covers the host.
\<close>

theorem better_signature_preferred:
  assumes "contexts_reachable L m" and "find_context h req m = Some (c, k)"
    and "ctx_certificate (ctx_objects m ! c) = Some x"
    and "c' \<in> set (ctxs (mgr_contexts m))" and "ctx_certificate (ctx_objects m ! c') = Some x'"
  shows "(req = BEST_AVAILABLE \<and> certCrypto_of x = SHA1_SIGNATURE \<and> certCrypto_of x' = BEST_AVAILABLE \<longrightarrow>
      lower h \<notin> cert_keys x' \<and> (lower h \<notin> cert_keys x \<longrightarrow> \<not> cert_covers x' h))
    \<and> (req = SHA1_SIGNATURE \<and> certCrypto_of x' = SHA1_SIGNATURE \<and> cert_covers x' h \<longrightarrow> certCrypto_of x = SHA1_SIGNATURE)"
proof -
  note ok = contexts_reachable_ok [OF assms(1)]
  have cert': "certs_of m ! c' = Some x'" using names_okD(1) [OF ok assms(4)] assms(5) by simp
  obtain y where y: "c < length (ctx_objects m)" "ctx_certificate (ctx_objects m ! c) = Some y"
    "k = SHA1_SIGNATURE \<longrightarrow> certCrypto_of y = SHA1_SIGNATURE" "getSSLCtx \<lparr>dnString = h, key_certCrypto = k\<rparr> m = Some c"
    using find_context_covers [OF ok assms(2)] by metis
  have k: "k = SHA1_SIGNATURE \<longrightarrow> certCrypto_of x = SHA1_SIGNATURE" and g: "getSSLCtx \<lparr>dnString = h, key_certCrypto = k\<rparr> m = Some c"
    and c: "certs_of m ! c = Some x" using y assms(3) by auto
  have "certCrypto_of x = SHA1_SIGNATURE"
    if "req = SHA1_SIGNATURE" "certCrypto_of x' = SHA1_SIGNATURE" "cert_covers x' h"
    using k that assms(2) getSSLCtx_complete [OF ok _ assms(4,5), of "\<lparr>dnString = h, key_certCrypto = SHA1_SIGNATURE\<rparr>"]
    by (auto simp: find_context_def split: option.splits)
  moreover have "lower h \<notin> cert_keys x' \<and> (lower h \<notin> cert_keys x \<longrightarrow> \<not> cert_covers x' h)"
    if "req = BEST_AVAILABLE" "certCrypto_of x = SHA1_SIGNATURE" "certCrypto_of x' = BEST_AVAILABLE"
  proof -
    define q where "q = \<lparr>dnString = h, key_certCrypto = BEST_AVAILABLE\<rparr>"
    have "k = BEST_AVAILABLE" using assms(2) that(1) by (auto simp: find_context_def split: option.splits)
    with g consider "dn_lookup q (dnMap (mgr_contexts m)) = Some c"
      | "dn_lookup q (dnMap (mgr_contexts m)) = None" "parent_domain h \<noteq> []"
        "dn_lookup (q\<lparr>dnString := parent_domain h\<rparr>) (dnMap (mgr_contexts m)) = Some c"
      by (auto simp: getSSLCtx_eq q_def split: option.splits if_splits)
    then show ?thesis
    proof cases
      case 1
      from names_okD(2) [OF ok 1] show ?thesis using c cert' assms(4) that by (auto simp: entry_ok_def q_def)
    next
      case 2
      have "lower h \<notin> cert_keys x'" using names_okD(3) [OF ok assms(4) cert', of q] 2(1) by (auto simp: q_def)
      moreover have "lower (parent_domain h) \<notin> cert_keys x'"
        using names_okD(2) [OF ok 2(3)] c cert' assms(4) that by (auto simp: entry_ok_def q_def)
      ultimately show ?thesis by (simp add: cert_covers_iff)
    qed
  qed
  ultimately show ?thesis by blast
qed

theorem better_signature_preferred_witness:
  "contexts_reachable sample_loader sample_manager
   \<and> find_context ''example.com'' (cert_crypto_req (Some old_client)) sample_manager = Some (1, SHA1_SIGNATURE)
   \<and> find_context ''example.com'' (cert_crypto_req None) sample_manager = Some (0, BEST_AVAILABLE)
   \<and> (\<exists>x. ctx_certificate (ctx_objects sample_manager ! 1) = Some x \<and> cert_covers x ''example.com'' \<and> certCrypto_of x = SHA1_SIGNATURE)"
proof -
  have f: "find_context ''example.com'' (cert_crypto_req (Some old_client)) sample_manager = Some (1, SHA1_SIGNATURE)"
    "find_context ''example.com'' (cert_crypto_req None) sample_manager = Some (0, BEST_AVAILABLE)"
    "cert_crypto_req (Some old_client) = SHA1_SIGNATURE" "1 \<in> set (ctxs (mgr_contexts sample_manager))"
    by code_simp+
  obtain x where x: "ctx_certificate (ctx_objects sample_manager ! 1) = Some x" "cert_covers x ''example.com''"
    using find_context_covers [OF contexts_reachable_ok [OF sample_manager_reachable] f(1)] by metis
  have "map_option x509_signature (ctx_certificate (ctx_objects sample_manager ! 1)) = Some NID_ecdsa_with_SHA1" by code_simp
  then have "certCrypto_of x = SHA1_SIGNATURE" using x(1) by (simp add: certCrypto_of_def)
  with better_signature_preferred [OF sample_manager_reachable f(1) x(1) f(4) x(1)] f x show ?thesis
    using sample_manager_reachable by blast
qed

definition first_ticket_manager :: "'f SSLContextManager \<Rightarrow> TLSTicketKeyManager option" where
  "first_ticket_manager m =
     (case List.map_filter ctx_ticketManager (map ((!) (ctx_objects m)) (ctxs (mgr_contexts m))) of
        [] \<Rightarrow> None | tm # _ \<Rightarrow> Some tm)"

lemma old_ticket_seeds_first:
  "List.map_filter ctx_ticketManager objs = tm # tms \<Longrightarrow> old_ticket_seeds T objs = snd (getTLSTicketKeySeeds T tm)"
  by (induction objs) (auto simp: List.map_filter_simps split: option.splits)



section \<open>Contexts with several certificates\<close>

definition same_names :: "string \<Rightarrow> string list option \<Rightarrow> x509 \<Rightarrow> bool" where
  "same_names cn san x \<longleftrightarrow> getCommonName x = Some cn \<and> map_option sort (getSubjectAltName x) = san"

lemma same_names_keys:
  assumes "same_names cn san x" "same_names cn san y"
  shows "cert_keys x = cert_keys y"
proof -
  have sets: "map_option set (getSubjectAltName z) = map_option set san" if "same_names cn san z" for z
    using that by (cases "getSubjectAltName z") (auto simp: same_names_def)
  have "set (case getSubjectAltName x of Some names \<Rightarrow> names | None \<Rightarrow> []) = set (case getSubjectAltName y of Some names \<Rightarrow> names | None \<Rightarrow> [])"
    using trans [OF sets [OF assms(1)] sets [OF assms(2), symmetric]]
    by (cases "getSubjectAltName x"; cases "getSubjectAltName y") auto
  then have "set (cert_names x) = set (cert_names y)" using assms by (simp add: same_names_def cert_names_def)
  then show ?thesis by (simp add: cert_keys_def)
qed

lemma scan_cert_ok:
  assumes "scan_cert L cfg cert st = Inr st'"
  obtains x where "load_cert L cfg cert = Inr (Some x)" "scan_x509 st' = Some x"
    "same_names (commonName st') (subjectAltName st') x" "numCerts st' = Suc (numCerts st)"
    "numCerts st \<noteq> 0 \<longrightarrow> commonName st' = commonName st \<and> subjectAltName st' = subjectAltName st"
proof -
  from assms obtain x cn where "load_cert L cfg cert = Inr (Some x)" "getCommonName x = Some cn"
    by (auto simp: scan_cert_def split: sum.splits option.splits)
  then show thesis
    using assms that [of x]
    by (cases "numCerts st = 0"; cases "getSubjectAltName x")
      (auto simp: scan_cert_def same_names_def Let_def split: if_splits)
qed

lemma scan_certs_ok:
  assumes "scan_certs L cfg certs st = Inr st'"
    and "numCerts st \<noteq> 0 \<Longrightarrow> \<exists>y. scan_x509 st = Some y \<and> same_names (commonName st) (subjectAltName st) y"
  shows "(\<forall>cert\<in>set certs. \<exists>x. load_cert L cfg cert = Inr (Some x) \<and> same_names (commonName st') (subjectAltName st') x)
    \<and> (certs \<noteq> [] \<or> numCerts st \<noteq> 0 \<longrightarrow> (\<exists>y. scan_x509 st' = Some y \<and> same_names (commonName st') (subjectAltName st') y))
    \<and> (numCerts st \<noteq> 0 \<longrightarrow> commonName st' = commonName st \<and> subjectAltName st' = subjectAltName st)"
  using assms
proof (induction certs arbitrary: st)
  case (Cons cert certs)
  from Cons.prems(1) obtain st1 where st1: "scan_cert L cfg cert st = Inr st1" "scan_certs L cfg certs st1 = Inr st'"
    by (auto split: sum.splits)
  from scan_cert_ok [OF st1(1)] obtain x where x: "load_cert L cfg cert = Inr (Some x)" "scan_x509 st1 = Some x"
    "same_names (commonName st1) (subjectAltName st1) x" "numCerts st1 = Suc (numCerts st)"
    "numCerts st \<noteq> 0 \<longrightarrow> commonName st1 = commonName st \<and> subjectAltName st1 = subjectAltName st" by blast
  show ?case using Cons.IH [OF st1(2)] x by auto
qed auto

text \<open>
  A context with several certificates is found under the names of each: when the context of a
  configuration is made, every certificate of the configuration could be loaded and has the same
  names to look up as the certificate the context is listed by. Certificates whose common names or
  alternative names differ are refused.
\<close>

theorem context_names_agree:
  assumes "build_context L cfg opts seeds external verify stats = Inr obj" and "cert \<in> set (certificates cfg)"
  shows "\<exists>x y. load_cert L cfg cert = Inr (Some x) \<and> ctx_certificate obj = Some y
    \<and> getCommonName x = getCommonName y \<and> cert_keys x = cert_keys y"
proof -
  from assms(1) obtain st where S: "scan_certs L cfg (certificates cfg)
      \<lparr>numCerts = 0, commonName = [], subjectAltName = None, scan_x509 = None\<rparr> = Inr st" "ctx_certificate obj = scan_x509 st"
    by (auto simp: build_context_def setupTicketManager_def setupSessionCache_def ctx_setOptions_def Let_def
        split: sum.splits if_splits option.splits)
  have "certificates cfg \<noteq> []" using assms(2) by auto
  with scan_certs_ok [OF S(1)] have all: "\<forall>cert\<in>set (certificates cfg). \<exists>x. load_cert L cfg cert = Inr (Some x)
      \<and> same_names (commonName st) (subjectAltName st) x"
    and "\<exists>y. scan_x509 st = Some y \<and> same_names (commonName st) (subjectAltName st) y" by simp_all
  then obtain y where y: "scan_x509 st = Some y" "same_names (commonName st) (subjectAltName st) y" by blast
  from all assms(2) obtain x where x: "load_cert L cfg cert = Inr (Some x)" "same_names (commonName st) (subjectAltName st) x" by blast
  show ?thesis using x y S(2) same_names_keys [OF x(2) y(2)] by (simp add: same_names_def)
qed

definition sample_pair :: "unit SSLContextConfig" where
  "sample_pair = addCertificate ''old.pem'' ''key.pem'' [] (sample_config ''new.pem'')"

theorem context_names_agree_witness:
  "\<exists>obj. build_context sample_loader sample_pair sample_options None False False False = Inr obj
   \<and> (\<exists>x y. load_cert sample_loader sample_pair \<lparr>certPath = ''new.pem'', keyPath = ''key.pem'', passwordPath = []\<rparr> = Inr (Some x)
        \<and> ctx_certificate obj = Some y \<and> getCommonName x = getCommonName y \<and> cert_keys x = cert_keys y)"
proof -
  have "isl (build_context sample_loader sample_pair sample_options None False False False) = False" by code_simp
  then obtain obj where obj: "build_context sample_loader sample_pair sample_options None False False False = Inr obj"
    by (auto simp: isl_def split: sum.splits) (metis sum.exhaust)
  have "\<lparr>certPath = ''new.pem'', keyPath = ''key.pem'', passwordPath = []\<rparr> \<in> set (certificates sample_pair)"
    by (simp add: sample_pair_def sample_config_def addCertificate_def)
  from context_names_agree [OF obj this] obj show ?thesis by blast
qed

section \<open>Corner cases\<close>

text \<open>
  A common name of the greatest length, 64, loses its last character: OpenSSL is told that the buffer has
  64 bytes and puts a zero byte into the last.
\<close>

lemma common_name_truncated:
  assumes "x509_subject_text cert = (\<lambda>n. Some (take (n - 1) name))" "length name = ub_common_name" "NUL \<notin> set name"
  shows "getCommonName cert = Some (take 63 name)"
proof -
  have "takeWhile (\<lambda>c. c \<noteq> NUL) (take 63 name) = take 63 name"
    using assms(3) by (intro takeWhile_eq_all_conv [THEN iffD2]) (auto dest: in_set_takeD)
  then show ?thesis using assms(1,2) by (auto simp: getCommonName_def ub_common_name_def c_str_def)
qed

text \<open>
  Without seeds, a context that is added refuses tickets, while a context made by a reset does not: it
  has a ticket manager without keys, and OpenSSL goes on with keys of its own.
\<close>

lemma setupTicketManager_without_seeds:
  assumes "sessionTicketEnabled cfg"
  shows "OP_NO_TICKET \<in> set (ctx_options (setupTicketManager T None cfg stats c))"
    and "ctx_options (setupTicketManager T (Some (old_ticket_seeds T [])) cfg stats c) = ctx_options c"
  using assms by (simp_all add: setupTicketManager_def ctx_setOptions_def)

end
