(* ===== verification/Provider_Agent.thy ===== *)
theory Provider_Agent
  imports Channel_Handlers Channel_Pipeline_Props "HOL-Library.Sublist"
begin

text \<open>
  \<open>chijinxin/ProviderAgent.cpp\<close>, the provider agent: a TCP proxy that makes one connection to the Dubbo
  server for each connection of a client and forwards bytes both ways; with the connect callback of
  \<open>bootstrap/ClientBootstrap.h\<close>. The sockets are handled by \<open>AsyncSocketHandler\<close>, of \<open>Channel_Handlers\<close>.
\<close>

section \<open>The pipelines\<close>

definition bytes_class :: "string \<Rightarrow> HandlerDir \<Rightarrow> handler_class" where
  "bytes_class name dir = \<lparr>hc_name = name, hc_dir = dir, rin = ''IOBufQueue&'', rout = ''IOBufQueue&'',
     win = ''unique_ptr<IOBuf>'', wout = ''unique_ptr<IOBuf>''\<rparr>"

text \<open>The three handlers have the numbers 0, 1 and 2.\<close>

definition ProxyBackendPipelineFactory_newPipeline :: "Pipeline \<Rightarrow> cpp_exn option \<times> Pipeline" where
  "ProxyBackendPipelineFactory_newPipeline p =
     finalize ''IOBufQueue&'' ''unique_ptr<IOBuf>''
       (addBack (bytes_class ''ProxyBackendHandler'' IN) 2
         (addBack (bytes_class ''EventBaseHandler'' OUT) 1
           (addBack (bytes_class ''AsyncSocketHandler'' BOTH) 0 p)))"

definition ProxyFrontendPipelineFactory_newPipeline :: "Pipeline \<Rightarrow> cpp_exn option \<times> Pipeline" where
  "ProxyFrontendPipelineFactory_newPipeline p =
     finalize ''IOBufQueue&'' ''unique_ptr<IOBuf>''
       (addBack (bytes_class ''ProxyFrontendHandler'' BOTH) 2
         (addBack (bytes_class ''EventBaseHandler'' OUT) 1
           (addBack (bytes_class ''AsyncSocketHandler'' BOTH) 0 p)))"

text \<open>Both are made without an exception, and a write passes \<open>EventBaseHandler\<close> before it reaches the socket.\<close>

definition empty_pipeline :: Pipeline where
  "empty_pipeline = Pipeline_create 0 (\<lambda>_. null_ctx) (\<lambda>_. null_handler)"

lemma agent_pipelines:
  "fst (ProxyBackendPipelineFactory_newPipeline empty_pipeline) = None"
  "fst (ProxyFrontendPipelineFactory_newPipeline empty_pipeline) = None"
  "inCtxs (snd (ProxyBackendPipelineFactory_newPipeline empty_pipeline)) = [0, 2]"
  "outCtxs (snd (ProxyBackendPipelineFactory_newPipeline empty_pipeline)) = [0, 1]"
  "inCtxs (snd (ProxyFrontendPipelineFactory_newPipeline empty_pipeline)) = [0, 2]"
  "outCtxs (snd (ProxyFrontendPipelineFactory_newPipeline empty_pipeline)) = [0, 1, 2]"
  by code_simp+

section \<open>A proxied connection\<close>

text \<open>
  The constructor of \<open>ProxyFrontendHandler\<close> leaves \<open>backendPipeline_\<close> unset: \<open>Unset b\<close> is what the memory
  happens to hold, null or not (\<open>b\<close>).
\<close>

datatype backend_ptr = Unset bool | Backend

definition ptr_set :: "backend_ptr \<Rightarrow> bool" where
  "ptr_set p \<longleftrightarrow> p \<noteq> Unset False"

text \<open>
  \<open>front\<close> and \<open>backend\<close> are the socket handlers of the two pipelines; \<open>backend\<close> is there once the client bootstrap has
  made its pipeline, \<open>front_open\<close> is false once the frontend pipeline is destroyed, and the backend with
  it. \<open>attempts\<close> counts the connects that are going on; \<open>connected\<close> holds between the end of a connect
  and the call of the function that waits for it. The bytes received and sent are recorded.
\<close>

record agent_conn =
  front :: AsyncSocketHandler
  front_open :: bool
  backend :: "AsyncSocketHandler option"
  backendPipeline :: backend_ptr
  attempts :: nat
  connected :: bool
  from_client :: "byte list"
  to_client :: "byte list"
  from_dubbo :: "byte list"
  to_dubbo :: "byte list"

definition ProxyFrontendHandler_new :: "bool \<Rightarrow> AsyncSocketHandler \<Rightarrow> agent_conn" where
  "ProxyFrontendHandler_new garbage sock =
     \<lparr>front = sock, front_open = True, backend = None, backendPipeline = Unset garbage, attempts = 0, connected = False,
      from_client = [], to_client = [], from_dubbo = [], to_dubbo = []\<rparr>"

text \<open>
  Writing to a pipeline: \<open>EventBaseHandler\<close> reads the pipeline's transport, which is null while the
  transport is inactive; then the socket takes the bytes, if it is good. Failed writes are not noticed,
  because the futures are dropped.
\<close>

definition pipeline_write :: "byte list \<Rightarrow> AsyncSocketHandler \<Rightarrow> cpp_exn + byte list" where
  "pipeline_write bs h =
     (if \<not> pipe_transport h then Inl Undefined
      else (case AsyncSocketHandler_write (Some bs) h of [WriteChain b] \<Rightarrow> Inr b | _ \<Rightarrow> Inr []))"

text \<open>Closing a pipeline, by the same way; the answer tells whether the pipeline is to be deleted.\<close>

definition pipeline_close :: "AsyncSocketHandler \<Rightarrow> cpp_exn + AsyncSocketHandler \<times> bool" where
  "pipeline_close h =
     (if \<not> pipe_transport h then Inl Undefined
      else (case AsyncSocketHandler_close False h of (h1, acts) \<Rightarrow> Inr (h1, DeletePipeline \<in> set acts)))"

definition ProxyBackendHandler_read :: "byte list \<Rightarrow> agent_conn \<Rightarrow> cpp_exn + agent_conn" where
  "ProxyBackendHandler_read bs w =
     (if \<not> front_open w then Inl Undefined
      else (case pipeline_write bs (front w) of
              Inl e \<Rightarrow> Inl e
            | Inr sent \<Rightarrow> Inr (w\<lparr>to_client := to_client w @ sent\<rparr>)))"

definition ProxyFrontendHandler_read :: "byte list \<Rightarrow> agent_conn \<Rightarrow> cpp_exn + agent_conn" where
  "ProxyFrontendHandler_read bs w =
     (case backendPipeline w of
        Unset _ \<Rightarrow> Inl Undefined
      | Backend \<Rightarrow>
          (case backend w of
             None \<Rightarrow> Inl Undefined
           | Some b \<Rightarrow>
               (case pipeline_write bs b of
                  Inl e \<Rightarrow> Inl e
                | Inr sent \<Rightarrow> Inr (w\<lparr>to_dubbo := to_dubbo w @ sent\<rparr>))))"

text \<open>
  The end of a client's stream closes the backend and then the frontend, whose connection deletes the
  pipeline and with it the handler, the client bootstrap and the backend pipeline.
\<close>

definition ProxyFrontendHandler_readEOF :: "agent_conn \<Rightarrow> cpp_exn + agent_conn" where
  "ProxyFrontendHandler_readEOF w =
     (case backendPipeline w of
        Unset _ \<Rightarrow> Inl Undefined
      | Backend \<Rightarrow>
          (case backend w of
             None \<Rightarrow> Inl Undefined
           | Some b \<Rightarrow>
               (case pipeline_close b of
                  Inl e \<Rightarrow> Inl e
                | Inr (b1, _) \<Rightarrow>
                    (case pipeline_close (front w) of
                       Inl e \<Rightarrow> Inl e
                     | Inr (f1, del) \<Rightarrow>
                         if del then Inr (w\<lparr>front := f1, front_open := False, backend := None\<rparr>)
                         else Inr (w\<lparr>front := f1, backend := Some b1\<rparr>)))))"

text \<open>\<open>throws\<close>: whether \<open>connect\<close> throws at once, which is caught and printed.\<close>

definition ProxyFrontendHandler_transportActive :: "bool \<Rightarrow> agent_conn \<Rightarrow> agent_conn" where
  "ProxyFrontendHandler_transportActive throws w =
     (if ptr_set (backendPipeline w) then w
      else
        (let w1 = w\<lparr>front := fst (AsyncSocketHandler_transportInactive (front w))\<rparr> in
         if throws then w1 else w1\<lparr>attempts := attempts w1 + 1\<rparr>))"

text \<open>\<open>transportActive\<close> of the frontend pipeline: the socket handler comes first.\<close>

definition frontend_transportActive :: "bool \<Rightarrow> agent_conn \<Rightarrow> agent_conn" where
  "frontend_transportActive throws w =
     ProxyFrontendHandler_transportActive throws (w\<lparr>front := fst (AsyncSocketHandler_transportActive (front w))\<rparr>)"

text \<open>
  \<open>connectSuccess\<close> of the client bootstrap makes the backend pipeline and activates it, which starts to
  read; \<open>connectErr\<close> completes the promise with an exception, and the agent prints it.
\<close>

definition connectSuccess :: "bool \<Rightarrow> agent_conn \<Rightarrow> agent_conn" where
  "connectSuccess good w =
     (let w1 = w\<lparr>attempts := attempts w - 1\<rparr> in
      if \<not> front_open w1 then w1
      else w1\<lparr>backend := Some (fst (AsyncSocketHandler_transportActive (AsyncSocketHandler_new good True))), connected := True\<rparr>)"

definition connectErr :: "agent_conn \<Rightarrow> agent_conn" where
  "connectErr w = w\<lparr>attempts := attempts w - 1\<rparr>"

text \<open>The function that waits for the connection: keep the pipeline and resume reading from the client.\<close>

definition agent_connected :: "agent_conn \<Rightarrow> cpp_exn + agent_conn" where
  "agent_connected w =
     (if \<not> front_open w then Inl Undefined
      else Inr (frontend_transportActive False (w\<lparr>connected := False, backendPipeline := Backend\<rparr>)))"

text \<open>
  What happens to a connection. A socket hands bytes, its end or an error only to a read callback; after
  an end or an error it has none, and it may not be good any more. A socket without a read callback
  may fail unnoticed. The backend handler and, for errors,
  the frontend handler do not override these calls, which then end at the end of the pipeline.
\<close>

definition sock_ended :: "bool \<Rightarrow> AsyncSocketHandler \<Rightarrow> AsyncSocketHandler" where
  "sock_ended good h = h\<lparr>read_cb_set := False, sock_good := sock_good h \<and> good\<rparr>"

inductive agent_step :: "agent_conn \<Rightarrow> cpp_exn + agent_conn \<Rightarrow> bool" where
  dialled: "attempts w > 0 \<Longrightarrow> agent_step w (Inr (connectSuccess good w))"
| dial_failed: "attempts w > 0 \<Longrightarrow> agent_step w (Inr (connectErr w))"
| resumes: "connected w \<Longrightarrow> agent_step w (agent_connected w)"
| client_bytes: "front_open w \<Longrightarrow> read_cb_set (front w) \<Longrightarrow>
     agent_step w (ProxyFrontendHandler_read bs (w\<lparr>from_client := from_client w @ bs\<rparr>))"
| client_eof: "front_open w \<Longrightarrow> read_cb_set (front w) \<Longrightarrow>
     agent_step w (ProxyFrontendHandler_readEOF (w\<lparr>front := sock_ended good (front w)\<rparr>))"
| client_error: "front_open w \<Longrightarrow> read_cb_set (front w) \<Longrightarrow>
     agent_step w (Inr (w\<lparr>front := sock_ended good (front w)\<rparr>))"
| dubbo_bytes: "backend w = Some b \<Longrightarrow> read_cb_set b \<Longrightarrow>
     agent_step w (ProxyBackendHandler_read bs (w\<lparr>from_dubbo := from_dubbo w @ bs\<rparr>))"
| client_lost: "front_open w \<Longrightarrow> \<not> read_cb_set (front w) \<Longrightarrow>
     agent_step w (Inr (w\<lparr>front := sock_ended False (front w)\<rparr>))"
| dubbo_ended: "backend w = Some b \<Longrightarrow> read_cb_set b \<Longrightarrow> agent_step w (Inr (w\<lparr>backend := Some (sock_ended good b)\<rparr>))"
| dubbo_lost: "backend w = Some b \<Longrightarrow> \<not> read_cb_set b \<Longrightarrow> agent_step w (Inr (w\<lparr>backend := Some (sock_ended False b)\<rparr>))"

text \<open>A connection starts when the server activates the transport of a new pipeline.\<close>

inductive agent_reachable :: "bool \<Rightarrow> agent_conn \<Rightarrow> bool" for garbage :: bool where
  start: "agent_reachable garbage (frontend_transportActive throws (ProxyFrontendHandler_new garbage (AsyncSocketHandler_new good True)))"
| move: "agent_reachable garbage w \<Longrightarrow> agent_step w (Inr w') \<Longrightarrow> agent_reachable garbage w'"

end
