(* ===== verification/Provider_Agent_Props.thy ===== *)
theory Provider_Agent_Props
  imports Provider_Agent
begin

text \<open>
  What the provider agent guarantees for a proxied connection: the phases of a connection, the bytes
  forwarded, the one way it can crash, and what a failed connect leaves behind.
\<close>

section \<open>The sockets\<close>

lemma sock_ended_sel [simp]:
  "read_cb_set (sock_ended good h) = False" "sock_good (sock_ended good h) = (sock_good h \<and> good)"
  "pipe_transport (sock_ended good h) = pipe_transport h" "pipelineDeleted (sock_ended good h) = pipelineDeleted h"
  by (simp_all add: sock_ended_def)

lemma transportActive_sel [simp]:
  "read_cb_set (fst (AsyncSocketHandler_transportActive h)) = sock_good h"
  "sock_good (fst (AsyncSocketHandler_transportActive h)) = sock_good h"
  "pipe_transport (fst (AsyncSocketHandler_transportActive h))"
  "pipelineDeleted (fst (AsyncSocketHandler_transportActive h)) = pipelineDeleted h"
  by (simp_all add: socket_defs)

lemma transportInactive_sel [simp]:
  "\<not> read_cb_set (fst (AsyncSocketHandler_transportInactive h))"
  "sock_good (fst (AsyncSocketHandler_transportInactive h)) = sock_good h"
  "\<not> pipe_transport (fst (AsyncSocketHandler_transportInactive h))"
  "pipelineDeleted (fst (AsyncSocketHandler_transportInactive h)) = pipelineDeleted h"
  by (simp_all add: socket_defs Let_def split: prod.splits)

lemma AsyncSocketHandler_new_sel [simp]:
  "\<not> read_cb_set (AsyncSocketHandler_new good evb)" "sock_good (AsyncSocketHandler_new good evb) = good"
  "\<not> pipe_transport (AsyncSocketHandler_new good evb)" "\<not> pipelineDeleted (AsyncSocketHandler_new good evb)"
  by (simp_all add: AsyncSocketHandler_new_def)

lemma pipeline_write_eq:
  "pipeline_write bs h = (if pipe_transport h then Inr (if sock_good h then bs else []) else Inl Undefined)"
  by (simp add: pipeline_write_def AsyncSocketHandler_write_def)

lemma pipeline_close_eq:
  "pipeline_close h =
     (if pipe_transport h then Inr (fst (AsyncSocketHandler_close False h), \<not> pipelineDeleted h) else Inl Undefined)"
  by (simp add: pipeline_close_def socket_defs Let_def split: prod.splits)

section \<open>The phases of a connection\<close>

text \<open>
  A connection waits for the backend, then it has a backend but the client is still paused, then it
  runs, and at the end it is closed. \<open>piped\<close>: what was sent is what was received as long as the socket
  is good, and a prefix of it afterwards.
\<close>

definition piped :: "bool \<Rightarrow> byte list \<Rightarrow> byte list \<Rightarrow> bool" where
  "piped good received sent \<longleftrightarrow> prefix sent received \<and> (good \<longrightarrow> sent = received)"

definition no_bytes :: "agent_conn \<Rightarrow> bool" where
  "no_bytes w \<longleftrightarrow> from_client w = [] \<and> to_client w = [] \<and> from_dubbo w = [] \<and> to_dubbo w = []"

definition paused :: "agent_conn \<Rightarrow> bool" where
  "paused w \<longleftrightarrow> front_open w \<and> \<not> read_cb_set (front w) \<and> \<not> pipe_transport (front w) \<and> \<not> pipelineDeleted (front w) \<and>
     backendPipeline w = Unset False \<and> no_bytes w"

definition awaiting :: "agent_conn \<Rightarrow> bool" where
  "awaiting w \<longleftrightarrow> paused w \<and> backend w = None \<and> \<not> connected w \<and> attempts w \<le> 1"

definition half_open :: "agent_conn \<Rightarrow> bool" where
  "half_open w \<longleftrightarrow> paused w \<and> connected w \<and> attempts w = 0 \<and> (\<exists>b. backend w = Some b \<and> pipe_transport b)"

definition running :: "agent_conn \<Rightarrow> bool" where
  "running w \<longleftrightarrow> front_open w \<and> pipe_transport (front w) \<and> \<not> pipelineDeleted (front w) \<and> backendPipeline w = Backend \<and>
     \<not> connected w \<and> attempts w = 0 \<and> piped (sock_good (front w)) (from_dubbo w) (to_client w) \<and>
     (\<exists>b. backend w = Some b \<and> pipe_transport b \<and> piped (sock_good b) (from_client w) (to_dubbo w))"

definition closed :: "agent_conn \<Rightarrow> bool" where
  "closed w \<longleftrightarrow> \<not> front_open w \<and> backend w = None \<and> \<not> connected w \<and> attempts w = 0 \<and>
     piped False (from_dubbo w) (to_client w) \<and> piped False (from_client w) (to_dubbo w)"

definition agent_inv :: "agent_conn \<Rightarrow> bool" where
  "agent_inv w \<longleftrightarrow> awaiting w \<or> half_open w \<or> running w \<or> closed w"

lemma piped_same [simp]: "piped good xs xs"
  by (simp add: piped_def)

lemma piped_weaken: "piped good xs ys \<Longrightarrow> (good' \<Longrightarrow> good) \<Longrightarrow> piped good' xs ys"
  by (auto simp: piped_def)

lemma piped_more: "piped good xs ys \<Longrightarrow> piped good (xs @ bs) (ys @ (if good then bs else []))"
  by (auto simp: piped_def)

lemma agent_start:
  "awaiting (frontend_transportActive throws (ProxyFrontendHandler_new False (AsyncSocketHandler_new good True)))"
  by (simp add: awaiting_def paused_def no_bytes_def frontend_transportActive_def ProxyFrontendHandler_new_def
      ProxyFrontendHandler_transportActive_def ptr_set_def Let_def)

inductive_cases agent_stepE: "agent_step w r"

lemmas agent_ops = connectSuccess_def connectErr_def agent_connected_def frontend_transportActive_def
  ProxyFrontendHandler_transportActive_def ptr_set_def Let_def pipeline_write_eq pipeline_close_eq
  ProxyFrontendHandler_read_def ProxyFrontendHandler_readEOF_def ProxyBackendHandler_read_def

lemmas phase_defs = awaiting_def half_open_def running_def closed_def paused_def no_bytes_def

text \<open>The steps of each phase.\<close>

lemma awaiting_step:
  assumes "agent_step w r" "awaiting w"
  shows "\<exists>w'. r = Inr w' \<and> (awaiting w' \<or> half_open w') \<and> (attempts w = 0 \<longrightarrow> awaiting w' \<and> attempts w' = 0)"
  using assms by (cases rule: agent_step.cases) (auto simp: agent_ops phase_defs)

lemma half_open_step:
  assumes "agent_step w r" "half_open w"
  shows "(\<exists>w'. r = Inr w' \<and> (half_open w' \<or> running w')) \<or>
    r = Inl Undefined \<and> (\<exists>b. backend w = Some b \<and> read_cb_set b)"
  using assms by (cases rule: agent_step.cases) (auto simp: agent_ops phase_defs)

lemma running_step:
  assumes "agent_step w r" "running w"
  shows "\<exists>w'. r = Inr w' \<and> (running w' \<or> closed w')"
  using assms
  by (cases rule: agent_step.cases)
    (auto simp: agent_ops phase_defs piped_more elim: piped_weaken intro: piped_more)

lemma closed_step: "agent_step w r \<Longrightarrow> closed w \<Longrightarrow> False"
  by (erule agent_stepE) (auto simp: closed_def)

lemma agent_inv_step:
  assumes "agent_step w (Inr w')" "agent_inv w"
  shows "agent_inv w'"
  using assms awaiting_step [OF assms(1)] half_open_step [OF assms(1)] running_step [OF assms(1)] closed_step [OF assms(1)]
  by (auto simp: agent_inv_def)

lemma agent_reachable_inv: "agent_reachable False w \<Longrightarrow> agent_inv w"
proof (induction rule: agent_reachable.induct)
  case (start throws good)
  show ?case by (simp add: agent_inv_def agent_start)
next
  case (move w w')
  from agent_inv_step [OF move.hyps(2) move.IH] show ?case .
qed

lemma failed_connect_stays:
  "(\<lambda>u v. agent_step u (Inr v))\<^sup>*\<^sup>* w w' \<Longrightarrow> awaiting w \<Longrightarrow> attempts w = 0 \<Longrightarrow> awaiting w' \<and> attempts w' = 0"
  by (induction rule: rtranclp_induct) (auto dest: awaiting_step)

section \<open>Connections to evaluate\<close>

text \<open>A client that connects, its backend connected, the pause over, and some bytes both ways.\<close>

definition conn_start :: agent_conn where
  "conn_start = frontend_transportActive False (ProxyFrontendHandler_new False (AsyncSocketHandler_new True True))"

definition conn_half :: agent_conn where
  "conn_half = connectSuccess True conn_start"

definition conn_up :: agent_conn where
  "conn_up = projr (agent_connected conn_half)"

definition conn_asked :: agent_conn where
  "conn_asked = projr (ProxyFrontendHandler_read [1, 2] (conn_up\<lparr>from_client := [1, 2]\<rparr>))"

definition conn_answered :: agent_conn where
  "conn_answered = projr (ProxyBackendHandler_read [7] (conn_asked\<lparr>from_dubbo := [7]\<rparr>))"

lemmas conn_defs = conn_answered_def conn_asked_def conn_up_def conn_half_def conn_start_def

lemma reachable_start: "agent_reachable False conn_start"
  unfolding conn_start_def by (rule agent_reachable.start)

lemma attempts_start: "attempts conn_start = 1"
  by code_simp

lemma reachable_half: "agent_reachable False conn_half"
  unfolding conn_half_def
  by (rule agent_reachable.move [OF reachable_start dialled]) (simp add: attempts_start)

lemma reachable_up: "agent_reachable False conn_up"
proof -
  have "connected conn_half" by code_simp
  then have "agent_step conn_half (agent_connected conn_half)" by (rule resumes)
  moreover have "agent_connected conn_half = Inr conn_up" by code_simp
  ultimately show ?thesis using agent_reachable.move [OF reachable_half] by simp
qed

lemma reachable_asked: "agent_reachable False conn_asked"
proof -
  have "front_open conn_up" "read_cb_set (front conn_up)" by code_simp+
  from client_bytes [OF this, of "[1, 2]"]
  have "agent_step conn_up (ProxyFrontendHandler_read [1, 2] (conn_up\<lparr>from_client := from_client conn_up @ [1, 2]\<rparr>))" .
  moreover have "ProxyFrontendHandler_read [1, 2] (conn_up\<lparr>from_client := from_client conn_up @ [1, 2]\<rparr>) = Inr conn_asked"
    by code_simp
  ultimately show ?thesis using agent_reachable.move [OF reachable_up] by simp
qed

lemma reachable_answered: "agent_reachable False conn_answered"
proof -
  obtain b where b: "backend conn_asked = Some b" "read_cb_set b"
  proof
    show "backend conn_asked = Some (the (backend conn_asked))" "read_cb_set (the (backend conn_asked))" by code_simp+
  qed
  from dubbo_bytes [OF this, of "[7]"]
  have "agent_step conn_asked (ProxyBackendHandler_read [7] (conn_asked\<lparr>from_dubbo := from_dubbo conn_asked @ [7]\<rparr>))" .
  moreover have "ProxyBackendHandler_read [7] (conn_asked\<lparr>from_dubbo := from_dubbo conn_asked @ [7]\<rparr>) = Inr conn_answered"
    by code_simp
  ultimately show ?thesis using agent_reachable.move [OF reachable_asked] by simp
qed

section \<open>Properties\<close>



text \<open>
  C18. With the backend pointer null at first, there is exactly one way for a connection to crash: the
  Dubbo server sends bytes after its connection was made, when its pipeline reads already, and
  before the frontend is resumed, when the transport of the frontend pipeline is still null.
\<close>

theorem agent_crashes_iff:
  assumes "agent_reachable False w"
  shows "agent_step w (Inl e) \<longleftrightarrow> e = Undefined \<and> connected w \<and> (\<exists>b. backend w = Some b \<and> read_cb_set b)"
proof
  assume s: "agent_step w (Inl e)"
  from agent_reachable_inv [OF assms] awaiting_step [OF s] running_step [OF s] closed_step [OF s]
  have "half_open w" by (auto simp: agent_inv_def)
  with half_open_step [OF s this] show "e = Undefined \<and> connected w \<and> (\<exists>b. backend w = Some b \<and> read_cb_set b)"
    by (auto simp: half_open_def)
next
  assume a: "e = Undefined \<and> connected w \<and> (\<exists>b. backend w = Some b \<and> read_cb_set b)"
  then obtain b where b: "backend w = Some b" "read_cb_set b" by blast
  from agent_reachable_inv [OF assms] a have "half_open w" by (auto simp: agent_inv_def phase_defs)
  then have "ProxyBackendHandler_read bs (w\<lparr>from_dubbo := from_dubbo w @ bs\<rparr>) = Inl Undefined" for bs
    by (simp add: ProxyBackendHandler_read_def pipeline_write_eq half_open_def paused_def)
  with dubbo_bytes [OF b] a show "agent_step w (Inl e)" by metis
qed

theorem agent_crashes_iff_witness:
  "agent_step conn_half (Inl Undefined) \<and> \<not> agent_step conn_half (Inl CheckFailed) \<and> \<not> agent_step conn_up (Inl Undefined)"
proof -
  have "connected conn_half" "\<not> connected conn_up" "backend conn_half = Some (the (backend conn_half))"
    "read_cb_set (the (backend conn_half))" by code_simp+
  then show ?thesis
    using agent_crashes_iff [OF reachable_half, of Undefined] agent_crashes_iff [OF reachable_half, of CheckFailed]
      agent_crashes_iff [OF reachable_up, of Undefined] by auto
qed

text \<open>
  When the connection to the Dubbo server fails, the client is left hanging: whatever happens then,
  the client's connection stays open, nothing is read from it or sent to it, and no backend is made.
\<close>

theorem connect_failure_hangs:
  assumes "agent_reachable False w" "attempts w > 0" "(\<lambda>u v. agent_step u (Inr v))\<^sup>*\<^sup>* (connectErr w) w'"
  shows "front_open w' \<and> \<not> read_cb_set (front w') \<and> backend w' = None \<and> no_bytes w' \<and> (\<forall>e. \<not> agent_step w' (Inl e))"
proof -
  from agent_reachable_inv [OF assms(1)] assms(2) have "awaiting w" by (auto simp: agent_inv_def phase_defs)
  with assms(2) have "awaiting (connectErr w)" "attempts (connectErr w) = 0"
    by (auto simp: connectErr_def awaiting_def paused_def no_bytes_def)
  from failed_connect_stays [OF assms(3) this] have "awaiting w'" by blast
  then show ?thesis using awaiting_step [of w'] by (auto simp: awaiting_def paused_def)
qed

theorem connect_failure_hangs_witness:
  "front_open (connectErr conn_start) \<and> \<not> read_cb_set (front (connectErr conn_start)) \<and> no_bytes (connectErr conn_start)"
  using connect_failure_hangs [OF reachable_start, of "connectErr conn_start"] by (simp add: attempts_start)



text \<open>
  When the memory of the pointer is not null, the agent takes it for a connection made before: it makes
  none, reads from the client, and crashes at the first bytes or at the end of the stream.
\<close>

lemma garbage_pointer:
  "agent_reachable True w \<Longrightarrow> front_open w \<and> backendPipeline w = Unset True \<and> backend w = None \<and> \<not> connected w \<and> attempts w = 0"
proof (induction rule: agent_reachable.induct)
  case (start throws good)
  show ?case by (simp add: agent_ops ProxyFrontendHandler_new_def)
next
  case (move w w')
  from move.hyps(2) move.IH show ?case by (cases rule: agent_step.cases) (auto simp: agent_ops)
qed

lemma garbage_pointer_crashes:
  assumes "agent_reachable True w"
  shows "ProxyFrontendHandler_read bs w = Inl Undefined" "ProxyFrontendHandler_readEOF w = Inl Undefined"
  using garbage_pointer [OF assms] by (simp_all add: agent_ops)

end
