(* ===== verification/Agent_StringSplit.thy ===== *)
theory Agent_StringSplit
  imports Wangle_Prelude
begin

text \<open>
  \<open>chijinxin/utility.h\<close>: \<open>StringSplit\<close>, which cuts a string at delimiters, and what it computes.
\<close>

section \<open>The function\<close>

text \<open>\<open>find_first_of\<close> of the standard string, from a position on; \<open>npos\<close> is \<open>None\<close>.\<close>

definition str_find_first_of :: "string \<Rightarrow> string \<Rightarrow> nat \<Rightarrow> nat option" where
  "str_find_first_of delims str start =
     (let pos = start + length (takeWhile (\<lambda>c. c \<notin> set delims) (drop start str)) in
      if pos < length str then Some pos else None)"

lemma str_find_first_of_range: "str_find_first_of delims str start = Some pos \<Longrightarrow> start \<le> pos \<and> pos < length str"
  by (auto simp: str_find_first_of_def Let_def split: if_splits)

text \<open>The loop, with the counter of splits at its width.\<close>

function StringSplit_loop :: "string \<Rightarrow> string \<Rightarrow> u32 \<Rightarrow> nat \<Rightarrow> u32 \<Rightarrow> string list \<Rightarrow> string list" where
  "StringSplit_loop str delims maxSplits start numSplits ret =
     (case str_find_first_of delims str start of
        None \<Rightarrow> ret @ [drop start str]
      | Some pos \<Rightarrow>
          if pos = start then StringSplit_loop str delims maxSplits (pos + 1) (numSplits + 1) (ret @ [[]])
          else if maxSplits \<noteq> 0 \<and> numSplits + 1 = maxSplits then ret @ [drop start str]
          else StringSplit_loop str delims maxSplits (pos + 1) (numSplits + 1) (ret @ [take (pos - start) (drop start str)]))"
  by pat_completeness auto
termination
  by (relation "measure (\<lambda>(str, _, _, start, _, _). length str - start)")
    (auto dest: str_find_first_of_range)

declare StringSplit_loop.simps [simp del]

definition StringSplit :: "string \<Rightarrow> string \<Rightarrow> u32 \<Rightarrow> string list \<Rightarrow> string list" where
  "StringSplit str delims maxSplits ret =
     (if str = [] then ret else StringSplit_loop str delims maxSplits 0 0 ret)"

section \<open>What it computes\<close>

text \<open>The pieces between delimiters.\<close>

fun pieces :: "string \<Rightarrow> string \<Rightarrow> string list" where
  "pieces delims [] = [[]]"
| "pieces delims (c # s) =
     (if c \<in> set delims then [] # pieces delims s
      else (case pieces delims s of p # ps \<Rightarrow> (c # p) # ps | [] \<Rightarrow> []))"

lemma pieces_Nil [simp]: "pieces delims s \<noteq> []"
  by (induction s) (auto split: list.splits)

lemma pieces_no_delim: "set a \<inter> set delims = {} \<Longrightarrow> pieces delims a = [a]"
  by (induction a) auto

lemma pieces_append:
  "set a \<inter> set delims = {} \<Longrightarrow> d \<in> set delims \<Longrightarrow> pieces delims (a @ d # t) = a # pieces delims t"
  by (induction a) auto

lemma pieces_clean: "p \<in> set (pieces delims s) \<Longrightarrow> set p \<inter> set delims = {}"
proof (induction s arbitrary: p)
  case (Cons c s)
  obtain q qs where q: "pieces delims s = q # qs" using pieces_Nil neq_Nil_conv by metis
  show ?case using Cons.IH [of q] Cons.IH [of p] Cons.prems by (auto simp: q split: if_splits)
qed simp

text \<open>At most \<open>k\<close> pieces and the rest, but only if the piece after them is not empty.\<close>

definition limited :: "string \<Rightarrow> nat option \<Rightarrow> string \<Rightarrow> string list" where
  "limited delims k s =
     (let ps = pieces delims s in
      case k of
        None \<Rightarrow> ps
      | Some k \<Rightarrow>
          if k < length ps \<and> ps ! k \<noteq> []
          then take k ps @ [drop (sum_list (map (\<lambda>p. Suc (length p)) (take k ps))) s] else ps)"

lemma find_split:
  assumes "start \<le> length str"
  obtains (none) "str_find_first_of delims str start = None" "set (drop start str) \<inter> set delims = {}"
  | (some) a d t where "str_find_first_of delims str start = Some (start + length a)" "drop start str = a @ d # t"
      "set a \<inter> set delims = {}" "d \<in> set delims" "t = drop (start + length a + 1) str"
proof -
  define s where "s = drop start str"
  define a where "a = takeWhile (\<lambda>c. c \<notin> set delims) s"
  have clean: "set a \<inter> set delims = {}" by (auto simp: a_def dest: set_takeWhileD)
  have s: "s = a @ drop (length a) s" by (simp add: a_def flip: dropWhile_eq_drop)
  have len: "length s = length str - start" by (simp add: s_def)
  have F: "str_find_first_of delims str start = (if start + length a < length str then Some (start + length a) else None)"
    by (simp add: str_find_first_of_def s_def [symmetric] a_def [symmetric] Let_def)
  show thesis
  proof (cases "drop (length a) s")
    case Nil
    then have "s = a" using s by simp
    then have "length a = length str - start" using len by metis
    then show thesis using none clean F assms \<open>s = a\<close> unfolding s_def by simp
  next
    case (Cons d t)
    then have sd: "s = a @ d # t" using s by simp
    have "d \<in> set delims"
      using Cons hd_dropWhile [of "\<lambda>c. c \<notin> set delims" s] by (metis a_def dropWhile_eq_drop list.distinct(1) list.sel(1))
    moreover have "start + length a < length str" using arg_cong [OF sd, of length] len by simp
    moreover have "t = drop (start + length a + 1) str"
      using arg_cong [OF Cons, of "drop 1"] by (simp add: s_def add.commute add.left_commute)
    ultimately show thesis
      using some [of a d t] clean sd F unfolding s_def by simp
  qed
qed

lemma limited_None [simp]: "limited delims None s = pieces delims s"
  by (simp add: limited_def)

lemma limited_last: "set s \<inter> set delims = {} \<Longrightarrow> limited delims k s = [s]"
  by (auto simp: limited_def pieces_no_delim Let_def split: option.splits)

lemma limited_Suc:
  assumes "set a \<inter> set delims = {}" "d \<in> set delims"
  shows "limited delims (Some (Suc k)) (a @ d # t) = a # limited delims (Some k) t"
  by (simp add: limited_def pieces_append [OF assms] Let_def)

lemma limited_0:
  assumes "set a \<inter> set delims = {}" "d \<in> set delims"
  shows "limited delims (Some 0) (a @ d # t) = (if a = [] then [] # pieces delims t else [a @ d # t])"
  by (simp add: limited_def pieces_append [OF assms] Let_def)

text \<open>How many more pieces the counter allows.\<close>

definition allowance :: "u32 \<Rightarrow> u32 \<Rightarrow> nat option" where
  "allowance maxSplits n = (if unat n < unat maxSplits then Some (unat maxSplits - 1 - unat n) else None)"

lemma allowance_next:
  assumes "unat n + 1 < 2 ^ 32"
  shows "(m \<noteq> 0 \<and> n + 1 = m) = (allowance m n = Some 0)"
    and "allowance m n = Some (Suc k) \<Longrightarrow> allowance m (n + 1) = Some k"
    and "allowance m n = Some 0 \<or> allowance m n = None \<Longrightarrow> allowance m (n + 1) = None"
proof -
  have u: "unat (n + 1) = unat n + 1" using assms unat_add_lem [of n 1] by simp
  have "n + 1 = m \<longleftrightarrow> unat (n + 1) = unat m" by (simp add: word_unat_eq_iff)
  then show "(m \<noteq> 0 \<and> n + 1 = m) = (allowance m n = Some 0)"
    unfolding u using u by (auto simp: allowance_def word_unat_eq_iff split: if_splits)
  show "allowance m n = Some (Suc k) \<Longrightarrow> allowance m (n + 1) = Some k"
    "allowance m n = Some 0 \<or> allowance m n = None \<Longrightarrow> allowance m (n + 1) = None"
    by (auto simp: allowance_def u split: if_splits)
qed

lemma StringSplit_loop_eq:
  assumes "start \<le> length str" "unat n \<le> start" "length str < 2 ^ 32 - 1"
  shows "StringSplit_loop str delims m start n ret = ret @ limited delims (allowance m n) (drop start str)"
  using assms
proof (induction str delims m start n ret rule: StringSplit_loop.induct)
  case (1 str delims m start n ret)
  have n: "unat n + 1 < 2 ^ 32" using "1.prems" by simp
  then have n1: "unat (n + 1) = unat n + 1" using unat_add_lem [of n 1] by simp
  from "1.prems"(1) show ?case
  proof (cases rule: find_split [where delims = delims])
    case none
    then show ?thesis by (simp add: StringSplit_loop.simps limited_last)
  next
    case (some a d t)
    note IH = "1.IH" [OF some(1)] and all = allowance_next [OF n, of m]
    have range: "start + length a + 1 \<le> length str" using arg_cong [OF some(2), of length] "1.prems"(1) by simp
    have piece: "take (start + length a - start) (drop start str) = a" unfolding some(2) by simp
    show ?thesis
    proof (cases "allowance m n = Some 0 \<and> a \<noteq> []")
      case True
      then show ?thesis using some(1) all(1) limited_0 [OF some(3,4), of t] by (simp add: StringSplit_loop.simps [of str] some(2))
    next
      case False
      have "StringSplit_loop str delims m start n ret = StringSplit_loop str delims m (start + length a + 1) (n + 1) (ret @ [a])"
        using some(1) False all(1) piece by (simp add: StringSplit_loop.simps [of str _ _ start])
      also have "\<dots> = (ret @ [a]) @ limited delims (allowance m (n + 1)) t"
        using IH(1) IH(2) False all(1) piece range "1.prems" n1 unfolding some(5) by (cases "a = []") auto
      also have "\<dots> = ret @ limited delims (allowance m n) (a @ d # t)"
      proof (cases "allowance m n")
        case None
        then show ?thesis using all(3) by (simp add: pieces_append [OF some(3,4)])
      next
        case (Some k)
        then show ?thesis
          using all(2,3) False limited_0 [OF some(3,4)] limited_Suc [OF some(3,4)] by (cases k) auto
      qed
      finally show ?thesis by (simp add: some(2))
    qed
  qed
qed

text \<open>Joining with a delimiter.\<close>

fun join :: "char \<Rightarrow> string list \<Rightarrow> string" where
  "join d [] = []"
| "join d [p] = p"
| "join d (p # ps) = p @ d # join d ps"

lemma join_Cons: "ps \<noteq> [] \<Longrightarrow> join d (p # ps) = p @ d # join d ps"
  by (cases ps) simp_all

lemma join_pieces: "join d (pieces [d] s) = s"
proof (induction s)
  case (Cons c s)
  obtain q qs where q: "pieces [d] s = q # qs" using pieces_Nil neq_Nil_conv by metis
  show ?case using Cons q by (cases qs) auto
qed simp

lemma join_limited: "join d (limited [d] k s) = s"
proof (induction s arbitrary: k rule: length_induct)
  case (1 s)
  have "0 \<le> length s" by simp
  then show ?case
  proof (cases rule: find_split [where delims = "[d]"])
    case none
    then show ?thesis by (simp add: limited_last)
  next
    case (some a e t)
    then have s: "s = a @ d # t" and a: "set a \<inter> set [d] = {}" by simp_all
    have len: "length t < length s" by (simp add: s)
    have ne: "limited [d] k' t \<noteq> []" for k'
      using 1 len by (cases "t = []") (auto simp: limited_last, metis join.simps(1))
    show ?thesis
    proof (cases k)
      case None
      then show ?thesis by (simp add: join_pieces)
    next
      case (Some j)
      then show ?thesis
        using 1 len ne unfolding s
        by (cases j) (simp_all add: limited_0 [OF a] limited_Suc [OF a] join_Cons join_pieces)
    qed
  qed
qed

section \<open>Properties\<close>

text \<open>
  \<open>StringSplit\<close> appends the pieces of a string that is not empty between its delimiters, empty pieces
  included. With a limit \<open>m\<close> it appends the first \<open>m - 1\<close> pieces and the rest of the string uncut, provided
  that the \<open>m\<close>-th piece is not empty; if it is empty, the limit has no effect at all.
\<close>

theorem StringSplit_pieces:
  assumes "str \<noteq> []" and "length str < 2 ^ 32 - 1"
  shows "StringSplit str delims maxSplits ret =
    (let ps = pieces delims str; k = unat maxSplits - 1 in
     if maxSplits = 0 \<or> length ps \<le> k \<or> ps ! k = [] then ret @ ps
     else ret @ take k ps @ [drop (sum_list (map (\<lambda>p. Suc (length p)) (take k ps))) str])"
  using assms StringSplit_loop_eq [of 0 str 0 delims maxSplits ret]
  by (auto simp: StringSplit_def limited_def allowance_def Let_def unat_gt_0 split: option.splits)

theorem StringSplit_pieces_witness:
  "StringSplit ''a,b,c'' '','' 2 [] = [''a'', ''b,c''] \<and> StringSplit '',,b'' '','' 2 [] = [[], [], ''b'']"
  using StringSplit_pieces [of "''a,b,c''" "'',''" 2 "[]"] StringSplit_pieces [of "'',,b''" "'',''" 2 "[]"]
  by (simp add: Let_def)

text \<open>
  C0. Splitting at one delimiter loses nothing: joining the parts with it gives the string back, whatever
  the limit, and without a limit no part has a delimiter in it.
\<close>

theorem StringSplit_join:
  assumes "str \<noteq> []" and "length str < 2 ^ 32 - 1"
  shows "join d (StringSplit str [d] maxSplits []) = str \<and> list_all (\<lambda>p. d \<notin> set p) (StringSplit str [d] 0 [])"
  using assms StringSplit_loop_eq [of 0 str 0 "[d]" maxSplits "[]"] StringSplit_loop_eq [of 0 str 0 "[d]" 0 "[]"]
    join_limited [of d] pieces_clean [of _ "[d]" str]
  by (auto simp: StringSplit_def allowance_def list_all_iff)

theorem StringSplit_join_witness:
  "join CHR '','' (StringSplit ''a,b,,c'' '','' 2 []) = ''a,b,,c''"
  using StringSplit_join [of "''a,b,,c''" "CHR '',''" 2] by simp

end
