(* ===== verification/Bootstrap_Server.thy ===== *)
theory Bootstrap_Server
  imports Wangle_Prelude
begin

text \<open>
  \<open>bootstrap/ServerBootstrap.h\<close>, \<open>bootstrap/ServerBootstrap.cpp\<close>, the worker pool of
  \<open>bootstrap/ServerBootstrap-inl.h\<close> and \<open>bootstrap/ServerSocketFactory.h\<close>: the listening sockets of a server, its worker
  threads, and the acceptors that connect the two.
\<close>

section \<open>Socket factories\<close>

text \<open>
  Threads, acceptors and sockets are numbers; a worker thread's event base has the thread's number. A
  listening socket has its accept callbacks (the listeners of a UDP socket) with their event bases.
\<close>

type_synonym u16 = "16 word"
type_synonym accept_cb = "nat \<times> nat"

record listening =
  sock_tcp :: bool
  sock_port :: u16
  sock_reuse :: bool
  sock_cbs :: "accept_cb list"

text \<open>
  What folly's sockets and the system do: opening a socket for a port (the first argument counts the
  calls), adding a callback, and removing it, which throws when there is none. A null event base, the
  one the source gives to the latter, matches any.
\<close>

record folly_sockets =
  fs_open :: "nat \<Rightarrow> u16 \<Rightarrow> bool \<Rightarrow> cpp_exn + u16"
  fs_addAcceptCallback :: "accept_cb list \<Rightarrow> nat \<Rightarrow> nat \<Rightarrow> accept_cb list"
  fs_removeAcceptCallback :: "accept_cb list \<Rightarrow> nat \<Rightarrow> cpp_exn + accept_cb list"
  fs_addListener :: "accept_cb list \<Rightarrow> nat \<Rightarrow> nat \<Rightarrow> accept_cb list"

record ServerSocketFactory =
  newSocket :: "nat \<Rightarrow> u16 \<Rightarrow> bool \<Rightarrow> cpp_exn + listening"
  addAcceptCB :: "listening \<Rightarrow> nat \<Rightarrow> nat \<Rightarrow> cpp_exn + listening"
  removeAcceptCB :: "listening \<Rightarrow> nat \<Rightarrow> cpp_exn + listening"

definition AsyncServerSocketFactory_newSocket :: "folly_sockets \<Rightarrow> nat \<Rightarrow> u16 \<Rightarrow> bool \<Rightarrow> cpp_exn + listening" where
  "AsyncServerSocketFactory_newSocket F k port reuse =
     (case fs_open F k port reuse of
        Inl e \<Rightarrow> Inl e
      | Inr q \<Rightarrow> Inr \<lparr>sock_tcp = True, sock_port = q, sock_reuse = reuse, sock_cbs = []\<rparr>)"

definition AsyncServerSocketFactory_removeAcceptCB :: "folly_sockets \<Rightarrow> listening \<Rightarrow> nat \<Rightarrow> cpp_exn + listening" where
  "AsyncServerSocketFactory_removeAcceptCB F s callback =
     (if \<not> sock_tcp s then Inl CheckFailed
      else (case fs_removeAcceptCallback F (sock_cbs s) callback of
              Inl e \<Rightarrow> Inl e
            | Inr cbs \<Rightarrow> Inr (s\<lparr>sock_cbs := cbs\<rparr>)))"

definition AsyncServerSocketFactory_addAcceptCB :: "folly_sockets \<Rightarrow> listening \<Rightarrow> nat \<Rightarrow> nat \<Rightarrow> cpp_exn + listening" where
  "AsyncServerSocketFactory_addAcceptCB F s callback base =
     (if \<not> sock_tcp s then Inl CheckFailed
      else Inr (s\<lparr>sock_cbs := fs_addAcceptCallback F (sock_cbs s) callback base\<rparr>))"

definition AsyncServerSocketFactory :: "folly_sockets \<Rightarrow> ServerSocketFactory" where
  "AsyncServerSocketFactory F =
     \<lparr>newSocket = AsyncServerSocketFactory_newSocket F, addAcceptCB = AsyncServerSocketFactory_addAcceptCB F,
      removeAcceptCB = AsyncServerSocketFactory_removeAcceptCB F\<rparr>"

definition AsyncUDPServerSocketFactory_newSocket :: "folly_sockets \<Rightarrow> nat \<Rightarrow> u16 \<Rightarrow> bool \<Rightarrow> cpp_exn + listening" where
  "AsyncUDPServerSocketFactory_newSocket F k port reuse =
     (case fs_open F k port reuse of
        Inl e \<Rightarrow> Inl e
      | Inr q \<Rightarrow> Inr \<lparr>sock_tcp = False, sock_port = q, sock_reuse = reuse, sock_cbs = []\<rparr>)"

definition AsyncUDPServerSocketFactory_removeAcceptCB :: "listening \<Rightarrow> nat \<Rightarrow> cpp_exn + listening" where
  "AsyncUDPServerSocketFactory_removeAcceptCB s callback = Inr s"

definition AsyncUDPServerSocketFactory_addAcceptCB :: "folly_sockets \<Rightarrow> listening \<Rightarrow> nat \<Rightarrow> nat \<Rightarrow> cpp_exn + listening" where
  "AsyncUDPServerSocketFactory_addAcceptCB F s callback base =
     (if sock_tcp s then Inl Undefined
      else Inr (s\<lparr>sock_cbs := fs_addListener F (sock_cbs s) callback base\<rparr>))"

definition AsyncUDPServerSocketFactory :: "folly_sockets \<Rightarrow> ServerSocketFactory" where
  "AsyncUDPServerSocketFactory F =
     \<lparr>newSocket = AsyncUDPServerSocketFactory_newSocket F, addAcceptCB = AsyncUDPServerSocketFactory_addAcceptCB F,
      removeAcceptCB = AsyncUDPServerSocketFactory_removeAcceptCB\<rparr>"

section \<open>The state\<close>

text \<open>A pool observes the threads of one executor; \<open>workers\<close> is an ordered map from threads to acceptors.\<close>

record ServerWorkerPool =
  pool_exec :: nat
  workers :: "(nat \<times> nat) list"

text \<open>
  \<open>acceptor_group\<close> is the number of its threads, \<open>io_group\<close> an executor, \<open>workerFactory\<close> the number of a
  pool; \<open>posts\<close> counts the posts of \<open>stopBaton_\<close>.
\<close>

record ServerBootstrap =
  acceptorFactory :: bool
  childPipelineFactory :: bool
  acceptor_group :: "nat option"
  io_group :: "nat option"
  workerFactory :: "nat option"
  sockets :: "nat list"
  reusePort :: bool
  stopped :: bool
  posts :: nat

text \<open>
  The world: the bootstrap, all pools made by \<open>group\<close> (the executors keep them as observers), the
  running threads of each executor, the listening sockets and the acceptors that are alive.
\<close>

record server_world =
  boot :: ServerBootstrap
  pools :: "ServerWorkerPool list"
  threads :: "nat \<Rightarrow> nat list"
  listener :: "nat \<Rightarrow> listening option"
  acceptors :: "nat list"
  next_exec :: nat
  next_thread :: nat
  next_acceptor :: nat
  next_socket :: nat

type_synonym server_result = "cpp_exn option \<times> server_world"

definition ServerBootstrap_new :: server_world where
  "ServerBootstrap_new =
     \<lparr>boot = \<lparr>acceptorFactory = False, childPipelineFactory = False, acceptor_group = None, io_group = None,
        workerFactory = None, sockets = [], reusePort = False, stopped = False, posts = 0\<rparr>,
      pools = [], threads = (\<lambda>_. []), listener = (\<lambda>_. None), acceptors = [], next_exec = 0, next_thread = 0,
      next_acceptor = 0, next_socket = 0\<rparr>"

definition childHandler :: "bool \<Rightarrow> server_world \<Rightarrow> server_world" where
  "childHandler h w = w\<lparr>boot := (boot w)\<lparr>acceptorFactory := h\<rparr>\<rparr>"

definition childPipeline :: "bool \<Rightarrow> server_world \<Rightarrow> server_world" where
  "childPipeline factory w = w\<lparr>boot := (boot w)\<lparr>childPipelineFactory := factory\<rparr>\<rparr>"

definition setReusePort :: "bool \<Rightarrow> server_world \<Rightarrow> server_world" where
  "setReusePort r w = w\<lparr>boot := (boot w)\<lparr>reusePort := r\<rparr>\<rparr>"

section \<open>The worker pool\<close>

definition worker_insert :: "nat \<Rightarrow> nat \<Rightarrow> (nat \<times> nat) list \<Rightarrow> (nat \<times> nat) list" where
  "worker_insert h a ws = (if h \<in> fst ` set ws then ws else insort_key fst (h, a) ws)"

definition worker_erase :: "nat \<Rightarrow> (nat \<times> nat) list \<Rightarrow> (nat \<times> nat) list" where
  "worker_erase h ws = filter (\<lambda>kv. fst kv \<noteq> h) ws"

definition pool_update :: "nat \<Rightarrow> ((nat \<times> nat) list \<Rightarrow> (nat \<times> nat) list) \<Rightarrow> server_world \<Rightarrow> server_world" where
  "pool_update p f w = w\<lparr>pools := (pools w)[p := (pools w ! p)\<lparr>workers := f (workers (pools w ! p))\<rparr>]\<rparr>"

text \<open>The loops over the sockets; an exception leaves the sockets that are left alone.\<close>

fun update_sockets :: "(listening \<Rightarrow> cpp_exn + listening) \<Rightarrow> nat list \<Rightarrow> server_world \<Rightarrow> server_result" where
  "update_sockets f [] w = (None, w)"
| "update_sockets f (s # ss) w =
     (case listener w s of
        None \<Rightarrow> (Some Undefined, w)
      | Some l \<Rightarrow>
          (case f l of
             Inl e \<Rightarrow> (Some e, w)
           | Inr l' \<Rightarrow> update_sockets f ss (w\<lparr>listener := (listener w)(s \<mapsto> l')\<rparr>)))"

text \<open>
  \<open>newAcceptor\<close> is the user's: \<open>nf h\<close> is the exception it throws for a thread, if any. When the map has
  the thread already, the new acceptor is not inserted and dies at the end of the call.
\<close>

definition threadStarted ::
  "ServerSocketFactory \<Rightarrow> (nat \<Rightarrow> cpp_exn option) \<Rightarrow> nat \<Rightarrow> nat \<Rightarrow> server_world \<Rightarrow> server_result" where
  "threadStarted SF nf p h w =
     (case nf h of
        Some e \<Rightarrow> (Some e, w)
      | None \<Rightarrow>
          (let a = next_acceptor w; fresh = h \<notin> fst ` set (workers (pools w ! p));
               w1 = pool_update p (worker_insert h a)
                      (w\<lparr>next_acceptor := a + 1, acceptors := (if fresh then acceptors w @ [a] else acceptors w)\<rparr>) in
           update_sockets (\<lambda>l. addAcceptCB SF l a h) (sockets (boot w1)) w1))"

definition threadStopped :: "ServerSocketFactory \<Rightarrow> nat \<Rightarrow> nat \<Rightarrow> server_world \<Rightarrow> server_result" where
  "threadStopped SF p h w =
     (case map_of (workers (pools w ! p)) h of
        None \<Rightarrow> (None, w)
      | Some a \<Rightarrow>
          (case update_sockets (\<lambda>l. removeAcceptCB SF l a) (sockets (boot w)) (pool_update p (worker_erase h) w) of
             (e, w1) \<Rightarrow> (e, w1\<lparr>acceptors := remove1 a (acceptors w1)\<rparr>)))"

text \<open>
  folly's executor tells each observer of a thread that starts or stops, in the order in which the
  observers were added, and stops at an exception.
\<close>

definition observers :: "nat \<Rightarrow> server_world \<Rightarrow> nat list" where
  "observers e w = filter (\<lambda>p. pool_exec (pools w ! p) = e) [0..<length (pools w)]"

fun each_of :: "('i \<Rightarrow> server_world \<Rightarrow> server_result) \<Rightarrow> 'i list \<Rightarrow> server_world \<Rightarrow> server_result" where
  "each_of f [] w = (None, w)"
| "each_of f (i # is) w =
     (case f i w of (Some e, w1) \<Rightarrow> (Some e, w1) | (None, w1) \<Rightarrow> each_of f is w1)"

definition executor_start ::
  "ServerSocketFactory \<Rightarrow> (nat \<Rightarrow> cpp_exn option) \<Rightarrow> nat \<Rightarrow> server_world \<Rightarrow> server_result" where
  "executor_start SF nf e w =
     (let h = next_thread w;
          w1 = w\<lparr>next_thread := h + 1, threads := (threads w)(e := threads w e @ [h])\<rparr> in
      each_of (\<lambda>p. threadStarted SF nf p h) (observers e w1) w1)"

definition executor_stop :: "ServerSocketFactory \<Rightarrow> nat \<Rightarrow> nat \<Rightarrow> server_world \<Rightarrow> server_result" where
  "executor_stop SF e h w =
     (let w1 = w\<lparr>threads := (threads w)(e := remove1 h (threads w e))\<rparr> in
      each_of (\<lambda>p. threadStopped SF p h) (observers e w1) w1)"

section \<open>The bootstrap\<close>

definition new_executor :: "nat \<Rightarrow> server_world \<Rightarrow> nat \<times> server_world" where
  "new_executor n w =
     (next_exec w,
      w\<lparr>next_exec := next_exec w + 1, next_thread := next_thread w + n,
        threads := (threads w)(next_exec w := [next_thread w..<next_thread w + n])\<rparr>)"

text \<open>
  \<open>hw\<close> is \<open>hardware_concurrency\<close>. \<open>addObserver\<close> reports the threads that run already, each by
  \<open>threadStarted\<close>; when that throws, the executors are not kept.
\<close>

definition ServerBootstrap_group ::
  "ServerSocketFactory \<Rightarrow> (nat \<Rightarrow> cpp_exn option) \<Rightarrow> nat \<Rightarrow> nat option \<Rightarrow> nat option \<Rightarrow> server_world \<Rightarrow> server_result" where
  "ServerBootstrap_group SF nf hw accept io w =
     (let n = (case accept of None \<Rightarrow> 1 | Some n \<Rightarrow> n);
          (e, w1) = (case io of None \<Rightarrow> new_executor (if hw \<le> 0 then 8 else hw) w | Some e \<Rightarrow> (e, w)) in
      if acceptorFactory (boot w1) \<and> childPipelineFactory (boot w1) then (Some CheckFailed, w1)
      else
        (let p = length (pools w1);
             w2 = w1\<lparr>pools := pools w1 @ [\<lparr>pool_exec = e, workers = []\<rparr>],
                     boot := (boot w1)\<lparr>workerFactory := Some p\<rparr>\<rparr> in
         (case each_of (threadStarted SF nf p) (threads w2 e) w2 of
            (Some x, w3) \<Rightarrow> (Some x, w3)
          | (None, w3) \<Rightarrow> (None, w3\<lparr>boot := (boot w3)\<lparr>acceptor_group := Some n, io_group := Some e\<rparr>\<rparr>))))"

definition ensure_group :: "ServerSocketFactory \<Rightarrow> (nat \<Rightarrow> cpp_exn option) \<Rightarrow> nat \<Rightarrow> server_world \<Rightarrow> server_result" where
  "ensure_group SF nf hw w =
     (if workerFactory (boot w) = None then ServerBootstrap_group SF nf hw None None w else (None, w))"

text \<open>\<open>forEachWorker\<close> goes through the map in the order of its keys.\<close>

definition forEachWorker :: "(nat \<Rightarrow> server_world \<Rightarrow> server_result) \<Rightarrow> server_world \<Rightarrow> server_result" where
  "forEachWorker f w =
     (case workerFactory (boot w) of
        None \<Rightarrow> (None, w)
      | Some p \<Rightarrow> each_of f (map snd (workers (pools w ! p))) w)"

text \<open>The event base of an acceptor is that of its thread.\<close>

definition acceptor_evb :: "nat \<Rightarrow> server_world \<Rightarrow> nat" where
  "acceptor_evb a w =
     (case workerFactory (boot w) of
        None \<Rightarrow> 0
      | Some p \<Rightarrow> (case map_of (map (\<lambda>(h, a). (a, h)) (workers (pools w ! p))) a of Some h \<Rightarrow> h | None \<Rightarrow> 0))"

text \<open>A new socket gets the callbacks of the workers and is then kept.\<close>

definition start_socket :: "ServerSocketFactory \<Rightarrow> nat \<Rightarrow> server_world \<Rightarrow> server_result" where
  "start_socket SF s w =
     (case forEachWorker (\<lambda>a v. update_sockets (\<lambda>l. addAcceptCB SF l a (acceptor_evb a v)) [s] v) w of
        (Some e, w1) \<Rightarrow> (Some e, w1)
      | (None, w1) \<Rightarrow> (None, w1\<lparr>boot := (boot w1)\<lparr>sockets := sockets (boot w1) @ [s]\<rparr>\<rparr>))"

text \<open>\<open>bind\<close> of an existing socket, which listens on \<open>port\<close>.\<close>

definition bind_socket ::
  "ServerSocketFactory \<Rightarrow> (nat \<Rightarrow> cpp_exn option) \<Rightarrow> nat \<Rightarrow> u16 \<Rightarrow> server_world \<Rightarrow> server_result" where
  "bind_socket SF nf hw port w =
     (case ensure_group SF nf hw w of
        (Some e, w1) \<Rightarrow> (Some e, w1)
      | (None, w1) \<Rightarrow>
          (case acceptor_group (boot w1) of
             None \<Rightarrow> (Some Undefined, w1)
           | Some n \<Rightarrow>
               if n \<noteq> 1 then (Some CheckFailed, w1)
               else
                 (let s = next_socket w1;
                      l = \<lparr>sock_tcp = True, sock_port = port, sock_reuse = False, sock_cbs = []\<rparr> in
                  start_socket SF s (w1\<lparr>next_socket := s + 1, listener := (listener w1)(s \<mapsto> l)\<rparr>))))"

text \<open>
  The tasks of \<open>bindImpl\<close>, one for each thread of the acceptor group, one after the other: each opens a
  socket on the address, which then is that of the socket. An exception is kept and the other tasks run.
\<close>

fun startupFuncs :: "ServerSocketFactory \<Rightarrow> bool \<Rightarrow> nat \<Rightarrow> u16 \<Rightarrow> cpp_exn option \<Rightarrow> nat list \<Rightarrow> server_world
    \<Rightarrow> cpp_exn option \<times> nat list \<times> server_world" where
  "startupFuncs SF reuse 0 port exn new w = (exn, new, w)"
| "startupFuncs SF reuse (Suc n) port exn new w =
     (let s = next_socket w; w1 = w\<lparr>next_socket := s + 1\<rparr> in
      case newSocket SF s port reuse of
        Inl e \<Rightarrow> startupFuncs SF reuse n port (Some e) new w1
      | Inr l \<Rightarrow> startupFuncs SF reuse n (sock_port l) exn (new @ [s]) (w1\<lparr>listener := (listener w1)(s \<mapsto> l)\<rparr>))"

text \<open>Sockets that nothing refers to any more are destroyed.\<close>

definition close_sockets :: "nat list \<Rightarrow> server_world \<Rightarrow> server_world" where
  "close_sockets ss w = w\<lparr>listener := (\<lambda>s. if s \<in> set ss then None else listener w s)\<rparr>"

text \<open>The result \<open>None\<close>: without an acceptor thread the first task never runs and \<open>bindImpl\<close> waits for ever.\<close>

definition bindImpl ::
  "ServerSocketFactory \<Rightarrow> (nat \<Rightarrow> cpp_exn option) \<Rightarrow> nat \<Rightarrow> u16 \<Rightarrow> server_world \<Rightarrow> server_result option" where
  "bindImpl SF nf hw port w =
     (case ensure_group SF nf hw w of
        (Some e, w1) \<Rightarrow> Some (Some e, w1)
      | (None, w1) \<Rightarrow>
          (case acceptor_group (boot w1) of
             None \<Rightarrow> Some (Some Undefined, w1)
           | Some n \<Rightarrow>
               if n = 0 then None
               else
                 (case startupFuncs SF (reusePort (boot w1) \<or> n > 1) n port None [] w1 of
                    (Some e, new, w2) \<Rightarrow> Some (Some e, close_sockets new w2)
                  | (None, new, w2) \<Rightarrow>
                      (case each_of (start_socket SF) new w2 of
                         (Some e, w3) \<Rightarrow>
                           Some (Some e, close_sockets (filter (\<lambda>s. s \<notin> set (sockets (boot w3))) new) w3)
                       | (None, w3) \<Rightarrow> Some (None, w3)))))"

text \<open>\<open>bind\<close> of a port, an \<open>int\<close> that becomes 16 bits wide.\<close>

definition bind_port ::
  "ServerSocketFactory \<Rightarrow> (nat \<Rightarrow> cpp_exn option) \<Rightarrow> nat \<Rightarrow> int \<Rightarrow> server_world \<Rightarrow> server_result option" where
  "bind_port SF nf hw port w =
     (if port < 0 then Some (Some CheckFailed, w) else bindImpl SF nf hw (word_of_int port) w)"

definition ServerBootstrap_stop :: "server_world \<Rightarrow> server_world" where
  "ServerBootstrap_stop w =
     (let w1 = close_sockets (sockets (boot w)) (w\<lparr>boot := (boot w)\<lparr>sockets := []\<rparr>\<rparr>) in
      if \<not> stopped (boot w1) then w1\<lparr>boot := (boot w1)\<lparr>stopped := True, posts := posts (boot w1) + 1\<rparr>\<rparr>
      else w1)"

definition ServerBootstrap_join :: "ServerSocketFactory \<Rightarrow> server_world \<Rightarrow> server_result" where
  "ServerBootstrap_join SF w =
     (case io_group (boot w) of
        None \<Rightarrow> (None, w)
      | Some e \<Rightarrow> each_of (executor_stop SF e) (threads w e) w)"

definition ServerBootstrap_destroy :: "ServerSocketFactory \<Rightarrow> server_world \<Rightarrow> server_result" where
  "ServerBootstrap_destroy SF w = ServerBootstrap_join SF (ServerBootstrap_stop w)"

text \<open>Whether \<open>waitForStop\<close> returns.\<close>

definition waitForStop :: "server_world \<Rightarrow> bool" where
  "waitForStop w \<longleftrightarrow> stopped (boot w) \<or> posts (boot w) > 0"

end
