(* ===== verification/Bootstrap_Server_Props.thy ===== *)
theory Bootstrap_Server_Props
  imports Bootstrap_Server
begin

text \<open>
  What a server's sockets, threads and acceptors keep to: each listening socket has the acceptors of
  the running workers as its callbacks, and no others.
\<close>

section \<open>What the factories promise\<close>

locale folly_server_sockets =
  fixes F :: folly_sockets
  assumes add_callback: "a \<notin> fst ` set cbs \<Longrightarrow> distinct (map fst cbs) \<Longrightarrow>
      distinct (map fst (fs_addAcceptCallback F cbs a b)) \<and> set (fs_addAcceptCallback F cbs a b) = insert (a, b) (set cbs)"
    and remove_callback: "(a, b) \<in> set cbs \<Longrightarrow> distinct (map fst cbs) \<Longrightarrow>
      \<exists>cbs'. fs_removeAcceptCallback F cbs a = Inr cbs' \<and> distinct (map fst cbs') \<and> set cbs' = set cbs - {(a, b)}"
    and remove_missing: "a \<notin> fst ` set cbs \<Longrightarrow> \<exists>e. fs_removeAcceptCallback F cbs a = Inl e"

text \<open>\<open>calls R l\<close>: the TCP socket has the callbacks \<open>R\<close>, none twice.\<close>

definition calls :: "accept_cb set \<Rightarrow> listening \<Rightarrow> bool" where
  "calls R l \<longleftrightarrow> sock_tcp l \<and> distinct (map fst (sock_cbs l)) \<and> set (sock_cbs l) = R"

definition same_socket :: "listening \<Rightarrow> listening \<Rightarrow> bool" where
  "same_socket l l' \<longleftrightarrow> sock_port l' = sock_port l \<and> sock_reuse l' = sock_reuse l"

locale socket_factory =
  fixes SF :: ServerSocketFactory
  assumes add: "calls R l \<Longrightarrow> a \<notin> fst ` R \<Longrightarrow>
      \<exists>l'. addAcceptCB SF l a b = Inr l' \<and> calls (insert (a, b) R) l' \<and> same_socket l l'"
    and remove: "calls R l \<Longrightarrow> (a, b) \<in> R \<Longrightarrow>
      \<exists>l'. removeAcceptCB SF l a = Inr l' \<and> calls (R - {(a, b)}) l' \<and> same_socket l l'"
    and new: "newSocket SF k p r = Inr l \<Longrightarrow> calls {} l \<and> sock_reuse l = r"

sublocale folly_server_sockets \<subseteq> socket_factory "AsyncServerSocketFactory F"
proof unfold_locales
  fix R l a b
  assume "calls R l" "a \<notin> fst ` R"
  then show "\<exists>l'. addAcceptCB (AsyncServerSocketFactory F) l a b = Inr l' \<and> calls (insert (a, b) R) l' \<and> same_socket l l'"
    using add_callback [of a "sock_cbs l" b]
    by (auto simp: AsyncServerSocketFactory_def AsyncServerSocketFactory_addAcceptCB_def calls_def same_socket_def)
next
  fix R l a b
  assume c: "calls R l" "(a, b) \<in> R"
  then obtain cbs' where "fs_removeAcceptCallback F (sock_cbs l) a = Inr cbs'" "distinct (map fst cbs')" "set cbs' = R - {(a, b)}"
    using remove_callback [of a b "sock_cbs l"] by (auto simp: calls_def)
  with c show "\<exists>l'. removeAcceptCB (AsyncServerSocketFactory F) l a = Inr l' \<and> calls (R - {(a, b)}) l' \<and> same_socket l l'"
    by (auto simp: AsyncServerSocketFactory_def AsyncServerSocketFactory_removeAcceptCB_def calls_def same_socket_def)
next
  fix k p r l
  assume "newSocket (AsyncServerSocketFactory F) k p r = Inr l"
  then show "calls {} l \<and> sock_reuse l = r"
    by (auto simp: AsyncServerSocketFactory_def AsyncServerSocketFactory_newSocket_def calls_def split: sum.splits)
qed

context folly_server_sockets
begin

lemma tcp_factory: "socket_factory (AsyncServerSocketFactory F)" ..

end

text \<open>Sockets that keep their callbacks in a list; port 0 opens port 5000.\<close>

definition list_sockets :: folly_sockets where
  "list_sockets =
     \<lparr>fs_open = (\<lambda>k port reuse. if port = 1 then Inl (RuntimeError ''bind'') else if port = 0 then Inr 5000 else Inr port),
      fs_addAcceptCallback = (\<lambda>cbs a b. cbs @ [(a, b)]),
      fs_removeAcceptCallback = (\<lambda>cbs a. if a \<in> fst ` set cbs then Inr (filter (\<lambda>c. fst c \<noteq> a) cbs)
                                         else Inl (RuntimeError ''accept callback not found'')),
      fs_addListener = (\<lambda>cbs a b. cbs @ [(a, b)])\<rparr>"

lemma distinct_fst_filter:
  assumes "distinct (map fst cbs)" "(a, b) \<in> set cbs"
  shows "set (filter (\<lambda>c. fst c \<noteq> a) cbs) = set cbs - {(a, b)}"
proof -
  have u: "c = (a, b)" if "c \<in> set cbs" "fst c = a" for c
  proof -
    from that(2) obtain b' where c: "c = (a, b')" by (cases c) simp
    with that(1) have "(a, b') \<in> set cbs" by simp
    from eq_key_imp_eq_value [OF assms(1) this assms(2)] c show ?thesis by simp
  qed
  have "c \<in> set (filter (\<lambda>c. fst c \<noteq> a) cbs) \<longleftrightarrow> c \<in> set cbs - {(a, b)}" for c
    using u [of c] by (cases c) auto
  then show ?thesis by blast
qed

lemma distinct_fst_sub: "distinct (map fst cbs) \<Longrightarrow> distinct (map fst (filter P cbs))"
  by (induction cbs) auto

interpretation list_sockets: folly_server_sockets list_sockets
proof unfold_locales
  fix a b :: nat and cbs :: "accept_cb list"
  assume "(a, b) \<in> set cbs" "distinct (map fst cbs)"
  then show "\<exists>cbs'. fs_removeAcceptCallback list_sockets cbs a = Inr cbs' \<and> distinct (map fst cbs') \<and> set cbs' = set cbs - {(a, b)}"
    by (intro exI [of _ "filter (\<lambda>c. fst c \<noteq> a) cbs"])
      (simp add: list_sockets_def distinct_fst_filter [of cbs a b, unfolded set_filter] distinct_fst_sub image_iff bexI [of _ "(a, b)"])
qed (auto simp: list_sockets_def)

section \<open>The loops over the sockets\<close>

definition served :: "accept_cb set \<Rightarrow> (nat \<Rightarrow> listening option) \<Rightarrow> nat \<Rightarrow> bool" where
  "served R L s \<longleftrightarrow> (\<exists>l. L s = Some l \<and> calls R l)"

text \<open>\<open>only_sockets ss L L'\<close>: the sockets \<open>ss\<close> changed at most in their callbacks, the others not at all.\<close>

definition only_sockets :: "nat list \<Rightarrow> (nat \<Rightarrow> listening option) \<Rightarrow> (nat \<Rightarrow> listening option) \<Rightarrow> bool" where
  "only_sockets ss L L' \<longleftrightarrow> (\<forall>s. s \<notin> set ss \<longrightarrow> L' s = L s) \<and>
     (\<forall>s l. L s = Some l \<longrightarrow> (\<exists>l'. L' s = Some l' \<and> same_socket l l'))"

lemma same_socket_refl [simp]: "same_socket l l"
  by (simp add: same_socket_def)

lemma only_sockets_refl [simp]: "only_sockets ss L L"
  by (simp add: only_sockets_def)

lemma only_socketsD: "only_sockets ss L L' \<Longrightarrow> L s = Some l \<Longrightarrow> \<exists>l'. L' s = Some l' \<and> same_socket l l'"
  unfolding only_sockets_def by blast

lemma same_socket_trans: "same_socket l1 l2 \<Longrightarrow> same_socket l2 l3 \<Longrightarrow> same_socket l1 l3"
  by (simp add: same_socket_def)

lemma only_sockets_step:
  assumes "L s = Some l" "same_socket l l'" "only_sockets ss (L(s \<mapsto> l')) L'"
  shows "only_sockets (s # ss) L L'"
proof -
  have "\<exists>l2. L' t = Some l2 \<and> same_socket l1 l2" if t: "L t = Some l1" for t l1
  proof (cases "t = s")
    case True
    with assms(1) t have "l1 = l" by simp
    moreover from only_socketsD [OF assms(3), of s l'] obtain l2 where "L' s = Some l2" "same_socket l' l2" by auto
    ultimately show ?thesis using True assms(2) same_socket_trans by blast
  next
    case False
    then have "(L(s \<mapsto> l')) t = Some l1" using t by simp
    with only_socketsD [OF assms(3)] show ?thesis by blast
  qed
  moreover have "L' t = L t" if "t \<notin> set (s # ss)" for t
    using assms(3) that by (simp add: only_sockets_def)
  ultimately show ?thesis by (simp add: only_sockets_def)
qed

lemma update_sockets_ok:
  assumes f: "\<And>l. calls R l \<Longrightarrow> \<exists>l'. f l = Inr l' \<and> calls R' l' \<and> same_socket l l'"
  shows "distinct ss \<Longrightarrow> \<forall>s\<in>set ss. served R (listener w) s \<Longrightarrow>
    \<exists>L. update_sockets f ss w = (None, w\<lparr>listener := L\<rparr>) \<and> (\<forall>s\<in>set ss. served R' L s) \<and> only_sockets ss (listener w) L"
proof (induction ss arbitrary: w)
  case Nil
  show ?case by (auto intro: exI [of _ "listener w"])
next
  case (Cons s ss)
  then obtain l where l: "listener w s = Some l" "calls R l" by (auto simp: served_def)
  from f [OF l(2)] obtain l' where l': "f l = Inr l'" "calls R' l'" "same_socket l l'" by blast
  let ?w = "w\<lparr>listener := (listener w)(s \<mapsto> l')\<rparr>"
  have d: "distinct ss" "s \<notin> set ss" using Cons.prems(1) by auto
  have "\<forall>t\<in>set ss. served R (listener ?w) t" using Cons.prems(2) d(2) by (auto simp: served_def)
  from Cons.IH [OF d(1) this] obtain L where
    L: "update_sockets f ss ?w = (None, ?w\<lparr>listener := L\<rparr>)" "\<forall>t\<in>set ss. served R' L t"
      "only_sockets ss (listener ?w) L" by blast
  have "L s = Some l'" using L(3) d(2) by (simp add: only_sockets_def)
  then have "served R' L s" using l'(2) by (simp add: served_def)
  moreover have "only_sockets (s # ss) (listener w) L"
    by (rule only_sockets_step [where L = "listener w", OF l(1) l'(3)]) (use L(3) in simp)
  moreover have "update_sockets f (s # ss) w = (None, w\<lparr>listener := L\<rparr>)" using L(1) l(1) l'(1) by simp
  ultimately show ?case using L(2) by (intro exI [of _ L]) simp
qed

section \<open>The invariant\<close>

text \<open>The pool, once there is one, and the callbacks its workers need.\<close>

definition pool_workers :: "server_world \<Rightarrow> (nat \<times> nat) list" where
  "pool_workers w = (case pools w of [] \<Rightarrow> [] | p # _ \<Rightarrow> workers p)"

definition swap_pair :: "'a \<times> 'b \<Rightarrow> 'b \<times> 'a" where
  "swap_pair kv = (snd kv, fst kv)"

definition registered :: "server_world \<Rightarrow> accept_cb set" where
  "registered w = swap_pair ` set (pool_workers w)"

definition threads_ok :: "server_world \<Rightarrow> bool" where
  "threads_ok w \<longleftrightarrow> (\<forall>e. distinct (threads w e) \<and> (\<forall>h\<in>set (threads w e). h < next_thread w))"

text \<open>\<open>group\<close> was called at most once; \<open>T\<close> are the threads the workers may have.\<close>

definition one_pool :: "server_world \<Rightarrow> bool" where
  "one_pool w \<longleftrightarrow> (if pools w = [] then workerFactory (boot w) = None \<and> sockets (boot w) = [] \<and> io_group (boot w) = None
     else length (pools w) = 1 \<and> workerFactory (boot w) = Some 0 \<and>
       io_group (boot w) \<in> {None, Some (pool_exec (pools w ! 0))})"

definition workers_ok :: "nat set \<Rightarrow> server_world \<Rightarrow> bool" where
  "workers_ok T w \<longleftrightarrow> distinct (map fst (pool_workers w)) \<and> distinct (map snd (pool_workers w)) \<and>
     fst ` set (pool_workers w) \<subseteq> T \<and> distinct (acceptors w) \<and> set (acceptors w) = snd ` set (pool_workers w) \<and>
     (\<forall>a\<in>set (acceptors w). a < next_acceptor w)"

definition sockets_ok :: "server_world \<Rightarrow> bool" where
  "sockets_ok w \<longleftrightarrow> distinct (sockets (boot w)) \<and> (\<forall>s\<in>set (sockets (boot w)). served (registered w) (listener w) s \<and> s < next_socket w) \<and>
     (\<forall>s. s \<notin> set (sockets (boot w)) \<longrightarrow> listener w s = None)"

definition pool_threads :: "server_world \<Rightarrow> nat set" where
  "pool_threads w = (case pools w of [] \<Rightarrow> {} | p # _ \<Rightarrow> set (threads w (pool_exec p)))"

definition server_inv :: "server_world \<Rightarrow> bool" where
  "server_inv w \<longleftrightarrow> threads_ok w \<and> one_pool w \<and> workers_ok (pool_threads w) w \<and> sockets_ok w"

lemma fst_swap_pair [simp]: "fst (swap_pair kv) = snd kv" "snd (swap_pair kv) = fst kv"
  by (simp_all add: swap_pair_def)

lemma inj_swap_pair: "inj swap_pair"
  by (auto simp: inj_on_def swap_pair_def)

lemma inj_on_image_remove: "inj_on f A \<Longrightarrow> x \<in> A \<Longrightarrow> f ` (A - {x}) = f ` A - {f x}"
  by (rule trans [OF inj_on_image_set_diff [of f A A "{x}"]]) auto

lemma fst_registered: "fst ` registered w = snd ` set (pool_workers w)"
  by (simp add: registered_def image_image)

lemma set_worker_insert: "h \<notin> fst ` set ws \<Longrightarrow> set (worker_insert h a ws) = insert (h, a) (set ws)"
  by (simp add: worker_insert_def set_insort_key)

lemma distinct_insort_fst: "distinct (map fst (insort_key fst (h, a) ws)) \<longleftrightarrow> h \<notin> fst ` set ws \<and> distinct (map fst ws)"
  by (induction ws) (auto simp: set_insort_key)

lemma distinct_insort_snd: "distinct (map snd (insort_key fst (h, a) ws)) \<longleftrightarrow> a \<notin> snd ` set ws \<and> distinct (map snd ws)"
  by (induction ws) (auto simp: set_insort_key)

lemma pool_workers_update:
  "length (pools w) = 1 \<Longrightarrow> pool_workers (pool_update 0 f w) = f (pool_workers w)"
  "length (pools w) = 1 \<Longrightarrow> workers (pools w ! 0) = pool_workers w"
  "length (pools w) = 1 \<Longrightarrow> pool_threads (pool_update 0 f w) = pool_threads w"
  by (cases "pools w"; simp add: pool_workers_def pool_update_def pool_threads_def)+

lemma pool_update_sel [simp]:
  "boot (pool_update p f w) = boot w" "threads (pool_update p f w) = threads w" "listener (pool_update p f w) = listener w"
  "acceptors (pool_update p f w) = acceptors w" "next_acceptor (pool_update p f w) = next_acceptor w"
  "next_thread (pool_update p f w) = next_thread w" "next_socket (pool_update p f w) = next_socket w"
  "next_exec (pool_update p f w) = next_exec w" "length (pools (pool_update p f w)) = length (pools w)"
  by (simp_all add: pool_update_def)

lemma pool_exec_update [simp]: "p < length (pools w) \<Longrightarrow> pool_exec (pools (pool_update p f w) ! q) = pool_exec (pools w ! q)"
  by (cases "p = q") (simp_all add: pool_update_def)

text \<open>Changing other parts of the state does not change the pool.\<close>

lemma pool_frame [simp]:
  "pool_workers (w\<lparr>listener := L\<rparr>) = pool_workers w" "pool_workers (w\<lparr>acceptors := A\<rparr>) = pool_workers w"
  "pool_workers (w\<lparr>next_acceptor := n\<rparr>) = pool_workers w" "pool_workers (w\<lparr>threads := T\<rparr>) = pool_workers w"
  "pool_workers (w\<lparr>next_thread := n\<rparr>) = pool_workers w" "pool_workers (w\<lparr>boot := B\<rparr>) = pool_workers w"
  "pool_workers (w\<lparr>next_socket := n\<rparr>) = pool_workers w" "pool_workers (w\<lparr>next_exec := n\<rparr>) = pool_workers w"
  by (simp_all add: pool_workers_def)

lemma pool_threads_frame [simp]:
  "pool_threads (w\<lparr>listener := L\<rparr>) = pool_threads w" "pool_threads (w\<lparr>acceptors := A\<rparr>) = pool_threads w"
  "pool_threads (w\<lparr>next_acceptor := n\<rparr>) = pool_threads w" "pool_threads (w\<lparr>boot := B\<rparr>) = pool_threads w"
  "pool_threads (w\<lparr>next_socket := n\<rparr>) = pool_threads w" "pool_threads (w\<lparr>next_exec := n\<rparr>) = pool_threads w"
  "pool_threads (w\<lparr>next_thread := n\<rparr>) = pool_threads w"
  by (simp_all add: pool_threads_def split: list.split)

lemma registered_frame [simp]:
  "registered (w\<lparr>listener := L\<rparr>) = registered w" "registered (w\<lparr>acceptors := A\<rparr>) = registered w"
  "registered (w\<lparr>next_acceptor := n\<rparr>) = registered w" "registered (w\<lparr>threads := T\<rparr>) = registered w"
  "registered (w\<lparr>next_thread := n\<rparr>) = registered w" "registered (w\<lparr>boot := B\<rparr>) = registered w"
  "registered (w\<lparr>next_socket := n\<rparr>) = registered w" "registered (w\<lparr>next_exec := n\<rparr>) = registered w"
  by (simp_all add: registered_def)

section \<open>Threads\<close>

definition pool_inv :: "nat set \<Rightarrow> server_world \<Rightarrow> bool" where
  "pool_inv T w \<longleftrightarrow> pools w \<noteq> [] \<and> one_pool w \<and> workers_ok T w \<and> sockets_ok w"

text \<open>What starting and stopping workers leaves alone.\<close>

definition pool_step :: "server_world \<Rightarrow> server_world \<Rightarrow> bool" where
  "pool_step w w' \<longleftrightarrow> boot w' = boot w \<and> threads w' = threads w \<and> next_thread w' = next_thread w \<and> next_exec w' = next_exec w \<and>
     next_socket w' = next_socket w \<and> length (pools w') = length (pools w) \<and>
     pool_exec (pools w' ! 0) = pool_exec (pools w ! 0)"

lemma pool_step_refl [simp]: "pool_step w w"
  by (simp add: pool_step_def)

lemma pool_step_trans: "pool_step u v \<Longrightarrow> pool_step v w \<Longrightarrow> pool_step u w"
  by (simp add: pool_step_def)

lemma pool_inv_length: "pool_inv T w \<Longrightarrow> length (pools w) = 1"
  by (simp add: pool_inv_def one_pool_def)

lemma pool_step_one_pool: "pool_step w w' \<Longrightarrow> pool_inv T w \<Longrightarrow> one_pool w' \<and> pools w' \<noteq> []"
  unfolding pool_step_def pool_inv_def one_pool_def by (cases "pools w'") auto

lemma pool_step_threads:
  assumes "pool_step w w'" "pool_inv T w"
  shows "pool_threads w' = pool_threads w"
proof -
  from pool_inv_length [OF assms(2)] assms(1) obtain p p' where "pools w = [p]" "pools w' = [p']"
    by (auto simp: pool_step_def length_Suc_conv)
  with assms(1) show ?thesis by (simp add: pool_threads_def pool_step_def)
qed

lemma sockets_ok_update:
  assumes "sockets_ok w" "\<forall>s\<in>set (sockets (boot w)). served (registered w') L s"
    "only_sockets (sockets (boot w)) (listener w) L" "boot w' = boot w" "listener w' = L" "next_socket w' = next_socket w"
  shows "sockets_ok w'"
  using assms by (auto simp: sockets_ok_def only_sockets_def)

context socket_factory
begin

lemma threadStarted_ok:
  assumes inv: "pool_inv T w" and h: "h \<notin> fst ` set (pool_workers w)" "h \<in> T"
  shows "\<exists>w'. threadStarted SF nf 0 h w = (nf h, w') \<and> pool_inv T w' \<and> pool_step w w' \<and>
    fst ` set (pool_workers w') = (if nf h = None then insert h (fst ` set (pool_workers w)) else fst ` set (pool_workers w))"
proof (cases "nf h")
  case (Some e)
  with inv show ?thesis by (simp add: threadStarted_def)
next
  case None
  note len = pool_inv_length [OF inv]
  let ?a = "next_acceptor w"
  let ?w1 = "pool_update 0 (worker_insert h ?a) (w\<lparr>next_acceptor := Suc ?a, acceptors := acceptors w @ [?a]\<rparr>)"
  have ok: "workers_ok T w" "sockets_ok w" using inv by (simp_all add: pool_inv_def)
  have a: "?a \<notin> snd ` set (pool_workers w)" using ok(1) by (auto simp: workers_ok_def)
  have ws: "pool_workers ?w1 = worker_insert h ?a (pool_workers w)" using len by (simp add: pool_workers_update)
  have reg: "registered ?w1 = insert (?a, h) (registered w)"
    using h(1) by (simp add: registered_def ws set_worker_insert swap_pair_def)
  have "distinct (sockets (boot w))" "\<forall>s\<in>set (sockets (boot w)). served (registered w) (listener ?w1) s"
    using ok(2) by (simp_all add: sockets_ok_def)
  from update_sockets_ok [OF _ this, of "\<lambda>l. addAcceptCB SF l ?a h" "registered ?w1"] add [of "registered w" _ ?a h] a
  obtain L where L: "update_sockets (\<lambda>l. addAcceptCB SF l ?a h) (sockets (boot w)) ?w1 = (None, ?w1\<lparr>listener := L\<rparr>)"
    "\<forall>s\<in>set (sockets (boot w)). served (registered ?w1) L s" "only_sockets (sockets (boot w)) (listener w) L"
    by (auto simp: fst_registered reg)
  let ?w2 = "?w1\<lparr>listener := L\<rparr>"
  have run: "threadStarted SF nf 0 h w = (None, ?w2)"
    using None h(1) L(1) len by (simp add: threadStarted_def Let_def pool_workers_update)
  have step: "pool_step w ?w2" using len by (simp add: pool_step_def)
  have "workers_ok T ?w2"
    using ok(1) h a by (auto simp: workers_ok_def ws set_worker_insert worker_insert_def distinct_insort_fst distinct_insort_snd
        set_insort_key less_Suc_eq)
  moreover have "sockets_ok ?w2" by (rule sockets_ok_update [OF ok(2) _ L(3)]) (use L(2) in simp_all)
  ultimately have "pool_inv T ?w2" using pool_step_one_pool [OF step inv] by (simp add: pool_inv_def)
  then show ?thesis using run step None h(1) by (auto simp: ws set_worker_insert)
qed

lemma threadStopped_ok:
  assumes inv: "pool_inv T w"
  shows "\<exists>w'. threadStopped SF 0 h w = (None, w') \<and> pool_inv (T - {h}) w' \<and> pool_step w w' \<and>
    fst ` set (pool_workers w') = fst ` set (pool_workers w) - {h}"
proof (cases "map_of (pool_workers w) h")
  case None
  note len = pool_inv_length [OF inv]
  from None have "h \<notin> fst ` set (pool_workers w)" by (simp add: map_of_eq_None_iff)
  moreover from this inv have "pool_inv (T - {h}) w" by (auto simp: pool_inv_def workers_ok_def)
  ultimately show ?thesis using None len by (simp add: threadStopped_def pool_workers_update)
next
  case (Some a)
  note len = pool_inv_length [OF inv]
  have ok: "workers_ok T w" "sockets_ok w" using inv by (simp_all add: pool_inv_def)
  let ?w1 = "pool_update 0 (worker_erase h) w"
  have mem: "(h, a) \<in> set (pool_workers w)" using Some by (rule map_of_SomeD)
  have d: "distinct (map fst (pool_workers w))" "distinct (map snd (pool_workers w))" using ok(1) by (simp_all add: workers_ok_def)
  have ws: "pool_workers ?w1 = worker_erase h (pool_workers w)" using len by (simp add: pool_workers_update)
  have set: "set (worker_erase h (pool_workers w)) = set (pool_workers w) - {(h, a)}"
    unfolding worker_erase_def by (rule distinct_fst_filter [OF d(1) mem])
  have reg: "registered ?w1 = registered w - {(a, h)}"
    unfolding registered_def ws set image_set_diff [OF inj_swap_pair] by (simp add: swap_pair_def)
  have "distinct (sockets (boot w))" "\<forall>s\<in>set (sockets (boot w)). served (registered w) (listener ?w1) s"
    using ok(2) by (simp_all add: sockets_ok_def)
  moreover have "(a, h) \<in> registered w" using mem by (force simp: registered_def swap_pair_def)
  ultimately obtain L where L: "update_sockets (\<lambda>l. removeAcceptCB SF l a) (sockets (boot w)) ?w1 = (None, ?w1\<lparr>listener := L\<rparr>)"
    "\<forall>s\<in>set (sockets (boot w)). served (registered ?w1) L s" "only_sockets (sockets (boot w)) (listener w) L"
    using update_sockets_ok [of "registered w" "\<lambda>l. removeAcceptCB SF l a" "registered ?w1" "sockets (boot w)" ?w1]
      remove [of "registered w" _ a h] by (auto simp: reg)
  let ?w2 = "?w1\<lparr>listener := L, acceptors := remove1 a (acceptors w)\<rparr>"
  have run: "threadStopped SF 0 h w = (None, ?w2)"
    using Some L(1) len by (simp add: threadStopped_def pool_workers_update)
  have step: "pool_step w ?w2" using len by (simp add: pool_step_def)
  have snd: "snd ` (set (pool_workers w) - {(h, a)}) = snd ` set (pool_workers w) - {a}"
    using inj_on_image_remove [of snd "set (pool_workers w)" "(h, a)"] d(2) mem by (simp add: distinct_map)
  have fst: "fst ` (set (pool_workers w) - {(h, a)}) = fst ` set (pool_workers w) - {h}"
    using inj_on_image_remove [of fst "set (pool_workers w)" "(h, a)"] d(1) mem by (simp add: distinct_map)
  have "distinct (map fst (worker_erase h (pool_workers w)))" "distinct (map snd (worker_erase h (pool_workers w)))"
    using d by (simp_all add: worker_erase_def distinct_map inj_on_def)
  then have "workers_ok (T - {h}) ?w2"
    using ok(1) by (auto simp: workers_ok_def ws set snd fst)
  moreover have "sockets_ok ?w2" by (rule sockets_ok_update [OF ok(2) _ L(3)]) (use L(2) in simp_all)
  ultimately have "pool_inv (T - {h}) ?w2" using pool_step_one_pool [OF step inv] by (simp add: pool_inv_def)
  then show ?thesis using run step by (auto simp: ws set fst)
qed

end

end
