(* ===== verification/Bootstrap_Server_Run.thy ===== *)
theory Bootstrap_Server_Run
  imports Bootstrap_Server_Props
begin

text \<open>
  Runs of a server: starting and stopping threads, \<open>group\<close>, \<open>bind\<close> and \<open>stop\<close> in any order keep the sockets'
  callbacks equal to the workers' acceptors.
\<close>

section \<open>Executors\<close>

lemma workers_ok_mono: "workers_ok T w \<Longrightarrow> T \<subseteq> T' \<Longrightarrow> workers_ok T' w"
  by (auto simp: workers_ok_def)

lemma pool_inv_mono: "pool_inv T w \<Longrightarrow> T \<subseteq> T' \<Longrightarrow> pool_inv T' w"
  by (auto simp: pool_inv_def intro: workers_ok_mono)

text \<open>A server without a pool has no sockets and no acceptors.\<close>

definition no_pool :: "server_world \<Rightarrow> bool" where
  "no_pool w \<longleftrightarrow> pools w = [] \<and> workerFactory (boot w) = None \<and> sockets (boot w) = [] \<and> io_group (boot w) = None \<and>
     acceptors w = [] \<and> (\<forall>s. listener w s = None)"

lemma server_inv_iff:
  "server_inv w \<longleftrightarrow> threads_ok w \<and> (no_pool w \<or> pool_inv (pool_threads w) w)"
proof (cases "pools w = []")
  case True
  then show ?thesis
    by (auto simp: server_inv_def no_pool_def pool_inv_def one_pool_def workers_ok_def sockets_ok_def pool_workers_def)
next
  case False
  then show ?thesis by (auto simp: server_inv_def no_pool_def pool_inv_def)
qed

lemma server_inv_new: "server_inv ServerBootstrap_new"
  by (simp add: server_inv_iff threads_ok_def no_pool_def ServerBootstrap_new_def)

lemma pool_inv_threads [simp]:
  "pool_inv T (w\<lparr>threads := th\<rparr>) = pool_inv T w" "pool_inv T (w\<lparr>next_thread := n\<rparr>) = pool_inv T w"
  "pool_inv T (w\<lparr>next_exec := n\<rparr>) = pool_inv T w"
  by (simp_all add: pool_inv_def one_pool_def workers_ok_def sockets_ok_def)

lemma no_pool_threads [simp]:
  "no_pool (w\<lparr>threads := th\<rparr>) = no_pool w" "no_pool (w\<lparr>next_thread := n\<rparr>) = no_pool w"
  "no_pool (w\<lparr>next_exec := n\<rparr>) = no_pool w"
  by (simp_all add: no_pool_def)

lemma pool_threads_set: "pools w = [p] \<Longrightarrow> pool_threads w = set (threads w (pool_exec p))"
  by (simp add: pool_threads_def)

lemma observers_no_pool: "no_pool w \<Longrightarrow> observers e w = []"
  by (simp add: observers_def no_pool_def)

lemma observers_one_pool: "pools w = [p] \<Longrightarrow> observers e w = (if pool_exec p = e then [0] else [])"
  by (simp add: observers_def)

lemma pool_inv_pool: "pool_inv T w \<Longrightarrow> \<exists>p. pools w = [p] \<and> pool_workers w = workers p"
  using pool_inv_length [of T w] by (auto simp: length_Suc_conv pool_workers_def)

text \<open>Each thread of the pool has a worker, which holds when no acceptor fails to be made.\<close>

definition covers :: "server_world \<Rightarrow> bool" where
  "covers w \<longleftrightarrow> pool_threads w \<subseteq> fst ` set (pool_workers w)"

lemma no_pool_covers [simp]: "no_pool w \<Longrightarrow> covers w"
  by (simp add: covers_def no_pool_def pool_threads_def)

lemma threads_ok_step: "pool_step w w' \<Longrightarrow> threads_ok w \<Longrightarrow> threads_ok w'"
  by (simp add: threads_ok_def pool_step_def)

lemma new_executor_ok:
  assumes "threads_ok w"
  shows "threads_ok (snd (new_executor n w)) \<and> no_pool (snd (new_executor n w)) = no_pool w"
proof -
  have "h < next_thread w + n" if "h \<in> set (threads w e)" for h e
    using assms that by (fastforce simp: threads_ok_def)
  with assms show ?thesis by (auto simp: new_executor_def threads_ok_def no_pool_def)
qed

context socket_factory
begin

lemma executor_start_inv:
  assumes "server_inv w"
  shows "server_inv (snd (executor_start SF nf e w)) \<and> fst (executor_start SF nf e w) \<in> {None, nf (next_thread w)} \<and>
    (nf (next_thread w) = None \<longrightarrow> covers w \<longrightarrow> covers (snd (executor_start SF nf e w)))"
proof -
  let ?h = "next_thread w"
  let ?w1 = "w\<lparr>next_thread := Suc ?h, threads := (threads w)(e := threads w e @ [?h])\<rparr>"
  have run: "executor_start SF nf e w = each_of (\<lambda>p. threadStarted SF nf p ?h) (observers e ?w1) ?w1"
    by (simp add: executor_start_def Let_def)
  have t: "threads_ok ?w1" using assms by (fastforce simp: server_inv_iff threads_ok_def)
  consider "no_pool w" | "pool_inv (pool_threads w) w" using assms by (auto simp: server_inv_iff)
  then show ?thesis
  proof cases
    case 1
    then show ?thesis unfolding run using t by (simp add: observers_no_pool server_inv_iff)
  next
    case 2
    then obtain p where p: "pools w = [p]" "pool_workers w = workers p" using pool_inv_pool by blast
    have sub: "pool_threads w \<subseteq> pool_threads ?w1" using p by (auto simp: pool_threads_def)
    have inv1: "pool_inv (pool_threads ?w1) ?w1" using pool_inv_mono [OF 2 sub] by simp
    show ?thesis
    proof (cases "pool_exec p = e")
      case False
      then have "covers w \<longrightarrow> covers ?w1" using p by (simp add: covers_def pool_threads_def)
      then show ?thesis unfolding run using t inv1 p False by (simp add: observers_one_pool server_inv_iff)
    next
      case True
      have "?h \<notin> pool_threads w" using assms p by (auto simp: server_inv_iff threads_ok_def pool_threads_def)
      then have "?h \<notin> fst ` set (pool_workers ?w1)" using 2 by (auto simp: pool_inv_def workers_ok_def)
      moreover have "?h \<in> pool_threads ?w1" using p True by (simp add: pool_threads_def)
      ultimately obtain w' where w': "threadStarted SF nf 0 ?h ?w1 = (nf ?h, w')" "pool_inv (pool_threads ?w1) w'" "pool_step ?w1 w'"
        "nf ?h = None \<longrightarrow> fst ` set (pool_workers w') = insert ?h (fst ` set (pool_workers w))"
        using threadStarted_ok [OF inv1, of ?h nf] by auto
      have "pool_threads w' = insert ?h (pool_threads w)"
        using pool_step_threads [OF w'(3) inv1] p True by (simp add: pool_threads_def)
      with w'(4) have "nf ?h = None \<longrightarrow> covers w \<longrightarrow> covers w'" by (auto simp: covers_def)
      moreover have "server_inv w'"
        using threads_ok_step [OF w'(3) t] w'(2) pool_step_threads [OF w'(3) inv1] by (simp add: server_inv_iff)
      ultimately show ?thesis unfolding run using True p w'(1) by (simp add: observers_one_pool split: option.splits)
    qed
  qed
qed

lemma executor_stop_ok:
  assumes "server_inv w"
  shows "\<exists>w'. executor_stop SF e h w = (None, w') \<and> server_inv w' \<and> boot w' = boot w \<and>
    threads w' = (threads w)(e := remove1 h (threads w e)) \<and> length (pools w') = length (pools w) \<and>
    pool_exec (pools w' ! 0) = pool_exec (pools w ! 0) \<and> (covers w \<longrightarrow> covers w')"
proof -
  let ?w1 = "w\<lparr>threads := (threads w)(e := remove1 h (threads w e))\<rparr>"
  have run: "executor_stop SF e h w = each_of (\<lambda>p. threadStopped SF p h) (observers e ?w1) ?w1"
    by (simp add: executor_stop_def Let_def)
  have t: "threads_ok ?w1" using assms notin_set_remove1 [of _ "threads w e" h] by (fastforce simp: server_inv_iff threads_ok_def)
  consider "no_pool w" | "pool_inv (pool_threads w) w" using assms by (auto simp: server_inv_iff)
  then show ?thesis
  proof cases
    case 1
    then show ?thesis unfolding run using t by (simp add: observers_no_pool server_inv_iff)
  next
    case 2
    then obtain p where p: "pools w = [p]" "pool_workers w = workers p" using pool_inv_pool by blast
    show ?thesis
    proof (cases "pool_exec p = e")
      case False
      have "pool_threads ?w1 = pool_threads w" using p False by (simp add: pool_threads_def)
      then show ?thesis unfolding run using t 2 p False by (simp add: observers_one_pool server_inv_iff covers_def)
    next
      case True
      have "pool_inv (pool_threads w) ?w1" using 2 by simp
      from threadStopped_ok [OF this, of h] obtain w' where
        w': "threadStopped SF 0 h ?w1 = (None, w')" "pool_inv (pool_threads w - {h}) w'" "pool_step ?w1 w'"
        "fst ` set (pool_workers w') = fst ` set (pool_workers w) - {h}" by auto
      have "distinct (threads w e)" using assms by (simp add: server_inv_iff threads_ok_def)
      then have "pool_threads w - {h} = pool_threads ?w1" using p True by (simp add: pool_threads_def)
      moreover have "pool_threads w' = pool_threads ?w1" using pool_step_threads [OF w'(3)] 2 by simp
      ultimately have "server_inv w'" "covers w \<longrightarrow> covers w'"
        using threads_ok_step [OF w'(3) t] w'(2,4) by (auto simp: server_inv_iff covers_def)
      then show ?thesis unfolding run using True p w'(1,3) by (simp add: observers_one_pool pool_step_def)
    qed
  qed
qed

lemma each_threadStarted:
  "pool_inv T w \<Longrightarrow> distinct hs \<Longrightarrow> set hs \<inter> fst ` set (pool_workers w) = {} \<Longrightarrow> set hs \<subseteq> T \<Longrightarrow>
   \<exists>w'. each_of (threadStarted SF nf 0) hs w = ((case filter (\<lambda>h. nf h \<noteq> None) hs of [] \<Rightarrow> None | h # _ \<Rightarrow> nf h), w') \<and> pool_inv T w' \<and> pool_step w w' \<and>
     ((\<forall>h\<in>set hs. nf h = None) \<longrightarrow> fst ` set (pool_workers w') = set hs \<union> fst ` set (pool_workers w))"
proof (induction hs arbitrary: w)
  case Nil
  then show ?case by auto
next
  case (Cons h hs)
  then have h: "h \<notin> fst ` set (pool_workers w)" "h \<in> T" by auto
  from threadStarted_ok [OF Cons.prems(1) h, of nf] obtain w1 where
    w1: "threadStarted SF nf 0 h w = (nf h, w1)" "pool_inv T w1" "pool_step w w1"
      "fst ` set (pool_workers w1) = (if nf h = None then insert h (fst ` set (pool_workers w)) else fst ` set (pool_workers w))"
    by blast
  show ?case
  proof (cases "nf h")
    case (Some e)
    with w1 show ?thesis by simp
  next
    case None
    have "set hs \<inter> fst ` set (pool_workers w1) = {}" using w1(4) None Cons.prems(2,3) by auto
    with Cons.IH [OF w1(2)] Cons.prems(2,4) obtain w2 where
      w2: "each_of (threadStarted SF nf 0) hs w1 = (case filter (\<lambda>h. nf h \<noteq> None) hs of [] \<Rightarrow> None | h # _ \<Rightarrow> nf h, w2)"
        "pool_inv T w2" "pool_step w1 w2"
        "(\<forall>h\<in>set hs. nf h = None) \<longrightarrow> fst ` set (pool_workers w2) = set hs \<union> fst ` set (pool_workers w1)" by auto
    with None w1(1,4) pool_step_trans [OF w1(3) w2(3)] show ?thesis by auto
  qed
qed

lemma group_ok:
  assumes "server_inv w" "no_pool w"
  shows "server_inv (snd (ServerBootstrap_group SF nf hw accept io w)) \<and>
    ((\<forall>h. nf h = None) \<longrightarrow> covers (snd (ServerBootstrap_group SF nf hw accept io w))) \<and>
    sockets (boot (snd (ServerBootstrap_group SF nf hw accept io w))) = []"
proof -
  obtain e w1 where ew: "(case io of None \<Rightarrow> new_executor (if hw \<le> 0 then 8 else hw) w | Some e \<Rightarrow> (e, w)) = (e, w1)" by force
  have "threads_ok w1 \<and> no_pool w1"
  proof (cases io)
    case None
    with ew have "w1 = snd (new_executor (if hw \<le> 0 then 8 else hw) w)" by simp
    then show ?thesis using new_executor_ok [of w] assms by (simp add: server_inv_iff)
  qed (use ew assms in \<open>simp add: server_inv_iff\<close>)
  then have t1: "threads_ok w1" and n1: "no_pool w1" by simp_all
  let ?w2 = "w1\<lparr>pools := pools w1 @ [\<lparr>pool_exec = e, workers = []\<rparr>], boot := (boot w1)\<lparr>workerFactory := Some 0\<rparr>\<rparr>"
  have pools: "pools w1 = []" using n1 by (simp add: no_pool_def)
  have inv2: "pool_inv (set (threads w1 e)) ?w2"
    using n1 by (simp add: pool_inv_def one_pool_def workers_ok_def sockets_ok_def pool_workers_def no_pool_def)
  have empty: "pool_workers ?w2 = []" "pool_threads ?w2 = set (threads w1 e)"
    using pools by (simp_all add: pool_workers_def pool_threads_def)
  have d: "distinct (threads w1 e)" using t1 by (simp add: threads_ok_def)
  from each_threadStarted [OF inv2 d, of nf] empty(1) obtain x w3 where
    w3: "each_of (threadStarted SF nf 0) (threads w1 e) ?w2 = (x, w3)" "pool_inv (set (threads w1 e)) w3" "pool_step ?w2 w3"
      "(\<forall>h. nf h = None) \<longrightarrow> fst ` set (pool_workers w3) = set (threads w1 e)" by auto
  have t3: "threads_ok w3" using threads_ok_step [OF w3(3)] t1 by (simp add: threads_ok_def)
  have th3: "pool_threads w3 = set (threads w1 e)" using pool_step_threads [OF w3(3) inv2] empty(2) by simp
  have exec: "pool_exec (pools w3 ! 0) = e" "sockets (boot w3) = []"
    using w3(3) pools n1 by (simp_all add: pool_step_def no_pool_def)
  let ?w4 = "\<lambda>n. w3\<lparr>boot := (boot w3)\<lparr>acceptor_group := Some n, io_group := Some e\<rparr>\<rparr>"
  have "pool_inv (set (threads w1 e)) (?w4 n)" for n
    using w3(2) exec(1) by (simp add: pool_inv_def one_pool_def workers_ok_def sockets_ok_def)
  then have inv4: "server_inv (?w4 n)" for n using t3 th3 by (simp add: server_inv_iff threads_ok_def)
  have inv3: "server_inv w3" using t3 w3(2) th3 by (simp add: server_inv_iff)
  have cov: "(\<forall>h. nf h = None) \<longrightarrow> covers w3 \<and> covers (?w4 n)" for n using w3(4) th3 by (simp add: covers_def)
  have "server_inv w1" "covers w1" "sockets (boot w1) = []" using t1 n1 by (simp_all add: server_inv_iff no_pool_def)
  then show ?thesis
    using ew w3(1) inv3 inv4 cov exec(2) pools
    by (auto simp: ServerBootstrap_group_def Let_def split: option.splits prod.splits)
qed

end

end
