(* ===== verification/Bootstrap_Server_Bind.thy ===== *)
theory Bootstrap_Server_Bind
  imports Bootstrap_Server_Run
begin

text \<open>Binding sockets, stopping a server, and the properties of all runs.\<close>

section \<open>New sockets\<close>

text \<open>\<open>sockets_with X w\<close>: the sockets of the server and new ones, \<open>X\<close>, that have no callbacks yet.\<close>

definition sockets_with :: "nat set \<Rightarrow> server_world \<Rightarrow> bool" where
  "sockets_with X w \<longleftrightarrow> distinct (sockets (boot w)) \<and> X \<inter> set (sockets (boot w)) = {} \<and>
     (\<forall>s\<in>set (sockets (boot w)). served (registered w) (listener w) s \<and> s < next_socket w) \<and>
     (\<forall>s\<in>X. served {} (listener w) s \<and> s < next_socket w) \<and>
     (\<forall>s. s \<notin> set (sockets (boot w)) \<union> X \<longrightarrow> listener w s = None)"

lemma sockets_ok_with: "sockets_ok w \<longleftrightarrow> sockets_with {} w"
  by (simp add: sockets_ok_def sockets_with_def)

lemma served_other: "L' s = L s \<Longrightarrow> served R L' s = served R L s"
  by (simp add: served_def)

lemma acceptor_evb_listener [simp]: "acceptor_evb a (w\<lparr>listener := L\<rparr>) = acceptor_evb a w"
  by (simp add: acceptor_evb_def split: option.split)

lemma acceptor_evb_worker:
  assumes "pool_inv T w" "(h, a) \<in> set (pool_workers w)"
  shows "acceptor_evb a w = h"
proof -
  have d: "distinct (map snd (pool_workers w))" and p: "workerFactory (boot w) = Some 0"
    using assms(1) by (auto simp: pool_inv_def workers_ok_def one_pool_def)
  have "distinct (map fst (map (\<lambda>(h, a). (a, h)) (pool_workers w)))"
    using d by (simp add: comp_def case_prod_beta)
  moreover have "(a, h) \<in> set (map (\<lambda>(h, a). (a, h)) (pool_workers w))" using assms(2) by force
  ultimately have "map_of (map (\<lambda>(h, a). (a, h)) (pool_workers w)) a = Some h" by (rule map_of_is_SomeI)
  then show ?thesis
    using p pool_workers_update(2) [OF pool_inv_length [OF assms(1)]] by (simp add: acceptor_evb_def)
qed

lemma evb_registered:
  assumes "pool_inv T w"
  shows "(\<lambda>a. (a, acceptor_evb a w)) ` set (map snd (pool_workers w)) = registered w"
  using acceptor_evb_worker [OF assms] by (force simp: registered_def swap_pair_def image_iff)

lemma only_sockets_append:
  assumes "only_sockets ss L L1" "only_sockets ts L1 L2"
  shows "only_sockets (ss @ ts) L L2"
proof -
  have "\<exists>l2. L2 s = Some l2 \<and> same_socket l l2" if "L s = Some l" for s l
  proof -
    from only_socketsD [OF assms(1) that] obtain l1 where l1: "L1 s = Some l1" "same_socket l l1" by blast
    from only_socketsD [OF assms(2) l1(1)] same_socket_trans [OF l1(2)] show ?thesis by blast
  qed
  then show ?thesis using assms by (simp add: only_sockets_def)
qed

lemma only_sockets_twice: "only_sockets [s, s] = only_sockets [s]"
  by (intro ext) (simp add: only_sockets_def)

context socket_factory
begin

lemma each_addAcceptCB:
  "distinct as \<Longrightarrow> set as \<inter> fst ` R = {} \<Longrightarrow> served R (listener w) s \<Longrightarrow>
   \<exists>L. each_of (\<lambda>a v. update_sockets (\<lambda>l. addAcceptCB SF l a (acceptor_evb a v)) [s] v) as w = (None, w\<lparr>listener := L\<rparr>) \<and>
     served (R \<union> (\<lambda>a. (a, acceptor_evb a w)) ` set as) L s \<and> only_sockets [s] (listener w) L"
proof (induction as arbitrary: w R)
  case Nil
  then show ?case by (auto intro: exI [of _ "listener w"])
next
  case (Cons a as)
  let ?R = "insert (a, acceptor_evb a w) R"
  have a: "a \<notin> fst ` R" using Cons.prems(2) by auto
  from Cons.prems(3) obtain l where l: "listener w s = Some l" "calls R l" by (auto simp: served_def)
  from add [OF l(2) a, of "acceptor_evb a w"] obtain l' where
    l': "addAcceptCB SF l a (acceptor_evb a w) = Inr l'" "calls ?R l'" "same_socket l l'" by blast
  let ?w = "w\<lparr>listener := (listener w)(s \<mapsto> l')\<rparr>"
  have d: "set as \<inter> fst ` ?R = {}" "distinct as" using Cons.prems(1,2) by auto
  have "served ?R (listener ?w) s" using l'(2) by (simp add: served_def)
  from Cons.IH [OF d(2) d(1) this] obtain L where L:
    "each_of (\<lambda>a v. update_sockets (\<lambda>l. addAcceptCB SF l a (acceptor_evb a v)) [s] v) as ?w = (None, ?w\<lparr>listener := L\<rparr>)"
    "served (?R \<union> (\<lambda>a. (a, acceptor_evb a ?w)) ` set as) L s" "only_sockets [s] (listener ?w) L"
    by blast
  have "only_sockets [s] ((listener w)(s \<mapsto> l')) L"
    using L(3) by simp
  then have "only_sockets [s, s] (listener w) L"
    by (rule only_sockets_step [where L = "listener w", OF l(1) l'(3)])
  then have "only_sockets [s] (listener w) L" by (simp add: only_sockets_twice)
  with L l(1) l'(1) show ?case by (intro exI [of _ L]) simp
qed

lemma start_socket_ok:
  assumes inv: "pools w \<noteq> []" "one_pool w" "workers_ok T w" and s: "sockets_with (insert s X) w" "s \<notin> X"
  shows "\<exists>L. start_socket SF s w = (None, w\<lparr>listener := L, boot := (boot w)\<lparr>sockets := sockets (boot w) @ [s]\<rparr>\<rparr>) \<and>
    sockets_with X (w\<lparr>listener := L, boot := (boot w)\<lparr>sockets := sockets (boot w) @ [s]\<rparr>\<rparr>) \<and> only_sockets [s] (listener w) L"
proof -
  have len: "length (pools w) = 1" and wf: "workerFactory (boot w) = Some 0" using inv(1,2) by (auto simp: one_pool_def)
  have pw: "workers (pools w ! 0) = pool_workers w" by (rule pool_workers_update(2) [OF len])
  let ?v = "w\<lparr>boot := (boot w)\<lparr>sockets := []\<rparr>, listener := \<lambda>_. None\<rparr>"
  have "pool_inv T ?v" using inv by (auto simp: pool_inv_def one_pool_def workers_ok_def sockets_ok_def)
  from evb_registered [OF this] have reg: "(\<lambda>a. (a, acceptor_evb a w)) ` snd ` set (pool_workers w) = registered w"
    by (simp add: acceptor_evb_def cong: option.case_cong)
  have "distinct (map snd (pool_workers w))" using inv(3) by (simp add: workers_ok_def)
  from each_addAcceptCB [OF this, of "{}" w s] s(1) reg obtain L where
    L: "each_of (\<lambda>a v. update_sockets (\<lambda>l. addAcceptCB SF l a (acceptor_evb a v)) [s] v) (map snd (pool_workers w)) w =
          (None, w\<lparr>listener := L\<rparr>)" "served (registered w) L s" "only_sockets [s] (listener w) L"
    by (auto simp: sockets_with_def)
  have run: "start_socket SF s w = (None, w\<lparr>listener := L, boot := (boot w)\<lparr>sockets := sockets (boot w) @ [s]\<rparr>\<rparr>)"
    unfolding start_socket_def forEachWorker_def wf option.case(2) pw L(1) by simp
  have other: "L t = listener w t" if "t \<noteq> s" for t using L(3) that by (simp add: only_sockets_def)
  have "sockets_with X (w\<lparr>listener := L, boot := (boot w)\<lparr>sockets := sockets (boot w) @ [s]\<rparr>\<rparr>)"
    unfolding sockets_with_def
  proof (intro conjI ballI allI impI)
    fix t
    assume t: "t \<in> X"
    then have "t \<noteq> s" using s(2) by auto
    with t s(1) other [of t] show "served {} (listener (w\<lparr>listener := L, boot := (boot w)\<lparr>sockets := sockets (boot w) @ [s]\<rparr>\<rparr>)) t"
      by (simp add: sockets_with_def served_def)
  next
    fix t
    assume t: "t \<in> set (sockets (boot (w\<lparr>listener := L, boot := (boot w)\<lparr>sockets := sockets (boot w) @ [s]\<rparr>\<rparr>)))"
    show "served (registered (w\<lparr>listener := L, boot := (boot w)\<lparr>sockets := sockets (boot w) @ [s]\<rparr>\<rparr>))
        (listener (w\<lparr>listener := L, boot := (boot w)\<lparr>sockets := sockets (boot w) @ [s]\<rparr>\<rparr>)) t"
      using t s(1) L(2) other [of t] by (cases "t = s") (auto simp: sockets_with_def served_def)
  qed (use s other in \<open>auto simp: sockets_with_def\<close>)
  with run L(3) show ?thesis by blast
qed

lemma each_start_socket:
  "pools w \<noteq> [] \<Longrightarrow> one_pool w \<Longrightarrow> workers_ok T w \<Longrightarrow> sockets_with (set new) w \<Longrightarrow> distinct new \<Longrightarrow>
   \<exists>L. each_of (start_socket SF) new w = (None, w\<lparr>listener := L, boot := (boot w)\<lparr>sockets := sockets (boot w) @ new\<rparr>\<rparr>) \<and>
     sockets_with {} (w\<lparr>listener := L, boot := (boot w)\<lparr>sockets := sockets (boot w) @ new\<rparr>\<rparr>) \<and>
     only_sockets new (listener w) L"
proof (induction new arbitrary: w)
  case Nil
  then show ?case by (auto intro!: exI [of _ "listener w"])
next
  case (Cons s new)
  have s: "sockets_with (insert s (set new)) w" "s \<notin> set new" using Cons.prems(4,5) by simp_all
  from start_socket_ok [OF Cons.prems(1-3) s] obtain L1 where
    L1: "start_socket SF s w = (None, w\<lparr>listener := L1, boot := (boot w)\<lparr>sockets := sockets (boot w) @ [s]\<rparr>\<rparr>)"
      "sockets_with (set new) (w\<lparr>listener := L1, boot := (boot w)\<lparr>sockets := sockets (boot w) @ [s]\<rparr>\<rparr>)"
      "only_sockets [s] (listener w) L1" by blast
  let ?w = "w\<lparr>listener := L1, boot := (boot w)\<lparr>sockets := sockets (boot w) @ [s]\<rparr>\<rparr>"
  have "pools ?w \<noteq> []" "one_pool ?w" "workers_ok T ?w"
    using Cons.prems(1-3) by (auto simp: one_pool_def workers_ok_def)
  from Cons.IH [OF this L1(2)] Cons.prems(5) obtain L where
    L: "each_of (start_socket SF) new ?w = (None, ?w\<lparr>listener := L, boot := (boot ?w)\<lparr>sockets := sockets (boot ?w) @ new\<rparr>\<rparr>)"
      "sockets_with {} (?w\<lparr>listener := L, boot := (boot ?w)\<lparr>sockets := sockets (boot ?w) @ new\<rparr>\<rparr>)"
      "only_sockets new (listener ?w) L" by (auto simp del: append_assoc)
  have "only_sockets (s # new) (listener w) L" using only_sockets_append [OF L1(3), of new L] L(3) by simp
  with L(1,2) L1(1) show ?case by (intro exI [of _ L]) simp
qed

lemma sockets_with_new:
  assumes "sockets_with X w" "calls {} l"
  shows "sockets_with (insert (next_socket w) X) (w\<lparr>next_socket := Suc (next_socket w), listener := (listener w)(next_socket w \<mapsto> l)\<rparr>)"
  using assms by (fastforce simp: sockets_with_def served_def)

text \<open>The tasks that open sockets: what they change, and when all succeed.\<close>

lemma startupFuncs_ok:
  "sockets_with (set new) w \<Longrightarrow> distinct new \<Longrightarrow> startupFuncs SF reuse n port exn new w = (x, new', w') \<Longrightarrow>
   (\<exists>L. w' = w\<lparr>next_socket := next_socket w + n, listener := L\<rparr>) \<and> sockets_with (set new') w' \<and> distinct new' \<and>
   (x = None \<longrightarrow> exn = None \<and> length new' = length new + n)"
proof (induction n arbitrary: port exn new w)
  case 0
  then show ?case by (auto intro: exI [of _ "listener w"])
next
  case (Suc n)
  let ?s = "next_socket w"
  show ?case
  proof (cases "newSocket SF ?s port reuse")
    case (Inl e)
    have "sockets_with (set new) (w\<lparr>next_socket := Suc ?s\<rparr>)" using Suc.prems(1) by (fastforce simp: sockets_with_def)
    from Suc.IH [OF this Suc.prems(2), of port "Some e"] Suc.prems(3) Inl show ?thesis by (auto simp: Let_def)
  next
    case (Inr l)
    let ?w = "w\<lparr>next_socket := Suc ?s, listener := (listener w)(?s \<mapsto> l)\<rparr>"
    have l: "calls {} l" using new [OF Inr] by simp
    have "?s \<notin> set new" using Suc.prems(1) by (auto simp: sockets_with_def)
    then have "distinct (new @ [?s])" using Suc.prems(2) by simp
    moreover have "sockets_with (set (new @ [?s])) ?w" using sockets_with_new [OF Suc.prems(1) l] by simp
    moreover have "startupFuncs SF reuse n (sock_port l) exn (new @ [?s]) ?w = (x, new', w')"
      using Suc.prems(3) Inr by (simp add: Let_def)
    ultimately show ?thesis using Suc.IH [of "new @ [?s]" ?w "sock_port l" exn] by (auto simp del: distinct_append)
  qed
qed

text \<open>All sockets of a \<open>bind\<close> have one port, when a socket opened on a port has that port.\<close>

lemma startupFuncs_port:
  assumes port: "\<And>k p r l. newSocket SF k p r = Inr l \<Longrightarrow> sock_port l \<noteq> 0 \<and> (p \<noteq> 0 \<longrightarrow> sock_port l = p)"
  shows "startupFuncs SF reuse n p exn new w = (x, new', w') \<Longrightarrow>
    \<forall>s\<in>set new. s < next_socket w \<and> (\<exists>l. listener w s = Some l \<and> sock_port l = p \<and> sock_reuse l = reuse) \<Longrightarrow>
    (new \<noteq> [] \<Longrightarrow> p \<noteq> 0) \<Longrightarrow>
    \<exists>q. (p \<noteq> 0 \<longrightarrow> q = p) \<and> (\<forall>s\<in>set new'. \<exists>l. listener w' s = Some l \<and> sock_port l = q \<and> sock_reuse l = reuse)"
proof (induction n arbitrary: p exn new w)
  case 0
  then show ?case by (auto intro!: exI [of _ p])
next
  case (Suc n)
  let ?s = "next_socket w"
  show ?case
  proof (cases "newSocket SF ?s p reuse")
    case (Inl e)
    let ?w = "w\<lparr>next_socket := Suc ?s\<rparr>"
    have run: "startupFuncs SF reuse n p (Some e) new ?w = (x, new', w')" using Suc.prems(1) Inl by (simp add: Let_def)
    have "\<forall>s\<in>set new. s < next_socket ?w \<and> (\<exists>l. listener ?w s = Some l \<and> sock_port l = p \<and> sock_reuse l = reuse)"
      using Suc.prems(2) by (simp add: less_Suc_eq)
    from Suc.IH [OF run this Suc.prems(3)] show ?thesis .
  next
    case (Inr l)
    let ?w = "w\<lparr>next_socket := Suc ?s, listener := (listener w)(?s \<mapsto> l)\<rparr>"
    have run: "startupFuncs SF reuse n (sock_port l) exn (new @ [?s]) ?w = (x, new', w')"
      using Suc.prems(1) Inr by (simp add: Let_def)
    have l: "sock_port l \<noteq> 0" "p \<noteq> 0 \<longrightarrow> sock_port l = p" "sock_reuse l = reuse" using port [OF Inr] new [OF Inr] by simp_all
    have "\<forall>s\<in>set (new @ [?s]). s < next_socket ?w \<and> (\<exists>l'. listener ?w s = Some l' \<and> sock_port l' = sock_port l \<and> sock_reuse l' = reuse)"
      using Suc.prems(2,3) l by fastforce
    from Suc.IH [OF run this] l show ?thesis by auto
  qed
qed

end

section \<open>Every operation keeps the invariant\<close>

lemma server_inv_sockets:
  assumes "server_inv w" "pools w \<noteq> []" "w' = w\<lparr>next_socket := n, listener := L, boot := (boot w)\<lparr>sockets := ss\<rparr>\<rparr>" "sockets_with {} w'"
  shows "server_inv w' \<and> covers w' = covers w"
  using assms by (auto simp: server_inv_def threads_ok_def one_pool_def workers_ok_def sockets_ok_with covers_def)

lemma sockets_frame [simp]:
  "one_pool (w\<lparr>listener := L\<rparr>) = one_pool w" "one_pool (w\<lparr>next_socket := n\<rparr>) = one_pool w"
  "workers_ok T (w\<lparr>listener := L\<rparr>) = workers_ok T w" "workers_ok T (w\<lparr>next_socket := n\<rparr>) = workers_ok T w"
  by (simp_all add: one_pool_def workers_ok_def)

lemma pool_of_inv:
  assumes "server_inv w" "workerFactory (boot w) \<noteq> None"
  shows "pools w \<noteq> []" "one_pool w" "workers_ok (pool_threads w) w" "sockets_with {} w"
  using assms by (auto simp: server_inv_def one_pool_def sockets_ok_with split: if_splits)

lemma no_pool_of_inv: "server_inv w \<Longrightarrow> workerFactory (boot w) = None \<Longrightarrow> no_pool w"
  by (auto simp: server_inv_iff pool_inv_def one_pool_def)

lemma sockets_with_close: "sockets_with (set new) w \<Longrightarrow> sockets_with {} (close_sockets new w)"
  by (auto simp: sockets_with_def close_sockets_def served_def registered_def pool_workers_def)

lemma sockets_with_stop: "sockets_with {} w \<Longrightarrow> sockets_with {} (close_sockets (sockets (boot w)) (w\<lparr>boot := (boot w)\<lparr>sockets := []\<rparr>\<rparr>))"
  by (auto simp: sockets_with_def close_sockets_def)

text \<open>\<open>keeps nf w w'\<close>: a step that keeps the invariant, and the workers of all threads when no acceptor fails.\<close>

definition keeps :: "(nat \<Rightarrow> cpp_exn option) \<Rightarrow> server_world \<Rightarrow> server_world \<Rightarrow> bool" where
  "keeps nf w w' \<longleftrightarrow> server_inv w' \<and> ((\<forall>h. nf h = None) \<longrightarrow> covers w \<longrightarrow> covers w')"

lemma stop_inv:
  assumes "server_inv w"
  shows "keeps nf w (ServerBootstrap_stop w)"
proof -
  let ?w1 = "close_sockets (sockets (boot w)) (w\<lparr>boot := (boot w)\<lparr>sockets := []\<rparr>\<rparr>)"
  have 1: "server_inv ?w1 \<and> covers ?w1 = covers w"
  proof (cases "workerFactory (boot w) = None")
    case True
    from no_pool_of_inv [OF assms True] assms show ?thesis
      by (auto simp: server_inv_iff no_pool_def close_sockets_def threads_ok_def covers_def pool_threads_def pool_workers_def)
  next
    case False
    note p = pool_of_inv [OF assms False]
    show ?thesis
      by (rule server_inv_sockets [where n = "next_socket w" and ss = "[]"
            and L = "\<lambda>s. if s \<in> set (sockets (boot w)) then None else listener w s", OF assms p(1) _ sockets_with_stop [OF p(4)]])
        (simp add: close_sockets_def cong: if_cong)
  qed
  have "server_inv (v\<lparr>boot := (boot v)\<lparr>stopped := b, posts := n\<rparr>\<rparr>) = server_inv v" for v b n
    by (simp add: server_inv_def threads_ok_def one_pool_def workers_ok_def sockets_ok_def)
  with 1 show ?thesis by (auto simp: ServerBootstrap_stop_def Let_def keeps_def covers_def)
qed

lemma group_io:
  "fst (ServerBootstrap_group SF nf hw accept io w) = None \<Longrightarrow> io_group (boot (snd (ServerBootstrap_group SF nf hw accept io w))) \<noteq> None"
  by (auto simp: ServerBootstrap_group_def Let_def split: prod.splits option.splits if_splits)

context socket_factory
begin

lemma ensure_group_inv:
  assumes "server_inv w"
  shows "keeps nf w (snd (ensure_group SF nf hw w))"
    "fst (ensure_group SF nf hw w) = None \<Longrightarrow> workerFactory (boot (snd (ensure_group SF nf hw w))) \<noteq> None"
proof -
  show "keeps nf w (snd (ensure_group SF nf hw w))"
    using group_ok [OF assms no_pool_of_inv [OF assms], of nf hw None None] assms by (auto simp: ensure_group_def keeps_def)
  show "workerFactory (boot (snd (ensure_group SF nf hw w))) \<noteq> None" if x: "fst (ensure_group SF nf hw w) = None"
  proof (cases "workerFactory (boot w) = None")
    case True
    let ?w1 = "snd (ServerBootstrap_group SF nf hw None None w)"
    have "io_group (boot ?w1) \<noteq> None" using x True group_io [of SF nf hw None None w] by (simp add: ensure_group_def)
    moreover have "one_pool ?w1" using group_ok [OF assms no_pool_of_inv [OF assms True], of nf hw None None] by (simp add: server_inv_def)
    ultimately show ?thesis using True by (auto simp: one_pool_def ensure_group_def split: if_splits)
  next
    case False
    then show ?thesis by (auto simp: ensure_group_def)
  qed
qed

text \<open>What \<open>bindImpl\<close> does once there is a pool: it fails and leaves the sockets as they were, or adds the new ones.\<close>

lemma bindImpl_cases:
  assumes "server_inv w" "bindImpl SF nf hw port w = Some (x, w')"
  obtains (group) "ensure_group SF nf hw w = (x, w')" "x \<noteq> None"
  | (unset) w1 where "ensure_group SF nf hw w = (None, w1)" "acceptor_group (boot w1) = None" "x = Some Undefined" "w' = w1"
  | (failed) w1 n e new w2 where "ensure_group SF nf hw w = (None, w1)" "acceptor_group (boot w1) = Some n" "x = Some e"
      "startupFuncs SF (reusePort (boot w1) \<or> n > 1) n port None [] w1 = (Some e, new, w2)" "w' = close_sockets new w2"
  | (bound) w1 n new w2 L where "ensure_group SF nf hw w = (None, w1)" "acceptor_group (boot w1) = Some n" "x = None"
      "startupFuncs SF (reusePort (boot w1) \<or> n > 1) n port None [] w1 = (None, new, w2)"
      "w' = w2\<lparr>listener := L, boot := (boot w2)\<lparr>sockets := sockets (boot w2) @ new\<rparr>\<rparr>" "sockets_with {} w'"
      "only_sockets new (listener w2) L"
proof -
  obtain x1 w1 where g: "ensure_group SF nf hw w = (x1, w1)" by force
  have inv: "server_inv w1" and wf: "x1 = None \<Longrightarrow> workerFactory (boot w1) \<noteq> None"
    using ensure_group_inv [OF assms(1), of nf hw] g by (simp_all add: keeps_def)
  show thesis
  proof (cases x1)
    case (Some e)
    with g assms(2) have "x1 = x" "w1 = w'" by (simp_all add: bindImpl_def)
    with g Some group show thesis by auto
  next
    case None
    note p = pool_of_inv [OF inv wf [OF None]]
    show thesis
    proof (cases "acceptor_group (boot w1)")
      case None
      with g \<open>x1 = None\<close> assms(2) unset show thesis by (simp add: bindImpl_def)
    next
      case (Some n)
      obtain y new w2 where st: "startupFuncs SF (reusePort (boot w1) \<or> n > 1) n port None [] w1 = (y, new, w2)"
        by (metis prod_cases3)
      have w2: "\<exists>L. w2 = w1\<lparr>next_socket := next_socket w1 + n, listener := L\<rparr>" "sockets_with (set new) w2" "distinct new"
        using startupFuncs_ok [of "[]" w1, OF _ _ st] p(4) by simp_all
      have n: "n \<noteq> 0" using assms(2) g None Some by (auto simp: bindImpl_def split: if_splits)
      show thesis
      proof (cases y)
        case (Some e)
        with g \<open>x1 = None\<close> \<open>acceptor_group (boot w1) = Some n\<close> st n assms(2) show thesis
          by (intro failed [of w1 n e new w2]) (simp_all add: bindImpl_def)
      next
        case None
        have "pools w2 \<noteq> []" "one_pool w2" "workers_ok (pool_threads w1) w2"
          using w2(1) p(1-3) by (clarsimp, clarsimp, clarsimp)
        from each_start_socket [OF this w2(2,3)] obtain L where
          L: "each_of (start_socket SF) new w2 = (None, w2\<lparr>listener := L, boot := (boot w2)\<lparr>sockets := sockets (boot w2) @ new\<rparr>\<rparr>)"
            "sockets_with {} (w2\<lparr>listener := L, boot := (boot w2)\<lparr>sockets := sockets (boot w2) @ new\<rparr>\<rparr>)"
            "only_sockets new (listener w2) L" by blast
        have "Some (x, w') = Some (None, w2\<lparr>listener := L, boot := (boot w2)\<lparr>sockets := sockets (boot w2) @ new\<rparr>\<rparr>)"
          unfolding assms(2) [symmetric] bindImpl_def g \<open>x1 = None\<close> using Some st None n L(1) by simp
        with bound [OF g [unfolded \<open>x1 = None\<close>] Some _ st [unfolded None] _ _ L(3)] L(2) show thesis by simp
      qed
    qed
  qed
qed

lemma bindImpl_inv:
  assumes "server_inv w" "bindImpl SF nf hw port w = Some (x, w')"
  shows "keeps nf w w'"
  using assms
proof (cases rule: bindImpl_cases)
  case group
  then show ?thesis using ensure_group_inv(1) [OF assms(1), of nf hw] by simp
next
  case (unset w1)
  then show ?thesis using ensure_group_inv(1) [OF assms(1), of nf hw] by simp
next
  case (failed w1 n e new w2)
  note k = ensure_group_inv [OF assms(1), of nf hw, unfolded failed(1), simplified]
  then have inv: "server_inv w1" by (simp add: keeps_def)
  note p = pool_of_inv [OF inv k(2) [folded not_None_eq]]
  from startupFuncs_ok [of "[]" w1, OF _ _ failed(4)] p(4) obtain L where
    w2: "w2 = w1\<lparr>next_socket := next_socket w1 + n, listener := L\<rparr>" "sockets_with (set new) w2" by auto
  have "server_inv w' \<and> covers w' = covers w1"
    by (rule server_inv_sockets [where n = "next_socket w1 + n" and ss = "sockets (boot w1)"
          and L = "\<lambda>s. if s \<in> set new then None else L s", OF inv p(1)])
      (use failed(5) w2 sockets_with_close [OF w2(2)] in \<open>simp_all add: close_sockets_def cong: if_cong\<close>)
  with k(1) show ?thesis by (simp add: keeps_def)
next
  case (bound w1 n new w2 L)
  note k = ensure_group_inv [OF assms(1), of nf hw, unfolded bound(1), simplified]
  then have inv: "server_inv w1" by (simp add: keeps_def)
  note p = pool_of_inv [OF inv k(2) [folded not_None_eq]]
  from startupFuncs_ok [of "[]" w1, OF _ _ bound(4)] p(4) obtain L2 where
    w2: "w2 = w1\<lparr>next_socket := next_socket w1 + n, listener := L2\<rparr>" by auto
  have "server_inv w' \<and> covers w' = covers w1"
    by (rule server_inv_sockets [where n = "next_socket w1 + n" and ss = "sockets (boot w1) @ new" and L = L, OF inv p(1) _ bound(6)])
      (use bound(5) w2 in simp)
  with k(1) show ?thesis by (simp add: keeps_def)
qed

end

end
