(* ===== verification/Bootstrap_Server_Life.thy ===== *)
theory Bootstrap_Server_Life
  imports Bootstrap_Server_Bind
begin

text \<open>
  The life of a server: all sequences of its operations with one call of \<open>group\<close>, its destruction, and what
  goes wrong with a UDP factory or a second call of \<open>group\<close>.
\<close>

section \<open>Runs\<close>

text \<open>
  \<open>group\<close>, called by the user or by the first \<open>bind\<close>, comes at most once; executors are made before. Each
  operation leaves its state behind whether it throws or not.
\<close>

inductive server_reachable :: "ServerSocketFactory \<Rightarrow> (nat \<Rightarrow> cpp_exn option) \<Rightarrow> nat \<Rightarrow> server_world \<Rightarrow> bool"
  for SF :: ServerSocketFactory and nf :: "nat \<Rightarrow> cpp_exn option" and hw :: nat where
  fresh: "server_reachable SF nf hw ServerBootstrap_new"
| handler: "server_reachable SF nf hw w \<Longrightarrow> server_reachable SF nf hw (childHandler b w)"
| pipeline: "server_reachable SF nf hw w \<Longrightarrow> server_reachable SF nf hw (childPipeline b w)"
| reuse: "server_reachable SF nf hw w \<Longrightarrow> server_reachable SF nf hw (setReusePort b w)"
| executor: "server_reachable SF nf hw w \<Longrightarrow> workerFactory (boot w) = None \<Longrightarrow>
    server_reachable SF nf hw (snd (new_executor n w))"
| grouped: "server_reachable SF nf hw w \<Longrightarrow> workerFactory (boot w) = None \<Longrightarrow>
    server_reachable SF nf hw (snd (ServerBootstrap_group SF nf hw accept io w))"
| bound_socket: "server_reachable SF nf hw w \<Longrightarrow> server_reachable SF nf hw (snd (bind_socket SF nf hw p w))"
| bound_port: "server_reachable SF nf hw w \<Longrightarrow> bind_port SF nf hw port w = Some r \<Longrightarrow> server_reachable SF nf hw (snd r)"
| thread_starts: "server_reachable SF nf hw w \<Longrightarrow> server_reachable SF nf hw (snd (executor_start SF nf e w))"
| thread_stops: "server_reachable SF nf hw w \<Longrightarrow> server_reachable SF nf hw (snd (executor_stop SF e h w))"
| stops: "server_reachable SF nf hw w \<Longrightarrow> server_reachable SF nf hw (ServerBootstrap_stop w)"

lemma settings_frame:
  "server_inv (childHandler b w) = server_inv w" "server_inv (childPipeline b w) = server_inv w"
  "server_inv (setReusePort b w) = server_inv w" "covers (childHandler b w) = covers w"
  "covers (childPipeline b w) = covers w" "covers (setReusePort b w) = covers w"
  by (simp_all add: childHandler_def childPipeline_def setReusePort_def server_inv_def threads_ok_def one_pool_def
      workers_ok_def sockets_ok_def covers_def)

lemma keepsD:
  "server_inv w \<and> ((\<forall>h. nf h = None) \<longrightarrow> covers w) \<Longrightarrow> (server_inv w \<Longrightarrow> keeps nf w w') \<Longrightarrow>
   server_inv w' \<and> ((\<forall>h. nf h = None) \<longrightarrow> covers w')"
  unfolding keeps_def by blast

lemma new_executor_keeps:
  assumes "server_inv w" "workerFactory (boot w) = None"
  shows "keeps nf w (snd (new_executor n w))"
  using new_executor_ok [of w n] no_pool_of_inv [OF assms] assms(1) by (simp add: keeps_def server_inv_iff)

context socket_factory
begin

lemma bind_socket_inv:
  assumes "server_inv w"
  shows "keeps nf w (snd (bind_socket SF nf hw port w))"
proof -
  obtain x w1 where g: "ensure_group SF nf hw w = (x, w1)" by force
  have k: "keeps nf w w1" and wf: "x = None \<Longrightarrow> workerFactory (boot w1) \<noteq> None"
    using ensure_group_inv [OF assms, of nf hw] g by simp_all
  then have inv: "server_inv w1" by (simp add: keeps_def)
  show ?thesis
  proof (cases "x = None \<and> acceptor_group (boot w1) = Some 1")
    case False
    then show ?thesis using g k by (auto simp: bind_socket_def split: option.splits)
  next
    case True
    note p = pool_of_inv [OF inv wf [OF conjunct1 [OF True]]]
    let ?s = "next_socket w1"
    let ?l = "\<lparr>sock_tcp = True, sock_port = port, sock_reuse = False, sock_cbs = []\<rparr>"
    let ?w = "w1\<lparr>next_socket := Suc ?s, listener := (listener w1)(?s \<mapsto> ?l)\<rparr>"
    have "sockets_with {?s} ?w" using sockets_with_new [OF p(4), of ?l] by (simp add: calls_def)
    moreover have "pools ?w \<noteq> []" "one_pool ?w" "workers_ok (pool_threads w1) ?w" using p(1-3) by simp_all
    ultimately obtain L where L: "start_socket SF ?s ?w = (None, ?w\<lparr>listener := L, boot := (boot ?w)\<lparr>sockets := sockets (boot ?w) @ [?s]\<rparr>\<rparr>)"
      "sockets_with {} (?w\<lparr>listener := L, boot := (boot ?w)\<lparr>sockets := sockets (boot ?w) @ [?s]\<rparr>\<rparr>)"
      using start_socket_ok [of ?w "pool_threads w1" ?s "{}"] by auto
    let ?w2 = "?w\<lparr>listener := L, boot := (boot ?w)\<lparr>sockets := sockets (boot ?w) @ [?s]\<rparr>\<rparr>"
    have "server_inv ?w2 \<and> covers ?w2 = covers w1"
      by (rule server_inv_sockets [where n = "Suc ?s" and L = L and ss = "sockets (boot w1) @ [?s]", OF inv p(1) _ L(2)]) simp
    moreover have "snd (bind_socket SF nf hw port w) = ?w2"
      unfolding bind_socket_def g using True L(1) by (simp add: Let_def)
    ultimately show ?thesis using k by (simp add: keeps_def)
  qed
qed

lemma reachable_inv:
  "server_reachable SF nf hw w \<Longrightarrow> server_inv w \<and> ((\<forall>h. nf h = None) \<longrightarrow> covers w)"
proof (induction rule: server_reachable.induct)
  case fresh
  have "covers ServerBootstrap_new" by (simp add: covers_def pool_threads_def ServerBootstrap_new_def)
  then show ?case by (simp add: server_inv_new)
next
  case (executor w n)
  from executor.IH show ?case by (rule keepsD) (rule new_executor_keeps [OF _ executor.hyps(2)])
next
  case (grouped w accept io)
  then have inv: "server_inv w" by simp
  show ?case using group_ok [OF inv no_pool_of_inv [OF inv grouped.hyps(2)], of nf hw accept io] by blast
next
  case (bound_socket w p)
  from bound_socket.IH show ?case by (rule keepsD) (rule bind_socket_inv)
next
  case (bound_port w port r)
  have "keeps nf w (snd r)" if inv: "server_inv w"
  proof (cases "port < 0")
    case True
    with bound_port.hyps(2) inv show ?thesis by (auto simp: bind_port_def keeps_def)
  next
    case False
    with bound_port.hyps(2) have "bindImpl SF nf hw (word_of_int port) w = Some (fst r, snd r)" by (simp add: bind_port_def)
    then show ?thesis by (rule bindImpl_inv [OF inv])
  qed
  with bound_port.IH show ?case by (rule keepsD)
next
  case (thread_starts w e)
  then have inv: "server_inv w" by simp
  have "keeps nf w (snd (executor_start SF nf e w))" using executor_start_inv [OF inv, of nf e] by (simp add: keeps_def)
  with thread_starts.IH show ?case by (rule keepsD)
next
  case (thread_stops w e h)
  then have inv: "server_inv w" by simp
  from executor_stop_ok [OF this, of e h] obtain w' where
    "snd (executor_stop SF e h w) = w'" "server_inv w'" "covers w \<longrightarrow> covers w'" by auto
  with thread_stops.IH show ?case by blast
next
  case (stops w)
  from stops.IH show ?case by (rule keepsD) (rule stop_inv)
qed (simp_all add: settings_frame)

lemma each_executor_stop:
  "server_inv w \<Longrightarrow> threads w e = hs \<Longrightarrow>
   \<exists>w'. each_of (executor_stop SF e) hs w = (None, w') \<and> server_inv w' \<and> boot w' = boot w \<and> threads w' e = [] \<and>
     length (pools w') = length (pools w) \<and> pool_exec (pools w' ! 0) = pool_exec (pools w ! 0)"
proof (induction hs arbitrary: w)
  case Nil
  then show ?case by auto
next
  case (Cons h hs)
  from executor_stop_ok [OF Cons.prems(1), of e h] obtain w1 where
    w1: "executor_stop SF e h w = (None, w1)" "server_inv w1" "boot w1 = boot w"
      "threads w1 = (threads w)(e := remove1 h (threads w e))" "length (pools w1) = length (pools w)"
      "pool_exec (pools w1 ! 0) = pool_exec (pools w ! 0)" by blast
  have "threads w1 e = hs" using w1(4) Cons.prems(2) by simp
  from Cons.IH [OF w1(2) this] w1 show ?case by auto
qed

lemma destroy_ok:
  assumes "server_inv w"
  shows "\<exists>w'. ServerBootstrap_destroy SF w = (None, w') \<and> server_inv w' \<and> sockets (boot w') = [] \<and>
    (io_group (boot w) \<noteq> None \<longrightarrow> acceptors w' = [])"
proof -
  let ?w1 = "ServerBootstrap_stop w"
  have inv: "server_inv ?w1" using stop_inv [OF assms] by (simp add: keeps_def)
  have b: "sockets (boot ?w1) = []" "io_group (boot ?w1) = io_group (boot w)"
    by (simp_all add: ServerBootstrap_stop_def Let_def close_sockets_def)
  show ?thesis
  proof (cases "io_group (boot w)")
    case None
    with b inv show ?thesis by (simp add: ServerBootstrap_destroy_def ServerBootstrap_join_def)
  next
    case (Some e)
    from each_executor_stop [OF inv, of e] obtain w' where
      w': "each_of (executor_stop SF e) (threads ?w1 e) ?w1 = (None, w')" "server_inv w'" "boot w' = boot ?w1" "threads w' e = []"
        "length (pools w') = length (pools ?w1)" "pool_exec (pools w' ! 0) = pool_exec (pools ?w1 ! 0)" by blast
    have "one_pool w'" "workers_ok (pool_threads w') w'" using w'(2) by (simp_all add: server_inv_def)
    with w'(3,4) b(2) Some have "acceptors w' = []"
      by (cases "pools w'") (auto simp: one_pool_def workers_ok_def pool_threads_def)
    with w' b Some show ?thesis by (simp add: ServerBootstrap_destroy_def ServerBootstrap_join_def)
  qed
qed

end

section \<open>A server to evaluate\<close>

text \<open>Two worker threads, two acceptor threads, port 80.\<close>

definition sample_nf :: "nat \<Rightarrow> cpp_exn option" where
  "sample_nf h = None"

definition tcp :: ServerSocketFactory where
  "tcp = AsyncServerSocketFactory list_sockets"

definition server_grouped :: server_world where
  "server_grouped = snd (ServerBootstrap_group tcp sample_nf 2 (Some 2) None ServerBootstrap_new)"

definition server_bound :: server_world where
  "server_bound = snd (the (bind_port tcp sample_nf 2 80 server_grouped))"

lemma reachable_grouped: "server_reachable tcp sample_nf 2 server_grouped"
  unfolding server_grouped_def by (rule grouped [OF fresh]) (simp add: ServerBootstrap_new_def)

lemma bind_grouped: "bind_port tcp sample_nf 2 80 server_grouped = Some (None, server_bound)"
proof -
  have "fst (the (bind_port tcp sample_nf 2 80 server_grouped)) = None" "bind_port tcp sample_nf 2 80 server_grouped \<noteq> None"
    by code_simp+
  then show ?thesis by (auto simp: server_bound_def)
qed

lemma reachable_bound: "server_reachable tcp sample_nf 2 server_bound"
  using bound_port [OF reachable_grouped bind_grouped] by simp

section \<open>Properties\<close>





context socket_factory
begin

lemma failed_bind_keeps:
  assumes "sockets_with {} w" "startupFuncs SF reuse n p None [] w = (Some e, new, w2)" "w' = close_sockets new w2"
  shows "sockets (boot w') = sockets (boot w)" "s \<notin> set (sockets (boot w)) \<Longrightarrow> listener w' s = None"
proof -
  from startupFuncs_ok [of "[]" w, OF _ _ assms(2)] assms(1) obtain L where
    w2: "w2 = w\<lparr>next_socket := next_socket w + n, listener := L\<rparr>" "sockets_with (set new) w2" by auto
  show same: "sockets (boot w') = sockets (boot w)" using assms(3) w2(1) by (simp add: close_sockets_def)
  have "sockets_with {} w'" using sockets_with_close [OF w2(2)] assms(3) by simp
  then show "s \<notin> set (sockets (boot w)) \<Longrightarrow> listener w' s = None" by (simp add: sockets_with_def same)
qed

lemma bound_ports:
  assumes port: "\<And>k p r l. newSocket SF k p r = Inr l \<Longrightarrow> sock_port l \<noteq> 0 \<and> (p \<noteq> 0 \<longrightarrow> sock_port l = p)"
    and "sockets_with {} w" "startupFuncs SF reuse n p None [] w = (None, new, w2)"
    "w' = w2\<lparr>listener := L, boot := (boot w2)\<lparr>sockets := sockets (boot w2) @ new\<rparr>\<rparr>" "only_sockets new (listener w2) L"
  shows "\<exists>new q. sockets (boot w') = sockets (boot w) @ new \<and> length new = n \<and> (p \<noteq> 0 \<longrightarrow> q = p) \<and>
    (\<forall>s\<in>set new. \<exists>l. listener w' s = Some l \<and> sock_port l = q \<and> sock_reuse l = reuse)"
proof -
  from startupFuncs_ok [of "[]" w, OF _ _ assms(3)] assms(2) obtain L2 where
    w2: "w2 = w\<lparr>next_socket := next_socket w + n, listener := L2\<rparr>" "length new = n" by auto
  have "\<exists>q. (p \<noteq> 0 \<longrightarrow> q = p) \<and> (\<forall>s\<in>set new. \<exists>l. listener w2 s = Some l \<and> sock_port l = q \<and> sock_reuse l = reuse)"
    by (rule startupFuncs_port [OF _ assms(3)]) (use port in simp_all)
  then obtain q where q: "p \<noteq> 0 \<longrightarrow> q = p"
      "\<forall>s\<in>set new. \<exists>l. listener w2 s = Some l \<and> sock_port l = q \<and> sock_reuse l = reuse" by blast
  have "\<exists>l. L s = Some l \<and> sock_port l = q \<and> sock_reuse l = reuse" if "s \<in> set new" for s
    using q(2) that only_socketsD [OF assms(5), of s] by (fastforce simp: same_socket_def)
  then have "\<forall>s\<in>set new. \<exists>l. listener w' s = Some l \<and> sock_port l = q \<and> sock_reuse l = reuse" using assms(4) by simp
  moreover have "sockets (boot w') = sockets (boot w) @ new" using assms(4) w2(1) by simp
  ultimately show ?thesis using q(1) w2(2) by blast
qed

end



text \<open>
  With a UDP factory the callback of a stopped worker stays, although its acceptor is destroyed; and a
  second call of \<open>group\<close> leaves the first pool observing its executor, with workers the new sockets do not
  have: the next thread of that executor that stops throws.
\<close>

definition udp :: ServerSocketFactory where
  "udp = AsyncUDPServerSocketFactory list_sockets"

lemma udp_callback_dangles:
  "let w1 = snd (the (bind_port udp sample_nf 2 80 (snd (ServerBootstrap_group udp sample_nf 2 None None ServerBootstrap_new))));
       w2 = snd (executor_stop udp 0 1 w1) in
   map fst (sock_cbs (the (listener w2 0))) = [0, 1] \<and> acceptors w2 = [0]"
  by code_simp

lemma second_group_throws:
  "let w1 = snd (ServerBootstrap_group tcp sample_nf 2 None None server_grouped);
       w2 = snd (the (bind_port tcp sample_nf 2 80 w1)) in
   fst (executor_stop tcp 0 1 w2) = Some (RuntimeError ''accept callback not found'')"
  by code_simp

text \<open>When making an acceptor fails inside \<open>group\<close>, the pool is kept but not the groups: the next \<open>bind\<close> uses a null pointer.\<close>

lemma bind_after_failed_group:
  "let nf = (\<lambda>h. if h = 1 then Some (RuntimeError ''no certificate'') else None);
       w1 = snd (ServerBootstrap_group tcp nf 2 None None ServerBootstrap_new) in
   map_option fst (bind_port tcp nf 2 80 w1) = Some (Some Undefined)"
  by code_simp

end
