(* ===== verification/Bootstrap_Routing.thy ===== *)
theory Bootstrap_Routing
  imports Wangle_Prelude
begin

text \<open>
  \<open>bootstrap/AcceptRoutingHandler.h\<close>, \<open>bootstrap/AcceptRoutingHandler-inl.h\<close>, \<open>bootstrap/RoutingDataHandler.h\<close> and
  \<open>bootstrap/RoutingDataHandler-inl.h\<close>: accepted connections are read until their routing data is known and then
  handed to the worker the data hashes to.
\<close>

section \<open>The handlers\<close>

text \<open>
  A connection that is being routed: its socket and the bytes its routing pipeline has buffered. A
  routed connection: the acceptor it goes to, its socket, its routing data and the bytes to pass on.
\<close>

record routing_conn =
  rc_sock :: nat
  rc_buf :: "byte list"

record 'r routed =
  rd_acceptor :: nat
  rd_sock :: nat
  rd_data :: 'r
  rd_bytes :: "byte list"

text \<open>
  \<open>cached\<close> is \<open>acceptors_\<close>, a vector of plain pointers; \<open>live\<close> are the acceptors \<open>forEachWorker\<close> visits. \<open>posted\<close>
  are the functions handed to the event bases of the acceptors, \<open>delivered\<close> those that have run. The
  bytes each socket sent are recorded, and the sockets that were closed.
\<close>

record 'r routing =
  cached :: "nat list"
  routingPipelines :: "(u64 \<times> routing_conn) list"
  nextConnId :: u64
  live :: "nat list"
  posted :: "'r routed list"
  delivered :: "'r routed list"
  shut :: "nat list"
  exceptions :: nat
  next_sock :: nat
  sent :: "nat \<Rightarrow> byte list"

definition AcceptRoutingHandler_new :: "nat list \<Rightarrow> 'r routing" where
  "AcceptRoutingHandler_new ws =
     \<lparr>cached = [], routingPipelines = [], nextConnId = 0, live = ws, posted = [], delivered = [], shut = [],
      exceptions = 0, next_sock = 0, sent = (\<lambda>_. [])\<rparr>"

definition populateAcceptors :: "'r routing \<Rightarrow> 'r routing" where
  "populateAcceptors w = (if cached w \<noteq> [] then w else w\<lparr>cached := live w\<rparr>)"

text \<open>
  The map of pipelines: assigning to a key destroys what was there, and with the pipeline its socket;
  \<open>erase\<close> the same.
\<close>

definition pipelines_at :: "u64 \<Rightarrow> 'r routing \<Rightarrow> routing_conn option" where
  "pipelines_at k w = map_of (routingPipelines w) k"

definition pipelines_erase :: "u64 \<Rightarrow> 'r routing \<Rightarrow> 'r routing" where
  "pipelines_erase k w =
     w\<lparr>routingPipelines := filter (\<lambda>kv. fst kv \<noteq> k) (routingPipelines w),
       shut := (case pipelines_at k w of None \<Rightarrow> shut w | Some c \<Rightarrow> shut w @ [rc_sock c])\<rparr>"

definition pipelines_assign :: "u64 \<Rightarrow> routing_conn \<Rightarrow> 'r routing \<Rightarrow> 'r routing" where
  "pipelines_assign k c w = (let w1 = pipelines_erase k w in w1\<lparr>routingPipelines := (k, c) # routingPipelines w1\<rparr>)"

text \<open>
  \<open>read\<close>, for a connection (\<open>Some valid\<close>: whether the addresses of the socket can be had) or another
  event (\<open>None\<close>). The socket is destroyed with the pipeline when they cannot.
\<close>

definition AcceptRoutingHandler_read :: "bool option \<Rightarrow> 'r routing \<Rightarrow> 'r routing" where
  "AcceptRoutingHandler_read conn w =
     (case conn of
        None \<Rightarrow> w
      | Some valid \<Rightarrow>
          (let w1 = populateAcceptors w; s = next_sock w1; connId = nextConnId w1;
               w2 = w1\<lparr>next_sock := s + 1, nextConnId := connId + 1\<rparr> in
           if \<not> valid then w2\<lparr>shut := shut w2 @ [s]\<rparr>
           else pipelines_assign connId \<lparr>rc_sock = s, rc_buf = []\<rparr> w2))"

text \<open>
  The routing pipeline, and its socket, leave the map; an empty \<open>acceptors_\<close> makes the modulus zero, and
  a destroyed acceptor has no event base.
\<close>

definition onRoutingData :: "('r \<Rightarrow> u64) \<Rightarrow> u64 \<Rightarrow> 'r \<Rightarrow> byte list \<Rightarrow> 'r routing \<Rightarrow> cpp_exn + 'r routing" where
  "onRoutingData hash connId routingData bufQueue w =
     (case pipelines_at connId w of
        None \<Rightarrow> Inr w
      | Some c \<Rightarrow>
          (let w1 = w\<lparr>routingPipelines := filter (\<lambda>kv. fst kv \<noteq> connId) (routingPipelines w)\<rparr> in
           if cached w1 = [] then Inl Undefined
           else
             (let acceptor = cached w1 ! (unat (hash routingData) mod length (cached w1)) in
              if acceptor \<notin> set (live w1) then Inl Undefined
              else Inr (w1\<lparr>posted := posted w1 @
                     [\<lparr>rd_acceptor = acceptor, rd_sock = rc_sock c, rd_data = routingData, rd_bytes = bufQueue\<rparr>]\<rparr>))))"

definition routing_onError :: "u64 \<Rightarrow> 'r routing \<Rightarrow> 'r routing" where
  "routing_onError connId w = pipelines_erase connId (w\<lparr>exceptions := exceptions w + 1\<rparr>)"

text \<open>
  \<open>RoutingDataHandler\<close>: \<open>parse\<close> is the user's \<open>parseRoutingData\<close>, of the bytes in the queue; \<open>None\<close> leaves them
  there. \<open>read\<close> is called with the bytes the socket has just received.
\<close>

definition RoutingDataHandler_read ::
  "('r \<Rightarrow> u64) \<Rightarrow> (byte list \<Rightarrow> ('r \<times> byte list) option) \<Rightarrow> u64 \<Rightarrow> byte list \<Rightarrow> 'r routing \<Rightarrow> cpp_exn + 'r routing" where
  "RoutingDataHandler_read hash parse connId bs w =
     (case pipelines_at connId w of
        None \<Rightarrow> Inr w
      | Some c \<Rightarrow>
          (let q = rc_buf c @ bs;
               w1 = w\<lparr>sent := (sent w)(rc_sock c := sent w (rc_sock c) @ bs),
                      routingPipelines := map (\<lambda>kv. if fst kv = connId then (connId, c\<lparr>rc_buf := q\<rparr>) else kv) (routingPipelines w)\<rparr> in
           (case parse q of
              None \<Rightarrow> Inr w1
            | Some (r, rest) \<Rightarrow> onRoutingData hash connId r rest w1)))"

definition RoutingDataHandler_readEOF :: "u64 \<Rightarrow> 'r routing \<Rightarrow> 'r routing" where
  "RoutingDataHandler_readEOF connId w = routing_onError connId w"

definition RoutingDataHandler_readException :: "u64 \<Rightarrow> 'r routing \<Rightarrow> 'r routing" where
  "RoutingDataHandler_readException connId w = routing_onError connId w"

text \<open>
  The function in the event base of the acceptor: the first one posted to it. It attaches the socket,
  makes the child pipeline, adds the connection to the acceptor and passes on the bytes.
\<close>

definition run_posted :: "nat \<Rightarrow> 'r routing \<Rightarrow> cpp_exn + 'r routing" where
  "run_posted a w =
     (case filter (\<lambda>t. rd_acceptor t = a) (posted w) of
        [] \<Rightarrow> Inr w
      | t # _ \<Rightarrow>
          if a \<notin> set (live w) then Inl Undefined
          else Inr (w\<lparr>posted := remove1 t (posted w), delivered := delivered w @ [t]\<rparr>))"

section \<open>Runs\<close>

datatype routing_event =
    Accepted "bool option"
  | Bytes u64 "byte list"
  | EndOfStream u64
  | SocketError u64
  | RunPosted nat
  | WorkerStarts nat
  | WorkerStops nat

fun routing_do :: "('r \<Rightarrow> u64) \<Rightarrow> (byte list \<Rightarrow> ('r \<times> byte list) option) \<Rightarrow> routing_event \<Rightarrow> 'r routing
    \<Rightarrow> cpp_exn + 'r routing" where
  "routing_do hash parse (Accepted c) w = Inr (AcceptRoutingHandler_read c w)"
| "routing_do hash parse (Bytes k bs) w = RoutingDataHandler_read hash parse k bs w"
| "routing_do hash parse (EndOfStream k) w = Inr (RoutingDataHandler_readEOF k w)"
| "routing_do hash parse (SocketError k) w = Inr (RoutingDataHandler_readException k w)"
| "routing_do hash parse (RunPosted a) w = run_posted a w"
| "routing_do hash parse (WorkerStarts a) w = Inr (w\<lparr>live := live w @ [a]\<rparr>)"
| "routing_do hash parse (WorkerStops a) w = Inr (w\<lparr>live := filter (\<lambda>x. x \<noteq> a) (live w)\<rparr>)"

fun routing_run :: "('r \<Rightarrow> u64) \<Rightarrow> (byte list \<Rightarrow> ('r \<times> byte list) option) \<Rightarrow> routing_event list \<Rightarrow> 'r routing
    \<Rightarrow> cpp_exn + 'r routing" where
  "routing_run hash parse [] w = Inr w"
| "routing_run hash parse (ev # evs) w =
     (case routing_do hash parse ev w of Inl e \<Rightarrow> Inl e | Inr w1 \<Rightarrow> routing_run hash parse evs w1)"

end
