(* ===== verification/Bootstrap_Routing_Props.thy ===== *)
theory Bootstrap_Routing_Props
  imports Bootstrap_Routing "HOL-Library.Multiset"
begin

text \<open>Routed connections: each is in one place and goes where its routing data says.\<close>

section \<open>The invariant\<close>

text \<open>Where the sockets are; each is in one place.\<close>

definition routing_socks :: "'r routing \<Rightarrow> nat list" where
  "routing_socks w = map (\<lambda>kv. rc_sock (snd kv)) (routingPipelines w)"

definition places :: "'r routing \<Rightarrow> nat list" where
  "places w = routing_socks w @ map rd_sock (posted w) @ map rd_sock (delivered w) @ shut w"

text \<open>A routed connection went where its data hashes to, with what was parsed from all it sent.\<close>

definition routed_ok :: "('r \<Rightarrow> u64) \<Rightarrow> (byte list \<Rightarrow> ('r \<times> byte list) option) \<Rightarrow> 'r routing \<Rightarrow> 'r routed \<Rightarrow> bool" where
  "routed_ok hash parse w t \<longleftrightarrow> cached w \<noteq> [] \<and> rd_acceptor t = cached w ! (unat (hash (rd_data t)) mod length (cached w)) \<and>
     parse (sent w (rd_sock t)) = Some (rd_data t, rd_bytes t)"

definition routing_inv :: "('r \<Rightarrow> u64) \<Rightarrow> (byte list \<Rightarrow> ('r \<times> byte list) option) \<Rightarrow> 'r routing \<Rightarrow> bool" where
  "routing_inv hash parse w \<longleftrightarrow> mset (places w) = mset [0..<next_sock w] \<and> distinct (map fst (routingPipelines w)) \<and>
     (\<forall>kv\<in>set (routingPipelines w). sent w (rc_sock (snd kv)) = rc_buf (snd kv)) \<and>
     (\<forall>t\<in>set (posted w) \<union> set (delivered w). routed_ok hash parse w t) \<and> (\<forall>s\<ge>next_sock w. sent w s = [])"

lemma mset_filter_key:
  "distinct (map fst xs) \<Longrightarrow> map_of xs k = Some c \<Longrightarrow> mset xs = add_mset (k, c) (mset (filter (\<lambda>kv. fst kv \<noteq> k) xs))"
proof (induction xs)
  case Nil
  then show ?case by simp
next
  case (Cons kv xs)
  show ?case
  proof (cases "fst kv = k")
    case True
    with Cons.prems have "kv = (k, c)" "k \<notin> fst ` set xs" by (cases kv; simp)+
    moreover from this(2) have "filter (\<lambda>kv. fst kv \<noteq> k) xs = xs" by (auto simp: filter_id_conv)
    ultimately show ?thesis by (simp flip: mset_filter)
  next
    case False
    with Cons show ?thesis by (cases kv) simp
  qed
qed

lemma filter_key_absent: "map_of xs k = None \<Longrightarrow> filter (\<lambda>kv. fst kv \<noteq> k) xs = xs"
  by (auto simp: map_of_eq_None_iff filter_id_conv)

lemma socks_filter_key:
  assumes "distinct (map fst (routingPipelines w))" "pipelines_at k w = Some c"
  shows "mset (routing_socks w) =
    add_mset (rc_sock c) (mset (map (\<lambda>kv. rc_sock (snd kv)) (filter (\<lambda>kv. fst kv \<noteq> k) (routingPipelines w))))"
  using arg_cong [OF mset_filter_key [OF assms(1) assms(2) [unfolded pipelines_at_def]], of "image_mset (\<lambda>kv. rc_sock (snd kv))"]
  by (simp add: routing_socks_def)

lemma distinct_filter_key: "distinct (map fst xs) \<Longrightarrow> distinct (map fst (filter P xs))"
  by (induction xs) auto

text \<open>Erasing a pipeline closes its socket.\<close>

lemma erase_places:
  assumes "distinct (map fst (routingPipelines w))"
  shows "mset (places (pipelines_erase k w)) = mset (places w)"
proof (cases "pipelines_at k w")
  case None
  then have "filter (\<lambda>kv. fst kv \<noteq> k) (routingPipelines w) = routingPipelines w"
    by (simp add: pipelines_at_def filter_key_absent)
  with None show ?thesis by (simp add: places_def pipelines_erase_def routing_socks_def)
next
  case (Some c)
  with socks_filter_key [OF assms Some] show ?thesis by (simp add: places_def pipelines_erase_def routing_socks_def)
qed

lemma erase_inv: "routing_inv hash parse w \<Longrightarrow> routing_inv hash parse (pipelines_erase k w)"
  using erase_places [of w k]
  by (auto simp: routing_inv_def routed_ok_def distinct_filter_key) (auto simp: pipelines_erase_def distinct_filter_key)

lemma populate_inv:
  assumes "routing_inv hash parse w"
  shows "routing_inv hash parse (populateAcceptors w)"
proof (cases "cached w = []")
  case True
  with assms have none: "t \<notin> set (posted w)" "t \<notin> set (delivered w)" for t by (auto simp: routing_inv_def routed_ok_def)
  have "posted w = []" using none(1) by (cases "posted w") force+
  moreover have "delivered w = []" using none(2) by (cases "delivered w") force+
  ultimately show ?thesis using assms by (simp add: populateAcceptors_def routing_inv_def places_def routing_socks_def)
qed (use assms in \<open>simp add: populateAcceptors_def\<close>)

lemma places_distinct: "routing_inv hash parse w \<Longrightarrow> distinct (places w)"
  unfolding routing_inv_def by (metis distinct_upt mset_eq_imp_distinct_iff)

lemma places_set: "routing_inv hash parse w \<Longrightarrow> set (places w) = {0..<next_sock w}"
  unfolding routing_inv_def by (metis set_mset_mset set_upt)

text \<open>A new connection.\<close>

lemma accept_inv:
  assumes "routing_inv hash parse w"
  shows "routing_inv hash parse (AcceptRoutingHandler_read conn w)"
proof (cases conn)
  case None
  with assms show ?thesis by (simp add: AcceptRoutingHandler_read_def)
next
  case (Some valid)
  let ?w1 = "populateAcceptors w"
  let ?w2 = "?w1\<lparr>next_sock := Suc (next_sock ?w1), nextConnId := nextConnId ?w1 + 1\<rparr>"
  let ?k = "nextConnId ?w1"
  have inv: "routing_inv hash parse ?w1" by (rule populate_inv [OF assms])
  show ?thesis
  proof (cases valid)
    case False
    have "AcceptRoutingHandler_read conn w = ?w2\<lparr>shut := shut ?w2 @ [next_sock ?w1]\<rparr>"
      using Some False by (simp add: AcceptRoutingHandler_read_def Let_def)
    then show ?thesis using inv by (simp add: routing_inv_def places_def routing_socks_def routed_ok_def)
  next
    case True
    let ?w3 = "pipelines_erase ?k ?w1"
    have inv3: "routing_inv hash parse ?w3" by (rule erase_inv [OF inv])
    have "?k \<notin> fst ` set (routingPipelines ?w3)" "next_sock ?w3 = next_sock ?w1" "sent ?w3 = sent ?w1" "cached ?w3 = cached ?w1"
      by (auto simp: pipelines_erase_def)
    moreover have "AcceptRoutingHandler_read conn w = ?w3\<lparr>next_sock := Suc (next_sock ?w3), nextConnId := ?k + 1,
        routingPipelines := (?k, \<lparr>rc_sock = next_sock ?w3, rc_buf = []\<rparr>) # routingPipelines ?w3\<rparr>"
      using Some True by (simp add: AcceptRoutingHandler_read_def Let_def pipelines_assign_def pipelines_erase_def pipelines_at_def
          cong: option.case_cong)
    ultimately show ?thesis using inv3 by (simp add: routing_inv_def places_def routing_socks_def routed_ok_def)
  qed
qed

text \<open>Bytes for a connection: they are buffered, or they complete the routing data.\<close>

lemma buffer_inv:
  assumes inv: "routing_inv hash parse w" and c: "pipelines_at k w = Some c"
  shows "routing_inv hash parse (w\<lparr>sent := (sent w)(rc_sock c := sent w (rc_sock c) @ bs),
      routingPipelines := map (\<lambda>kv. if fst kv = k then (k, c\<lparr>rc_buf := rc_buf c @ bs\<rparr>) else kv) (routingPipelines w)\<rparr>)"
    (is "routing_inv hash parse ?w")
proof -
  have mem: "(k, c) \<in> set (routingPipelines w)" using c by (simp add: pipelines_at_def map_of_SomeD)
  have d: "distinct (map fst (routingPipelines w))" "distinct (places w)"
    using inv places_distinct [OF inv] by (simp_all add: routing_inv_def)
  have uniq: "kv = (k, c)" if "kv \<in> set (routingPipelines w)" "fst kv = k" for kv
    using eq_key_imp_eq_value [OF d(1), of k "snd kv" c] mem that by (cases kv) auto
  have keys: "map fst (routingPipelines ?w) = map fst (routingPipelines w)" by (simp add: comp_def)
  have socks: "routing_socks ?w = routing_socks w" using uniq by (auto simp: routing_socks_def)
  have "inj_on (\<lambda>kv. rc_sock (snd kv)) (set (routingPipelines w))" using d(2) by (simp add: places_def routing_socks_def distinct_map)
  then have other: "rc_sock (snd kv) \<noteq> rc_sock c" if "kv \<in> set (routingPipelines w)" "fst kv \<noteq> k" for kv
    using inj_onD [of "\<lambda>kv. rc_sock (snd kv)" "set (routingPipelines w)" kv "(k, c)"] mem that by auto
  have c_in: "rc_sock c \<in> set (routing_socks w)" using mem by (force simp: routing_socks_def)
  then have "rc_sock c \<in> set (places w)" by (simp add: places_def)
  then have lt: "rc_sock c < next_sock w" using places_set [OF inv] by simp
  have rd: "rd_sock t \<noteq> rc_sock c" if "t \<in> set (posted w) \<union> set (delivered w)" for t
  proof -
    from d(2) have "set (routing_socks w) \<inter> set (map rd_sock (posted w) @ map rd_sock (delivered w) @ shut w) = {}"
      by (simp only: places_def distinct_append)
    moreover have "rd_sock t \<in> set (map rd_sock (posted w) @ map rd_sock (delivered w) @ shut w)" using that by auto
    ultimately show ?thesis using c_in by (metis disjoint_iff)
  qed
  have "\<forall>kv\<in>set (routingPipelines ?w). sent ?w (rc_sock (snd kv)) = rc_buf (snd kv)"
    using inv mem other by (auto simp: routing_inv_def)
  moreover have "\<forall>t\<in>set (posted ?w) \<union> set (delivered ?w). routed_ok hash parse ?w t"
    using inv rd by (auto simp: routing_inv_def routed_ok_def)
  moreover have "\<forall>s\<ge>next_sock ?w. sent ?w s = []" using inv lt by (auto simp: routing_inv_def)
  moreover have "mset (places ?w) = mset [0..<next_sock ?w]" using inv socks by (simp add: routing_inv_def places_def)
  ultimately show ?thesis using keys d(1) by (simp only: routing_inv_def)
qed

text \<open>Where the routing data sends a connection.\<close>

lemma onRoutingData_inv:
  assumes inv: "routing_inv hash parse w" and c: "pipelines_at k w = Some c" "parse (rc_buf c) = Some (r, rest)"
    and run: "onRoutingData hash k r rest w = Inr w'"
  shows "routing_inv hash parse w'"
proof -
  have mem: "(k, c) \<in> set (routingPipelines w)" using c(1) by (simp add: pipelines_at_def map_of_SomeD)
  let ?w1 = "w\<lparr>routingPipelines := filter (\<lambda>kv. fst kv \<noteq> k) (routingPipelines w)\<rparr>"
  let ?t = "\<lparr>rd_acceptor = cached w ! (unat (hash r) mod length (cached w)), rd_sock = rc_sock c, rd_data = r, rd_bytes = rest\<rparr>"
  from run c(1) have w': "w' = ?w1\<lparr>posted := posted w @ [?t]\<rparr>" "cached w \<noteq> []"
    by (auto simp: onRoutingData_def Let_def split: if_splits)
  have d: "distinct (map fst (routingPipelines w))" using inv by (simp add: routing_inv_def)
  have "mset (places w') = mset (places w)"
    using socks_filter_key [OF d c(1)] w'(1) by (simp add: places_def routing_socks_def)
  moreover have "routed_ok hash parse w' ?t" using inv mem c(2) w' by (auto simp: routed_ok_def routing_inv_def)
  ultimately show ?thesis using inv d w'(1) by (auto simp: routing_inv_def routed_ok_def distinct_filter_key)
qed

lemma read_inv:
  assumes inv: "routing_inv hash parse w" and run: "RoutingDataHandler_read hash parse k bs w = Inr w'"
  shows "routing_inv hash parse w'"
proof (cases "pipelines_at k w")
  case None
  with assms show ?thesis by (simp add: RoutingDataHandler_read_def)
next
  case (Some c)
  let ?c = "c\<lparr>rc_buf := rc_buf c @ bs\<rparr>"
  let ?w1 = "w\<lparr>sent := (sent w)(rc_sock c := sent w (rc_sock c) @ bs),
      routingPipelines := map (\<lambda>kv. if fst kv = k then (k, ?c) else kv) (routingPipelines w)\<rparr>"
  have inv1: "routing_inv hash parse ?w1" by (rule buffer_inv [OF inv Some])
  have "map_of (map (\<lambda>kv. if fst kv = k then (k, ?c) else kv) xs) k = Some ?c" if "map_of xs k = Some c" for xs
    using that by (induction xs) (auto split: if_splits)
  then have at: "pipelines_at k ?w1 = Some ?c" using Some by (simp add: pipelines_at_def)
  show ?thesis
  proof (cases "parse (rc_buf c @ bs)")
    case None
    with run Some inv1 show ?thesis by (simp add: RoutingDataHandler_read_def Let_def)
  next
    case (Some rr)
    obtain r rest where rr: "rr = (r, rest)" by force
    have go: "onRoutingData hash k r rest ?w1 = Inr w'"
      using run \<open>pipelines_at k w = Some c\<close> Some rr by (simp add: RoutingDataHandler_read_def Let_def)
    show ?thesis by (rule onRoutingData_inv [OF inv1 at _ go]) (use Some rr in simp)
  qed
qed

lemma mset_remove1_map: "t \<in> set xs \<Longrightarrow> add_mset (f t) (mset (map f (remove1 t xs))) = mset (map f xs)"
  by (induction xs) auto

lemma posted_inv:
  assumes inv: "routing_inv hash parse w" and run: "run_posted a w = Inr w'"
  shows "routing_inv hash parse w'"
proof (cases "filter (\<lambda>t. rd_acceptor t = a) (posted w)")
  case Nil
  with assms show ?thesis by (simp add: run_posted_def)
next
  case (Cons t ts)
  then have t: "t \<in> set (posted w)" by (metis filter_is_subset list.set_intros(1) subsetD)
  from Cons run have w': "w' = w\<lparr>posted := remove1 t (posted w), delivered := delivered w @ [t]\<rparr>"
    by (simp add: run_posted_def split: if_splits)
  have "mset (places w') = mset (places w)"
    using mset_remove1_map [OF t, of rd_sock] w' by (simp add: places_def routing_socks_def)
  moreover have "set (posted w') \<union> set (delivered w') \<subseteq> set (posted w) \<union> set (delivered w)"
    using t w' set_remove1_subset [of t "posted w"] by auto
  ultimately show ?thesis using inv w' by (auto simp: routing_inv_def routed_ok_def)
qed

lemma routing_do_inv:
  assumes "routing_inv hash parse w" "routing_do hash parse ev w = Inr w'"
  shows "routing_inv hash parse w'"
proof -
  have err: "routing_inv hash parse (routing_onError k w)" for k
    unfolding routing_onError_def
    by (rule erase_inv) (use assms(1) in \<open>simp add: routing_inv_def places_def routing_socks_def routed_ok_def\<close>)
  have live: "routing_inv hash parse (w\<lparr>live := l\<rparr>)" for l
    using assms(1) by (simp add: routing_inv_def places_def routing_socks_def routed_ok_def)
  show ?thesis
  proof (cases ev)
    case (Accepted c)
    with assms accept_inv [OF assms(1), of c] show ?thesis by auto
  next
    case (Bytes k bs)
    with assms show ?thesis by (auto intro: read_inv)
  next
    case (RunPosted a)
    with assms show ?thesis by (auto intro: posted_inv)
  qed (use assms(2) err live in \<open>auto simp: RoutingDataHandler_readEOF_def RoutingDataHandler_readException_def\<close>)
qed

lemma routing_run_inv:
  "routing_inv hash parse w \<Longrightarrow> routing_run hash parse evs w = Inr w' \<Longrightarrow> routing_inv hash parse w'"
proof (induction evs arbitrary: w)
  case (Cons ev evs)
  then show ?case by (auto split: sum.splits dest: routing_do_inv)
qed simp

lemma routing_inv_new: "routing_inv hash parse (AcceptRoutingHandler_new ws)"
  by (simp add: routing_inv_def AcceptRoutingHandler_new_def places_def routing_socks_def)

section \<open>Properties\<close>

text \<open>
  C11. Every accepted connection is in exactly one place: still being routed, handed to a worker, served
  by a worker, or closed; none is lost and none is served twice, even when connection ids wrap around.
  A connection that was handed on went to the acceptor that the hash of its routing data chooses, with
  the routing data and the remaining bytes that parsing all it had sent gives.
\<close>

theorem connections_routed_once:
  assumes "routing_run hash parse evs (AcceptRoutingHandler_new ws) = Inr w"
  shows "mset (routing_socks w @ map rd_sock (posted w) @ map rd_sock (delivered w) @ shut w) = mset [0..<next_sock w] \<and>
    (\<forall>t\<in>set (posted w) \<union> set (delivered w).
       rd_acceptor t = cached w ! (unat (hash (rd_data t)) mod length (cached w)) \<and>
       parse (sent w (rd_sock t)) = Some (rd_data t, rd_bytes t))"
  using routing_run_inv [OF routing_inv_new assms] by (simp add: routing_inv_def places_def routed_ok_def)

text \<open>The first byte is the routing data; workers 5 and 6.\<close>

definition byte_parse :: "byte list \<Rightarrow> (byte \<times> byte list) option" where
  "byte_parse bs = (case bs of b # c # rest \<Rightarrow> Some (b, c # rest) | _ \<Rightarrow> None)"

definition byte_hash :: "byte \<Rightarrow> u64" where
  "byte_hash b = of_nat (unat b)"

definition routing_sample :: "routing_event list" where
  "routing_sample = [Accepted (Some True), Accepted (Some True), Bytes 0 [3], Accepted (Some False), Bytes 0 [9],
     EndOfStream 1, RunPosted 6]"

theorem connections_routed_once_witness:
  "\<exists>w. routing_run byte_hash byte_parse routing_sample (AcceptRoutingHandler_new [5, 6]) = Inr w \<and>
     map rd_sock (delivered w) = [0] \<and> map rd_acceptor (delivered w) = [6] \<and>
     mset (routing_socks w @ map rd_sock (posted w) @ map rd_sock (delivered w) @ shut w) = mset [0..<3]"
proof -
  let ?r = "routing_run byte_hash byte_parse routing_sample (AcceptRoutingHandler_new [5, 6])"
  have e: "isl ?r = False" "next_sock (projr ?r) = 3" "map rd_sock (delivered (projr ?r)) = [0]"
    "map rd_acceptor (delivered (projr ?r)) = [6]" by code_simp+
  then obtain w where w: "?r = Inr w" by (cases ?r) auto
  with connections_routed_once [OF w] e show ?thesis by simp
qed


lemma routing_empty_acceptors:
  "isl (routing_run byte_hash byte_parse [Accepted (Some True), Bytes 0 [3, 9]] (AcceptRoutingHandler_new []))"
  by code_simp

lemma routing_stopped_worker:
  "isl (routing_run byte_hash byte_parse [Accepted (Some True), WorkerStops 6, WorkerStarts 7, Accepted (Some True), Bytes 1 [3, 9]]
     (AcceptRoutingHandler_new [5, 6]))"
  by code_simp

end
