(* ===== verification/Bootstrap_Acceptor.thy ===== *)
theory Bootstrap_Acceptor
  imports Acceptor_Connections_Props Acceptor_Core
begin

text \<open>
  \<open>ServerAcceptor\<close> and \<open>ServerConnection\<close> of \<open>bootstrap/ServerBootstrap-inl.h\<close>: the acceptor that gives each accepted
  connection a pipeline, and what its connections do when the connection manager shuts down.
\<close>

section \<open>ServerConnection\<close>

datatype AcceptorException =
    UNKNOWN
  | TIMED_OUT
  | DROPPED
  | ACCEPT_STOPPED
  | DRAIN_CONN_PCT rat
  | DROP_CONN_PCT rat
  | FORCE_STOP
  | INTERNAL_ERROR

text \<open>
  What the handlers of a connection's pipeline do with an exception is the user's: \<open>closes c e\<close>, whether
  they close the pipeline, which calls \<open>deletePipeline\<close> and destroys the connection.
\<close>

definition ServerConnection_deletePipeline :: "conn_id \<Rightarrow> World \<Rightarrow> World" where
  "ServerConnection_deletePipeline c w = ManagedConnection_destroy c w"

definition pipeline_readException :: "(conn_id \<Rightarrow> AcceptorException \<Rightarrow> bool) \<Rightarrow> AcceptorException \<Rightarrow> conn_id \<Rightarrow> World \<Rightarrow> World" where
  "pipeline_readException closes e c w = (if closes c e then ServerConnection_deletePipeline c w else w)"

definition ServerConnection_timeoutExpired :: "(conn_id \<Rightarrow> AcceptorException \<Rightarrow> bool) \<Rightarrow> conn_id \<Rightarrow> World \<Rightarrow> World" where
  "ServerConnection_timeoutExpired closes c w =
     pipeline_readException closes TIMED_OUT c (upd_conn c (\<lambda>x. x\<lparr>conn_timeout := None\<rparr>) w)"

definition ServerConnection_dropConnection :: "(conn_id \<Rightarrow> AcceptorException \<Rightarrow> bool) \<Rightarrow> conn_id \<Rightarrow> World \<Rightarrow> World" where
  "ServerConnection_dropConnection closes c w = pipeline_readException closes DROPPED c w"

definition ServerConnection_notifyPendingShutdown :: "conn_id \<Rightarrow> World \<Rightarrow> World" where
  "ServerConnection_notifyPendingShutdown c w = w"

definition ServerConnection_closeWhenIdle :: "conn_id \<Rightarrow> World \<Rightarrow> World" where
  "ServerConnection_closeWhenIdle c w = w"

definition ServerConnection_isBusy :: "conn_id \<Rightarrow> World \<Rightarrow> bool" where
  "ServerConnection_isBusy c w = True"

definition ServerConnection_refreshTimeout :: "conn_id \<Rightarrow> World \<Rightarrow> World" where
  "ServerConnection_refreshTimeout c w = resetTimeout c w"

text \<open>\<open>getIdleTime\<close> is not overridden: it is always 0.\<close>

definition ServerConnection :: "(conn_id \<Rightarrow> AcceptorException \<Rightarrow> bool) \<Rightarrow> conn_ops" where
  "ServerConnection closes =
     \<lparr>do_notify = ServerConnection_notifyPendingShutdown, do_closeWhenIdle = ServerConnection_closeWhenIdle,
      do_drop = ServerConnection_dropConnection closes, is_busy = ServerConnection_isBusy, idle_time = (\<lambda>_ _. 0)\<rparr>"

section \<open>ServerAcceptor\<close>

text \<open>What is sent through the accept pipeline; \<open>default\<close> is whether the acceptor itself is its handler.\<close>

datatype accept_event =
    AcceptConn nat
  | AcceptData "byte list"
  | CONN_ADDED
  | CONN_REMOVED
  | AcceptException AcceptorException
  | AcceptSSLError

record ('w, 'a) ServerAcceptor =
  sa_base :: "('w, 'a) Acceptor"
  sa_default :: bool
  sa_pipeline :: "accept_event list"

type_synonym ('w, 'a) sa_result = "cpp_exn + ('w, 'a) ServerAcceptor"

definition accept_send :: "accept_event \<Rightarrow> ('w, 'a) ServerAcceptor \<Rightarrow> ('w, 'a) ServerAcceptor" where
  "accept_send e S = S\<lparr>sa_pipeline := sa_pipeline S @ [e]\<rparr>"

text \<open>A call of the base class.\<close>

definition on_base :: "(('w, 'a) Acceptor \<Rightarrow> cpp_exn + ('w, 'a) Acceptor) \<Rightarrow> ('w, 'a) ServerAcceptor \<Rightarrow> ('w, 'a) sa_result" where
  "on_base f S = cpp_bind (f (sa_base S)) (\<lambda>A. Inr (S\<lparr>sa_base := A\<rparr>))"

definition ServerAcceptor_new :: "bool \<Rightarrow> bool \<Rightarrow> u32 \<Rightarrow> ('w, 'a) ServerAcceptor" where
  "ServerAcceptor_new childPipelineFactory isSSL maxHandshakes =
     \<lparr>sa_base = Acceptor_new isSSL maxHandshakes, sa_default = childPipelineFactory, sa_pipeline = []\<rparr>"

definition ServerAcceptor_init :: "bool \<Rightarrow> cpp_exn + bool \<Rightarrow> nat \<Rightarrow> 'w \<Rightarrow> ('w, 'a) ServerAcceptor \<Rightarrow> ('w, 'a) sa_result" where
  "ServerAcceptor_init strictSSL contexts base w S = on_base (Acceptor_init strictSSL contexts base w) S"

text \<open>The manager's callbacks.\<close>

definition ServerAcceptor_onConnectionAdded :: "('w, 'a) ServerAcceptor \<Rightarrow> ('w, 'a) ServerAcceptor" where
  "ServerAcceptor_onConnectionAdded S = accept_send CONN_ADDED S"

definition ServerAcceptor_onConnectionRemoved :: "('w, 'a) ServerAcceptor \<Rightarrow> ('w, 'a) ServerAcceptor" where
  "ServerAcceptor_onConnectionRemoved S = accept_send CONN_REMOVED S"

text \<open>
  \<open>read\<close>, the handler at the end of the default accept pipeline: a connection gets a pipeline, a
  \<open>ServerConnection\<close> with the number \<open>c\<close> that the manager keeps, and is activated. Other events are ignored.
\<close>

definition ServerAcceptor_read :: "'w downstream_ops \<Rightarrow> (nat \<Rightarrow> nat) \<Rightarrow> accept_event \<Rightarrow> ('w, 'a) ServerAcceptor \<Rightarrow> ('w, 'a) sa_result" where
  "ServerAcceptor_read D conn_of e S =
     (case e of
        AcceptConn sock \<Rightarrow> on_base (Acceptor_addConnection D (conn_of sock)) (ServerAcceptor_onConnectionAdded S)
      | _ \<Rightarrow> Inr S)"

definition ServerAcceptor_onNewConnection :: "'w downstream_ops \<Rightarrow> (nat \<Rightarrow> nat) \<Rightarrow> nat \<Rightarrow> ('w, 'a) ServerAcceptor \<Rightarrow> ('w, 'a) sa_result" where
  "ServerAcceptor_onNewConnection D conn_of sock S =
     (let S1 = accept_send (AcceptConn sock) S in
      if sa_default S1 then ServerAcceptor_read D conn_of (AcceptConn sock) S1 else Inr S1)"

definition ServerAcceptor_acceptStopped :: "'w downstream_ops \<Rightarrow> ('w, 'a) ServerAcceptor \<Rightarrow> ('w, 'a) sa_result" where
  "ServerAcceptor_acceptStopped D S = on_base (acceptStopped D) (accept_send (AcceptException ACCEPT_STOPPED) S)"

definition ServerAcceptor_drainConnections :: "'w downstream_ops \<Rightarrow> rat \<Rightarrow> ('w, 'a) ServerAcceptor \<Rightarrow> ('w, 'a) sa_result" where
  "ServerAcceptor_drainConnections D p S =
     on_base (Acceptor_drainConnections D p) (accept_send (AcceptException (DRAIN_CONN_PCT p)) S)"

definition ServerAcceptor_dropConnections :: "'w downstream_ops \<Rightarrow> rat \<Rightarrow> ('w, 'a) ServerAcceptor \<Rightarrow> ('w, 'a) sa_result" where
  "ServerAcceptor_dropConnections D p S =
     on_base (Acceptor_dropConnections D p) (accept_send (AcceptException (DROP_CONN_PCT p)) S)"

text \<open>The base class drops all connections, which may not return.\<close>

definition ServerAcceptor_forceStop :: "'w downstream_ops \<Rightarrow> ('w, 'a) ServerAcceptor \<Rightarrow> ('w, 'a) sa_result option" where
  "ServerAcceptor_forceStop D S =
     (let S1 = accept_send (AcceptException FORCE_STOP) S in
      map_option (\<lambda>r. on_base (\<lambda>_. r) S1) (Acceptor_dropAllConnections D (sa_base S1)))"

definition ServerAcceptor_onDataAvailable :: "byte list \<Rightarrow> ('w, 'a) ServerAcceptor \<Rightarrow> ('w, 'a) ServerAcceptor" where
  "ServerAcceptor_onDataAvailable bs S = accept_send (AcceptData bs) S"

definition ServerAcceptor_sslConnectionError :: "'w downstream_ops \<Rightarrow> ('w, 'a) ServerAcceptor \<Rightarrow> ('w, 'a) sa_result" where
  "ServerAcceptor_sslConnectionError D S = on_base (sslConnectionError D) (accept_send AcceptSSLError S)"

section \<open>Shutting down\<close>

text \<open>Connections that ignore the notices of a shutdown stay with their manager.\<close>

lemma fire_conns:
  "conns (mgr (fireNotifyPendingShutdown (ServerConnection closes) c w) m) = conns (mgr w m)"
  "conns (mgr (fireCloseWhenIdle (ServerConnection closes) force c w) m) = conns (mgr w m)"
  by (simp_all add: fireNotifyPendingShutdown_def fireCloseWhenIdle_def ServerConnection_def
      ServerConnection_notifyPendingShutdown_def ServerConnection_closeWhenIdle_def log_event_def upd_conn_def)

lemma drain_loop_conns:
  "drain_loop (ServerConnection closes) m n it w = (it', w') \<Longrightarrow> conns (mgr w' k) = conns (mgr w k)"
  by (induction "ServerConnection closes" m n it w arbitrary: it' w' rule: drain_loop.induct)
    (auto simp: Let_def fire_conns split: if_splits)

lemma upd_mgr_conns: "(\<And>x. conns (f x) = conns x) \<Longrightarrow> conns (mgr (upd_mgr m f w) k) = conns (mgr w k)"
  by (simp add: upd_mgr_def)

lemma drain_next_conns: "conns (drain_next it x) = conns x"
  by (simp add: drain_next_def Let_def)

lemma drainConnections_conns:
  "drainConnections (ServerConnection closes) m w = Inr w' \<Longrightarrow> conns (mgr w' k) = conns (mgr w k)"
  by (auto simp: drainConnections_def upd_mgr_conns drain_next_conns dest: drain_loop_conns split: if_splits prod.splits)

lemma startDrain_conns:
  assumes "startDrain (ServerConnection closes) m g w = Inr w'"
  shows "conns (mgr w' k) = conns (mgr w k)"
  using drainConnections_conns [OF assms [unfolded startDrain_def], of k] by (simp add: upd_mgr_def Let_def split: if_splits)

text \<open>The steps of a shutdown: it begins, the event loop calls back, the grace period ends.\<close>

datatype shutdown_step = BeginShutdown nat | BeginDrain rat nat | LoopCallback | GraceExpired

fun shutdown_do :: "conn_ops \<Rightarrow> mgr_id \<Rightarrow> shutdown_step \<Rightarrow> World \<Rightarrow> cpp_exn + World" where
  "shutdown_do C m (BeginShutdown g) w = initiateGracefulShutdown C m g w"
| "shutdown_do C m (BeginDrain p g) w = cm_drainConnections C m p g w"
| "shutdown_do C m LoopCallback w = runLoopCallback C m w"
| "shutdown_do C m GraceExpired w = grace_timeoutExpired C m w"

fun shutdown_run :: "conn_ops \<Rightarrow> mgr_id \<Rightarrow> shutdown_step list \<Rightarrow> World \<Rightarrow> cpp_exn + World" where
  "shutdown_run C m [] w = Inr w"
| "shutdown_run C m (s # ss) w = (case shutdown_do C m s w of Inl e \<Rightarrow> Inl e | Inr w1 \<Rightarrow> shutdown_run C m ss w1)"

lemma shutdown_do_conns:
  assumes "shutdown_do (ServerConnection closes) m s w = Inr w'"
  shows "conns (mgr w' k) = conns (mgr w k)"
proof (cases s)
  case (BeginShutdown g)
  with assms startDrain_conns [of closes m g _ w' k] show ?thesis
    by (fastforce simp: initiateGracefulShutdown_def startDrainAll_def upd_mgr_conns split: if_splits)
next
  case (BeginDrain p g)
  with assms startDrain_conns [of closes m g _ w' k] show ?thesis
    by (fastforce simp: cm_drainConnections_def startDrainPartial_def upd_mgr_conns split: if_splits)
next
  case LoopCallback
  with assms drainConnections_conns [of closes m _ w' k] show ?thesis
    by (fastforce simp: runLoopCallback_def upd_mgr_conns)
next
  case GraceExpired
  with assms drainConnections_conns [of closes m _ w' k] show ?thesis
    by (fastforce simp: grace_timeoutExpired_def idleGracefulTimeoutExpired_def upd_mgr_conns Let_def split: if_splits)
qed

lemma shutdown_run_conns:
  "shutdown_run (ServerConnection closes) m ss w = Inr w' \<Longrightarrow> conns (mgr w' k) = conns (mgr w k)"
proof (induction ss arbitrary: w)
  case (Cons s ss)
  then show ?case by (auto split: sum.splits dest: shutdown_do_conns)
qed simp

section \<open>Properties\<close>

text \<open>
  C37. A graceful shutdown, full or partial, closes no connection of a server bootstrap, whatever the
  handlers of the connections do, however many times the event loop runs and when the grace period
  ends: such a connection ignores both notices. Shedding idle connections closes none either, because
  the idle time of such a connection is always 0.
\<close>

theorem server_connections_outlive_shutdown:
  assumes "shutdown_run (ServerConnection closes) m ss w = Inr w'"
  shows "conns (mgr w' m) = conns (mgr w m) \<and> dropIdleConnections (ServerConnection closes) m num w' = (0, w')"
proof -
  have "dropIdle_loop (ServerConnection closes) m num w' = (0, w')"
    by (cases num) (auto simp: ServerConnection_def split: option.splits)
  then show ?thesis using shutdown_run_conns [OF assms] by (simp add: dropIdleConnections_def)
qed

theorem server_connections_outlive_shutdown_witness:
  "\<exists>w'. shutdown_run (ServerConnection (\<lambda>_ _. True)) 0 [BeginShutdown 0] sample_world = Inr w' \<and>
     shutdownState (mgr w' 0) = CLOSE_WHEN_IDLE_COMPLETE \<and> conns (mgr w' 0) = conns (mgr sample_world 0) \<and>
     conns (mgr w' 0) \<noteq> []"
proof -
  let ?r = "shutdown_run (ServerConnection (\<lambda>_ _. True)) 0 [BeginShutdown 0] sample_world"
  have e: "isl ?r = False" "shutdownState (mgr (projr ?r) 0) = CLOSE_WHEN_IDLE_COMPLETE" "conns (mgr sample_world 0) \<noteq> []"
    by code_simp+
  then obtain w' where w': "?r = Inr w'" by (cases ?r) auto
  with server_connections_outlive_shutdown [OF w', of 0] e show ?thesis by simp
qed

text \<open>The base class sees the same calls whether it is used directly or through \<open>ServerAcceptor\<close>.\<close>

lemma on_base_refines: "map_sum id sa_base (on_base f S) = f (sa_base S)"
  by (cases "f (sa_base S)") (simp_all add: on_base_def cpp_bind_def)

lemma server_acceptor_refines:
  "map_sum id sa_base (ServerAcceptor_acceptStopped D S) = acceptStopped D (sa_base S)"
  "map_sum id sa_base (ServerAcceptor_drainConnections D p S) = Acceptor_drainConnections D p (sa_base S)"
  "map_sum id sa_base (ServerAcceptor_dropConnections D p S) = Acceptor_dropConnections D p (sa_base S)"
  "map_sum id sa_base (ServerAcceptor_sslConnectionError D S) = sslConnectionError D (sa_base S)"
  "map_option (map_sum id sa_base) (ServerAcceptor_forceStop D S) = Acceptor_dropAllConnections D (sa_base S)"
  by (simp_all add: ServerAcceptor_acceptStopped_def ServerAcceptor_drainConnections_def ServerAcceptor_dropConnections_def
      ServerAcceptor_sslConnectionError_def ServerAcceptor_forceStop_def on_base_refines accept_send_def option.map_comp comp_def
      option.map_ident)

end
