(* ===== verification/Etcd_Client.thy ===== *)
theory Etcd_Client
  imports Wangle_Prelude
begin

text \<open>
  The client for etcd in \<open>v3\<close>: the requests its actions build (\<open>v3/src/Transaction.cpp\<close> and the constructors of the
  actions), what they read from the replies (the \<open>ParseResponse\<close> methods) and the loop of a watch. The
  protocol buffers are records, the completion queue of gRPC a list of events.
\<close>

section \<open>Messages\<close>

type_synonym bytes = "byte list"
type_synonym i64 = "64 word"
type_synonym i32 = "32 word"

text \<open>The messages of etcd's protocol, as far as the client uses them; an unset field has its default.\<close>

record mvcc_kv =
  kv_key :: bytes
  kv_value :: bytes
  kv_version :: i64
  kv_mod_revision :: i64
  kv_lease :: i64

definition mvcc_kv_default :: mvcc_kv where
  "mvcc_kv_default = \<lparr>kv_key = [], kv_value = [], kv_version = 0, kv_mod_revision = 0, kv_lease = 0\<rparr>"

datatype CompareResult = EQUAL | GREATER | LESS | NOT_EQUAL

datatype CompareTarget = VERSION | MOD | VALUE

text \<open>A comparison carries one of a version, a revision and a value.\<close>

datatype CompareUnion = TargetVersion i64 | TargetMod i64 | TargetValue bytes

record Compare =
  cmp_result :: CompareResult
  cmp_target :: CompareTarget
  cmp_key :: bytes
  cmp_union :: CompareUnion

record RangeRequest =
  range_key :: bytes
  range_end :: bytes
  range_sorted :: bool

record PutRequest =
  put_key :: bytes
  put_value :: bytes
  put_lease :: i64
  put_prev_kv :: bool

record DeleteRangeRequest =
  del_key :: bytes
  del_range_end :: bytes
  del_prev_kv :: bool

datatype RequestOp =
    RequestRange RangeRequest
  | RequestPut PutRequest
  | RequestDeleteRange DeleteRangeRequest

record TxnRequest =
  txn_compare :: "Compare list"
  txn_success :: "RequestOp list"
  txn_failure :: "RequestOp list"

record RangeResponse =
  rr_revision :: i64
  rr_kvs :: "mvcc_kv list"

record PutResponse =
  pr_prev_kv :: "mvcc_kv option"

record DeleteRangeResponse =
  dr_revision :: i64
  dr_prev_kvs :: "mvcc_kv list"

datatype ResponseOp =
    ResponseRange RangeResponse
  | ResponsePut PutResponse
  | ResponseDeleteRange DeleteRangeResponse

record TxnResponse =
  tr_revision :: i64
  tr_succeeded :: bool
  tr_responses :: "ResponseOp list"

datatype EventType = PUT | DELETE

record Event =
  ev_type :: EventType
  ev_kv :: mvcc_kv
  ev_prev_kv :: "mvcc_kv option"

record WatchResponse =
  wr_revision :: i64
  wr_events :: "Event list"

record LeaseGrantResponse =
  lg_revision :: i64
  lg_id :: i64
  lg_ttl :: i64
  lg_error :: string

text \<open>The status of a call: \<open>None\<close> when it is ok.\<close>

type_synonym Status = "(i32 \<times> string) option"

section \<open>Transactions\<close>

record Transaction =
  tx_key :: bytes
  txn_request :: TxnRequest
  leasegrant_ttl :: i64

definition Transaction_new :: "bytes \<Rightarrow> Transaction" where
  "Transaction_new key = \<lparr>tx_key = key, txn_request = \<lparr>txn_compare = [], txn_success = [], txn_failure = []\<rparr>, leasegrant_ttl = 0\<rparr>"

definition add_compare :: "Compare \<Rightarrow> Transaction \<Rightarrow> Transaction" where
  "add_compare c t = t\<lparr>txn_request := (txn_request t)\<lparr>txn_compare := txn_compare (txn_request t) @ [c]\<rparr>\<rparr>"

definition add_success :: "RequestOp \<Rightarrow> Transaction \<Rightarrow> Transaction" where
  "add_success r t = t\<lparr>txn_request := (txn_request t)\<lparr>txn_success := txn_success (txn_request t) @ [r]\<rparr>\<rparr>"

definition add_failure :: "RequestOp \<Rightarrow> Transaction \<Rightarrow> Transaction" where
  "add_failure r t = t\<lparr>txn_request := (txn_request t)\<lparr>txn_failure := txn_failure (txn_request t) @ [r]\<rparr>\<rparr>"

text \<open>The three overloads of \<open>init_compare\<close>; the \<open>int\<close> is extended to 64 bits with its sign.\<close>

definition init_compare_version :: "CompareResult \<Rightarrow> CompareTarget \<Rightarrow> Transaction \<Rightarrow> Transaction" where
  "init_compare_version result target t =
     add_compare \<lparr>cmp_result = result, cmp_target = target, cmp_key = tx_key t, cmp_union = TargetVersion 0\<rparr> t"

definition init_compare_value :: "bytes \<Rightarrow> CompareResult \<Rightarrow> CompareTarget \<Rightarrow> Transaction \<Rightarrow> Transaction" where
  "init_compare_value old_value result target t =
     add_compare \<lparr>cmp_result = result, cmp_target = target, cmp_key = tx_key t, cmp_union = TargetValue old_value\<rparr> t"

definition init_compare_index :: "i32 \<Rightarrow> CompareResult \<Rightarrow> CompareTarget \<Rightarrow> Transaction \<Rightarrow> Transaction" where
  "init_compare_index old_index result target t =
     add_compare \<lparr>cmp_result = result, cmp_target = target, cmp_key = tx_key t, cmp_union = TargetMod (scast old_index)\<rparr> t"

definition get_key :: "bytes \<Rightarrow> RequestOp" where
  "get_key key = RequestRange \<lparr>range_key = key, range_end = [], range_sorted = False\<rparr>"

definition put_kv :: "bytes \<Rightarrow> bytes \<Rightarrow> i64 \<Rightarrow> RequestOp" where
  "put_kv key value leaseid = RequestPut \<lparr>put_key = key, put_value = value, put_lease = leaseid, put_prev_kv = True\<rparr>"

definition setup_basic_failure_operation :: "bytes \<Rightarrow> Transaction \<Rightarrow> Transaction" where
  "setup_basic_failure_operation key t = add_failure (get_key key) t"

definition setup_set_failure_operation :: "bytes \<Rightarrow> bytes \<Rightarrow> i64 \<Rightarrow> Transaction \<Rightarrow> Transaction" where
  "setup_set_failure_operation key value leaseid t = add_failure (get_key key) (add_failure (put_kv key value leaseid) t)"

definition setup_delete_failure_operation :: "bytes \<Rightarrow> bytes \<Rightarrow> bool \<Rightarrow> Transaction \<Rightarrow> Transaction" where
  "setup_delete_failure_operation key end_key recursive t =
     add_failure (RequestDeleteRange \<lparr>del_key = key, del_range_end = (if recursive then end_key else []), del_prev_kv = False\<rparr>)
       (add_failure (RequestRange \<lparr>range_key = key, range_end = (if recursive then end_key else []), range_sorted = recursive\<rparr>) t)"

definition setup_basic_create_sequence :: "bytes \<Rightarrow> bytes \<Rightarrow> i64 \<Rightarrow> Transaction \<Rightarrow> Transaction" where
  "setup_basic_create_sequence key value leaseid t = add_success (get_key key) (add_success (put_kv key value leaseid) t)"

definition setup_compare_and_swap_sequence :: "bytes \<Rightarrow> i64 \<Rightarrow> Transaction \<Rightarrow> Transaction" where
  "setup_compare_and_swap_sequence value leaseid t =
     add_success (get_key (tx_key t)) (add_success (put_kv (tx_key t) value leaseid) t)"

definition setup_delete_sequence :: "bytes \<Rightarrow> bytes \<Rightarrow> bool \<Rightarrow> Transaction \<Rightarrow> Transaction" where
  "setup_delete_sequence key end_key recursive t =
     add_success (RequestDeleteRange \<lparr>del_key = key, del_range_end = (if recursive then end_key else []), del_prev_kv = True\<rparr>) t"

definition setup_compare_and_delete_operation :: "bytes \<Rightarrow> Transaction \<Rightarrow> Transaction" where
  "setup_compare_and_delete_operation key t =
     add_success (RequestDeleteRange \<lparr>del_key = key, del_range_end = [], del_prev_kv = True\<rparr>) t"

definition setup_lease_grant_operation :: "i32 \<Rightarrow> Transaction \<Rightarrow> Transaction" where
  "setup_lease_grant_operation ttl t = t\<lparr>leasegrant_ttl := scast ttl\<rparr>"

section \<open>Responses\<close>

record KeyValue =
  kvs :: mvcc_kv
  ttl :: i32

definition KeyValue_new :: KeyValue where
  "KeyValue_new = \<lparr>kvs = mvcc_kv_default, ttl = 0\<rparr>"

definition KeyValue_of :: "mvcc_kv \<Rightarrow> KeyValue" where
  "KeyValue_of kv = KeyValue_new\<lparr>kvs := kv\<rparr>"

record V3Response =
  error_code :: i32
  index :: i32
  error_message :: string
  action :: string
  val :: KeyValue
  prev_value :: KeyValue
  vals :: "KeyValue list"
  prev_values :: "KeyValue list"

definition V3Response_new :: V3Response where
  "V3Response_new =
     \<lparr>error_code = 0, index = 0, error_message = [], action = [], val = KeyValue_new, prev_value = KeyValue_new,
      vals = [], prev_values = []\<rparr>"

text \<open>\<open>set_error_code\<close> and \<open>set_error_message\<close>, which always come together.\<close>

definition set_error :: "i32 \<Rightarrow> string \<Rightarrow> V3Response \<Rightarrow> V3Response" where
  "set_error code msg r = r\<lparr>error_code := code, error_message := msg\<rparr>"

definition set_action :: "string \<Rightarrow> V3Response \<Rightarrow> V3Response" where
  "set_action a r = r\<lparr>action := a\<rparr>"

definition has_values :: "V3Response \<Rightarrow> bool" where
  "has_values r \<longleftrightarrow> length (vals r) > 0"

text \<open>The revision has 64 bits, the index 32.\<close>

definition AsyncRangeResponse_ParseResponse :: "RangeResponse \<Rightarrow> bool \<Rightarrow> V3Response \<Rightarrow> V3Response" where
  "AsyncRangeResponse_ParseResponse resp isPrefix r =
     (let r1 = r\<lparr>action := ''get'', index := ucast (rr_revision resp)\<rparr> in
      if rr_kvs resp = [] then set_error 100 ''Key not found'' r1
      else
        (let r2 = r1\<lparr>vals := vals r1 @ map KeyValue_of (rr_kvs resp)\<rparr> in
         if \<not> isPrefix then r2\<lparr>val := hd (vals r2), vals := []\<rparr> else r2))"

definition AsyncDeleteRangeResponse_ParseResponse :: "bool \<Rightarrow> DeleteRangeResponse \<Rightarrow> V3Response \<Rightarrow> V3Response" where
  "AsyncDeleteRangeResponse_ParseResponse isPrefix resp r =
     (let r1 = r\<lparr>index := ucast (dr_revision resp)\<rparr> in
      if dr_prev_kvs resp = [] then set_error 100 ''Key not found'' r1
      else
        (let r2 = r1\<lparr>action := ''delete'', vals := vals r1 @ map KeyValue_of (dr_prev_kvs resp)\<rparr> in
         if \<not> isPrefix
         then r2\<lparr>prev_value := hd (vals r2), val := (hd (vals r2))\<lparr>kvs := (kvs (hd (vals r2)))\<lparr>kv_value := []\<rparr>\<rparr>, vals := []\<rparr>
         else r2))"

text \<open>One response of a transaction after the other.\<close>

fun txn_response :: "bool \<Rightarrow> ResponseOp \<Rightarrow> V3Response \<Rightarrow> V3Response" where
  "txn_response isPrefix (ResponseRange resp) r =
     (let q = AsyncRangeResponse_ParseResponse resp isPrefix V3Response_new in
      r\<lparr>error_code := error_code q, error_message := error_message q, vals := vals q, val := val q\<rparr>)"
| "txn_response isPrefix (ResponsePut resp) r =
     (case pr_prev_kv resp of
        None \<Rightarrow> r
      | Some kv \<Rightarrow> r\<lparr>prev_value := (prev_value r)\<lparr>kvs := kv\<rparr>\<rparr>)"
| "txn_response isPrefix (ResponseDeleteRange resp) r =
     (let q = AsyncDeleteRangeResponse_ParseResponse isPrefix resp V3Response_new in
      r\<lparr>prev_value := (prev_value r)\<lparr>kvs := kvs (prev_value q)\<rparr>, vals := vals q, val := val q\<rparr>)"

definition AsyncTxnResponse_ParseResponse :: "bool \<Rightarrow> TxnResponse \<Rightarrow> V3Response \<Rightarrow> V3Response" where
  "AsyncTxnResponse_ParseResponse isPrefix reply r =
     fold (txn_response isPrefix) (tr_responses reply) (r\<lparr>index := ucast (tr_revision reply)\<rparr>)"

text \<open>Only the first event of a reply is read.\<close>

definition AsyncWatchResponse_ParseResponse :: "WatchResponse \<Rightarrow> V3Response \<Rightarrow> V3Response" where
  "AsyncWatchResponse_ParseResponse reply r =
     (let r1 = r\<lparr>index := ucast (wr_revision reply)\<rparr> in
      case wr_events reply of
        [] \<Rightarrow> r1
      | e # _ \<Rightarrow>
          (let r2 = (case ev_type e of
                       PUT \<Rightarrow> r1\<lparr>action := (if kv_version (ev_kv e) = 1 then ''create'' else ''set''), val := (val r1)\<lparr>kvs := ev_kv e\<rparr>\<rparr>
                     | DELETE \<Rightarrow> r1\<lparr>action := ''delete'', val := (val r1)\<lparr>kvs := ev_kv e\<rparr>\<rparr>) in
           case ev_prev_kv e of None \<Rightarrow> r2 | Some kv \<Rightarrow> r2\<lparr>prev_value := (prev_value r2)\<lparr>kvs := kv\<rparr>\<rparr>))"

definition AsyncLeaseGrantResponse_ParseResponse :: "LeaseGrantResponse \<Rightarrow> V3Response \<Rightarrow> V3Response" where
  "AsyncLeaseGrantResponse_ParseResponse resp r =
     r\<lparr>index := ucast (lg_revision resp), val := (val r)\<lparr>kvs := (kvs (val r))\<lparr>kv_lease := lg_id resp\<rparr>, ttl := ucast (lg_ttl resp)\<rparr>,
       error_message := lg_error resp\<rparr>"

section \<open>Actions\<close>

datatype Atomicity_Type = PREV_INDEX | PREV_VALUE

record ActionParameters =
  withPrefix :: bool
  revision :: i32
  old_revision :: i32
  lease_id :: i64
  p_ttl :: i32
  key :: bytes
  p_value :: bytes
  old_value :: bytes

definition ActionParameters_new :: ActionParameters where
  "ActionParameters_new =
     \<lparr>withPrefix = False, revision = 0, old_revision = 0, lease_id = 0, p_ttl = 0, key = [], p_value = [], old_value = []\<rparr>"

text \<open>
  The end of a range of keys with a prefix: the last character plus one, a \<open>char\<close> that wraps around. For an
  empty key the character before the first is read.
\<close>

definition prefix_range_end :: "bytes \<Rightarrow> cpp_exn + bytes" where
  "prefix_range_end k = (if k = [] then Inl Undefined else Inr (butlast k @ [last k + 1]))"

definition AsyncSetAction_new :: "ActionParameters \<Rightarrow> bool \<Rightarrow> TxnRequest" where
  "AsyncSetAction_new param create =
     (let t = setup_basic_create_sequence (key param) (p_value param) (lease_id param)
                (init_compare_version EQUAL VERSION (Transaction_new (key param))) in
      txn_request
        (if create then setup_basic_failure_operation (key param) t
         else setup_set_failure_operation (key param) (p_value param) (lease_id param) t))"

definition AsyncSetAction_ParseResponse :: "ActionParameters \<Rightarrow> bool \<Rightarrow> Status \<Rightarrow> TxnResponse \<Rightarrow> V3Response" where
  "AsyncSetAction_ParseResponse param isCreate status reply =
     (case status of
        Some (code, msg) \<Rightarrow> set_error code msg V3Response_new
      | None \<Rightarrow>
          (let r = set_action (if isCreate then ''create'' else ''set'')
                     (AsyncTxnResponse_ParseResponse (withPrefix param) reply V3Response_new) in
           if \<not> tr_succeeded reply \<and> isCreate then set_error 105 ''Key already exists'' r else r))"

definition AsyncUpdateAction_new :: "ActionParameters \<Rightarrow> TxnRequest" where
  "AsyncUpdateAction_new param =
     txn_request (setup_compare_and_swap_sequence (p_value param) (lease_id param)
       (init_compare_version GREATER VERSION (Transaction_new (key param))))"

definition AsyncUpdateAction_ParseResponse :: "ActionParameters \<Rightarrow> Status \<Rightarrow> TxnResponse \<Rightarrow> V3Response" where
  "AsyncUpdateAction_ParseResponse param status reply =
     (case status of
        Some (code, msg) \<Rightarrow> set_error code msg V3Response_new
      | None \<Rightarrow>
          if tr_succeeded reply
          then set_action ''update'' (AsyncTxnResponse_ParseResponse (withPrefix param) reply V3Response_new)
          else set_error 100 ''Key not found'' V3Response_new)"

definition init_compare_of :: "ActionParameters \<Rightarrow> Atomicity_Type \<Rightarrow> Transaction \<Rightarrow> Transaction" where
  "init_compare_of param type t =
     (case type of
        PREV_VALUE \<Rightarrow> init_compare_value (old_value param) EQUAL VALUE t
      | PREV_INDEX \<Rightarrow> init_compare_index (old_revision param) EQUAL MOD t)"

definition AsyncCompareAndSwapAction_new :: "ActionParameters \<Rightarrow> Atomicity_Type \<Rightarrow> TxnRequest" where
  "AsyncCompareAndSwapAction_new param type =
     txn_request (setup_compare_and_swap_sequence (p_value param) (lease_id param)
       (setup_basic_failure_operation (key param) (init_compare_of param type (Transaction_new (key param)))))"

definition AsyncCompareAndSwapAction_ParseResponse :: "ActionParameters \<Rightarrow> Status \<Rightarrow> TxnResponse \<Rightarrow> V3Response" where
  "AsyncCompareAndSwapAction_ParseResponse param status reply =
     (case status of
        Some (code, msg) \<Rightarrow> set_error code msg V3Response_new
      | None \<Rightarrow>
          (let r = set_action ''compareAndSwap'' (AsyncTxnResponse_ParseResponse (withPrefix param) reply V3Response_new) in
           if \<not> tr_succeeded reply \<and> error_code r = 0 then set_error 101 ''Compare failed'' r else r))"

definition AsyncCompareAndDeleteAction_new :: "ActionParameters \<Rightarrow> Atomicity_Type \<Rightarrow> TxnRequest" where
  "AsyncCompareAndDeleteAction_new param type =
     txn_request (setup_basic_failure_operation (key param)
       (setup_compare_and_delete_operation (key param) (init_compare_of param type (Transaction_new (key param)))))"

definition AsyncCompareAndDeleteAction_ParseResponse :: "ActionParameters \<Rightarrow> Status \<Rightarrow> TxnResponse \<Rightarrow> V3Response" where
  "AsyncCompareAndDeleteAction_ParseResponse param status reply =
     (case status of
        Some (code, msg) \<Rightarrow> set_error code msg V3Response_new
      | None \<Rightarrow>
          (let r = set_action ''compareAndDelete'' (AsyncTxnResponse_ParseResponse (withPrefix param) reply V3Response_new) in
           if \<not> tr_succeeded reply then set_error 101 ''Compare failed'' r else r))"

definition AsyncGetAction_new :: "ActionParameters \<Rightarrow> cpp_exn + RangeRequest" where
  "AsyncGetAction_new param =
     (if withPrefix param then
        (case prefix_range_end (key param) of
           Inl e \<Rightarrow> Inl e
         | Inr end_key \<Rightarrow> Inr \<lparr>range_key = key param, range_end = end_key, range_sorted = True\<rparr>)
      else Inr \<lparr>range_key = key param, range_end = [], range_sorted = False\<rparr>)"

definition AsyncGetAction_ParseResponse :: "ActionParameters \<Rightarrow> Status \<Rightarrow> RangeResponse \<Rightarrow> V3Response" where
  "AsyncGetAction_ParseResponse param status reply =
     (case status of
        Some (code, msg) \<Rightarrow> set_error code msg V3Response_new
      | None \<Rightarrow> AsyncRangeResponse_ParseResponse reply (withPrefix param) V3Response_new)"

definition AsyncDeleteAction_new :: "ActionParameters \<Rightarrow> cpp_exn + DeleteRangeRequest" where
  "AsyncDeleteAction_new param =
     (if withPrefix param then
        (case prefix_range_end (key param) of
           Inl e \<Rightarrow> Inl e
         | Inr end_key \<Rightarrow> Inr \<lparr>del_key = key param, del_range_end = end_key, del_prev_kv = True\<rparr>)
      else Inr \<lparr>del_key = key param, del_range_end = [], del_prev_kv = True\<rparr>)"

definition AsyncDeleteAction_ParseResponse :: "ActionParameters \<Rightarrow> Status \<Rightarrow> DeleteRangeResponse \<Rightarrow> V3Response" where
  "AsyncDeleteAction_ParseResponse param status reply =
     (case status of
        Some (code, msg) \<Rightarrow> set_error code msg V3Response_new
      | None \<Rightarrow> AsyncDeleteRangeResponse_ParseResponse (withPrefix param) reply V3Response_new)"

definition AsyncLeaseGrantAction_new :: "ActionParameters \<Rightarrow> i64" where
  "AsyncLeaseGrantAction_new param = leasegrant_ttl (setup_lease_grant_operation (p_ttl param) (Transaction_new []))"

definition AsyncLeaseGrantAction_ParseResponse :: "Status \<Rightarrow> LeaseGrantResponse \<Rightarrow> V3Response" where
  "AsyncLeaseGrantAction_ParseResponse status reply =
     (case status of
        Some (code, msg) \<Rightarrow> set_error code msg V3Response_new
      | None \<Rightarrow> AsyncLeaseGrantResponse_ParseResponse reply V3Response_new)"

section \<open>Watching\<close>

text \<open>
  The calls on the stream of a watch, and the events of the completion queue: a tag, whether the
  operation succeeded and, for a read, the reply.
\<close>

datatype stream_call = StreamWrite bytes bytes i64 | StreamRead | StreamWritesDone

datatype cq_tag = TagCreate | TagWrite | TagWritesDone | TagRead

record cq_event =
  cq_tag_of :: cq_tag
  cq_ok :: bool
  cq_reply :: WatchResponse

record AsyncWatchAction =
  w_reply :: WatchResponse
  isCancelled :: bool
  w_stream :: "stream_call list"

definition stream_call :: "stream_call \<Rightarrow> AsyncWatchAction \<Rightarrow> AsyncWatchAction" where
  "stream_call c a = a\<lparr>w_stream := w_stream a @ [c]\<rparr>"

definition AsyncWatchAction_new :: "ActionParameters \<Rightarrow> cpp_exn + AsyncWatchAction" where
  "AsyncWatchAction_new param =
     (case (if withPrefix param then prefix_range_end (key param) else Inr []) of
        Inl e \<Rightarrow> Inl e
      | Inr end_key \<Rightarrow>
          Inr (stream_call StreamRead (stream_call (StreamWrite (key param) end_key (scast (revision param)))
            \<lparr>w_reply = \<lparr>wr_revision = 0, wr_events = []\<rparr>, isCancelled = False, w_stream = []\<rparr>)))"

definition AsyncWatchAction_ParseResponse :: "Status \<Rightarrow> AsyncWatchAction \<Rightarrow> V3Response" where
  "AsyncWatchAction_ParseResponse status a =
     (case status of
        Some (code, msg) \<Rightarrow> set_error code msg V3Response_new
      | None \<Rightarrow> AsyncWatchResponse_ParseResponse (w_reply a) V3Response_new)"

text \<open>\<open>waitForResponse\<close> without a callback, over the events the queue gives until it is shut down.\<close>

fun AsyncWatchAction_wait :: "cq_event list \<Rightarrow> AsyncWatchAction \<Rightarrow> AsyncWatchAction" where
  "AsyncWatchAction_wait [] a = a"
| "AsyncWatchAction_wait (ev # evs) a =
     (if \<not> cq_ok ev \<or> cq_tag_of ev = TagWritesDone then a
      else if cq_tag_of ev = TagRead then
        (let a1 = a\<lparr>w_reply := cq_reply ev\<rparr> in
         AsyncWatchAction_wait evs
           (if wr_events (w_reply a1) \<noteq> [] then stream_call StreamWritesDone a1 else stream_call StreamRead a1))
      else AsyncWatchAction_wait evs a)"

definition CancelWatch :: "AsyncWatchAction \<Rightarrow> AsyncWatchAction" where
  "CancelWatch a = (if \<not> isCancelled a then stream_call StreamWritesDone a else a)"

text \<open>With a callback: the responses it is called with, in order. The status is not set by the stream.\<close>

fun AsyncWatchAction_wait_callback :: "cq_event list \<Rightarrow> AsyncWatchAction \<Rightarrow> AsyncWatchAction \<times> V3Response list" where
  "AsyncWatchAction_wait_callback [] a = (a, [])"
| "AsyncWatchAction_wait_callback (ev # evs) a =
     (if \<not> cq_ok ev then (a, [])
      else if cq_tag_of ev = TagWritesDone then AsyncWatchAction_wait_callback evs (a\<lparr>isCancelled := True\<rparr>)
      else if cq_tag_of ev = TagRead then
        (let a1 = a\<lparr>w_reply := cq_reply ev\<rparr>;
             calls = (if wr_events (w_reply a1) \<noteq> [] then [AsyncWatchAction_ParseResponse None a1] else []) in
         (case AsyncWatchAction_wait_callback evs (stream_call StreamRead a1) of (a2, rs) \<Rightarrow> (a2, calls @ rs)))
      else AsyncWatchAction_wait_callback evs a)"

end
