(* ===== verification/Etcd_Client_Props.thy ===== *)
theory Etcd_Client_Props
  imports Etcd_Client "HOL-Library.Sublist"
begin

text \<open>
  The etcd client against a server that does what etcd documents: what each action does to the store
  and reports, which keys a prefix selects, and what a watch delivers.
\<close>

section \<open>What etcd documents\<close>

text \<open>Keys are ordered byte by byte; the store lists the keys in order.\<close>

fun lex_less :: "bytes \<Rightarrow> bytes \<Rightarrow> bool" where
  "lex_less xs [] = False"
| "lex_less [] (y # ys) = True"
| "lex_less (x # xs) (y # ys) = (x < y \<or> x = y \<and> lex_less xs ys)"

definition store_get :: "bytes \<Rightarrow> mvcc_kv list \<Rightarrow> mvcc_kv option" where
  "store_get k st = List.find (\<lambda>kv. kv_key kv = k) st"

fun store_put :: "mvcc_kv \<Rightarrow> mvcc_kv list \<Rightarrow> mvcc_kv list" where
  "store_put kv [] = [kv]"
| "store_put kv (x # xs) =
     (if kv_key kv = kv_key x then kv # xs
      else if lex_less (kv_key kv) (kv_key x) then kv # x # xs
      else x # store_put kv xs)"

text \<open>An empty end selects one key, the end \<open>[0]\<close> all keys from the first on.\<close>

definition in_range :: "bytes \<Rightarrow> bytes \<Rightarrow> bytes \<Rightarrow> bool" where
  "in_range k end_key x \<longleftrightarrow>
     (if end_key = [] then x = k else if end_key = [0] then \<not> lex_less x k else \<not> lex_less x k \<and> lex_less x end_key)"

text \<open>A key that is not there has version and revision 0, and its value compares with nothing.\<close>

definition compare_ints :: "CompareResult \<Rightarrow> i64 \<Rightarrow> i64 \<Rightarrow> bool" where
  "compare_ints res a b =
     (case res of EQUAL \<Rightarrow> a = b | NOT_EQUAL \<Rightarrow> a \<noteq> b | GREATER \<Rightarrow> sint a > sint b | LESS \<Rightarrow> sint a < sint b)"

definition compare_bytes :: "CompareResult \<Rightarrow> bytes \<Rightarrow> bytes \<Rightarrow> bool" where
  "compare_bytes res a b =
     (case res of EQUAL \<Rightarrow> a = b | NOT_EQUAL \<Rightarrow> a \<noteq> b | GREATER \<Rightarrow> lex_less b a | LESS \<Rightarrow> lex_less a b)"

definition compare_holds :: "mvcc_kv list \<Rightarrow> Compare \<Rightarrow> bool" where
  "compare_holds st c =
     (case cmp_union c of
        TargetVersion v \<Rightarrow> compare_ints (cmp_result c) (case store_get (cmp_key c) st of None \<Rightarrow> 0 | Some kv \<Rightarrow> kv_version kv) v
      | TargetMod v \<Rightarrow> compare_ints (cmp_result c) (case store_get (cmp_key c) st of None \<Rightarrow> 0 | Some kv \<Rightarrow> kv_mod_revision kv) v
      | TargetValue v \<Rightarrow> (case store_get (cmp_key c) st of None \<Rightarrow> False | Some kv \<Rightarrow> compare_bytes (cmp_result c) (kv_value kv) v))"

fun server_op :: "i64 \<Rightarrow> RequestOp \<Rightarrow> mvcc_kv list \<Rightarrow> ResponseOp \<times> mvcc_kv list" where
  "server_op at (RequestRange q) st =
     (ResponseRange \<lparr>rr_revision = at, rr_kvs = filter (\<lambda>kv. in_range (range_key q) (range_end q) (kv_key kv)) st\<rparr>, st)"
| "server_op at (RequestPut q) st =
     (let old = store_get (put_key q) st in
      (ResponsePut \<lparr>pr_prev_kv = (if put_prev_kv q then old else None)\<rparr>,
       store_put \<lparr>kv_key = put_key q, kv_value = put_value q,
         kv_version = (case old of None \<Rightarrow> 1 | Some kv \<Rightarrow> kv_version kv + 1), kv_mod_revision = at, kv_lease = put_lease q\<rparr> st))"
| "server_op at (RequestDeleteRange q) st =
     (let gone = filter (\<lambda>kv. in_range (del_key q) (del_range_end q) (kv_key kv)) st in
      (ResponseDeleteRange \<lparr>dr_revision = at, dr_prev_kvs = (if del_prev_kv q then gone else [])\<rparr>,
       filter (\<lambda>kv. \<not> in_range (del_key q) (del_range_end q) (kv_key kv)) st))"

fun server_ops :: "i64 \<Rightarrow> RequestOp list \<Rightarrow> mvcc_kv list \<Rightarrow> ResponseOp list \<times> mvcc_kv list" where
  "server_ops at [] st = ([], st)"
| "server_ops at (q # qs) st =
     (case server_op at q st of (p, st1) \<Rightarrow> (case server_ops at qs st1 of (ps, st2) \<Rightarrow> (p # ps, st2)))"

definition sorted_store :: "mvcc_kv list \<Rightarrow> bool" where
  "sorted_store st \<longleftrightarrow> sorted_wrt (\<lambda>a b. lex_less (kv_key a) (kv_key b)) st"

text \<open>
  A server: \<open>abs\<close> is its store. A transaction compares and then runs one of the two lists of requests, all
  at one revision. In the states a server is in, \<open>inv\<close>, the versions of keys are positive.
\<close>

locale etcd_server =
  fixes inv :: "'s \<Rightarrow> bool"
    and abs :: "'s \<Rightarrow> mvcc_kv list"
    and txn :: "TxnRequest \<Rightarrow> 's \<Rightarrow> TxnResponse \<times> 's"
    and range :: "RangeRequest \<Rightarrow> 's \<Rightarrow> RangeResponse"
    and delete :: "DeleteRangeRequest \<Rightarrow> 's \<Rightarrow> DeleteRangeResponse \<times> 's"
  assumes sorted: "inv s \<Longrightarrow> sorted_store (abs s)"
    and positive: "inv s \<Longrightarrow> kv \<in> set (abs s) \<Longrightarrow> 0 < sint (kv_version kv)"
    and txn_runs: "inv s \<Longrightarrow> txn r s = (resp, s') \<Longrightarrow>
      tr_succeeded resp = list_all (compare_holds (abs s)) (txn_compare r) \<and>
      server_ops (tr_revision resp) (if tr_succeeded resp then txn_success r else txn_failure r) (abs s) =
        (tr_responses resp, abs s')"
    and range_runs: "inv s \<Longrightarrow> server_op (rr_revision (range q s)) (RequestRange q) (abs s) = (ResponseRange (range q s), abs s)"
    and delete_runs: "inv s \<Longrightarrow> delete d s = (dresp, s') \<Longrightarrow>
      server_op (dr_revision dresp) (RequestDeleteRange d) (abs s) = (ResponseDeleteRange dresp, abs s')"

text \<open>A server that keeps its store and its revision.\<close>

definition simple_inv :: "i64 \<times> mvcc_kv list \<Rightarrow> bool" where
  "simple_inv s \<longleftrightarrow> sorted_store (snd s) \<and> list_all (\<lambda>kv. 0 < sint (kv_version kv)) (snd s)"

definition simple_txn :: "TxnRequest \<Rightarrow> i64 \<times> mvcc_kv list \<Rightarrow> TxnResponse \<times> i64 \<times> mvcc_kv list" where
  "simple_txn r s =
     (let ok = list_all (compare_holds (snd s)) (txn_compare r);
          (ps, st) = server_ops (fst s + 1) (if ok then txn_success r else txn_failure r) (snd s) in
      (\<lparr>tr_revision = fst s + 1, tr_succeeded = ok, tr_responses = ps\<rparr>, (fst s + 1, st)))"

definition simple_range :: "RangeRequest \<Rightarrow> i64 \<times> mvcc_kv list \<Rightarrow> RangeResponse" where
  "simple_range q s = \<lparr>rr_revision = fst s, rr_kvs = filter (\<lambda>kv. in_range (range_key q) (range_end q) (kv_key kv)) (snd s)\<rparr>"

definition simple_delete :: "DeleteRangeRequest \<Rightarrow> i64 \<times> mvcc_kv list \<Rightarrow> DeleteRangeResponse \<times> i64 \<times> mvcc_kv list" where
  "simple_delete q s =
     (let gone = filter (\<lambda>kv. in_range (del_key q) (del_range_end q) (kv_key kv)) (snd s) in
      (\<lparr>dr_revision = fst s + 1, dr_prev_kvs = (if del_prev_kv q then gone else [])\<rparr>,
       (fst s + 1, filter (\<lambda>kv. \<not> in_range (del_key q) (del_range_end q) (kv_key kv)) (snd s))))"

interpretation simple_server: etcd_server simple_inv snd simple_txn simple_range simple_delete
  by unfold_locales
    (auto simp: simple_inv_def list_all_iff simple_txn_def simple_range_def simple_delete_def Let_def
      split: prod.splits if_splits)

lemma lex_less_irrefl [simp]: "\<not> lex_less xs xs"
  by (induction xs) auto

lemma store_get_put: "store_get k (store_put kv st) = (if k = kv_key kv then Some kv else store_get k st)"
  by (induction st) (auto simp: store_get_def)

lemma store_get_mem: "store_get k st = Some kv \<Longrightarrow> kv \<in> set st \<and> kv_key kv = k"
  by (auto simp: store_get_def find_Some_iff)

lemma sorted_get:
  assumes "sorted_store st"
  shows "filter (\<lambda>kv. kv_key kv = k) st = (case store_get k st of None \<Rightarrow> [] | Some kv \<Rightarrow> [kv])"
  using assms
proof (induction st)
  case Nil
  show ?case by (simp add: store_get_def)
next
  case (Cons x st)
  show ?case
  proof (cases "kv_key x = k")
    case True
    have "kv_key y \<noteq> k" if "y \<in> set st" for y
      using Cons.prems that True by (auto simp: sorted_store_def)
    then have "filter (\<lambda>kv. kv_key kv = k) st = []" by (simp add: filter_empty_conv)
    with True show ?thesis by (simp add: store_get_def)
  next
    case False
    with Cons show ?thesis by (simp add: sorted_store_def store_get_def)
  qed
qed

lemma get_filter:
  assumes "sorted_store st"
  shows "filter (\<lambda>kv. in_range k [] (kv_key kv)) st = (case store_get k st of None \<Rightarrow> [] | Some kv \<Rightarrow> [kv])"
  using sorted_get [OF assms, of k] by (simp add: in_range_def)

lemma lex_less_trans: "lex_less a b \<Longrightarrow> lex_less b c \<Longrightarrow> lex_less a c"
proof (induction a b arbitrary: c rule: lex_less.induct)
  case (2 y ys)
  then show ?case by (cases c) auto
next
  case (3 x xs y ys)
  then show ?case by (cases c) auto
qed simp

lemma lex_less_linear: "lex_less a b \<or> a = b \<or> lex_less b a"
  by (induction a b rule: lex_less.induct) (auto simp: neq_Nil_conv, metis lex_less.simps(2) neq_Nil_conv)

lemma store_put_sorted: "sorted_store st \<Longrightarrow> sorted_store (store_put kv st)"
proof (induction st)
  case Nil
  show ?case by (simp add: sorted_store_def)
next
  case (Cons x st)
  have set: "set (store_put kv st) \<subseteq> insert kv (set st)" by (induction st) auto
  show ?case
    using Cons set lex_less_linear [of "kv_key kv" "kv_key x"]
    by (auto simp: sorted_store_def intro: lex_less_trans)
qed

lemma put_get_filter:
  assumes "sorted_store st" "kv_key kv = k"
  shows "filter (\<lambda>x. in_range k [] (kv_key x)) (store_put kv st) = [kv]"
  using get_filter [OF store_put_sorted [OF assms(1)], of k kv] assms(2) by (simp add: store_get_put)

section \<open>Set, create and update\<close>

lemmas txn_defs = Transaction_new_def add_compare_def add_success_def add_failure_def get_key_def put_kv_def
  init_compare_version_def init_compare_value_def init_compare_index_def init_compare_of_def
  setup_basic_create_sequence_def setup_basic_failure_operation_def setup_set_failure_operation_def
  setup_compare_and_swap_sequence_def setup_compare_and_delete_operation_def

lemmas parse_defs = AsyncTxnResponse_ParseResponse_def AsyncRangeResponse_ParseResponse_def
  AsyncDeleteRangeResponse_ParseResponse_def set_error_def set_action_def V3Response_new_def KeyValue_of_def KeyValue_new_def

text \<open>The store after a put of \<open>v\<close> at \<open>k\<close>, and what the client reports of it.\<close>

definition stored :: "bytes \<Rightarrow> bytes \<Rightarrow> i64 \<Rightarrow> mvcc_kv list \<Rightarrow> mvcc_kv list \<Rightarrow> V3Response \<Rightarrow> bool" where
  "stored k v lease st st' r \<longleftrightarrow> error_code r = 0 \<and>
     (\<exists>kv. kv_key kv = k \<and> kv_value kv = v \<and> kv_lease kv = lease \<and> kvs (val r) = kv \<and>
        (\<forall>x. store_get x st' = (if x = k then Some kv else store_get x st))) \<and>
     kvs (prev_value r) = (case store_get k st of None \<Rightarrow> mvcc_kv_default | Some old \<Rightarrow> old)"

context etcd_server
begin

lemma version_compare:
  assumes "inv s"
  shows "compare_holds (abs s) \<lparr>cmp_result = EQUAL, cmp_target = VERSION, cmp_key = k, cmp_union = TargetVersion 0\<rparr> \<longleftrightarrow>
      store_get k (abs s) = None"
    "compare_holds (abs s) \<lparr>cmp_result = GREATER, cmp_target = VERSION, cmp_key = k, cmp_union = TargetVersion 0\<rparr> \<longleftrightarrow>
      store_get k (abs s) \<noteq> None"
proof -
  have "0 < sint (kv_version kv)" if "store_get k (abs s) = Some kv" for kv
    using positive [OF assms] store_get_mem [OF that] by blast
  then show "compare_holds (abs s) \<lparr>cmp_result = EQUAL, cmp_target = VERSION, cmp_key = k, cmp_union = TargetVersion 0\<rparr> \<longleftrightarrow>
      store_get k (abs s) = None"
    "compare_holds (abs s) \<lparr>cmp_result = GREATER, cmp_target = VERSION, cmp_key = k, cmp_union = TargetVersion 0\<rparr> \<longleftrightarrow>
      store_get k (abs s) \<noteq> None"
    by (fastforce simp: compare_holds_def compare_ints_def split: option.splits)+
qed

lemma put_then_get:
  assumes "sorted_store st" "server_ops at [put_kv k v lease, get_key k] st = (ps, st')" "\<not> isPrefix"
  shows "stored k v lease st st' (fold (txn_response isPrefix) ps (V3Response_new\<lparr>index := i\<rparr>))"
  using assms
  by (auto simp: put_kv_def get_key_def Let_def stored_def put_get_filter parse_defs store_get_put mvcc_kv_default_def
      split: option.splits)

lemma get_only:
  assumes "sorted_store st" "server_ops at [get_key k] st = (ps, st')" "\<not> isPrefix"
  shows "st' = st \<and>
    (case store_get k st of
       None \<Rightarrow> error_code (fold (txn_response isPrefix) ps (V3Response_new\<lparr>index := i\<rparr>)) = 100
     | Some kv \<Rightarrow> error_code (fold (txn_response isPrefix) ps (V3Response_new\<lparr>index := i\<rparr>)) = 0 \<and>
         kvs (val (fold (txn_response isPrefix) ps (V3Response_new\<lparr>index := i\<rparr>))) = kv)"
  using assms by (auto simp: get_key_def get_filter parse_defs split: option.splits)

text \<open>A transaction with one comparison.\<close>

lemma txn_one:
  assumes "inv s" "txn r s = (resp, s')" "txn_compare r = [c]"
  shows "tr_succeeded resp = compare_holds (abs s) c"
    "server_ops (tr_revision resp) (if compare_holds (abs s) c then txn_success r else txn_failure r) (abs s) = (tr_responses resp, abs s')"
  using txn_runs [OF assms(1,2)] assms(3) by (simp_all split: if_splits)

lemma set_ok:
  assumes "inv s" "txn (AsyncSetAction_new p create) s = (resp, s')" "\<not> withPrefix p"
  defines "r \<equiv> AsyncSetAction_ParseResponse p create None resp"
  shows "if create \<and> store_get (key p) (abs s) \<noteq> None
    then error_code r = 105 \<and> Some (kvs (val r)) = store_get (key p) (abs s) \<and> abs s' = abs s
    else stored (key p) (p_value p) (lease_id p) (abs s) (abs s') r"
proof -
  let ?c = "\<lparr>cmp_result = EQUAL, cmp_target = VERSION, cmp_key = key p, cmp_union = TargetVersion 0\<rparr>"
  note sort = sorted [OF assms(1)]
  have c: "txn_compare (AsyncSetAction_new p create) = [?c]"
    by (simp add: AsyncSetAction_new_def txn_defs Let_def)
  have ops: "txn_success (AsyncSetAction_new p create) = [put_kv (key p) (p_value p) (lease_id p), get_key (key p)]"
    "txn_failure (AsyncSetAction_new p create) =
      (if create then [get_key (key p)] else [put_kv (key p) (p_value p) (lease_id p), get_key (key p)])"
    by (simp_all add: AsyncSetAction_new_def txn_defs Let_def)
  note run = txn_one [OF assms(1,2) c, unfolded version_compare(1) [OF assms(1)] ops]
  show ?thesis
  proof (cases "create \<and> store_get (key p) (abs s) \<noteq> None")
    case True
    then have "server_ops (tr_revision resp) [get_key (key p)] (abs s) = (tr_responses resp, abs s')" using run(2) by auto
    from get_only [OF sort this assms(3), of "ucast (tr_revision resp)"] True run(1) show ?thesis
      by (auto simp: r_def AsyncSetAction_ParseResponse_def AsyncTxnResponse_ParseResponse_def Let_def set_error_def set_action_def
          split: option.splits)
  next
    case False
    then have "server_ops (tr_revision resp) [put_kv (key p) (p_value p) (lease_id p), get_key (key p)] (abs s) =
        (tr_responses resp, abs s')" using run(2) by (auto split: if_splits)
    from put_then_get [OF sort this assms(3), of "ucast (tr_revision resp)"] False run(1) show ?thesis
      by (auto simp: r_def AsyncSetAction_ParseResponse_def AsyncTxnResponse_ParseResponse_def Let_def set_action_def stored_def)
  qed
qed

lemma update_ok:
  assumes "inv s" "txn (AsyncUpdateAction_new p) s = (resp, s')" "\<not> withPrefix p"
  defines "r \<equiv> AsyncUpdateAction_ParseResponse p None resp"
  shows "if store_get (key p) (abs s) = None then error_code r = 100 \<and> abs s' = abs s
    else stored (key p) (p_value p) (lease_id p) (abs s) (abs s') r"
proof -
  let ?c = "\<lparr>cmp_result = GREATER, cmp_target = VERSION, cmp_key = key p, cmp_union = TargetVersion 0\<rparr>"
  have c: "txn_compare (AsyncUpdateAction_new p) = [?c]" by (simp add: AsyncUpdateAction_new_def txn_defs)
  have ops: "txn_success (AsyncUpdateAction_new p) = [put_kv (key p) (p_value p) (lease_id p), get_key (key p)]"
    "txn_failure (AsyncUpdateAction_new p) = []" by (simp_all add: AsyncUpdateAction_new_def txn_defs)
  note run = txn_one [OF assms(1,2) c, unfolded version_compare(2) [OF assms(1)] ops]
  show ?thesis
  proof (cases "store_get (key p) (abs s) = None")
    case True
    with run show ?thesis by (simp add: r_def AsyncUpdateAction_ParseResponse_def set_error_def)
  next
    case False
    then have "server_ops (tr_revision resp) [put_kv (key p) (p_value p) (lease_id p), get_key (key p)] (abs s) =
        (tr_responses resp, abs s')" using run(2) by auto
    from put_then_get [OF sorted [OF assms(1)] this assms(3), of "ucast (tr_revision resp)"] False run(1) show ?thesis
      by (auto simp: r_def AsyncUpdateAction_ParseResponse_def AsyncTxnResponse_ParseResponse_def set_action_def stored_def)
  qed
qed

end

section \<open>Compare and swap, compare and delete\<close>

text \<open>When the comparison of an action holds: a missing key has revision 0 and no value.\<close>

definition matches :: "ActionParameters \<Rightarrow> Atomicity_Type \<Rightarrow> mvcc_kv list \<Rightarrow> bool" where
  "matches p type st \<longleftrightarrow>
     (case type of
        PREV_VALUE \<Rightarrow> (\<exists>kv. store_get (key p) st = Some kv \<and> kv_value kv = old_value p)
      | PREV_INDEX \<Rightarrow> (case store_get (key p) st of None \<Rightarrow> 0 | Some kv \<Rightarrow> kv_mod_revision kv) = scast (old_revision p))"

definition compare_of :: "ActionParameters \<Rightarrow> Atomicity_Type \<Rightarrow> Compare" where
  "compare_of p type = hd (txn_compare (txn_request (init_compare_of p type (Transaction_new (key p)))))"

lemma compare_of_holds: "compare_holds st (compare_of p type) = matches p type st"
  by (cases type) (auto simp: compare_of_def txn_defs compare_holds_def matches_def compare_ints_def compare_bytes_def split: option.splits)

context etcd_server
begin

lemma compare_and_swap_ok:
  assumes "inv s" "txn (AsyncCompareAndSwapAction_new p type) s = (resp, s')" "\<not> withPrefix p"
  defines "r \<equiv> AsyncCompareAndSwapAction_ParseResponse p None resp"
  shows "if matches p type (abs s) then stored (key p) (p_value p) (lease_id p) (abs s) (abs s') r
    else abs s' = abs s \<and>
      (case store_get (key p) (abs s) of None \<Rightarrow> error_code r = 100 | Some kv \<Rightarrow> error_code r = 101 \<and> kvs (val r) = kv)"
proof -
  note sort = sorted [OF assms(1)]
  have c: "txn_compare (AsyncCompareAndSwapAction_new p type) = [compare_of p type]"
    by (cases type) (simp_all add: AsyncCompareAndSwapAction_new_def txn_defs compare_of_def)
  have ops: "txn_success (AsyncCompareAndSwapAction_new p type) = [put_kv (key p) (p_value p) (lease_id p), get_key (key p)]"
    "txn_failure (AsyncCompareAndSwapAction_new p type) = [get_key (key p)]"
    by (cases type; simp add: AsyncCompareAndSwapAction_new_def txn_defs)+
  note run = txn_one [OF assms(1,2) c, unfolded compare_of_holds ops]
  show ?thesis
  proof (cases "matches p type (abs s)")
    case True
    then have "server_ops (tr_revision resp) [put_kv (key p) (p_value p) (lease_id p), get_key (key p)] (abs s) =
        (tr_responses resp, abs s')" using run(2) by auto
    from put_then_get [OF sort this assms(3), of "ucast (tr_revision resp)"] True run(1) show ?thesis
      by (auto simp: r_def AsyncCompareAndSwapAction_ParseResponse_def AsyncTxnResponse_ParseResponse_def Let_def set_action_def stored_def)
  next
    case False
    then have "server_ops (tr_revision resp) [get_key (key p)] (abs s) = (tr_responses resp, abs s')" using run(2) by auto
    from get_only [OF sort this assms(3), of "ucast (tr_revision resp)"] False run(1) show ?thesis
      by (auto simp: r_def AsyncCompareAndSwapAction_ParseResponse_def AsyncTxnResponse_ParseResponse_def Let_def set_error_def
          set_action_def split: option.splits)
  qed
qed

lemma compare_and_delete_ok:
  assumes "inv s" "txn (AsyncCompareAndDeleteAction_new p type) s = (resp, s')" "\<not> withPrefix p"
  defines "r \<equiv> AsyncCompareAndDeleteAction_ParseResponse p None resp"
  shows "if matches p type (abs s)
    then error_code r = 0 \<and> kvs (prev_value r) = (case store_get (key p) (abs s) of None \<Rightarrow> mvcc_kv_default | Some kv \<Rightarrow> kv) \<and>
      (\<forall>x. store_get x (abs s') = (if x = key p then None else store_get x (abs s)))
    else error_code r = 101 \<and> abs s' = abs s"
proof -
  note sort = sorted [OF assms(1)]
  let ?del = "RequestDeleteRange \<lparr>del_key = key p, del_range_end = [], del_prev_kv = True\<rparr>"
  have c: "txn_compare (AsyncCompareAndDeleteAction_new p type) = [compare_of p type]"
    by (cases type) (simp_all add: AsyncCompareAndDeleteAction_new_def txn_defs compare_of_def)
  have ops: "txn_success (AsyncCompareAndDeleteAction_new p type) = [?del]"
    "txn_failure (AsyncCompareAndDeleteAction_new p type) = [get_key (key p)]"
    by (cases type; simp add: AsyncCompareAndDeleteAction_new_def txn_defs)+
  note run = txn_one [OF assms(1,2) c, unfolded compare_of_holds ops]
  have gone: "store_get x (filter (\<lambda>kv. \<not> in_range k [] (kv_key kv)) st) = (if x = k then None else store_get x st)" for x k st
    by (induction st) (auto simp: store_get_def in_range_def)
  show ?thesis
  proof (cases "matches p type (abs s)")
    case True
    then have "(tr_responses resp, abs s') = server_ops (tr_revision resp) [?del] (abs s)" using run(2) by auto
    then have "tr_responses resp = [ResponseDeleteRange \<lparr>dr_revision = tr_revision resp,
          dr_prev_kvs = case store_get (key p) (abs s) of None \<Rightarrow> [] | Some kv \<Rightarrow> [kv]\<rparr>]"
        "abs s' = filter (\<lambda>kv. \<not> in_range (key p) [] (kv_key kv)) (abs s)"
      by (simp_all add: get_filter [OF sort])
    with True run(1) assms(3) show ?thesis
      by (auto simp: r_def AsyncCompareAndDeleteAction_ParseResponse_def Let_def parse_defs get_filter [OF sort] gone
          mvcc_kv_default_def split: option.splits)
  next
    case False
    then have "server_ops (tr_revision resp) [get_key (key p)] (abs s) = (tr_responses resp, abs s')" using run(2) by auto
    from get_only [OF sort this assms(3)] False run(1) show ?thesis
      by (auto simp: r_def AsyncCompareAndDeleteAction_ParseResponse_def Let_def set_error_def)
  qed
qed

end

section \<open>Prefixes\<close>

text \<open>Between a key and the key with its last byte increased there are the keys with that prefix.\<close>

lemma byte_less_inc:
  fixes b c :: byte
  assumes "b \<noteq> 255"
  shows "c < b + 1 \<longleftrightarrow> c \<le> b"
proof -
  have "b = word_of_nat (unat b)" by simp
  with assms have "unat b \<noteq> 255" by (metis of_nat_numeral)
  moreover have "unat b < 256" using unsigned_less [of b, where ?'a = nat] by simp
  ultimately have "unat (b + 1) = Suc (unat b)" by (simp add: unat_word_ariths)
  then show ?thesis by (simp add: word_less_nat_alt word_le_nat_alt less_Suc_eq_le)
qed

lemma between_prefix:
  fixes b :: byte
  assumes "b \<noteq> 255"
  shows "\<not> lex_less x (k @ [b]) \<and> lex_less x (k @ [b + 1]) \<longleftrightarrow> prefix (k @ [b]) x"
proof (induction k arbitrary: x)
  case Nil
  show ?case
  proof (cases x)
    case (Cons c x')
    have "\<not> lex_less x' []" by (cases x') simp_all
    with Cons byte_less_inc [OF assms, of c] show ?thesis by auto
  qed simp
next
  case (Cons a k)
  show ?case
  proof (cases x)
    case (Cons c x')
    with Cons.IH [of x'] show ?thesis by auto
  qed simp
qed

text \<open>The range that the client asks for: all the keys that start with the key, when its last byte can be
increased. At the byte 255 the end wraps to 0: for a key of one byte that is the end which means \<open>everything from
the key on\<close>, for a longer one it lies before the key and the range is empty.\<close>

lemma prefix_range_end_snoc: "prefix_range_end (k @ [b]) = Inr (k @ [b + 1])"
  by (simp add: prefix_range_end_def)

lemma in_prefix_range:
  assumes "b \<noteq> 255"
  shows "in_range (k @ [b]) (k @ [b + 1]) x \<longleftrightarrow> prefix (k @ [b]) x"
proof -
  have "b + 1 \<noteq> 0" using byte_less_inc [OF assms, of b] by (metis order_refl word_zero_le not_less)
  then show ?thesis using between_prefix [OF assms(1), of x k] by (auto simp: in_range_def append_eq_Cons_conv)
qed

lemma prefix_range:
  assumes "k \<noteq> []" "last k \<noteq> 255"
  obtains e where "prefix_range_end k = Inr e" "\<And>x. in_range k e x = prefix k x"
proof -
  have "prefix_range_end k = Inr (butlast k @ [last k + 1])" using assms(1) by (simp add: prefix_range_end_def)
  moreover have "in_range k (butlast k @ [last k + 1]) x = prefix k x" for x
    using in_prefix_range [OF assms(2), of "butlast k" x] assms(1) by simp
  ultimately show thesis by (rule that)
qed

context etcd_server
begin

lemma get_prefix_ok:
  assumes "inv s" "withPrefix p" "key p \<noteq> []" "last (key p) \<noteq> 255"
  defines "found \<equiv> filter (\<lambda>kv. prefix (key p) (kv_key kv)) (abs s)"
  obtains q where "AsyncGetAction_new p = Inr q"
    "map kvs (vals (AsyncGetAction_ParseResponse p None (range q s))) = found"
    "error_code (AsyncGetAction_ParseResponse p None (range q s)) = (if found = [] then 100 else 0)"
proof -
  from prefix_range [OF assms(3,4)] obtain e where e: "prefix_range_end (key p) = Inr e" "\<And>x. in_range (key p) e x = prefix (key p) x"
    by blast
  let ?q = "\<lparr>range_key = key p, range_end = e, range_sorted = True\<rparr>"
  have "rr_kvs (range ?q s) = found"
    using range_runs [OF assms(1), of ?q] by (cases "range ?q s") (simp add: found_def e(2))
  then show thesis
    using assms(2) by (intro that [of ?q]) (simp_all add: AsyncGetAction_new_def e(1) AsyncGetAction_ParseResponse_def parse_defs Let_def comp_def)
qed

lemma delete_prefix_ok:
  assumes "inv s" "withPrefix p" "key p \<noteq> []" "last (key p) \<noteq> 255"
  defines "found \<equiv> filter (\<lambda>kv. prefix (key p) (kv_key kv)) (abs s)"
  obtains q where "AsyncDeleteAction_new p = Inr q"
    "map kvs (vals (AsyncDeleteAction_ParseResponse p None (fst (delete q s)))) = found"
    "abs (snd (delete q s)) = filter (\<lambda>kv. \<not> prefix (key p) (kv_key kv)) (abs s)"
proof -
  from prefix_range [OF assms(3,4)] obtain e where e: "prefix_range_end (key p) = Inr e" "\<And>x. in_range (key p) e x = prefix (key p) x"
    by blast
  let ?q = "\<lparr>del_key = key p, del_range_end = e, del_prev_kv = True\<rparr>"
  obtain resp s' where d: "delete ?q s = (resp, s')" by fastforce
  have "dr_prev_kvs resp = found" "abs s' = filter (\<lambda>kv. \<not> prefix (key p) (kv_key kv)) (abs s)"
    using delete_runs [OF assms(1) d] by (cases resp; simp add: found_def e(2) Let_def)+
  then show thesis
    using assms(2) by (intro that [of ?q])
      (simp_all add: AsyncDeleteAction_new_def e(1) d AsyncDeleteAction_ParseResponse_def parse_defs Let_def comp_def)
qed

end

section \<open>Watches\<close>

text \<open>The replies that a watch delivers: those of the reads before the first event that is not ok.\<close>

definition replies :: "cq_event list \<Rightarrow> WatchResponse list" where
  "replies evs = map cq_reply (filter (\<lambda>ev. cq_tag_of ev = TagRead) (takeWhile cq_ok evs))"

lemma watch_calls:
  "snd (AsyncWatchAction_wait_callback evs a) =
     map (\<lambda>w. AsyncWatchResponse_ParseResponse w V3Response_new) (filter (\<lambda>w. wr_events w \<noteq> []) (replies evs))"
  by (induction evs a rule: AsyncWatchAction_wait_callback.induct)
    (auto simp: replies_def AsyncWatchAction_ParseResponse_def stream_call_def Let_def split: prod.splits)

lemma watch_reads:
  "w_stream (fst (AsyncWatchAction_wait_callback evs a)) = w_stream a @ replicate (length (replies evs)) StreamRead"
proof (induction evs a rule: AsyncWatchAction_wait_callback.induct)
  case (2 ev evs a)
  show ?case
    using 2 by (cases "cq_tag_of ev") (auto simp: replies_def stream_call_def Let_def split: prod.splits)
qed (simp add: replies_def)

section \<open>The properties\<close>

text \<open>
  C39. Setting, creating and updating one key, against a server that keeps the documented contract of etcd's
  transactions: \<open>set\<close> stores the value with its lease and reports it together with the old one, \<open>create\<close>
  does so only for a key that is not there and otherwise leaves the store alone and reports error 105 with the value
  that is there, and \<open>update\<close> stores only over a key that is there and otherwise reports error 100.
\<close>

theorem etcd_set_update:
  assumes "etcd_server ok ab txn rng del" "ok s" "\<not> withPrefix p"
  shows "(case txn (AsyncSetAction_new p create) s of (resp, s') \<Rightarrow>
      (let r = AsyncSetAction_ParseResponse p create None resp in
       if create \<and> store_get (key p) (ab s) \<noteq> None
       then error_code r = 105 \<and> Some (kvs (val r)) = store_get (key p) (ab s) \<and> ab s' = ab s
       else stored (key p) (p_value p) (lease_id p) (ab s) (ab s') r)) \<and>
    (case txn (AsyncUpdateAction_new p) s of (resp, s') \<Rightarrow>
      (let r = AsyncUpdateAction_ParseResponse p None resp in
       if store_get (key p) (ab s) = None then error_code r = 100 \<and> ab s' = ab s
       else stored (key p) (p_value p) (lease_id p) (ab s) (ab s') r))"
  unfolding Let_def split_beta
  by (rule conjI [OF etcd_server.set_ok [OF assms(1,2) surjective_pairing assms(3)]
    etcd_server.update_ok [OF assms(1,2) surjective_pairing assms(3)]])

text \<open>The key \<open>a\<close> with value 7 at revision 5.\<close>

definition etcd_kv :: mvcc_kv where
  "etcd_kv = \<lparr>kv_key = [97], kv_value = [7], kv_version = 1, kv_mod_revision = 5, kv_lease = 0\<rparr>"

definition etcd_param :: "bytes \<Rightarrow> bool \<Rightarrow> ActionParameters" where
  "etcd_param k isPrefix = \<lparr>withPrefix = isPrefix, revision = 0, old_revision = 5, lease_id = 0, p_ttl = 0, key = k,
     p_value = [8], old_value = [7]\<rparr>"

lemma etcd_kv_inv: "simple_inv (5, [etcd_kv])"
  by code_simp

theorem etcd_set_update_witness:
  "(case simple_txn (AsyncSetAction_new (etcd_param [97] False) True) (5, [etcd_kv]) of (resp, s') \<Rightarrow>
      error_code (AsyncSetAction_ParseResponse (etcd_param [97] False) True None resp) = 105)"
proof -
  have p: "\<not> withPrefix (etcd_param [97] False)" by (simp add: etcd_param_def)
  have "store_get (key (etcd_param [97] False)) (snd (5, [etcd_kv])) \<noteq> None"
    by (simp add: etcd_param_def etcd_kv_def store_get_def)
  with etcd_set_update [OF simple_server.etcd_server_axioms etcd_kv_inv p, of True] show ?thesis
    by (auto simp: Let_def split: prod.splits)
qed

text \<open>
  C38. Compare-and-swap stores the new value exactly when the key has the expected value, or the expected
  revision, where a key that is not there has revision 0; otherwise the store is unchanged and the error is 100 for a
  missing key and 101, with the value that is there, for another. Compare-and-delete removes the key and no
  other exactly when the comparison holds, and reports what it removed; otherwise the error is 101.
\<close>

theorem etcd_compare_swap_delete:
  assumes "etcd_server ok ab txn rng del" "ok s" "\<not> withPrefix p"
  shows "(case txn (AsyncCompareAndSwapAction_new p type) s of (resp, s') \<Rightarrow>
      (let r = AsyncCompareAndSwapAction_ParseResponse p None resp in
       if matches p type (ab s) then stored (key p) (p_value p) (lease_id p) (ab s) (ab s') r
       else ab s' = ab s \<and>
         (case store_get (key p) (ab s) of None \<Rightarrow> error_code r = 100 | Some kv \<Rightarrow> error_code r = 101 \<and> kvs (val r) = kv))) \<and>
    (case txn (AsyncCompareAndDeleteAction_new p type) s of (resp, s') \<Rightarrow>
      (let r = AsyncCompareAndDeleteAction_ParseResponse p None resp in
       if matches p type (ab s)
       then error_code r = 0 \<and> kvs (prev_value r) = (case store_get (key p) (ab s) of None \<Rightarrow> mvcc_kv_default | Some kv \<Rightarrow> kv) \<and>
         (\<forall>x. store_get x (ab s') = (if x = key p then None else store_get x (ab s)))
       else error_code r = 101 \<and> ab s' = ab s))"
  unfolding Let_def split_beta
  by (rule conjI [OF etcd_server.compare_and_swap_ok [OF assms(1,2) surjective_pairing assms(3)]
    etcd_server.compare_and_delete_ok [OF assms(1,2) surjective_pairing assms(3)]])

theorem etcd_compare_swap_delete_witness:
  "(case simple_txn (AsyncCompareAndSwapAction_new (etcd_param [97] False) PREV_INDEX) (5, [etcd_kv]) of (resp, s') \<Rightarrow>
      stored [97] [8] 0 [etcd_kv] (snd s') (AsyncCompareAndSwapAction_ParseResponse (etcd_param [97] False) None resp))"
proof -
  have p: "\<not> withPrefix (etcd_param [97] False)" by (simp add: etcd_param_def)
  have "matches (etcd_param [97] False) PREV_INDEX (snd (5, [etcd_kv]))"
    by (simp add: matches_def etcd_param_def etcd_kv_def store_get_def)
  with etcd_compare_swap_delete [OF simple_server.etcd_server_axioms etcd_kv_inv p, of PREV_INDEX] show ?thesis
    by (auto simp: Let_def etcd_param_def split: prod.splits)
qed

text \<open>
  C40. Reading or deleting a directory: for a key whose last byte is not 255 the range that the client asks for, from the
  key to the key with its last byte increased, is the set of keys with that prefix, so a get returns exactly
  these in the order of the store, or error 100 when there are none, and a delete removes exactly these and
  returns them.
\<close>

theorem etcd_prefix_actions:
  assumes "etcd_server ok ab txn rng del" "ok s" "withPrefix p" "key p \<noteq> []" "last (key p) \<noteq> 255"
  shows "(\<exists>q. AsyncGetAction_new p = Inr q \<and>
      (let r = AsyncGetAction_ParseResponse p None (rng q s); found = filter (\<lambda>kv. prefix (key p) (kv_key kv)) (ab s) in
       map kvs (vals r) = found \<and> error_code r = (if found = [] then 100 else 0))) \<and>
    (\<exists>q. AsyncDeleteAction_new p = Inr q \<and>
      (case del q s of (resp, s') \<Rightarrow>
       map kvs (vals (AsyncDeleteAction_ParseResponse p None resp)) = filter (\<lambda>kv. prefix (key p) (kv_key kv)) (ab s) \<and>
       ab s' = filter (\<lambda>kv. \<not> prefix (key p) (kv_key kv)) (ab s)))"
proof (intro conjI)
  show "\<exists>q. AsyncGetAction_new p = Inr q \<and>
      (let r = AsyncGetAction_ParseResponse p None (rng q s); found = filter (\<lambda>kv. prefix (key p) (kv_key kv)) (ab s) in
       map kvs (vals r) = found \<and> error_code r = (if found = [] then 100 else 0))"
    unfolding Let_def using etcd_server.get_prefix_ok [OF assms] by blast
  show "\<exists>q. AsyncDeleteAction_new p = Inr q \<and>
      (case del q s of (resp, s') \<Rightarrow>
       map kvs (vals (AsyncDeleteAction_ParseResponse p None resp)) = filter (\<lambda>kv. prefix (key p) (kv_key kv)) (ab s) \<and>
       ab s' = filter (\<lambda>kv. \<not> prefix (key p) (kv_key kv)) (ab s))"
    unfolding split_beta using etcd_server.delete_prefix_ok [OF assms] by blast
qed

theorem etcd_prefix_actions_witness:
  "\<exists>q. AsyncGetAction_new (etcd_param [97] True) = Inr q \<and>
     map kvs (vals (AsyncGetAction_ParseResponse (etcd_param [97] True) None (simple_range q (5, [etcd_kv])))) = [etcd_kv]"
proof -
  have p: "withPrefix (etcd_param [97] True)" "key (etcd_param [97] True) \<noteq> []" "last (key (etcd_param [97] True)) \<noteq> 255"
    by (simp_all add: etcd_param_def)
  have "filter (\<lambda>kv. prefix (key (etcd_param [97] True)) (kv_key kv)) (snd (5, [etcd_kv])) = [etcd_kv]"
    by (simp add: etcd_param_def etcd_kv_def)
  with etcd_prefix_actions [OF simple_server.etcd_server_axioms etcd_kv_inv p] show ?thesis
    unfolding Let_def by auto
qed

text \<open>
  A watch with a callback: for the events of the completion queue, the callback is called once for each
  reply with events among the reads before the first event that is not ok, in their order and with the first event of the
  reply, and each reply is followed by the next read on the stream.
\<close>

theorem etcd_watch_callbacks:
  "snd (AsyncWatchAction_wait_callback evs a) =
     map (\<lambda>w. AsyncWatchResponse_ParseResponse w V3Response_new) (filter (\<lambda>w. wr_events w \<noteq> []) (replies evs)) \<and>
   w_stream (fst (AsyncWatchAction_wait_callback evs a)) = w_stream a @ replicate (length (replies evs)) StreamRead"
  by (simp add: watch_calls watch_reads)

end
