(* ===== verification/Acceptor_Helpers.thy ===== *)
theory Acceptor_Helpers
  imports Wangle_Prelude
begin

text \<open>
  The handshake helpers of the acceptor: peeking at the first bytes of a socket
  (\<open>acceptor/SocketPeeker.h\<close>, \<open>acceptor/PeekingAcceptorHandshakeHelper.h\<close>), the TLS and plain-text helpers, the list
  of peekers (\<open>acceptor/SecurityProtocolContextManager.h\<close>) and the helper that runs another one on its own event base
  (\<open>acceptor/EvbHandshakeHelper.*\<close>). A helper is what its three entry points do: they return the helper and the
  calls it makes on its callback. The socket is folly's and an argument.
\<close>

section \<open>Sockets and reports\<close>

datatype SSLErrorEnum = NO_ERROR | TIMEOUT | DROPPED

datatype SecureTransportType = NONE | TLS | ZERO

text \<open>What a socket calls: the handshake callback, with the protocol the client selected, or the read callback.\<close>

datatype sock_event =
    HandshakeSuc "string option"
  | HandshakeErr
  | ReadData "byte list"
  | ReadEOF
  | ReadErr string

text \<open>
  The operations of folly's TLS socket that the helpers use. \<open>closeNow\<close> also says which callback it makes, and
  \<open>fired\<close> is the socket while it makes a callback.
\<close>

record 's ssl_sock_ops =
  isUnencrypted :: "'s \<Rightarrow> bool"
  sslAccept :: "'s \<Rightarrow> 's"
  setReadCB :: "bool \<Rightarrow> 's \<Rightarrow> 's"
  hasReadCB :: "'s \<Rightarrow> bool"
  setPreReceivedData :: "byte list \<Rightarrow> 's \<Rightarrow> 's"
  closeNow :: "'s \<Rightarrow> 's \<times> sock_event option"
  fired :: "sock_event \<Rightarrow> 's \<Rightarrow> 's"

text \<open>The calls on \<open>AcceptorHandshakeHelper::Callback\<close>.\<close>

datatype handshake_exn = SSLException SSLErrorEnum | AsyncSocketException string | ConnectionDropped

datatype report =
    ConnectionReady string SecureTransportType "SSLErrorEnum option"
  | ConnectionError handshake_exn "SSLErrorEnum option"

type_synonym 'h helper_result = "cpp_exn + 'h \<times> report list"

record ('s, 'h) helper_ops =
  h_start :: "'s \<Rightarrow> 'h \<Rightarrow> 'h helper_result"
  h_drop :: "SSLErrorEnum \<Rightarrow> 'h \<Rightarrow> 'h helper_result"
  h_event :: "sock_event \<Rightarrow> 'h \<Rightarrow> 'h helper_result"

section \<open>The TLS and the plain-text helper\<close>

record 's SSLAcceptorHandshakeHelper =
  ssl_socket :: "'s option"
  sslError :: SSLErrorEnum

definition SSLAcceptorHandshakeHelper_new :: "'s SSLAcceptorHandshakeHelper" where
  "SSLAcceptorHandshakeHelper_new = \<lparr>ssl_socket = None, sslError = NO_ERROR\<rparr>"

definition ssl_start :: "'s ssl_sock_ops \<Rightarrow> 's \<Rightarrow> 's SSLAcceptorHandshakeHelper \<Rightarrow> 's SSLAcceptorHandshakeHelper" where
  "ssl_start sops sock h = h\<lparr>ssl_socket := Some (sslAccept sops sock)\<rparr>"

definition handshakeSuc :: "string option \<Rightarrow> 's SSLAcceptorHandshakeHelper \<Rightarrow> 's SSLAcceptorHandshakeHelper \<times> report list" where
  "handshakeSuc nextProto h =
     (h\<lparr>ssl_socket := None\<rparr>,
      [ConnectionReady (case nextProto of Some p \<Rightarrow> p | None \<Rightarrow> '''') TLS (Some NO_ERROR)])"

definition handshakeErr :: "'s SSLAcceptorHandshakeHelper \<Rightarrow> 's SSLAcceptorHandshakeHelper \<times> report list" where
  "handshakeErr h = (h, [ConnectionError (SSLException (sslError h)) (Some (sslError h))])"

definition ssl_dropConnection :: "'s ssl_sock_ops \<Rightarrow> SSLErrorEnum \<Rightarrow> 's SSLAcceptorHandshakeHelper
    \<Rightarrow> 's SSLAcceptorHandshakeHelper \<times> report list" where
  "ssl_dropConnection sops reason h =
     (let h1 = h\<lparr>sslError := reason\<rparr> in
      case ssl_socket h1 of
        None \<Rightarrow> (h1, [])
      | Some s \<Rightarrow>
          (case closeNow sops s of
             (s', Some HandshakeErr) \<Rightarrow> handshakeErr (h1\<lparr>ssl_socket := Some s'\<rparr>)
           | (s', _) \<Rightarrow> (h1\<lparr>ssl_socket := Some s'\<rparr>, [])))"

text \<open>The helpers the peekers of the library make.\<close>

datatype 's plain_helper = SSLHelper "'s SSLAcceptorHandshakeHelper" | UnencryptedHelper

fun plain_start :: "'s ssl_sock_ops \<Rightarrow> 's \<Rightarrow> 's plain_helper \<Rightarrow> 's plain_helper helper_result" where
  "plain_start sops sock (SSLHelper h) = Inr (SSLHelper (ssl_start sops sock h), [])"
| "plain_start sops sock UnencryptedHelper = Inr (UnencryptedHelper, [ConnectionReady '''' NONE None])"

fun plain_drop :: "'s ssl_sock_ops \<Rightarrow> SSLErrorEnum \<Rightarrow> 's plain_helper \<Rightarrow> 's plain_helper helper_result" where
  "plain_drop sops reason (SSLHelper h) = Inr (apfst SSLHelper (ssl_dropConnection sops reason h))"
| "plain_drop sops reason UnencryptedHelper = Inl CheckFailed"

definition ssl_event :: "'s ssl_sock_ops \<Rightarrow> sock_event \<Rightarrow> 's SSLAcceptorHandshakeHelper
    \<Rightarrow> 's SSLAcceptorHandshakeHelper \<times> report list" where
  "ssl_event sops ev h =
     (let h1 = h\<lparr>ssl_socket := map_option (fired sops ev) (ssl_socket h)\<rparr> in
      case ev of HandshakeSuc p \<Rightarrow> handshakeSuc p h1 | HandshakeErr \<Rightarrow> handshakeErr h1 | _ \<Rightarrow> (h1, []))"

fun plain_event :: "'s ssl_sock_ops \<Rightarrow> sock_event \<Rightarrow> 's plain_helper \<Rightarrow> 's plain_helper helper_result" where
  "plain_event sops ev (SSLHelper h) = Inr (apfst SSLHelper (ssl_event sops ev h))"
| "plain_event sops ev UnencryptedHelper = Inr (UnencryptedHelper, [])"

definition plain_ops :: "'s ssl_sock_ops \<Rightarrow> ('s, 's plain_helper) helper_ops" where
  "plain_ops sops = \<lparr>h_start = plain_start sops, h_drop = plain_drop sops, h_event = plain_event sops\<rparr>"

section \<open>SocketPeeker\<close>

record SocketPeeker =
  peekBytes :: "byte list"
  peek_read :: nat
  peek_callback :: bool

datatype peek_call = PeekSuccess "byte list" | PeekError string

definition SocketPeeker_new :: "nat \<Rightarrow> SocketPeeker" where
  "SocketPeeker_new numBytes = \<lparr>peekBytes = replicate numBytes 0, peek_read = 0, peek_callback = True\<rparr>"

definition SocketPeeker_start :: "'s ssl_sock_ops \<Rightarrow> SocketPeeker \<Rightarrow> 's \<Rightarrow> SocketPeeker \<times> 's \<times> peek_call option" where
  "SocketPeeker_start sops p s =
     (if length (peekBytes p) = 0 then (p\<lparr>peek_callback := False, peekBytes := []\<rparr>, s, Some (PeekSuccess (peekBytes p)))
      else (p, setReadCB sops True s, None))"

text \<open>The room left in the buffer.\<close>

definition getReadBuffer :: "SocketPeeker \<Rightarrow> cpp_exn + nat" where
  "getReadBuffer p = (if peek_read p < length (peekBytes p) then Inr (length (peekBytes p) - peek_read p) else Inl CheckFailed)"

definition SocketPeeker_readErr :: "'s ssl_sock_ops \<Rightarrow> string \<Rightarrow> SocketPeeker \<Rightarrow> 's \<Rightarrow> SocketPeeker \<times> 's \<times> peek_call option" where
  "SocketPeeker_readErr sops ex p s =
     (p\<lparr>peek_callback := False\<rparr>, setReadCB sops False s, if peek_callback p then Some (PeekError ex) else None)"

definition SocketPeeker_readEOF :: "'s ssl_sock_ops \<Rightarrow> SocketPeeker \<Rightarrow> 's \<Rightarrow> SocketPeeker \<times> 's \<times> peek_call option" where
  "SocketPeeker_readEOF sops p s = SocketPeeker_readErr sops ''Unexpected EOF'' p s"

text \<open>The socket has put \<open>bs\<close> into the buffer it got.\<close>

definition buffer_write :: "byte list \<Rightarrow> SocketPeeker \<Rightarrow> SocketPeeker" where
  "buffer_write bs p = p\<lparr>peekBytes := take (peek_read p) (peekBytes p) @ bs @ drop (peek_read p + length bs) (peekBytes p)\<rparr>"

definition readDataAvailable :: "'s ssl_sock_ops \<Rightarrow> nat \<Rightarrow> SocketPeeker \<Rightarrow> 's \<Rightarrow> cpp_exn + SocketPeeker \<times> 's \<times> peek_call option" where
  "readDataAvailable sops len p s =
     (let p1 = p\<lparr>peek_read := peek_read p + len\<rparr> in
      if \<not> peek_read p1 \<le> length (peekBytes p1) then Inl CheckFailed
      else if peek_read p1 = length (peekBytes p1) then
        (if peek_callback p1 then
           Inr (p1\<lparr>peek_callback := False, peekBytes := []\<rparr>,
                setReadCB sops False (setPreReceivedData sops (peekBytes p1) s), Some (PeekSuccess (peekBytes p1)))
         else Inl Undefined)
      else Inr (p1, s, None))"

text \<open>The destructor.\<close>

definition SocketPeeker_destroy :: "'s ssl_sock_ops \<Rightarrow> 's \<Rightarrow> 's" where
  "SocketPeeker_destroy sops s = (if hasReadCB sops s then setReadCB sops False s else s)"

section \<open>PeekingAcceptorHandshakeHelper\<close>

text \<open>A peek callback: the bytes it requires and the helper it gives for the peeked bytes, if any.\<close>

record 'h PeekCallback =
  bytesRequired :: nat
  getHelper :: "byte list \<Rightarrow> cpp_exn + 'h option"

record ('s, 'h) PeekingAcceptorHandshakeHelper =
  pk_socket :: "'s option"
  pk_helper :: "'h option"
  pk_peeker :: "SocketPeeker option"
  pk_callback :: bool
  pk_numBytes :: nat

definition Peeking_new :: "nat \<Rightarrow> ('s, 'h) PeekingAcceptorHandshakeHelper" where
  "Peeking_new numBytes = \<lparr>pk_socket = None, pk_helper = None, pk_peeker = None, pk_callback = False, pk_numBytes = numBytes\<rparr>"

fun first_helper :: "'h PeekCallback list \<Rightarrow> byte list \<Rightarrow> cpp_exn + 'h option" where
  "first_helper [] bytes = Inr None"
| "first_helper (cb # cbs) bytes =
     (case getHelper cb bytes of
        Inl e \<Rightarrow> Inl e
      | Inr (Some h) \<Rightarrow> Inr (Some h)
      | Inr None \<Rightarrow> first_helper cbs bytes)"

definition peekError :: "string \<Rightarrow> ('s, 'h) PeekingAcceptorHandshakeHelper \<Rightarrow> ('s, 'h) PeekingAcceptorHandshakeHelper helper_result" where
  "peekError ex k =
     (if \<not> pk_callback k then Inl Undefined
      else Inr (k\<lparr>pk_peeker := None, pk_callback := False\<rparr>, [ConnectionError (AsyncSocketException ex) None]))"

definition peekSuccess :: "('s, 'h) helper_ops \<Rightarrow> 'h PeekCallback list \<Rightarrow> byte list
    \<Rightarrow> ('s, 'h) PeekingAcceptorHandshakeHelper \<Rightarrow> ('s, 'h) PeekingAcceptorHandshakeHelper helper_result" where
  "peekSuccess hops cbs bytes k =
     (let k1 = k\<lparr>pk_peeker := None\<rparr> in
      case first_helper cbs bytes of
        Inl e \<Rightarrow> Inl e
      | Inr None \<Rightarrow> peekError ''Unrecognized protocol'' k1
      | Inr (Some h) \<Rightarrow>
          (case pk_socket k1 of
             None \<Rightarrow> Inl Undefined
           | Some s \<Rightarrow>
               (case h_start hops s h of
                  Inl e \<Rightarrow> Inl e
                | Inr (h', rs) \<Rightarrow> Inr (k1\<lparr>pk_callback := False, pk_socket := None, pk_helper := Some h'\<rparr>, rs))))"

text \<open>What the peeker did, followed by the call it makes on the helper.\<close>

definition peek_called :: "('s, 'h) helper_ops \<Rightarrow> 'h PeekCallback list \<Rightarrow> SocketPeeker \<times> 's \<times> peek_call option
    \<Rightarrow> ('s, 'h) PeekingAcceptorHandshakeHelper \<Rightarrow> ('s, 'h) PeekingAcceptorHandshakeHelper helper_result" where
  "peek_called hops cbs = (\<lambda>(p, s, call) k.
     let k1 = k\<lparr>pk_peeker := Some p, pk_socket := Some s\<rparr> in
     case call of
       None \<Rightarrow> Inr (k1, [])
     | Some (PeekSuccess bytes) \<Rightarrow> peekSuccess hops cbs bytes k1
     | Some (PeekError ex) \<Rightarrow> peekError ex k1)"

definition peeking_start :: "'s ssl_sock_ops \<Rightarrow> ('s, 'h) helper_ops \<Rightarrow> 'h PeekCallback list \<Rightarrow> 's
    \<Rightarrow> ('s, 'h) PeekingAcceptorHandshakeHelper \<Rightarrow> ('s, 'h) PeekingAcceptorHandshakeHelper helper_result" where
  "peeking_start sops hops cbs sock k =
     (let k1 = k\<lparr>pk_socket := Some sock, pk_callback := True\<rparr> in
      if \<not> isUnencrypted sops sock then Inl CheckFailed
      else peek_called hops cbs (SocketPeeker_start sops (SocketPeeker_new (pk_numBytes k1)) sock) k1)"

text \<open>The callbacks of the socket: to the peeker, or to the helper that has the socket.\<close>

definition peeking_event :: "'s ssl_sock_ops \<Rightarrow> ('s, 'h) helper_ops \<Rightarrow> 'h PeekCallback list \<Rightarrow> sock_event
    \<Rightarrow> ('s, 'h) PeekingAcceptorHandshakeHelper \<Rightarrow> ('s, 'h) PeekingAcceptorHandshakeHelper helper_result" where
  "peeking_event sops hops cbs ev k =
     (case (pk_helper k, pk_socket k, pk_peeker k) of
        (Some h, _, _) \<Rightarrow>
          (case h_event hops ev h of Inl e \<Rightarrow> Inl e | Inr (h', rs) \<Rightarrow> Inr (k\<lparr>pk_helper := Some h'\<rparr>, rs))
      | (None, Some s, Some p) \<Rightarrow>
          (let s1 = fired sops ev s in
           case ev of
             ReadData bs \<Rightarrow>
               (case getReadBuffer p of
                  Inl e \<Rightarrow> Inl e
                | Inr room \<Rightarrow>
                    (case readDataAvailable sops (length bs) (buffer_write bs p) s1 of
                       Inl e \<Rightarrow> Inl e
                     | Inr r \<Rightarrow> peek_called hops cbs r k))
           | ReadEOF \<Rightarrow> peek_called hops cbs (SocketPeeker_readEOF sops p s1) k
           | ReadErr ex \<Rightarrow> peek_called hops cbs (SocketPeeker_readErr sops ex p s1) k
           | _ \<Rightarrow> Inr (k, []))
      | _ \<Rightarrow> Inr (k, []))"

definition peeking_dropConnection :: "'s ssl_sock_ops \<Rightarrow> ('s, 'h) helper_ops \<Rightarrow> 'h PeekCallback list \<Rightarrow> SSLErrorEnum
    \<Rightarrow> ('s, 'h) PeekingAcceptorHandshakeHelper \<Rightarrow> ('s, 'h) PeekingAcceptorHandshakeHelper helper_result" where
  "peeking_dropConnection sops hops cbs reason k =
     (case (pk_socket k, pk_helper k) of
        (Some s, None) \<Rightarrow>
          (case closeNow sops s of (s', call) \<Rightarrow>
             (case (call, pk_peeker k) of
                (Some ReadEOF, Some p) \<Rightarrow> peek_called hops cbs (SocketPeeker_readEOF sops p s') k
              | _ \<Rightarrow> Inr (k\<lparr>pk_socket := Some s'\<rparr>, [])))
      | (None, Some h) \<Rightarrow>
          (case h_drop hops reason h of Inl e \<Rightarrow> Inl e | Inr (h', rs) \<Rightarrow> Inr (k\<lparr>pk_helper := Some h'\<rparr>, rs))
      | _ \<Rightarrow> Inl CheckFailed)"

definition peeking_ops :: "'s ssl_sock_ops \<Rightarrow> ('s, 'h) helper_ops \<Rightarrow> 'h PeekCallback list
    \<Rightarrow> ('s, ('s, 'h) PeekingAcceptorHandshakeHelper) helper_ops" where
  "peeking_ops sops hops cbs =
     \<lparr>h_start = peeking_start sops hops cbs, h_drop = peeking_dropConnection sops hops cbs, h_event = peeking_event sops hops cbs\<rparr>"

section \<open>Peek callbacks and their manager\<close>

definition kPeekCount :: nat where
  "kPeekCount = 9"

definition looksLikeTLS :: "byte list \<Rightarrow> cpp_exn + bool" where
  "looksLikeTLS bytes =
     (if \<not> kPeekCount \<le> length bytes then Inl CheckFailed
      else Inr (\<not> (bytes ! 0 \<noteq> 0x16 \<or> bytes ! 1 \<noteq> 0x03 \<or> bytes ! 5 \<noteq> 0x01)))"

definition TLSPlaintextPeekingCallback :: "'s plain_helper PeekCallback" where
  "TLSPlaintextPeekingCallback =
     \<lparr>bytesRequired = kPeekCount,
      getHelper = (\<lambda>bytes. case looksLikeTLS bytes of
          Inl e \<Rightarrow> Inl e
        | Inr tls \<Rightarrow> Inr (if \<not> tls then Some UnencryptedHelper else None))\<rparr>"

definition DefaultToSSLPeekingCallback :: "'s plain_helper PeekCallback" where
  "DefaultToSSLPeekingCallback = \<lparr>bytesRequired = 0, getHelper = (\<lambda>_. Inr (Some (SSLHelper SSLAcceptorHandshakeHelper_new)))\<rparr>"

record 'h SecurityProtocolContextManager =
  peekingCallbacks :: "'h PeekCallback list"
  num_bytes :: nat

definition SecurityProtocolContextManager_new :: "'h SecurityProtocolContextManager" where
  "SecurityProtocolContextManager_new = \<lparr>peekingCallbacks = [], num_bytes = 0\<rparr>"

definition addPeeker :: "'h PeekCallback \<Rightarrow> 'h SecurityProtocolContextManager \<Rightarrow> 'h SecurityProtocolContextManager" where
  "addPeeker cb m =
     (let m1 = (if bytesRequired cb > num_bytes m then m\<lparr>num_bytes := bytesRequired cb\<rparr> else m) in
      m1\<lparr>peekingCallbacks := peekingCallbacks m1 @ [cb]\<rparr>)"

text \<open>\<open>startHelper\<close> of the handshake manager that \<open>getHandshakeManager\<close> makes.\<close>

definition startHelper :: "'s ssl_sock_ops \<Rightarrow> ('s, 'h) helper_ops \<Rightarrow> 'h SecurityProtocolContextManager \<Rightarrow> 's
    \<Rightarrow> ('s, 'h) PeekingAcceptorHandshakeHelper helper_result" where
  "startHelper sops hops m sock = peeking_start sops hops (peekingCallbacks m) sock (Peeking_new (num_bytes m))"

end
