(* ===== verification/Acceptor_Helpers_Props.thy ===== *)
theory Acceptor_Helpers_Props
  imports Acceptor_Helpers
begin

text \<open>
  A handshake helper reports once: the contract is the locale \<open>handshake_helper\<close>, which the TLS and the plain-text
  helper satisfy, and the peeking helper over any helper that does. What the peekers see of a stream does not
  depend on the segments it arrives in, and decides the protocol.
\<close>

section \<open>The contract of folly's sockets\<close>

locale ssl_sockets =
  fixes sops :: "'s ssl_sock_ops"
    and accepting :: "'s \<Rightarrow> bool"
    and reading :: "'s \<Rightarrow> bool"
  assumes sslAccept_accepting: "accepting (sslAccept sops s)"
    and setReadCB_reading: "reading (setReadCB sops b s) = b"
    and setReadCB_accepting: "accepting (setReadCB sops b s) = accepting s"
    and setPreReceivedData_callbacks: "accepting (setPreReceivedData sops bs s) = accepting s"
      "reading (setPreReceivedData sops bs s) = reading s"
    and closeNow_calls: "closeNow sops s =
      (s', call) \<Longrightarrow> \<not> accepting s' \<and> \<not> reading s' \<and>
        call = (if accepting s then Some HandshakeErr else if reading s then Some ReadEOF else None)"
    and fired_accepting: "accepting (fired sops ev s) \<longleftrightarrow> accepting s \<and> ev \<noteq> HandshakeErr \<and> (\<forall>p. ev \<noteq> HandshakeSuc p)"
    and fired_reading: "reading (fired sops ev s) \<longleftrightarrow> reading s \<and> ev \<noteq> ReadEOF \<and> (\<forall>ex. ev \<noteq> ReadErr ex)"

text \<open>A socket that keeps which callbacks are set, and the bytes given back to it.\<close>

record simple_sock =
  ss_accepting :: bool
  ss_reading :: bool
  ss_data :: "byte list"

definition simple_sops :: "simple_sock ssl_sock_ops" where
  "simple_sops =
     \<lparr>isUnencrypted = (\<lambda>s. \<not> ss_accepting s),
      sslAccept = (\<lambda>s. s\<lparr>ss_accepting := True\<rparr>),
      setReadCB = (\<lambda>b s. s\<lparr>ss_reading := b\<rparr>),
      hasReadCB = ss_reading,
      setPreReceivedData = (\<lambda>bs s. s\<lparr>ss_data := bs\<rparr>),
      closeNow = (\<lambda>s. (s\<lparr>ss_accepting := False, ss_reading := False\<rparr>,
        if ss_accepting s then Some HandshakeErr else if ss_reading s then Some ReadEOF else None)),
      fired = (\<lambda>ev s. case ev of
          HandshakeSuc p \<Rightarrow> s\<lparr>ss_accepting := False\<rparr>
        | HandshakeErr \<Rightarrow> s\<lparr>ss_accepting := False\<rparr>
        | ReadData bs \<Rightarrow> s
        | ReadEOF \<Rightarrow> s\<lparr>ss_reading := False\<rparr>
        | ReadErr ex \<Rightarrow> s\<lparr>ss_reading := False\<rparr>)\<rparr>"

interpretation simple_ssl: ssl_sockets simple_sops ss_accepting ss_reading
  by unfold_locales (auto simp: simple_sops_def split: sock_event.splits)

section \<open>The contract of a helper\<close>

text \<open>A call that makes no report and leaves the handshake pending, or makes one and ends it.\<close>

definition at_most_one :: "('h \<Rightarrow> bool) \<Rightarrow> ('h \<Rightarrow> bool) \<Rightarrow> 'h helper_result \<Rightarrow> bool" where
  "at_most_one pending reported r \<longleftrightarrow>
     (\<exists>h. r = Inr (h, []) \<and> pending h) \<or> (\<exists>h rep. r = Inr (h, [rep]) \<and> reported h)"

definition exactly_one :: "('h \<Rightarrow> bool) \<Rightarrow> 'h helper_result \<Rightarrow> bool" where
  "exactly_one reported r \<longleftrightarrow> (\<exists>h rep. r = Inr (h, [rep]) \<and> reported h)"

locale handshake_helper =
  fixes hops :: "('s, 'h) helper_ops"
    and startable :: "'s \<Rightarrow> bool"
    and fresh :: "'h \<Rightarrow> bool"
    and pending :: "'h \<Rightarrow> bool"
    and reported :: "'h \<Rightarrow> bool"
    and can :: "sock_event \<Rightarrow> 'h \<Rightarrow> bool"
  assumes start_once: "fresh h \<Longrightarrow> startable s \<Longrightarrow> at_most_one pending reported (h_start hops s h)"
    and event_once: "pending h \<Longrightarrow> can ev h \<Longrightarrow> at_most_one pending reported (h_event hops ev h)"
    and drop_once: "pending h \<Longrightarrow> exactly_one reported (h_drop hops reason h)"

text \<open>A helper that may also be dropped after it has reported.\<close>

locale droppable_helper = handshake_helper +
  assumes drop_reported: "reported h \<Longrightarrow> \<exists>h'. h_drop hops reason h = Inr (h', []) \<and> reported h'"

section \<open>The TLS and the plain-text helper\<close>

fun plain_pending :: "('s \<Rightarrow> bool) \<Rightarrow> 's plain_helper \<Rightarrow> bool" where
  "plain_pending accepting (SSLHelper h) = (\<exists>s. ssl_socket h = Some s \<and> accepting s)"
| "plain_pending accepting UnencryptedHelper = False"

fun plain_reported :: "('s \<Rightarrow> bool) \<Rightarrow> 's plain_helper \<Rightarrow> bool" where
  "plain_reported accepting (SSLHelper h) = (\<forall>s. ssl_socket h = Some s \<longrightarrow> \<not> accepting s)"
| "plain_reported accepting UnencryptedHelper = True"

definition handshake_event :: "sock_event \<Rightarrow> bool" where
  "handshake_event ev \<longleftrightarrow> ev = HandshakeErr \<or> (\<exists>p. ev = HandshakeSuc p)"

definition is_ssl :: "'s plain_helper \<Rightarrow> bool" where
  "is_ssl h \<longleftrightarrow> (\<exists>h'. h = SSLHelper h')"

context ssl_sockets
begin

lemma ssl_drop_pending:
  assumes "ssl_socket h = Some s" "accepting s"
  obtains s' where "\<not> accepting s'"
    "ssl_dropConnection sops reason h =
       (h\<lparr>sslError := reason, ssl_socket := Some s'\<rparr>, [ConnectionError (SSLException reason) (Some reason)])"
proof -
  obtain s' call where c: "closeNow sops s = (s', call)" by fastforce
  with closeNow_calls [OF c] assms show thesis
    by (intro that [of s']) (auto simp: ssl_dropConnection_def handshakeErr_def)
qed

lemma ssl_drop_reported:
  assumes "\<forall>s. ssl_socket h = Some s \<longrightarrow> \<not> accepting s"
  shows "\<exists>h'. ssl_dropConnection sops reason h = (h', []) \<and> (\<forall>s. ssl_socket h' = Some s \<longrightarrow> \<not> accepting s)"
proof (cases "ssl_socket h")
  case None
  then show ?thesis by (simp add: ssl_dropConnection_def)
next
  case (Some s)
  obtain s' call where c: "closeNow sops s = (s', call)" by fastforce
  with closeNow_calls [OF c] assms Some show ?thesis by (auto simp: ssl_dropConnection_def split: option.splits sock_event.splits)
qed

lemma plain_helper_contract:
  "handshake_helper (plain_ops sops) (\<lambda>_. True) (\<lambda>h. h = UnencryptedHelper \<or> is_ssl h)
     (plain_pending accepting) (plain_reported accepting) (\<lambda>ev h. handshake_event ev)"
proof
  fix h :: "'s plain_helper" and s
  assume "h = UnencryptedHelper \<or> is_ssl h"
  then show "at_most_one (plain_pending accepting) (plain_reported accepting) (h_start (plain_ops sops) s h)"
    by (auto simp: is_ssl_def plain_ops_def at_most_one_def ssl_start_def sslAccept_accepting)
next
  fix h :: "'s plain_helper" and ev
  assume "plain_pending accepting h" "handshake_event ev"
  then show "at_most_one (plain_pending accepting) (plain_reported accepting) (h_event (plain_ops sops) ev h)"
    by (cases h) (auto simp: handshake_event_def plain_ops_def at_most_one_def ssl_event_def handshakeErr_def handshakeSuc_def
        fired_accepting)
next
  fix h :: "'s plain_helper" and reason
  assume "plain_pending accepting h"
  then obtain k s where h: "h = SSLHelper k" and k: "ssl_socket k = Some s" "accepting s" by (cases h) auto
  from ssl_drop_pending [OF k, of reason] obtain s' where "\<not> accepting s'"
    "ssl_dropConnection sops reason k =
       (k\<lparr>sslError := reason, ssl_socket := Some s'\<rparr>, [ConnectionError (SSLException reason) (Some reason)])" by blast
  then show "exactly_one (plain_reported accepting) (h_drop (plain_ops sops) reason h)"
    by (simp add: h plain_ops_def exactly_one_def)
qed

text \<open>The TLS helper alone may be dropped at any time.\<close>

lemma ssl_helper_contract:
  "droppable_helper (plain_ops sops) (\<lambda>_. True) is_ssl
     (\<lambda>h. is_ssl h \<and> plain_pending accepting h) (\<lambda>h. is_ssl h \<and> plain_reported accepting h) (\<lambda>ev h. handshake_event ev)"
proof
  fix h :: "'s plain_helper" and s
  assume "is_ssl h"
  then show "at_most_one (\<lambda>h. is_ssl h \<and> plain_pending accepting h) (\<lambda>h. is_ssl h \<and> plain_reported accepting h)
      (h_start (plain_ops sops) s h)"
    by (auto simp: is_ssl_def plain_ops_def at_most_one_def ssl_start_def sslAccept_accepting)
next
  fix h :: "'s plain_helper" and ev
  assume "is_ssl h \<and> plain_pending accepting h" "handshake_event ev"
  then show "at_most_one (\<lambda>h. is_ssl h \<and> plain_pending accepting h) (\<lambda>h. is_ssl h \<and> plain_reported accepting h)
      (h_event (plain_ops sops) ev h)"
    by (auto simp: is_ssl_def handshake_event_def plain_ops_def at_most_one_def ssl_event_def handshakeErr_def
        handshakeSuc_def fired_accepting)
next
  fix h :: "'s plain_helper" and reason
  assume "is_ssl h \<and> plain_pending accepting h"
  then obtain k s where h: "h = SSLHelper k" and k: "ssl_socket k = Some s" "accepting s" by (auto simp: is_ssl_def)
  from ssl_drop_pending [OF k, of reason] obtain s' where "\<not> accepting s'"
    "ssl_dropConnection sops reason k =
       (k\<lparr>sslError := reason, ssl_socket := Some s'\<rparr>, [ConnectionError (SSLException reason) (Some reason)])" by blast
  then show "exactly_one (\<lambda>h. is_ssl h \<and> plain_reported accepting h) (h_drop (plain_ops sops) reason h)"
    by (simp add: h plain_ops_def exactly_one_def is_ssl_def)
next
  fix h :: "'s plain_helper" and reason
  assume "is_ssl h \<and> plain_reported accepting h"
  then obtain k where h: "h = SSLHelper k" and k: "\<forall>s. ssl_socket k = Some s \<longrightarrow> \<not> accepting s" by (auto simp: is_ssl_def)
  from ssl_drop_reported [OF k, of reason] show "\<exists>h'. h_drop (plain_ops sops) reason h = Inr (h', []) \<and>
      is_ssl h' \<and> plain_reported accepting h'"
    by (auto simp: h plain_ops_def is_ssl_def)
qed

end

interpretation plain_simple: handshake_helper "plain_ops simple_sops" "\<lambda>_. True" "\<lambda>h. h = UnencryptedHelper \<or> is_ssl h"
    "plain_pending ss_accepting" "plain_reported ss_accepting" "\<lambda>ev h. handshake_event ev"
  by (rule simple_ssl.plain_helper_contract)

interpretation ssl_simple: droppable_helper "plain_ops simple_sops" "\<lambda>_. True" is_ssl
    "\<lambda>h. is_ssl h \<and> plain_pending ss_accepting h" "\<lambda>h. is_ssl h \<and> plain_reported ss_accepting h" "\<lambda>ev h. handshake_event ev"
  by (rule simple_ssl.ssl_helper_contract)

section \<open>Peeking\<close>

locale peeking_setup = ssl_sockets sops accepting reading + sub: handshake_helper hops startable fresh pending reported can
  for sops :: "'s ssl_sock_ops"
    and accepting :: "'s \<Rightarrow> bool"
    and reading :: "'s \<Rightarrow> bool"
    and hops :: "('s, 'h) helper_ops"
    and startable :: "'s \<Rightarrow> bool"
    and fresh :: "'h \<Rightarrow> bool"
    and pending :: "'h \<Rightarrow> bool"
    and reported :: "'h \<Rightarrow> bool"
    and can :: "sock_event \<Rightarrow> 'h \<Rightarrow> bool" +
  fixes cbs :: "'h PeekCallback list"
    and n :: nat
  assumes helpers: "cb \<in> set cbs \<Longrightarrow> length bs = n \<Longrightarrow> \<exists>ho. getHelper cb bs = Inr ho \<and> (\<forall>h. ho = Some h \<longrightarrow> fresh h)"
    and startable_idle: "\<not> accepting s \<Longrightarrow> \<not> reading s \<Longrightarrow> startable s"

definition pk_fresh :: "nat \<Rightarrow> ('s, 'h) PeekingAcceptorHandshakeHelper \<Rightarrow> bool" where
  "pk_fresh n k \<longleftrightarrow> pk_socket k = None \<and> pk_helper k = None \<and> pk_numBytes k = n"

definition idle_sock :: "('s \<Rightarrow> bool) \<Rightarrow> ('s \<Rightarrow> bool) \<Rightarrow> 's \<Rightarrow> bool" where
  "idle_sock accepting reading s \<longleftrightarrow> \<not> accepting s \<and> \<not> reading s"

text \<open>The peeker waits for bytes on the socket.\<close>

definition pk_peeking :: "('s \<Rightarrow> bool) \<Rightarrow> ('s \<Rightarrow> bool) \<Rightarrow> nat \<Rightarrow> ('s, 'h) PeekingAcceptorHandshakeHelper \<Rightarrow> bool" where
  "pk_peeking accepting reading n k \<longleftrightarrow> pk_helper k = None \<and> pk_callback k \<and>
     (\<exists>s p. pk_socket k = Some s \<and> \<not> accepting s \<and> reading s \<and> pk_peeker k = Some p \<and> peek_callback p \<and>
        length (peekBytes p) = n \<and> peek_read p < n)"

definition pk_pending :: "('s \<Rightarrow> bool) \<Rightarrow> ('s \<Rightarrow> bool) \<Rightarrow> ('h \<Rightarrow> bool) \<Rightarrow> nat \<Rightarrow> ('s, 'h) PeekingAcceptorHandshakeHelper \<Rightarrow> bool" where
  "pk_pending accepting reading pending n k \<longleftrightarrow>
     pk_peeking accepting reading n k \<or> pk_socket k = None \<and> (\<exists>h. pk_helper k = Some h \<and> pending h)"

definition pk_reported :: "('s \<Rightarrow> bool) \<Rightarrow> ('s \<Rightarrow> bool) \<Rightarrow> ('h \<Rightarrow> bool) \<Rightarrow> ('s, 'h) PeekingAcceptorHandshakeHelper \<Rightarrow> bool" where
  "pk_reported accepting reading reported k \<longleftrightarrow>
     pk_helper k = None \<and> (\<exists>s. pk_socket k = Some s \<and> idle_sock accepting reading s) \<or>
     pk_socket k = None \<and> (\<exists>h. pk_helper k = Some h \<and> reported h)"

definition pk_can :: "(sock_event \<Rightarrow> 'h \<Rightarrow> bool) \<Rightarrow> sock_event \<Rightarrow> ('s, 'h) PeekingAcceptorHandshakeHelper \<Rightarrow> bool" where
  "pk_can can ev k \<longleftrightarrow>
     (case pk_helper k of
        Some h \<Rightarrow> can ev h
      | None \<Rightarrow>
          (case ev of
             ReadData bs \<Rightarrow> (\<exists>p. pk_peeker k = Some p \<and> peek_read p + length bs \<le> length (peekBytes p))
           | ReadEOF \<Rightarrow> True
           | ReadErr ex \<Rightarrow> True
           | _ \<Rightarrow> False))"

context peeking_setup
begin

lemma first_helper_ok:
  assumes "length bs = n"
  shows "\<exists>ho. first_helper cbs bs = Inr ho \<and> (\<forall>h. ho = Some h \<longrightarrow> fresh h)"
proof -
  have "\<exists>ho. first_helper xs bs = Inr ho \<and> (\<forall>h. ho = Some h \<longrightarrow> fresh h)" if "set xs \<subseteq> set cbs" for xs
    using that
  proof (induction xs)
    case (Cons cb xs)
    from Cons.prems have "cb \<in> set cbs" by simp
    from helpers [OF this assms] obtain ho where "getHelper cb bs = Inr ho" "\<forall>h. ho = Some h \<longrightarrow> fresh h" by blast
    with Cons show ?case by (cases ho) auto
  qed simp
  then show ?thesis by blast
qed

abbreviation "pkP \<equiv> pk_pending accepting reading pending n"

abbreviation "pkR \<equiv> pk_reported accepting reading reported"

lemma peekError_once:
  assumes "pk_callback k" "pk_helper k = None" "pk_socket k = Some s" "idle_sock accepting reading s"
  shows "exactly_one pkR (peekError ex k)"
  using assms by (simp add: peekError_def exactly_one_def pk_reported_def)

lemma exactly_at_most: "exactly_one pkR r \<Longrightarrow> at_most_one pkP pkR r"
  by (auto simp: exactly_one_def at_most_one_def)

lemma peekSuccess_once:
  assumes "pk_callback k" "pk_helper k = None" "pk_socket k = Some s" "idle_sock accepting reading s" "length bs = n"
  shows "at_most_one pkP pkR (peekSuccess hops cbs bs k)"
proof -
  from first_helper_ok [OF assms(5)] obtain ho where ho: "first_helper cbs bs = Inr ho" "\<forall>h. ho = Some h \<longrightarrow> fresh h" by blast
  show ?thesis
  proof (cases ho)
    case None
    have "exactly_one pkR (peekError ''Unrecognized protocol'' (k\<lparr>pk_peeker := None\<rparr>))"
      by (rule peekError_once [where s = s]) (simp_all add: assms)
    with ho None show ?thesis by (simp add: peekSuccess_def exactly_at_most)
  next
    case (Some h)
    have "at_most_one pending reported (h_start hops s h)"
      using sub.start_once [of h s] startable_idle [of s] ho Some assms(4) by (simp add: idle_sock_def)
    then show ?thesis
      using ho Some assms(3) by (auto simp: at_most_one_def peekSuccess_def pk_pending_def pk_reported_def)
  qed
qed

lemma peeking_start_once:
  assumes "pk_fresh n k" "isUnencrypted sops s" "idle_sock accepting reading s"
  shows "at_most_one pkP pkR (peeking_start sops hops cbs s k)"
proof (cases "n = 0")
  case True
  then have "at_most_one pkP pkR (peekSuccess hops cbs [] (k\<lparr>pk_callback := True,
      pk_peeker := Some \<lparr>peekBytes = [], peek_read = 0, peek_callback = False\<rparr>, pk_socket := Some s\<rparr>))"
    by (intro peekSuccess_once [where s = s]) (use assms in \<open>simp_all add: pk_fresh_def\<close>)
  with assms True show ?thesis
    by (simp add: peeking_start_def pk_fresh_def SocketPeeker_start_def SocketPeeker_new_def peek_called_def)
next
  case False
  with assms show ?thesis
    by (auto simp: peeking_start_def pk_fresh_def SocketPeeker_start_def SocketPeeker_new_def peek_called_def at_most_one_def
        pk_pending_def pk_peeking_def setReadCB_reading setReadCB_accepting idle_sock_def)
qed

lemma peek_failed_once:
  assumes "pk_callback k" "pk_helper k = None" "\<not> accepting s" "peek_callback p"
  shows "exactly_one pkR (peek_called hops cbs (SocketPeeker_readErr sops ex p s) k)"
proof -
  have "exactly_one pkR (peekError ex (k\<lparr>pk_peeker := Some (p\<lparr>peek_callback := False\<rparr>), pk_socket := Some (setReadCB sops False s)\<rparr>))"
    by (rule peekError_once [where s = "setReadCB sops False s"])
      (simp_all add: assms idle_sock_def setReadCB_reading setReadCB_accepting)
  with assms(4) show ?thesis by (simp add: peek_called_def SocketPeeker_readErr_def)
qed

lemma peek_data_once:
  assumes "pk_callback k" "pk_helper k = None" "\<not> accepting s" "reading s" "peek_callback p"
    "length (peekBytes p) = n" "peek_read p + length bs \<le> n"
  shows "\<exists>r. readDataAvailable sops (length bs) (buffer_write bs p) s = Inr r \<and> at_most_one pkP pkR (peek_called hops cbs r k)"
proof -
  define p1 where "p1 = (buffer_write bs p)\<lparr>peek_read := peek_read p + length bs\<rparr>"
  have p1: "length (peekBytes p1) = n" "peek_read p1 = peek_read p + length bs" "peek_callback p1"
    using assms by (simp_all add: p1_def buffer_write_def)
  show ?thesis
  proof (cases "peek_read p1 = n")
    case True
    let ?s = "setReadCB sops False (setPreReceivedData sops (peekBytes p1) s)"
    have "at_most_one pkP pkR (peekSuccess hops cbs (peekBytes p1)
        (k\<lparr>pk_peeker := Some (p1\<lparr>peek_callback := False, peekBytes := []\<rparr>), pk_socket := Some ?s\<rparr>))"
      by (rule peekSuccess_once [where s = ?s])
        (simp_all add: assms p1 idle_sock_def setReadCB_reading setReadCB_accepting setPreReceivedData_callbacks)
    with True p1 show ?thesis
      by (auto simp: readDataAvailable_def Let_def p1_def buffer_write_def peek_called_def)
  next
    case False
    with p1 assms have "readDataAvailable sops (length bs) (buffer_write bs p) s = Inr (p1, s, None)"
      by (auto simp: readDataAvailable_def Let_def p1_def buffer_write_def)
    moreover have "peek_read p1 < n" using False p1(2) assms(7) by simp
    ultimately show ?thesis
      using assms p1 by (auto simp: peek_called_def at_most_one_def pk_pending_def pk_peeking_def)
  qed
qed

lemma peeking_event_once:
  assumes "pkP k" "pk_can can ev k"
  shows "at_most_one pkP pkR (peeking_event sops hops cbs ev k)"
proof (cases "pk_helper k")
  case (Some h)
  with assms have "pending h" "can ev h" "pk_socket k = None" by (auto simp: pk_pending_def pk_peeking_def pk_can_def)
  with sub.event_once [of h ev] Some show ?thesis
    by (auto simp: at_most_one_def peeking_event_def pk_pending_def pk_reported_def)
next
  case None
  with assms(1) obtain s p where k: "pk_callback k" "pk_socket k = Some s" "pk_peeker k = Some p" "\<not> accepting s" "reading s"
    "peek_callback p" "length (peekBytes p) = n" "peek_read p < n" by (auto simp: pk_pending_def pk_peeking_def)
  let ?s = "fired sops ev s"
  have acc: "\<not> accepting ?s" using k(4) by (simp add: fired_accepting)
  show ?thesis
  proof (cases ev)
    case (ReadData bs)
    have "peek_read p + length bs \<le> n" using assms(2) None ReadData k(3,7) by (simp add: pk_can_def)
    from peek_data_once [OF k(1) None acc _ k(6,7) this] None k ReadData show ?thesis
      by (auto simp: peeking_event_def getReadBuffer_def fired_reading)
  next
    case ReadEOF
    with exactly_at_most [OF peek_failed_once [OF k(1) None acc k(6)]] None k show ?thesis
      by (simp add: peeking_event_def SocketPeeker_readEOF_def)
  next
    case (ReadErr ex)
    with exactly_at_most [OF peek_failed_once [OF k(1) None acc k(6)]] None k show ?thesis
      by (simp add: peeking_event_def)
  qed (use assms(2) None in \<open>simp_all add: pk_can_def\<close>)
qed

lemma peeking_drop_once:
  assumes "pkP k"
  shows "exactly_one pkR (peeking_dropConnection sops hops cbs reason k)"
proof (cases "pk_helper k")
  case (Some h)
  with assms have "pending h" "pk_socket k = None" by (auto simp: pk_pending_def pk_peeking_def)
  with sub.drop_once [of h reason] Some show ?thesis
    by (auto simp: exactly_one_def peeking_dropConnection_def pk_reported_def)
next
  case None
  with assms obtain s p where k: "pk_callback k" "pk_socket k = Some s" "pk_peeker k = Some p" "\<not> accepting s" "reading s"
    "peek_callback p" by (auto simp: pk_pending_def pk_peeking_def)
  obtain s' call where c: "closeNow sops s = (s', call)" by fastforce
  with closeNow_calls [OF c] k have "call = Some ReadEOF" "\<not> accepting s'" by auto
  with peek_failed_once [OF k(1) None _ k(6), of s'] c None k show ?thesis
    by (simp add: peeking_dropConnection_def SocketPeeker_readEOF_def)
qed

lemma peeking_drop_idle:
  assumes "pk_helper k = None" "pk_socket k = Some s" "idle_sock accepting reading s"
  shows "\<exists>k'. peeking_dropConnection sops hops cbs reason k = Inr (k', []) \<and> pkR k'"
proof -
  obtain s' call where c: "closeNow sops s = (s', call)" by fastforce
  with closeNow_calls [OF c] assms(3) have "call = None" "idle_sock accepting reading s'" by (auto simp: idle_sock_def)
  with assms c show ?thesis by (simp add: peeking_dropConnection_def pk_reported_def)
qed

end

sublocale peeking_setup \<subseteq> peeked: handshake_helper "peeking_ops sops hops cbs" "\<lambda>s. isUnencrypted sops s \<and> idle_sock accepting reading s"
    "pk_fresh n" "pk_pending accepting reading pending n" "pk_reported accepting reading reported" "pk_can can"
  by unfold_locales (simp_all add: peeking_ops_def peeking_start_once peeking_event_once peeking_drop_once)

text \<open>Over helpers that may be dropped after they have reported, the peeking helper may be too.\<close>

locale droppable_peeking_setup = peeking_setup + sub2: droppable_helper hops startable fresh pending reported can

sublocale droppable_peeking_setup \<subseteq> peeked_droppable: droppable_helper "peeking_ops sops hops cbs"
    "\<lambda>s. isUnencrypted sops s \<and> idle_sock accepting reading s"
    "pk_fresh n" "pk_pending accepting reading pending n" "pk_reported accepting reading reported" "pk_can can"
proof
  fix k reason
  assume k: "pk_reported accepting reading reported k"
  show "\<exists>k'. h_drop (peeking_ops sops hops cbs) reason k = Inr (k', []) \<and> pk_reported accepting reading reported k'"
  proof (cases "pk_helper k")
    case None
    with k obtain s where "pk_socket k = Some s" "idle_sock accepting reading s" by (auto simp: pk_reported_def)
    from peeking_drop_idle [OF None this] show ?thesis by (simp add: peeking_ops_def)
  next
    case (Some h)
    with k have h: "pk_socket k = None" "reported h" by (auto simp: pk_reported_def)
    with sub2.drop_reported [of h reason] Some show ?thesis
      by (auto simp: peeking_ops_def peeking_dropConnection_def pk_reported_def)
  qed
qed

section \<open>The peekers of a manager\<close>

text \<open>Every peeker gets at least the bytes it requires.\<close>

lemma addPeeker_bytes:
  assumes "\<forall>cb\<in>set (peekingCallbacks m). bytesRequired cb \<le> num_bytes m"
  shows "\<forall>c\<in>set (peekingCallbacks (addPeeker cb m)). bytesRequired c \<le> num_bytes (addPeeker cb m)"
  using assms by (auto simp: addPeeker_def Let_def)

lemma addPeeker_appends: "peekingCallbacks (addPeeker cb m) = peekingCallbacks m @ [cb]"
  by (simp add: addPeeker_def Let_def)

lemma addPeekers:
  "peekingCallbacks (fold addPeeker cbs m) = peekingCallbacks m @ cbs"
  "\<forall>cb\<in>set (peekingCallbacks m). bytesRequired cb \<le> num_bytes m \<Longrightarrow>
     \<forall>cb\<in>set (peekingCallbacks (fold addPeeker cbs m)). bytesRequired cb \<le> num_bytes (fold addPeeker cbs m)"
proof (induction cbs arbitrary: m)
  case (Cons cb cbs)
  {
    case 1
    show ?case by (simp add: Cons.IH(1) addPeeker_appends)
  next
    case 2
    show ?case using Cons.IH(2) [OF addPeeker_bytes [OF 2]] by simp
  }
qed simp_all

text \<open>A port for TLS and plain text: what the library's two peekers give.\<close>

definition tls_or_plain :: "'s plain_helper SecurityProtocolContextManager" where
  "tls_or_plain = fold addPeeker [TLSPlaintextPeekingCallback, DefaultToSSLPeekingCallback] SecurityProtocolContextManager_new"

lemma tls_or_plain_peekers:
  "peekingCallbacks tls_or_plain = [TLSPlaintextPeekingCallback, DefaultToSSLPeekingCallback]" "num_bytes tls_or_plain = 9"
  by (simp_all add: tls_or_plain_def addPeeker_def SecurityProtocolContextManager_new_def TLSPlaintextPeekingCallback_def
      DefaultToSSLPeekingCallback_def kPeekCount_def)

lemma tls_or_plain_helper:
  assumes "length bs = 9"
  shows "first_helper (peekingCallbacks tls_or_plain) bs =
    Inr (Some (if bs ! 0 = 0x16 \<and> bs ! 1 = 3 \<and> bs ! 5 = 1 then SSLHelper SSLAcceptorHandshakeHelper_new else UnencryptedHelper))"
  using assms by (simp add: tls_or_plain_peekers TLSPlaintextPeekingCallback_def DefaultToSSLPeekingCallback_def looksLikeTLS_def
      kPeekCount_def)

context ssl_sockets
begin

lemma tls_or_plain_setup:
  "peeking_setup sops accepting reading (plain_ops sops) (\<lambda>_. True) (\<lambda>h. h = UnencryptedHelper \<or> is_ssl h)
     (plain_pending accepting) (plain_reported accepting) (\<lambda>ev h. handshake_event ev) (peekingCallbacks tls_or_plain) 9"
  by (intro peeking_setup.intro ssl_sockets_axioms plain_helper_contract peeking_setup_axioms.intro)
    (auto simp: tls_or_plain_peekers TLSPlaintextPeekingCallback_def DefaultToSSLPeekingCallback_def looksLikeTLS_def kPeekCount_def is_ssl_def)

lemma ssl_only_setup:
  "droppable_peeking_setup sops accepting reading (plain_ops sops) (\<lambda>_. True) is_ssl
     (\<lambda>h. is_ssl h \<and> plain_pending accepting h) (\<lambda>h. is_ssl h \<and> plain_reported accepting h) (\<lambda>ev h. handshake_event ev)
     [DefaultToSSLPeekingCallback] 0"
  by (intro droppable_peeking_setup.intro peeking_setup.intro ssl_sockets_axioms ssl_helper_contract
      droppable_helper.axioms(1) [OF ssl_helper_contract] peeking_setup_axioms.intro)
    (auto simp: DefaultToSSLPeekingCallback_def is_ssl_def)

end

interpretation tls_or_plain_simple: peeking_setup simple_sops ss_accepting ss_reading "plain_ops simple_sops" "\<lambda>_. True"
    "\<lambda>h. h = UnencryptedHelper \<or> is_ssl h" "plain_pending ss_accepting" "plain_reported ss_accepting" "\<lambda>ev h. handshake_event ev"
    "peekingCallbacks tls_or_plain" 9
  by (rule simple_ssl.tls_or_plain_setup)

interpretation ssl_only_simple: droppable_peeking_setup simple_sops ss_accepting ss_reading "plain_ops simple_sops" "\<lambda>_. True" is_ssl
    "\<lambda>h. is_ssl h \<and> plain_pending ss_accepting h" "\<lambda>h. is_ssl h \<and> plain_reported ss_accepting h" "\<lambda>ev h. handshake_event ev"
    "[DefaultToSSLPeekingCallback]" 0
  by (rule simple_ssl.ssl_only_setup)

section \<open>Segments\<close>

text \<open>The events of the socket one after the other, with all reports.\<close>

fun helper_run :: "('s, 'h) helper_ops \<Rightarrow> sock_event list \<Rightarrow> 'h \<Rightarrow> 'h helper_result" where
  "helper_run hops [] h = Inr (h, [])"
| "helper_run hops (ev # evs) h =
     (case h_event hops ev h of
        Inl e \<Rightarrow> Inl e
      | Inr (h1, rs) \<Rightarrow> (case helper_run hops evs h1 of Inl e \<Rightarrow> Inl e | Inr (h2, rs2) \<Rightarrow> Inr (h2, rs @ rs2)))"

text \<open>The bytes \<open>got\<close> have been peeked.\<close>

definition peeked_so_far :: "nat \<Rightarrow> byte list \<Rightarrow> ('s, 'h) PeekingAcceptorHandshakeHelper \<Rightarrow> bool" where
  "peeked_so_far n got k \<longleftrightarrow> pk_helper k = None \<and> pk_callback k \<and>
     (\<exists>s p. pk_socket k = Some s \<and> pk_peeker k = Some p \<and> peek_callback p \<and>
        length (peekBytes p) = n \<and> peek_read p = length got \<and> take (length got) (peekBytes p) = got)"

text \<open>The helper as it is when all bytes are there: they are given back to the socket.\<close>

definition peeked_all :: "'s ssl_sock_ops \<Rightarrow> byte list \<Rightarrow> ('s, 'h) PeekingAcceptorHandshakeHelper \<Rightarrow> bool" where
  "peeked_all sops bytes k \<longleftrightarrow> pk_helper k = None \<and> pk_callback k \<and>
     (\<exists>s. pk_socket k = Some (setReadCB sops False (setPreReceivedData sops bytes s)))"

lemma peek_segment:
  assumes "peeked_so_far n got k" "length got + length bs < n"
  shows "\<exists>k'. peeking_event sops hops cbs (ReadData bs) k = Inr (k', []) \<and> peeked_so_far n (got @ bs) k'"
proof -
  from assms(1) obtain s p where k: "pk_helper k = None" "pk_callback k" "pk_socket k = Some s" "pk_peeker k = Some p"
    "peek_callback p" "length (peekBytes p) = n" "peek_read p = length got" "take (length got) (peekBytes p) = got"
    by (auto simp: peeked_so_far_def)
  from k assms(2) have "getReadBuffer p = Inr (n - length got)"
    "readDataAvailable sops (length bs) (buffer_write bs p) (fired sops (ReadData bs) s) =
      Inr ((buffer_write bs p)\<lparr>peek_read := length got + length bs\<rparr>, fired sops (ReadData bs) s, None)"
    by (auto simp: getReadBuffer_def readDataAvailable_def buffer_write_def Let_def)
  with k assms(2) show ?thesis
    by (simp add: peeking_event_def peek_called_def peeked_so_far_def buffer_write_def)
qed

lemma peek_last_segment:
  assumes "peeked_so_far n got k" "length got + length bs = n" "bs \<noteq> []"
  shows "\<exists>k'. peeking_event sops hops cbs (ReadData bs) k = peekSuccess hops cbs (got @ bs) k' \<and> peeked_all sops (got @ bs) k'"
proof -
  from assms(1) obtain s p where k: "pk_helper k = None" "pk_callback k" "pk_socket k = Some s" "pk_peeker k = Some p"
    "peek_callback p" "length (peekBytes p) = n" "peek_read p = length got" "take (length got) (peekBytes p) = got"
    by (auto simp: peeked_so_far_def)
  from assms(2,3) have lt: "length got < n" by (cases bs) auto
  from k assms(2) have bytes: "peekBytes (buffer_write bs p) = got @ bs" by (simp add: buffer_write_def)
  let ?s = "setReadCB sops False (setPreReceivedData sops (got @ bs) (fired sops (ReadData bs) s))"
  let ?p = "(buffer_write bs p)\<lparr>peek_read := n, peek_callback := False, peekBytes := []\<rparr>"
  have "readDataAvailable sops (length bs) (buffer_write bs p) (fired sops (ReadData bs) s) =
      Inr (?p, ?s, Some (PeekSuccess (got @ bs)))"
    using k assms(2) bytes by (simp add: readDataAvailable_def Let_def buffer_write_def)
  then have "peeking_event sops hops cbs (ReadData bs) k =
      peekSuccess hops cbs (got @ bs) (k\<lparr>pk_peeker := Some ?p, pk_socket := Some ?s\<rparr>)"
    using k lt by (simp add: peeking_event_def getReadBuffer_def peek_called_def)
  moreover have "peeked_all sops (got @ bs) (k\<lparr>pk_peeker := Some ?p, pk_socket := Some ?s\<rparr>)"
    using k by (auto simp: peeked_all_def)
  ultimately show ?thesis by blast
qed

lemma peek_segments:
  assumes "peeked_so_far n got k" "length got + length (concat bss) = n" "bss \<noteq> []" "[] \<notin> set bss"
  shows "\<exists>k'. helper_run (peeking_ops sops hops cbs) (map ReadData bss) k = peekSuccess hops cbs (got @ concat bss) k' \<and>
    peeked_all sops (got @ concat bss) k'"
  using assms
proof (induction bss arbitrary: got k)
  case (Cons bs bss)
  show ?case
  proof (cases "bss = []")
    case True
    with peek_last_segment [OF Cons.prems(1), of bs sops hops cbs] Cons.prems show ?thesis
      by (auto simp: peeking_ops_def split: sum.splits)
  next
    case False
    then have "concat bss \<noteq> []" using Cons.prems(4) by (cases bss) auto
    then have "0 < length (concat bss)" by blast
    moreover have "length got + (length bs + length (concat bss)) = n" using Cons.prems(2) by simp
    ultimately have "length got + length bs < n" by linarith
    from peek_segment [OF Cons.prems(1) this] obtain k' where k':
      "peeking_event sops hops cbs (ReadData bs) k = Inr (k', [])" "peeked_so_far n (got @ bs) k'" by blast
    from Cons.IH [OF k'(2)] Cons.prems False show ?thesis
      by (auto simp: peeking_ops_def k'(1) split: sum.splits)
  qed
qed simp

lemma peeking_started:
  assumes "isUnencrypted sops s" "0 < n"
  shows "\<exists>k. peeking_start sops hops cbs s (Peeking_new n) = Inr (k, []) \<and> peeked_so_far n [] k"
  using assms by (simp add: peeking_start_def Peeking_new_def SocketPeeker_start_def SocketPeeker_new_def peek_called_def peeked_so_far_def)

text \<open>
  C35. A port that serves TLS and plain text: for an unencrypted socket whose first nine bytes arrive in any segments, the
  peeking helper decides by these bytes alone. When they are a handshake record of version 3 with a client hello, the
  TLS helper gets the socket, with the peeked bytes put back in front, and starts to accept; otherwise the connection is
  reported as ready without encryption.
\<close>

theorem protocol_dispatch:
  assumes "isUnencrypted sops s" "length (concat bss) = 9" "[] \<notin> set bss"
  shows "\<exists>k k' rs s'. startHelper sops (plain_ops sops) tls_or_plain s = Inr (k, []) \<and>
    helper_run (peeking_ops sops (plain_ops sops) (peekingCallbacks tls_or_plain)) (map ReadData bss) k = Inr (k', rs) \<and>
    (if concat bss ! 0 = 0x16 \<and> concat bss ! 1 = 3 \<and> concat bss ! 5 = 1
     then rs = [] \<and> pk_helper k' = Some (SSLHelper \<lparr>
         ssl_socket = Some (sslAccept sops (setReadCB sops False (setPreReceivedData sops (concat bss) s'))), sslError = NO_ERROR\<rparr>)
     else rs = [ConnectionReady '''' NONE None] \<and> pk_helper k' = Some UnencryptedHelper)"
proof -
  from peeking_started [OF assms(1), of 9 "plain_ops sops" "peekingCallbacks tls_or_plain"] obtain k where
    k: "startHelper sops (plain_ops sops) tls_or_plain s = Inr (k, [])" "peeked_so_far 9 [] k"
    by (auto simp: startHelper_def tls_or_plain_peekers(2))
  have "bss \<noteq> []" using assms(2) by auto
  from peek_segments [OF k(2) _ this assms(3), of sops "plain_ops sops" "peekingCallbacks tls_or_plain"] assms(2) obtain k1 where
    k1: "helper_run (peeking_ops sops (plain_ops sops) (peekingCallbacks tls_or_plain)) (map ReadData bss) k =
      peekSuccess (plain_ops sops) (peekingCallbacks tls_or_plain) (concat bss) k1" "peeked_all sops (concat bss) k1" by auto
  from k1(2) obtain s' where s': "pk_socket k1 = Some (setReadCB sops False (setPreReceivedData sops (concat bss) s'))"
    by (auto simp: peeked_all_def)
  have st: "h_start (plain_ops sops) = plain_start sops" by (simp add: plain_ops_def)
  show ?thesis
    by (rule exI [of _ k]) (auto simp: k k1 st peekSuccess_def tls_or_plain_helper [OF assms(2)] s' ssl_start_def
        SSLAcceptorHandshakeHelper_new_def)
qed

text \<open>A client hello in two segments.\<close>

theorem protocol_dispatch_witness:
  "\<exists>k k' rs. startHelper simple_sops (plain_ops simple_sops) tls_or_plain \<lparr>ss_accepting = False, ss_reading = False, ss_data = []\<rparr> = Inr (k, []) \<and>
    helper_run (peeking_ops simple_sops (plain_ops simple_sops) (peekingCallbacks tls_or_plain))
      (map ReadData [[0x16, 3, 1], [0, 9, 1, 0, 0, 5]]) k = Inr (k', rs) \<and> rs = []"
proof -
  have "isUnencrypted simple_sops \<lparr>ss_accepting = False, ss_reading = False, ss_data = []\<rparr>" by (simp add: simple_sops_def)
  from protocol_dispatch [OF this, of "[[0x16, 3, 1], [0, 9, 1, 0, 0, 5]]"] show ?thesis by auto
qed

end
