(* ===== verification/Acceptor_Evb.thy ===== *)
theory Acceptor_Evb
  imports Acceptor_Helpers_Props
begin

text \<open>
  \<open>acceptor/EvbHandshakeHelper.*\<close>: a handshake on an event base of its own. The acceptor's thread and the thread of the
  handshake run the tasks of their queues; between the threads there are only these queues and the atomic
  \<open>state_\<close>, so each call and each task is one step of an interleaving.
\<close>

section \<open>The helper\<close>

datatype HandshakeState = Invalid | Started | Dropped | Callback

datatype evb = OriginalEvb | HandshakeEvb

text \<open>The lambdas that are run in an event base.\<close>

datatype 's evb_task = TaskStart 's | TaskDrop SSLErrorEnum | TaskReport report | TaskClear

text \<open>
  \<open>attached\<close> is the event base of the transport; \<open>released\<close> says that the callback has been called, whose owner
  destroys the helper then, which \<open>dropConnectionGuard_\<close> delays.
\<close>

record ('s, 'h) EvbHandshakeHelper =
  state :: HandshakeState
  originalEvb :: bool
  dropConnectionGuard :: bool
  inner :: "'h option"
  attached :: "evb option"
  original_queue :: "'s evb_task list"
  handshake_queue :: "'s evb_task list"
  reports :: "report list"
  released :: bool

definition EvbHandshakeHelper_new :: "'h \<Rightarrow> ('s, 'h) EvbHandshakeHelper" where
  "EvbHandshakeHelper_new h =
     \<lparr>state = Invalid, originalEvb = False, dropConnectionGuard = False, inner = Some h, attached = Some OriginalEvb,
      original_queue = [], handshake_queue = [], reports = [], released = False\<rparr>"

definition tryTransition :: "HandshakeState \<Rightarrow> HandshakeState \<Rightarrow> ('s, 'h) EvbHandshakeHelper \<Rightarrow> bool \<times> ('s, 'h) EvbHandshakeHelper" where
  "tryTransition expected new w = (if state w = expected then (True, w\<lparr>state := new\<rparr>) else (False, w))"

text \<open>A transport is attached to one event base at a time.\<close>

definition attach_transport :: "evb \<Rightarrow> ('s, 'h) EvbHandshakeHelper \<Rightarrow> cpp_exn + ('s, 'h) EvbHandshakeHelper" where
  "attach_transport e w = (if attached w = None then Inr (w\<lparr>attached := Some e\<rparr>) else Inl Undefined)"

definition detach_transport :: "('s, 'h) EvbHandshakeHelper \<Rightarrow> cpp_exn + ('s, 'h) EvbHandshakeHelper" where
  "detach_transport w = (if attached w \<noteq> None then Inr (w\<lparr>attached := None\<rparr>) else Inl Undefined)"

definition evb_start :: "'s \<Rightarrow> ('s, 'h) EvbHandshakeHelper \<Rightarrow> cpp_exn + ('s, 'h) EvbHandshakeHelper" where
  "evb_start sock w =
     (let w1 = snd (tryTransition Invalid Started w) in
      if attached w1 = None then Inl CheckFailed
      else
        (case detach_transport (w1\<lparr>originalEvb := True\<rparr>) of
           Inl e \<Rightarrow> Inl e
         | Inr w2 \<Rightarrow> Inr (w2\<lparr>handshake_queue := handshake_queue w2 @ [TaskStart sock]\<rparr>)))"

text \<open>A call on the callback; its owner lets go of the helper.\<close>

definition call_back :: "report \<Rightarrow> ('s, 'h) EvbHandshakeHelper \<Rightarrow> ('s, 'h) EvbHandshakeHelper" where
  "call_back r w = w\<lparr>reports := reports w @ [r], released := True\<rparr>"

definition evb_dropConnection :: "SSLErrorEnum \<Rightarrow> ('s, 'h) EvbHandshakeHelper \<Rightarrow> cpp_exn + ('s, 'h) EvbHandshakeHelper" where
  "evb_dropConnection reason w =
     (if \<not> originalEvb w then Inl CheckFailed
      else
        (case tryTransition Started Dropped w of (won, w1) \<Rightarrow>
           (let w2 = call_back (ConnectionError ConnectionDropped (Some reason)) (w1\<lparr>dropConnectionGuard := True\<rparr>) in
            Inr (if won then w2\<lparr>handshake_queue := handshake_queue w2 @ [TaskDrop reason]\<rparr> else w2))))"

text \<open>\<open>connectionReady\<close> and \<open>connectionError\<close>, which differ only in what they pass on.\<close>

definition evb_connection :: "report \<Rightarrow> ('s, 'h) EvbHandshakeHelper \<Rightarrow> cpp_exn + ('s, 'h) EvbHandshakeHelper" where
  "evb_connection r w =
     (case tryTransition Started Callback w of (won, w1) \<Rightarrow>
        if \<not> won then Inr w1
        else
          (case detach_transport w1 of
             Inl e \<Rightarrow> Inl e
           | Inr w2 \<Rightarrow> Inr (w2\<lparr>original_queue := original_queue w2 @ [TaskReport r]\<rparr>)))"

fun evb_connections :: "report list \<Rightarrow> ('s, 'h) EvbHandshakeHelper \<Rightarrow> cpp_exn + ('s, 'h) EvbHandshakeHelper" where
  "evb_connections [] w = Inr w"
| "evb_connections (r # rs) w = (case evb_connection r w of Inl e \<Rightarrow> Inl e | Inr w1 \<Rightarrow> evb_connections rs w1)"

text \<open>A call of the wrapped helper, with the callbacks it makes.\<close>

definition with_inner :: "('h \<Rightarrow> 'h helper_result) \<Rightarrow> ('s, 'h) EvbHandshakeHelper \<Rightarrow> cpp_exn + ('s, 'h) EvbHandshakeHelper" where
  "with_inner f w =
     (case inner w of
        None \<Rightarrow> Inl Undefined
      | Some h \<Rightarrow> (case f h of Inl e \<Rightarrow> Inl e | Inr (h', rs) \<Rightarrow> evb_connections rs (w\<lparr>inner := Some h'\<rparr>)))"

definition destroyed :: "('s, 'h) EvbHandshakeHelper \<Rightarrow> bool" where
  "destroyed w \<longleftrightarrow> released w \<and> \<not> dropConnectionGuard w"

text \<open>The lambdas; each uses the helper, which must not have been destroyed.\<close>

fun run_task :: "('s, 'h) helper_ops \<Rightarrow> 's evb_task \<Rightarrow> ('s, 'h) EvbHandshakeHelper \<Rightarrow> cpp_exn + ('s, 'h) EvbHandshakeHelper" where
  "run_task hops (TaskStart sock) w =
     (if destroyed w then Inl Undefined
      else (case attach_transport HandshakeEvb w of Inl e \<Rightarrow> Inl e | Inr w1 \<Rightarrow> with_inner (h_start hops sock) w1))"
| "run_task hops (TaskDrop reason) w =
     (if destroyed w then Inl Undefined
      else
        (case with_inner (h_drop hops reason) w of
           Inl e \<Rightarrow> Inl e
         | Inr w1 \<Rightarrow> Inr (w1\<lparr>inner := None, original_queue := original_queue w1 @ [TaskClear]\<rparr>)))"
| "run_task hops (TaskReport r) w =
     (if destroyed w then Inl Undefined
      else
        (case attach_transport OriginalEvb w of
           Inl e \<Rightarrow> Inl e
         | Inr w1 \<Rightarrow> Inr (if dropConnectionGuard w1 then w1\<lparr>dropConnectionGuard := False\<rparr> else call_back r w1)))"
| "run_task hops TaskClear w = (if destroyed w then Inl Undefined else Inr (w\<lparr>dropConnectionGuard := False\<rparr>))"

section \<open>Interleavings\<close>

text \<open>
  What may happen next: the owner drops the connection as long as it has not been called back, a thread runs
  its next task, or the socket calls the wrapped helper on the thread of the handshake.
\<close>

datatype evb_action = DropNow SSLErrorEnum | RunOriginal | RunHandshake | SocketCalls sock_event

fun evb_enabled :: "('h \<Rightarrow> bool) \<Rightarrow> (sock_event \<Rightarrow> 'h \<Rightarrow> bool) \<Rightarrow> evb_action \<Rightarrow> ('s, 'h) EvbHandshakeHelper \<Rightarrow> bool" where
  "evb_enabled pending can (DropNow reason) w = (originalEvb w \<and> \<not> released w)"
| "evb_enabled pending can RunOriginal w = (original_queue w \<noteq> [])"
| "evb_enabled pending can RunHandshake w = (handshake_queue w \<noteq> [])"
| "evb_enabled pending can (SocketCalls ev) w = (attached w = Some HandshakeEvb \<and> (\<exists>h. inner w = Some h \<and> pending h \<and> can ev h))"

fun evb_act :: "('s, 'h) helper_ops \<Rightarrow> evb_action \<Rightarrow> ('s, 'h) EvbHandshakeHelper \<Rightarrow> cpp_exn + ('s, 'h) EvbHandshakeHelper" where
  "evb_act hops (DropNow reason) w = evb_dropConnection reason w"
| "evb_act hops RunOriginal w = run_task hops (hd (original_queue w)) (w\<lparr>original_queue := tl (original_queue w)\<rparr>)"
| "evb_act hops RunHandshake w = run_task hops (hd (handshake_queue w)) (w\<lparr>handshake_queue := tl (handshake_queue w)\<rparr>)"
| "evb_act hops (SocketCalls ev) w = with_inner (h_event hops ev) w"

inductive evb_reach :: "('s, 'h) helper_ops \<Rightarrow> ('h \<Rightarrow> bool) \<Rightarrow> (sock_event \<Rightarrow> 'h \<Rightarrow> bool) \<Rightarrow> 'h \<Rightarrow> 's
    \<Rightarrow> ('s, 'h) EvbHandshakeHelper \<Rightarrow> bool"
  for hops pending can h sock where
  started: "evb_start sock (EvbHandshakeHelper_new h) = Inr w \<Longrightarrow> evb_reach hops pending can h sock w"
| step: "evb_reach hops pending can h sock w \<Longrightarrow> evb_enabled pending can a w \<Longrightarrow> evb_act hops a w = Inr w'
    \<Longrightarrow> evb_reach hops pending can h sock w'"

section \<open>The two races\<close>

text \<open>The states of the helper, after the cases that \<open>EvbHandshakeHelper.h\<close> discusses.\<close>

definition evb_at :: "HandshakeState \<Rightarrow> bool \<Rightarrow> bool \<Rightarrow> 'h option \<Rightarrow> evb option \<Rightarrow> 's evb_task list \<Rightarrow> 's evb_task list
    \<Rightarrow> report list \<Rightarrow> ('s, 'h) EvbHandshakeHelper" where
  "evb_at st guard rel h att oq hq rs =
     \<lparr>state = st, originalEvb = True, dropConnectionGuard = guard, inner = h, attached = att,
      original_queue = oq, handshake_queue = hq, reports = rs, released = rel\<rparr>"

inductive evb_inv :: "('s \<Rightarrow> bool) \<Rightarrow> ('h \<Rightarrow> bool) \<Rightarrow> ('h \<Rightarrow> bool) \<Rightarrow> ('h \<Rightarrow> bool) \<Rightarrow> ('s, 'h) EvbHandshakeHelper \<Rightarrow> bool"
  for startable fresh pending reported where
  queued: "fresh h \<Longrightarrow> startable s \<Longrightarrow> evb_inv startable fresh pending reported
      (evb_at Started False False (Some h) None [] [TaskStart s] [])"
| shaking: "pending h \<Longrightarrow> evb_inv startable fresh pending reported
      (evb_at Started False False (Some h) (Some HandshakeEvb) [] [] [])"
| called: "reported h \<Longrightarrow> evb_inv startable fresh pending reported
      (evb_at Callback False False (Some h) None [TaskReport r] [] [])"
| called_dropped: "reported h \<Longrightarrow> evb_inv startable fresh pending reported
      (evb_at Callback True True (Some h) None [TaskReport r] [] [d])"
| finished: "reported h \<Longrightarrow> evb_inv startable fresh pending reported
      (evb_at Callback False True (Some h) (Some OriginalEvb) [] [] [r])"
| dropped_queued: "fresh h \<Longrightarrow> startable s \<Longrightarrow> evb_inv startable fresh pending reported
      (evb_at Dropped True True (Some h) None [] [TaskStart s, TaskDrop e] [d])"
| dropped: "pending h \<or> reported h \<Longrightarrow> evb_inv startable fresh pending reported
      (evb_at Dropped True True (Some h) (Some HandshakeEvb) [] [TaskDrop e] [d])"
| dropped_inner: "evb_inv startable fresh pending reported
      (evb_at Dropped True True None (Some HandshakeEvb) [TaskClear] [] [d])"
| dropped_finished: "evb_inv startable fresh pending reported
      (evb_at Dropped False True None (Some HandshakeEvb) [] [] [d])"

lemmas evb_defs = evb_at_def tryTransition_def attach_transport_def detach_transport_def call_back_def with_inner_def
  evb_connection_def evb_dropConnection_def destroyed_def

text \<open>Once the state is not \<open>Started\<close> the callbacks of the wrapped helper do nothing.\<close>

lemma connections_ignored: "state w \<noteq> Started \<Longrightarrow> evb_connections rs w = Inr w"
  by (induction rs) (simp_all add: evb_connection_def tryTransition_def)

lemma inner_ignored:
  assumes "f h = Inr (h', rs)"
  shows "with_inner f (evb_at Dropped g rel (Some h) att oq hq reps) = Inr (evb_at Dropped g rel (Some h') att oq hq reps)"
  using assms by (simp add: with_inner_def evb_at_def connections_ignored)

lemma inner_called:
  assumes "at_most_one pending reported (f h)"
  shows "\<exists>w. with_inner f (evb_at Started False False (Some h) (Some HandshakeEvb) [] [] []) = Inr w \<and>
    evb_inv startable fresh pending reported w"
proof -
  consider (none) h' where "f h = Inr (h', [])" "pending h'" | (one) h' r where "f h = Inr (h', [r])" "reported h'"
    using assms by (auto simp: at_most_one_def)
  then show ?thesis
  proof cases
    case none
    then have "with_inner f (evb_at Started False False (Some h) (Some HandshakeEvb) [] [] []) =
        Inr (evb_at Started False False (Some h') (Some HandshakeEvb) [] [] [])" by (simp add: evb_defs)
    then show ?thesis using evb_inv.shaking [of pending h'] none(2) by blast
  next
    case one
    then have "with_inner f (evb_at Started False False (Some h) (Some HandshakeEvb) [] [] []) =
        Inr (evb_at Callback False False (Some h') None [TaskReport r] [] [])" by (simp add: evb_defs)
    then show ?thesis using evb_inv.called [of reported h'] one(2) by blast
  qed
qed

lemma drop_before_call:
  assumes "fresh h \<and> startable s \<and> att = None \<and> hq = [TaskStart s] \<or> pending h \<and> att = Some HandshakeEvb \<and> hq = []"
  shows "\<exists>w. evb_dropConnection reason (evb_at Started False False (Some h) att [] hq []) = Inr w \<and>
    evb_inv startable fresh pending reported w"
proof -
  have "evb_dropConnection reason (evb_at Started False False (Some h) att [] hq []) =
      Inr (evb_at Dropped True True (Some h) att [] (hq @ [TaskDrop reason]) [ConnectionError ConnectionDropped (Some reason)])"
    by (simp add: evb_defs)
  with assms show ?thesis
    using evb_inv.dropped_queued [of fresh h startable s] evb_inv.dropped [of pending h reported] by auto
qed

text \<open>The fields of a state, and the state without its next task.\<close>

lemma evb_at_simps:
  "originalEvb (evb_at st g rel h att oq hq rs)" "released (evb_at st g rel h att oq hq rs) = rel"
  "original_queue (evb_at st g rel h att oq hq rs) = oq" "handshake_queue (evb_at st g rel h att oq hq rs) = hq"
  "attached (evb_at st g rel h att oq hq rs) = att" "inner (evb_at st g rel h att oq hq rs) = h"
  "reports (evb_at st g rel h att oq hq rs) = rs"
  "(evb_at st g rel h att oq hq rs)\<lparr>original_queue := oq'\<rparr> = evb_at st g rel h att oq' hq rs"
  "(evb_at st g rel h att oq hq rs)\<lparr>handshake_queue := hq'\<rparr> = evb_at st g rel h att oq hq' rs"
  "destroyed (evb_at st g rel h att oq hq rs) \<longleftrightarrow> rel \<and> \<not> g"
  "attach_transport e (evb_at st g rel h None oq hq rs) = Inr (evb_at st g rel h (Some e) oq hq rs)"
  by (simp_all add: evb_at_def destroyed_def attach_transport_def)

lemma drop_called:
  "evb_dropConnection reason (evb_at Callback False False h att oq hq []) =
     Inr (evb_at Callback True True h att oq hq [ConnectionError ConnectionDropped (Some reason)])"
  by (simp add: evb_defs)

context droppable_helper
begin

abbreviation "EI \<equiv> evb_inv startable fresh pending reported"

text \<open>Each case and what may happen in it.\<close>

lemma run_start:
  assumes "fresh h" "startable s"
  shows "\<exists>w. run_task hops (TaskStart s) (evb_at Started False False (Some h) None [] [] []) = Inr w \<and> EI w"
  using inner_called [of pending reported "h_start hops s" h, OF start_once [OF assms]] by (simp add: evb_at_simps)

lemma run_dropped_start:
  assumes "fresh h" "startable s"
  shows "\<exists>w. run_task hops (TaskStart s) (evb_at Dropped True True (Some h) None [] [TaskDrop e] [d]) = Inr w \<and> EI w"
proof -
  from start_once [OF assms] obtain h' rs where h': "h_start hops s h = Inr (h', rs)" "pending h' \<or> reported h'"
    by (auto simp: at_most_one_def)
  show ?thesis
    using h'(2) by (simp add: evb_at_simps inner_ignored [of "h_start hops s" h h' rs, OF h'(1)] evb_inv.dropped)
qed

lemma run_drop:
  assumes "pending h \<or> reported h"
  shows "\<exists>w. run_task hops (TaskDrop e) (evb_at Dropped True True (Some h) (Some HandshakeEvb) [] [] [d]) = Inr w \<and> EI w"
proof -
  from assms drop_once [of h e] drop_reported [of h e] obtain h' rs where "h_drop hops e h = Inr (h', rs)"
    by (auto simp: exactly_one_def)
  note ign = inner_ignored [of "h_drop hops e" h h' rs, OF this]
  have "run_task hops (TaskDrop e) (evb_at Dropped True True (Some h) (Some HandshakeEvb) [] [] [d]) =
      Inr (evb_at Dropped True True None (Some HandshakeEvb) [TaskClear] [] [d])"
    by (simp add: ign evb_at_simps) (simp add: evb_at_def)
  then show ?thesis using evb_inv.dropped_inner by blast
qed

lemma socket_while_dropped:
  assumes "pending h" "can ev h"
  shows "\<exists>w. with_inner (h_event hops ev) (evb_at Dropped True True (Some h) (Some HandshakeEvb) [] [TaskDrop e] [d]) = Inr w \<and> EI w"
proof -
  from event_once [OF assms] obtain h' rs where h': "h_event hops ev h = Inr (h', rs)" "pending h' \<or> reported h'"
    by (auto simp: at_most_one_def)
  show ?thesis
    using h'(2) by (simp add: inner_ignored [of "h_event hops ev" h h' rs, OF h'(1)] evb_inv.dropped)
qed

lemma run_report:
  assumes "reported h"
  shows "\<exists>w. run_task hops (TaskReport r) (evb_at Callback False False (Some h) None [] [] []) = Inr w \<and> EI w"
    "\<exists>w. run_task hops (TaskReport r) (evb_at Callback True True (Some h) None [] [] [d]) = Inr w \<and> EI w"
proof -
  have "run_task hops (TaskReport r) (evb_at Callback False False (Some h) None [] [] []) =
      Inr (evb_at Callback False True (Some h) (Some OriginalEvb) [] [] [r])"
    "run_task hops (TaskReport r) (evb_at Callback True True (Some h) None [] [] [d]) =
      Inr (evb_at Callback False True (Some h) (Some OriginalEvb) [] [] [d])" by (simp_all add: evb_defs)
  then show "\<exists>w. run_task hops (TaskReport r) (evb_at Callback False False (Some h) None [] [] []) = Inr w \<and> EI w"
    "\<exists>w. run_task hops (TaskReport r) (evb_at Callback True True (Some h) None [] [] [d]) = Inr w \<and> EI w"
    using evb_inv.finished [of reported h] assms by auto
qed

lemma run_clear:
  "\<exists>w. run_task hops TaskClear (evb_at Dropped True True None (Some HandshakeEvb) [] [] [d]) = Inr w \<and> EI w"
proof -
  have "run_task hops TaskClear (evb_at Dropped True True None (Some HandshakeEvb) [] [] [d]) =
      Inr (evb_at Dropped False True None (Some HandshakeEvb) [] [] [d])" by (simp add: evb_defs)
  then show ?thesis using evb_inv.dropped_finished by blast
qed

lemma drop_after_call:
  assumes "reported h"
  shows "\<exists>w. evb_dropConnection reason (evb_at Callback False False (Some h) None [TaskReport r] [] []) = Inr w \<and> EI w"
  using assms by (simp add: drop_called evb_inv.called_dropped)

lemma socket_while_shaking:
  assumes "pending h" "can ev h"
  shows "\<exists>w. with_inner (h_event hops ev) (evb_at Started False False (Some h) (Some HandshakeEvb) [] [] []) = Inr w \<and> EI w"
  by (rule inner_called) (rule event_once [OF assms])

lemma evb_step_ok:
  assumes "EI w" "evb_enabled pending can a w"
  shows "\<exists>w'. evb_act hops a w = Inr w' \<and> EI w'"
  using assms
proof (cases rule: evb_inv.cases)
  case (queued h s)
  then show ?thesis using assms(2) run_start drop_before_call [of fresh h startable s]
    by (cases a) (simp_all add: evb_at_simps)
next
  case (shaking h)
  then show ?thesis using assms(2) socket_while_shaking
      drop_before_call [of fresh h startable undefined _ _ pending]
    by (cases a) (simp_all add: evb_at_simps)
next
  case (called h r)
  then show ?thesis using assms(2) run_report(1) drop_after_call by (cases a) (simp_all add: evb_at_simps)
next
  case (called_dropped h r d)
  then show ?thesis using assms(2) run_report(2) by (cases a) (simp_all add: evb_at_simps)
next
  case (dropped_queued h s e d)
  then show ?thesis using assms(2) run_dropped_start by (cases a) (simp_all add: evb_at_simps)
next
  case (dropped h e d)
  then show ?thesis using assms(2) run_drop socket_while_dropped by (cases a) (simp_all add: evb_at_simps)
next
  case (dropped_inner d)
  then show ?thesis using assms(2) run_clear by (cases a) (simp_all add: evb_at_simps)
qed (use assms(2) in \<open>cases a; simp add: evb_at_simps\<close>)+

lemma evb_reach_inv:
  assumes "fresh h" "startable s" "evb_reach hops pending can h s w"
  shows "EI w"
  using assms(3)
proof induction
  case (started w)
  have "evb_start s (EvbHandshakeHelper_new h) = Inr (evb_at Started False False (Some h) None [] [TaskStart s] [])"
    by (simp add: evb_start_def EvbHandshakeHelper_new_def evb_defs)
  with started evb_inv.queued [of fresh h startable s] assms(1,2) show ?case by simp
next
  case (step w a w')
  with evb_step_ok [of w a] show ?case by auto
qed

end

text \<open>What the invariant says of a state.\<close>

lemma evb_inv_facts:
  assumes "evb_inv startable fresh pending reported w"
  shows "length (reports w) \<le> 1" "released w = (reports w \<noteq> [])"
    "handshake_queue w = TaskDrop e # ts \<Longrightarrow> attached w = Some HandshakeEvb"
    "original_queue w = [] \<Longrightarrow> handshake_queue w = [] \<Longrightarrow>
      length (reports w) = 1 \<and> destroyed w \<or> reports w = [] \<and> (\<exists>h. inner w = Some h \<and> pending h)"
  using assms by (cases rule: evb_inv.cases; simp add: evb_at_simps)+

text \<open>
  C7. A handshake on its own event base, for a helper that may also be dropped after it has reported, in every
  interleaving of the two threads and the socket: no step fails, so no CHECK fails, the transport is never attached
  twice and no task uses the helper after it is destroyed; the acceptor is called back at most once; when the wrapped
  helper is dropped the transport is attached to the thread that does it; and when both queues are empty either the
  handshake is still pending or the acceptor has been called back exactly once and the helper is destroyed.
\<close>

theorem evb_handshake_safe:
  assumes "droppable_helper hops startable fresh pending reported can" "fresh h" "startable s" "evb_reach hops pending can h s w"
  shows "(\<forall>a. evb_enabled pending can a w \<longrightarrow> (\<exists>w'. evb_act hops a w = Inr w')) \<and> length (reports w) \<le> 1 \<and>
    (\<forall>e ts. handshake_queue w = TaskDrop e # ts \<longrightarrow> attached w = Some HandshakeEvb) \<and>
    (original_queue w = [] \<and> handshake_queue w = [] \<longrightarrow>
       length (reports w) = 1 \<and> destroyed w \<or> reports w = [] \<and> (\<exists>h. inner w = Some h \<and> pending h))"
proof -
  have w: "evb_inv startable fresh pending reported w" by (rule droppable_helper.evb_reach_inv [OF assms])
  then show ?thesis using evb_inv_facts [OF w] droppable_helper.evb_step_ok [OF assms(1) w] by blast
qed

text \<open>The TLS helper, dropped while the start is still queued.\<close>

definition evb_sock :: simple_sock where
  "evb_sock = \<lparr>ss_accepting = False, ss_reading = False, ss_data = []\<rparr>"

theorem evb_handshake_safe_witness:
  "\<exists>w w'. evb_start evb_sock (EvbHandshakeHelper_new (SSLHelper SSLAcceptorHandshakeHelper_new)) = Inr w \<and>
     evb_act (plain_ops simple_sops) (DropNow TIMEOUT) w = Inr w' \<and> length (reports w') \<le> 1"
proof -
  let ?h = "SSLHelper SSLAcceptorHandshakeHelper_new :: simple_sock plain_helper"
  let ?w = "evb_at Started False False (Some ?h) None [] [TaskStart evb_sock] []"
  let ?P = "\<lambda>h. is_ssl h \<and> plain_pending ss_accepting h"
  have st: "evb_start evb_sock (EvbHandshakeHelper_new ?h) = Inr ?w"
    by (simp add: evb_start_def EvbHandshakeHelper_new_def evb_defs)
  then have r: "evb_reach (plain_ops simple_sops) ?P (\<lambda>ev h. handshake_event ev) ?h evb_sock ?w" by (rule evb_reach.started)
  have f: "is_ssl ?h" by (simp add: is_ssl_def)
  have en: "evb_enabled ?P (\<lambda>ev h. handshake_event ev) (DropNow TIMEOUT) ?w" by (simp add: evb_at_simps)
  from evb_handshake_safe [OF ssl_simple.droppable_helper_axioms f TrueI r] en obtain w' where
    w': "evb_act (plain_ops simple_sops) (DropNow TIMEOUT) ?w = Inr w'" by blast
  from evb_handshake_safe [OF ssl_simple.droppable_helper_axioms f TrueI evb_reach.step [OF r en w']] w' st show ?thesis by blast
qed

text \<open>Around the plain-text helper a drop before the queued start fails: that helper has nothing to drop.\<close>

lemma evb_unencrypted_crash:
  "\<exists>w1 w2 w3. evb_start sock (EvbHandshakeHelper_new UnencryptedHelper) = Inr w1 \<and>
     evb_act (plain_ops sops) (DropNow reason) w1 = Inr w2 \<and> evb_act (plain_ops sops) RunHandshake w2 = Inr w3 \<and>
     evb_act (plain_ops sops) RunHandshake w3 = Inl CheckFailed"
  by (simp add: evb_start_def EvbHandshakeHelper_new_def evb_defs plain_ops_def)

end
