(* ===== verification/Client_Sessions.thy ===== *)
theory Client_Sessions
  imports Client_Persistence
begin

text \<open>
  \<open>client/ssl\<close>: TLS sessions of a client in a persistent cache. OpenSSL's sessions are an argument: what a session
  holds, how it is serialized, and its ticket; the string that the library attaches to a session is part of the
  model. Reference counts are left out.
\<close>

section \<open>Sessions\<close>

text \<open>
  An \<open>SSL_SESSION\<close> with the service identity kept in its \<open>ex_data\<close>. \<open>i2d\<close> answers \<open>None\<close> for a session that cannot be
  serialized, \<open>have_dup\<close> is \<open>WANGLE_HAVE_SSL_SESSION_DUP\<close>.
\<close>

record 'x ssl_session =
  session_content :: 'x
  session_identity :: "string option"

record 'x openssl_sessions =
  i2d :: "'x \<Rightarrow> string option"
  d2i :: "string \<Rightarrow> 'x option"
  has_ticket :: "'x \<Rightarrow> bool"
  ticket_lifetime_hint :: "'x \<Rightarrow> u64"
  session_hostname :: "'x \<Rightarrow> string option"
  have_dup :: bool

record 'x SSLSessionCacheData =
  sessionData :: string
  addedTime :: u64
  serviceIdentity :: string
  sessionDuplicateTemplate :: "'x ssl_session option"

definition fbStringToSession :: "'x openssl_sessions \<Rightarrow> string \<Rightarrow> 'x ssl_session option" where
  "fbStringToSession S str = map_option (\<lambda>x. \<lparr>session_content = x, session_identity = None\<rparr>) (d2i S str)"

definition sessionToFbString :: "'x openssl_sessions \<Rightarrow> 'x ssl_session option \<Rightarrow> string option" where
  "sessionToFbString S session = (case session of None \<Rightarrow> None | Some s \<Rightarrow> i2d S (session_content s))"

definition setSessionServiceIdentity :: "'x ssl_session \<Rightarrow> string \<Rightarrow> bool \<times> 'x ssl_session" where
  "setSessionServiceIdentity session str =
     (if str = [] then (False, session) else (True, session\<lparr>session_identity := Some str\<rparr>))"

definition getSessionServiceIdentity :: "'x ssl_session option \<Rightarrow> string option" where
  "getSessionServiceIdentity session = (case session of None \<Rightarrow> None | Some s \<Rightarrow> session_identity s)"

definition getCacheDataForSession :: "'x openssl_sessions \<Rightarrow> 'x ssl_session option \<Rightarrow> 'x SSLSessionCacheData option" where
  "getCacheDataForSession S sess =
     (case sessionToFbString S sess of
        None \<Rightarrow> None
      | Some data \<Rightarrow>
          Some \<lparr>sessionData = data, addedTime = 0,
            serviceIdentity = (case getSessionServiceIdentity sess of None \<Rightarrow> [] | Some str \<Rightarrow> str),
            sessionDuplicateTemplate = (if have_dup S then sess else None)\<rparr>)"

definition getSessionFromCacheData :: "'x openssl_sessions \<Rightarrow> 'x SSLSessionCacheData \<Rightarrow> 'x ssl_session option" where
  "getSessionFromCacheData S data =
     (if have_dup S \<and> sessionDuplicateTemplate data \<noteq> None then sessionDuplicateTemplate data
      else
        (case fbStringToSession S (sessionData data) of
           None \<Rightarrow> None
         | Some s \<Rightarrow> Some (snd (setSessionServiceIdentity s (serviceIdentity data)))))"

definition cloneSSLSession :: "'x openssl_sessions \<Rightarrow> 'x ssl_session option \<Rightarrow> 'x ssl_session option" where
  "cloneSSLSession S toClone =
     (if toClone = None then None
      else if have_dup S then toClone
      else
        (case sessionToFbString S toClone of
           None \<Rightarrow> None
         | Some data \<Rightarrow>
             (case fbStringToSession S data of
                None \<Rightarrow> None
              | Some clone \<Rightarrow>
                  (case getSessionServiceIdentity toClone of
                     None \<Rightarrow> Some clone
                   | Some str \<Rightarrow> Some (snd (setSessionServiceIdentity clone str))))))"

section \<open>Serialization\<close>

text \<open>
  \<open>folly::dynamic\<close> as far as it is used. The conversions \<open>asString\<close> and \<open>asInt\<close>, which throw for what they cannot convert,
  are arguments.
\<close>

datatype dyn = DStr string | DInt u64 | DArr "dyn list" | DObj "(string \<times> dyn) list"

record dyn_conv =
  asString :: "dyn \<Rightarrow> string option"
  asInt :: "dyn \<Rightarrow> u64 option"

text \<open>\<open>d[k]\<close> and \<open>getDefault\<close> on an object.\<close>

fun dyn_at :: "string \<Rightarrow> dyn \<Rightarrow> dyn option" where
  "dyn_at k (DObj kvs) = map_of kvs k"
| "dyn_at k _ = None"

fun getDefault :: "string \<Rightarrow> dyn \<Rightarrow> dyn \<Rightarrow> dyn option" where
  "getDefault k dflt (DObj kvs) = Some (case map_of kvs k of None \<Rightarrow> dflt | Some v \<Rightarrow> v)"
| "getDefault k dflt _ = None"

definition toDynamic :: "'x SSLSessionCacheData \<Rightarrow> dyn" where
  "toDynamic data =
     DObj [(''session_data'', DStr (sessionData data)), (''added_time'', DInt (addedTime data)),
       (''service_identity'', DStr (serviceIdentity data))]"

definition convertTo :: "dyn_conv \<Rightarrow> dyn \<Rightarrow> 'x SSLSessionCacheData option" where
  "convertTo C d =
     (case Option.bind (dyn_at ''session_data'' d) (asString C) of
        None \<Rightarrow> None
      | Some str \<Rightarrow>
          (case Option.bind (dyn_at ''added_time'' d) (asInt C) of
             None \<Rightarrow> None
           | Some t \<Rightarrow>
               (case Option.bind (getDefault ''service_identity'' (DStr []) d) (asString C) of
                  None \<Rightarrow> None
                | Some ident \<Rightarrow>
                    Some \<lparr>sessionData = str, addedTime = t, serviceIdentity = ident, sessionDuplicateTemplate = None\<rparr>)))"

text \<open>The conversions of the persistent cache for string keys.\<close>

definition session_dynamic :: "dyn_conv \<Rightarrow> (string, 'x SSLSessionCacheData, dyn) dynamic_ops" where
  "session_dynamic C =
     \<lparr>dyn_array = DArr,
      dyn_items = (\<lambda>d. case d of DArr ds \<Rightarrow> Some ds | _ \<Rightarrow> None),
      dyn_of_pair = (\<lambda>(k, v). Some (DArr [DStr k, toDynamic v])),
      dyn_pair = (\<lambda>d. case d of
          DArr [k, v] \<Rightarrow> (case (asString C k, convertTo C v) of (Some k', Some v') \<Rightarrow> Some (k', v') | _ \<Rightarrow> None)
        | _ \<Rightarrow> None)\<rparr>"

section \<open>SSLSessionPersistentCache\<close>

text \<open>The tick of the system clock is a nanosecond; a duration in seconds is cut off towards zero.\<close>

definition seconds_between :: "u64 \<Rightarrow> u64 \<Rightarrow> int" where
  "seconds_between now added =
     (let d = sint now - sint added in if d \<ge> 0 then d div 1000000000 else - ((- d) div 1000000000))"

definition setSSLSession :: "(string, 'x SSLSessionCacheData, 'c) evicting_ops \<Rightarrow> 'x openssl_sessions \<Rightarrow> u64 \<Rightarrow> string
    \<Rightarrow> 'x ssl_session option \<Rightarrow> ('c, 'p) LRUPersistentCache \<Rightarrow> ('c, 'p) LRUPersistentCache" where
  "setSSLSession E S now identity session c =
     (if session = None then c
      else
        (case getCacheDataForSession S session of
           None \<Rightarrow> c
         | Some data \<Rightarrow> cache_put E identity (data\<lparr>addedTime := now\<rparr>) c))"

definition getSSLSession :: "(string, 'x SSLSessionCacheData, 'c) evicting_ops \<Rightarrow> 'x openssl_sessions \<Rightarrow> u64 \<Rightarrow> string
    \<Rightarrow> ('c, 'p) LRUPersistentCache \<Rightarrow> 'x ssl_session option \<times> ('c, 'p) LRUPersistentCache" where
  "getSSLSession E S now identity c =
     (case cache_get E identity c of
        (None, c') \<Rightarrow> (None, c')
      | (Some data, c') \<Rightarrow>
          (let sess = getSessionFromCacheData S data in
           (case sess of
              None \<Rightarrow> (None, c')
            | Some s \<Rightarrow>
                (if has_ticket S (session_content s) \<and> ticket_lifetime_hint S (session_content s) > 0 \<and>
                    seconds_between now (addedTime data) \<ge> uint (ticket_lifetime_hint S (session_content s))
                 then (None, c') else (Some s, c')))))"

definition removeSSLSession :: "(string, 'x SSLSessionCacheData, 'c) evicting_ops \<Rightarrow> string
    \<Rightarrow> ('c, 'p) LRUPersistentCache \<Rightarrow> bool \<times> ('c, 'p) LRUPersistentCache" where
  "removeSSLSession E identity c = cache_remove E identity c"

section \<open>SSLSessionCallbacks\<close>

text \<open>An \<open>SSL_CTX\<close>: the cache in its \<open>ex_data\<close>, an address, and whether the two callbacks are set.\<close>

record ssl_ctx =
  ctx_cache :: "nat option"
  new_cb :: bool
  remove_cb :: bool

definition attachCallbacksToContext :: "nat \<Rightarrow> ssl_ctx \<Rightarrow> ssl_ctx" where
  "attachCallbacksToContext callbacks ctx = ctx\<lparr>ctx_cache := Some callbacks, new_cb := True, remove_cb := True\<rparr>"

definition detachCallbacksFromContext :: "nat \<Rightarrow> ssl_ctx \<Rightarrow> ssl_ctx" where
  "detachCallbacksFromContext callbacks ctx =
     (if ctx_cache ctx \<noteq> Some callbacks then ctx else ctx\<lparr>ctx_cache := None, new_cb := False, remove_cb := False\<rparr>)"

text \<open>
  The callback for a new session on a connection: \<open>sock_key\<close> is the session key of its socket, if OpenSSL knows the
  socket, and \<open>sni\<close> the server name. Answers what the callback returns.
\<close>

definition newSessionCallback :: "(string, 'x SSLSessionCacheData, 'c) evicting_ops \<Rightarrow> 'x openssl_sessions \<Rightarrow> u64
    \<Rightarrow> string option \<Rightarrow> string option \<Rightarrow> 'x ssl_session \<Rightarrow> ('c, 'p) LRUPersistentCache \<Rightarrow> int \<times> ('c, 'p) LRUPersistentCache" where
  "newSessionCallback E S now sock_key sni session c =
     (let sessionKey = (case sock_key of None \<Rightarrow> [] | Some k \<Rightarrow> k);
          sessionKey = (if sessionKey = [] then (case sni of None \<Rightarrow> [] | Some name \<Rightarrow> name) else sessionKey) in
      if sessionKey \<noteq> []
      then (1, setSSLSession E S now sessionKey (Some (snd (setSessionServiceIdentity session sessionKey))) c)
      else (-1, c))"

definition removeSessionCallback :: "(string, 'x SSLSessionCacheData, 'c) evicting_ops \<Rightarrow> 'x openssl_sessions
    \<Rightarrow> 'x ssl_session \<Rightarrow> ('c, 'p) LRUPersistentCache \<Rightarrow> ('c, 'p) LRUPersistentCache" where
  "removeSessionCallback E S session c =
     (case getSessionServiceIdentity (Some session) of
        Some ident \<Rightarrow>
          (if ident \<noteq> [] then snd (removeSSLSession E ident c)
           else (case session_hostname S (session_content session) of None \<Rightarrow> c | Some h \<Rightarrow> snd (removeSSLSession E h c)))
      | None \<Rightarrow> (case session_hostname S (session_content session) of None \<Rightarrow> c | Some h \<Rightarrow> snd (removeSSLSession E h c)))"

end
