(* ===== verification/Client_Sessions_Props.thy ===== *)
theory Client_Sessions_Props
  imports Client_Sessions Client_Persistence_Props
begin

text \<open>
  A session that a server gave to the client is found again under its key until its ticket expires, also by a new cache
  over the file of the old one.
\<close>

section \<open>Contracts\<close>

text \<open>OpenSSL reads back the sessions it has serialized; folly's conversions are the identity on values of the right type.\<close>

locale session_codec =
  fixes S :: "'x openssl_sessions"
  assumes d2i_i2d: "i2d S x = Some str \<Longrightarrow> d2i S str = Some x"

locale dyn_conversion =
  fixes C :: dyn_conv
  assumes asString_str [simp]: "asString C (DStr str) = Some str"
    and asInt_int [simp]: "asInt C (DInt n) = Some n"
begin

text \<open>What a value is after it has been written and read.\<close>

lemma convertTo_toDynamic: "convertTo C (toDynamic d) = Some (d\<lparr>sessionDuplicateTemplate := None\<rparr>)"
  by (simp add: convertTo_def toDynamic_def)

lemma session_pair:
  "dyn_of_pair (session_dynamic C) kv = Some (DArr [DStr (fst kv), toDynamic (snd kv)])"
  "dyn_pair (session_dynamic C) (DArr [DStr k, toDynamic v]) = Some (k, v\<lparr>sessionDuplicateTemplate := None\<rparr>)"
  by (simp_all add: session_dynamic_def convertTo_toDynamic split_beta)

lemma session_array:
  "dyn_array (session_dynamic C) = DArr" "dyn_items (session_dynamic C) (DArr ds) = Some ds"
  by (simp_all add: session_dynamic_def)

lemma those_sessions:
  "those (map (dyn_of_pair (session_dynamic C)) kvs) = Some (map (\<lambda>kv. DArr [DStr (fst kv), toDynamic (snd kv)]) kvs)"
  by (induction kvs) (simp_all add: session_pair(1))

lemma convertible_sessions:
  "convertible (session_dynamic C) (map (\<lambda>kv. DArr [DStr (fst kv), toDynamic (snd kv)]) kvs) =
     map (apsnd (sessionDuplicateTemplate_update (\<lambda>_. None))) kvs"
  by (induction kvs) (simp_all add: session_pair(2) apsnd_def map_prod_def split_beta)

end

locale session_cache = evicting_cache_map E content capacity + session_codec S + dyn_conversion C + persistence_layer P stored
  for E :: "(string, 'x SSLSessionCacheData, 'c) evicting_ops" and content and capacity
    and S :: "'x openssl_sessions" and C :: dyn_conv and P :: "(dyn, 'p) persistence_ops" and stored

section \<open>Sessions and their data\<close>

definition ticket_expired :: "'x openssl_sessions \<Rightarrow> u64 \<Rightarrow> u64 \<Rightarrow> 'x \<Rightarrow> bool" where
  "ticket_expired S now added x \<longleftrightarrow> has_ticket S x \<and> ticket_lifetime_hint S x > 0 \<and>
     seconds_between now added \<ge> uint (ticket_lifetime_hint S x)"

text \<open>Data from which the session is made again, and that is known to be added at a time.\<close>

definition data_of :: "'x openssl_sessions \<Rightarrow> 'x ssl_session \<Rightarrow> u64 \<Rightarrow> 'x SSLSessionCacheData \<Rightarrow> bool" where
  "data_of S s t d \<longleftrightarrow> getSessionFromCacheData S d = Some s \<and> addedTime d = t"

context session_codec
begin

lemma session_data:
  assumes "i2d S x = Some str" "ident \<noteq> []"
  defines "s \<equiv> \<lparr>session_content = x, session_identity = Some ident\<rparr>"
  obtains d where "getCacheDataForSession S (Some s) = Some d" "data_of S s t (d\<lparr>addedTime := t\<rparr>)"
    "data_of S s t (d\<lparr>addedTime := t, sessionDuplicateTemplate := None\<rparr>)"
  using assms d2i_i2d [OF assms(1)]
  by (simp add: getCacheDataForSession_def sessionToFbString_def getSessionServiceIdentity_def data_of_def
      getSessionFromCacheData_def fbStringToSession_def setSessionServiceIdentity_def)

lemma clone_session:
  assumes "i2d S (session_content s) = Some str" "session_identity s \<noteq> Some []"
  shows "cloneSSLSession S (Some s) = Some s"
  using assms d2i_i2d [OF assms(1)]
  by (cases s) (auto simp: cloneSSLSession_def sessionToFbString_def fbStringToSession_def getSessionServiceIdentity_def
      setSessionServiceIdentity_def split: option.splits)

end

context session_cache
begin

lemma get_session:
  assumes "map_of (content (cache_map (mem c))) k = Some d" "data_of S s t d"
  shows "fst (getSSLSession E S now k c) = (if ticket_expired S now t (session_content s) then None else Some s)"
proof -
  obtain r m where f: "em_find E k (cache_map (mem c)) = (r, m)" by fastforce
  have "r = Some d" using find_value [of k "cache_map (mem c)"] f assms(1) by simp
  with f assms(2) show ?thesis
    by (auto simp: getSSLSession_def cache_get_def mem_get_def data_of_def ticket_expired_def Let_def)
qed

lemma get_no_session:
  assumes "map_of (content (cache_map (mem c))) k = None"
  shows "fst (getSSLSession E S now k c) = None"
proof -
  obtain r m where f: "em_find E k (cache_map (mem c)) = (r, m)" by fastforce
  have "r = None" using find_value [of k "cache_map (mem c)"] f assms(1) by simp
  with f show ?thesis by (simp add: getSSLSession_def cache_get_def mem_get_def)
qed

lemma removed_session:
  "content (cache_map (mem (snd (removeSSLSession E k c)))) = lru_del k (content (cache_map (mem c)))"
proof -
  obtain n m where e: "em_erase E k (cache_map (mem c)) = (n, m)" by fastforce
  have "content m = lru_del k (content (cache_map (mem c)))" using erase_content [of k "cache_map (mem c)"] e by simp
  with e show ?thesis by (simp add: removeSSLSession_def cache_remove_def mem_remove_def incrementVersion_def Let_def)
qed

lemma put_session_content:
  "content (cache_map (mem (cache_put E k d c))) = lru_set (capacity (cache_map (mem c))) k d (content (cache_map (mem c)))"
  by (simp add: cache_put_def mem_put_def incrementVersion_def)

lemma map_of_lru_set: "map_of (lru_set n k d kvs) k = Some d"
  by (cases n) (simp_all add: lru_set_def lru_trim_def)

end

section \<open>Restart\<close>

context session_cache
begin

lemma sessions_after_restart:
  assumes "syncNow E (session_dynamic C) P p (mem c) = (True, p')" "persistedVersion p \<noteq> version (mem c)"
    and "lru_ok n (content (cache_map (mem c)))"
    and "c' = LRUPersistentCache_new E (session_dynamic C) P n r (Some (CachePersistence_new (layer p')))"
  shows "map_of (content (cache_map (mem c'))) k =
    map_option (sessionDuplicateTemplate_update (\<lambda>_. None)) (map_of (content (cache_map (mem c))) k)"
proof -
  let ?D = "session_dynamic C"
  let ?kvs = "content (cache_map (mem c))"
  let ?kvs' = "map (apsnd (sessionDuplicateTemplate_update (\<lambda>_. None))) ?kvs"
  let ?ds = "map (\<lambda>kv. DArr [DStr (fst kv), toDynamic (snd kv)]) ?kvs"
  have ds: "do_persist P (DArr ?ds) (layer p) = (True, layer p')"
    using assms(1,2) by (auto simp: syncNow_def syncNow_begin_def hasChangedSince_def convertToKeyValuePairs_def
        persistVersionedData_def those_sessions session_array split: if_splits prod.splits)
  obtain res l where l: "do_load P (layer p') = (res, l)" by fastforce
  with load_stored [OF l] persist_stored [OF ds] have res: "res = Some (DArr ?ds)" by simp
  have keys: "map fst ?kvs' = map fst ?kvs" by (simp add: comp_def)
  have dist: "distinct (map fst ?kvs')" unfolding keys using assms(3) by (simp add: lru_ok_def)
  have "content (cache_map (mem c')) = lru_trim n (rev ?kvs')"
    unfolding assms(4) using l res fold_set_content [OF dist, of n]
    by (simp add: LRUPersistentCache_new_def setPersistenceHelper_def cache_load_def CachePersistence_new_def
        loadData_def load_loop_fold LRUInMemoryCache_new_def incrementVersion_def convertible_sessions session_array Let_def split_beta)
  also have "\<dots> = rev ?kvs'" using assms(3) by (auto simp: lru_ok_def lru_trim_def)
  finally have "map_of (content (cache_map (mem c'))) k = map_of ?kvs' k" using map_of_rev_distinct [OF dist] by simp
  then show ?thesis by (simp add: map_of_map apsnd_def map_prod_def)
qed

end

section \<open>Resumption\<close>

text \<open>The key of a session: the key of its socket or else the server name.\<close>

definition session_key :: "string option \<Rightarrow> string option \<Rightarrow> string" where
  "session_key sock_key sni =
     (if sock_key = None \<or> sock_key = Some [] then (case sni of None \<Rightarrow> [] | Some name \<Rightarrow> name) else the sock_key)"

lemma new_session:
  "newSessionCallback E S t sock_key sni s c =
     (if session_key sock_key sni \<noteq> []
      then (1, setSSLSession E S t (session_key sock_key sni) (Some (s\<lparr>session_identity := Some (session_key sock_key sni)\<rparr>)) c)
      else (-1, c))"
  by (auto simp: newSessionCallback_def session_key_def setSessionServiceIdentity_def split: option.splits)

context session_cache
begin

lemma new_session_stored:
  assumes "i2d S (session_content s) = Some str" "newSessionCallback E S t sock_key sni s c = (1, c1)"
  defines "k \<equiv> session_key sock_key sni" and "s' \<equiv> s\<lparr>session_identity := Some (session_key sock_key sni)\<rparr>"
  obtains d where "content (cache_map (mem c1)) = lru_set (capacity (cache_map (mem c))) k d (content (cache_map (mem c)))"
    "data_of S s' t d" "data_of S s' t (d\<lparr>sessionDuplicateTemplate := None\<rparr>)" "k \<noteq> []"
proof -
  have k: "k \<noteq> []" and c1: "c1 = setSSLSession E S t k (Some s') c"
    using assms(2) by (simp_all add: new_session k_def s'_def split: if_splits)
  have s': "s' = \<lparr>session_content = session_content s, session_identity = Some k\<rparr>" by (cases s) (simp add: s'_def k_def)
  from session_data [OF assms(1) k, of t] obtain d where d: "getCacheDataForSession S (Some s') = Some d"
    "data_of S s' t (d\<lparr>addedTime := t\<rparr>)" "data_of S s' t (d\<lparr>addedTime := t, sessionDuplicateTemplate := None\<rparr>)"
    unfolding s' by blast
  have "c1 = cache_put E k (d\<lparr>addedTime := t\<rparr>) c" by (simp add: c1 setSSLSession_def d(1))
  with put_session_content [of k "d\<lparr>addedTime := t\<rparr>" c] d k show thesis by (intro that [of "d\<lparr>addedTime := t\<rparr>"]) simp_all
qed

lemma session_resumes:
  assumes "lru_ok (capacity (cache_map (mem c))) (content (cache_map (mem c)))"
    "i2d S (session_content s) = Some str" "newSessionCallback E S t sock_key sni s c = (1, c1)"
  defines "k \<equiv> session_key sock_key sni" and "s' \<equiv> s\<lparr>session_identity := Some (session_key sock_key sni)\<rparr>"
  shows "fst (getSSLSession E S now k c1) = (if ticket_expired S now t (session_content s) then None else Some s')"
    "syncNow E (session_dynamic C) P p (mem c1) = (True, p') \<Longrightarrow> persistedVersion p \<noteq> version (mem c1) \<Longrightarrow>
      n = 0 \<or> capacity (cache_map (mem c)) \<noteq> 0 \<and> capacity (cache_map (mem c)) \<le> n \<Longrightarrow>
      fst (getSSLSession E S now k (LRUPersistentCache_new E (session_dynamic C) P n r (Some (CachePersistence_new (layer p'))))) =
        (if ticket_expired S now t (session_content s) then None else Some s')"
    "fst (getSSLSession E S now k (removeSessionCallback E S s' c1)) = None"
proof -
  from new_session_stored [OF assms(2,3)] obtain d where
    d: "content (cache_map (mem c1)) = lru_set (capacity (cache_map (mem c))) k d (content (cache_map (mem c)))"
      "data_of S s' t d" "data_of S s' t (d\<lparr>sessionDuplicateTemplate := None\<rparr>)" "k \<noteq> []" unfolding k_def s'_def by blast
  have at: "map_of (content (cache_map (mem c1))) k = Some d" by (simp add: d(1) map_of_lru_set)
  have x: "session_content s' = session_content s" by (simp add: s'_def)
  show "fst (getSSLSession E S now k c1) = (if ticket_expired S now t (session_content s) then None else Some s')"
    using get_session [OF at d(2)] by (simp add: x)
  have ident: "getSessionServiceIdentity (Some s') = Some k" by (simp add: getSessionServiceIdentity_def s'_def k_def)
  have "removeSessionCallback E S s' c1 = snd (removeSSLSession E k c1)" using d(4) by (simp add: removeSessionCallback_def ident)
  then show "fst (getSSLSession E S now k (removeSessionCallback E S s' c1)) = None"
    by (simp add: get_no_session removed_session)
  assume sync: "syncNow E (session_dynamic C) P p (mem c1) = (True, p')" "persistedVersion p \<noteq> version (mem c1)"
    and n: "n = 0 \<or> capacity (cache_map (mem c)) \<noteq> 0 \<and> capacity (cache_map (mem c)) \<le> n"
  have "lru_ok (capacity (cache_map (mem c))) (content (cache_map (mem c1)))" using assms(1) by (simp add: d(1))
  then have "lru_ok n (content (cache_map (mem c1)))" using n by (auto simp: lru_ok_def)
  from sessions_after_restart [OF sync this refl, of r k] at
  have "map_of (content (cache_map (mem (LRUPersistentCache_new E (session_dynamic C) P n r
      (Some (CachePersistence_new (layer p')))))) ) k = Some (d\<lparr>sessionDuplicateTemplate := None\<rparr>)" by simp
  from get_session [OF this d(3)] show "fst (getSSLSession E S now k (LRUPersistentCache_new E (session_dynamic C) P n r
      (Some (CachePersistence_new (layer p'))))) = (if ticket_expired S now t (session_content s) then None else Some s')"
    by (simp add: x)
qed

end

text \<open>Sessions that are strings with a ticket of ten seconds, over a layer that keeps one value.\<close>

definition string_sessions :: "string openssl_sessions" where
  "string_sessions = \<lparr>i2d = Some, d2i = Some, has_ticket = (\<lambda>_. True), ticket_lifetime_hint = (\<lambda>_. 10),
     session_hostname = (\<lambda>_. None), have_dup = True\<rparr>"

definition plain_conv :: dyn_conv where
  "plain_conv = \<lparr>asString = (\<lambda>d. case d of DStr str \<Rightarrow> Some str | _ \<Rightarrow> None), asInt = (\<lambda>d. case d of DInt n \<Rightarrow> Some n | _ \<Rightarrow> None)\<rparr>"

definition one_value :: "(dyn, dyn option) persistence_ops" where
  "one_value = \<lparr>do_persist = (\<lambda>d p. (True, Some d)), do_load = (\<lambda>p. (p, p)), do_clear = (\<lambda>p. None)\<rparr>"

interpretation string_sessions: session_codec string_sessions
  by unfold_locales (simp add: string_sessions_def)

interpretation plain_conv: dyn_conversion plain_conv
  by unfold_locales (simp_all add: plain_conv_def)

interpretation string_session_cache: session_cache list_cache snd fst string_sessions plain_conv one_value "\<lambda>p. p"
  by unfold_locales (simp_all add: one_value_def)

text \<open>
  C16. Resumption: a session that the server gave for a key is found again under that key, with the same contents and its
  key as identity, until the lifetime of its ticket is over; a cache that is made over the file after the change
  has been written, with room for as many entries, finds it in the same way; and when OpenSSL asks for its
  removal it is found no more.
\<close>

theorem client_session_resumes:
  assumes "session_cache E content capacity S C P stored" "lru_ok (capacity (cache_map (mem c))) (content (cache_map (mem c)))"
    "i2d S (session_content s) = Some str" "newSessionCallback E S t sock_key sni s c = (1, c1)"
    "k = session_key sock_key sni" "s' = s\<lparr>session_identity := Some k\<rparr>"
  shows "fst (getSSLSession E S now k c1) = (if ticket_expired S now t (session_content s) then None else Some s') \<and>
    (syncNow E (session_dynamic C) P p (mem c1) = (True, p') \<and> persistedVersion p \<noteq> version (mem c1) \<and>
     (n = 0 \<or> capacity (cache_map (mem c)) \<noteq> 0 \<and> capacity (cache_map (mem c)) \<le> n) \<longrightarrow>
      fst (getSSLSession E S now k (LRUPersistentCache_new E (session_dynamic C) P n r (Some (CachePersistence_new (layer p'))))) =
        (if ticket_expired S now t (session_content s) then None else Some s')) \<and>
    fst (getSSLSession E S now k (removeSessionCallback E S s' c1)) = None"
  using session_cache.session_resumes [OF assms(1-4)] unfolding assms(5,6) by blast

definition sample_session :: "string ssl_session" where
  "sample_session = \<lparr>session_content = ''x'', session_identity = None\<rparr>"

definition sample_cache :: "(nat \<times> (string \<times> string SSLSessionCacheData) list, dyn option) LRUPersistentCache" where
  "sample_cache = LRUPersistentCache_new list_cache (session_dynamic plain_conv) one_value 4 3 (Some (CachePersistence_new None))"

theorem client_session_resumes_witness:
  "fst (getSSLSession list_cache string_sessions 9000000000 ''a''
      (snd (newSessionCallback list_cache string_sessions 0 None (Some ''a'') sample_session sample_cache))) =
     Some \<lparr>session_content = ''x'', session_identity = Some ''a''\<rparr>"
proof -
  have c: "cache_map (mem sample_cache) = (4, [])"
    by (simp add: sample_cache_def LRUPersistentCache_new_def setPersistenceHelper_def cache_load_def one_value_def
        CachePersistence_new_def LRUInMemoryCache_new_def list_cache_def)
  then have ok: "lru_ok (fst (cache_map (mem sample_cache))) (snd (cache_map (mem sample_cache)))" by simp
  have i: "i2d string_sessions (session_content sample_session) = Some ''x''" by (simp add: string_sessions_def sample_session_def)
  have n: "newSessionCallback list_cache string_sessions 0 None (Some ''a'') sample_session sample_cache =
      (1, snd (newSessionCallback list_cache string_sessions 0 None (Some ''a'') sample_session sample_cache))"
    by (simp add: new_session session_key_def)
  have e: "\<not> ticket_expired string_sessions 9000000000 0 ''x''"
    by (simp add: ticket_expired_def string_sessions_def seconds_between_def)
  from client_session_resumes [OF string_session_cache.session_cache_axioms ok i n refl refl, of 9000000000] e
  show ?thesis by (simp add: sample_session_def session_key_def)
qed

end
