(* ===== verification/Channel_FileRegion.thy ===== *)
theory Channel_FileRegion
  imports Wangle_Prelude
begin

text \<open>
  \<open>channel/FileRegion.*\<close>: a part of a file is written to a socket through a pipe. A thread of the read pool moves bytes
  from the file into the pipe and announces them in a queue, the thread of the socket moves them on. The system calls
  are what they answer; the contents of the file, the pipe and the socket are the kernel's.
\<close>

section \<open>The request\<close>

text \<open>What \<open>splice\<close> answers: the number of bytes, or the error with \<open>EAGAIN\<close> set apart.\<close>

datatype splice_result = Spliced nat | SpliceAgain | SpliceError

text \<open>
  \<open>readHandler\<close> is \<open>bytesToRead_\<close> and whether the handler is registered; \<open>start_task\<close> says that the lambda of \<open>start\<close> has
  still to run. The last three fields are what the request has asked of the socket: failures, wake-ups and bytes.
\<close>

record FileWriteRequest =
  file_offset :: nat
  count :: nat
  started :: bool
  readBase :: bool
  start_task :: bool
  pipe_out :: bool
  bytesInPipe :: nat
  totalBytesWritten :: nat
  queue :: "nat list"
  readHandler :: "(nat \<times> bool) option"
  pipe :: "byte list"
  failures :: "string list"
  wakeups :: nat
  sent :: "byte list"

definition FileWriteRequest_new :: "nat \<Rightarrow> nat \<Rightarrow> FileWriteRequest" where
  "FileWriteRequest_new offset n =
     \<lparr>file_offset = offset, count = n, started = False, readBase = False, start_task = False, pipe_out = False,
      bytesInPipe = 0, totalBytesWritten = 0, queue = [], readHandler = None, pipe = [], failures = [], wakeups = 0, sent = []\<rparr>"

text \<open>The pointer that \<open>destroy\<close> uses is set in \<open>start\<close> only.\<close>

definition FileWriteRequest_destroy :: "FileWriteRequest \<Rightarrow> cpp_exn + FileWriteRequest" where
  "FileWriteRequest_destroy w = (if readBase w then Inr w else Inl Undefined)"

definition FileWriteRequest_fail :: "string \<Rightarrow> FileWriteRequest \<Rightarrow> FileWriteRequest" where
  "FileWriteRequest_fail ex w = w\<lparr>failures := failures w @ [ex]\<rparr>"

definition FileWriteRequest_start :: "FileWriteRequest \<Rightarrow> FileWriteRequest" where
  "FileWriteRequest_start w = w\<lparr>started := True, readBase := True, start_task := True\<rparr>"

text \<open>The lambda of \<open>start\<close>: the access mode of the file, when \<open>fcntl\<close> gives it, and whether the pipe is made.\<close>

datatype access_mode = ReadOnly | WriteOnly | ReadWrite

definition FileReadHandler_new :: "bool \<Rightarrow> nat \<Rightarrow> FileWriteRequest \<Rightarrow> FileWriteRequest" where
  "FileReadHandler_new registered bytesToRead w =
     (let w1 = w\<lparr>readHandler := Some (bytesToRead, registered)\<rparr> in
      if registered then w1 else FileWriteRequest_fail ''registerHandler failed'' w1)"

definition run_start :: "access_mode option \<Rightarrow> bool \<Rightarrow> bool \<Rightarrow> FileWriteRequest \<Rightarrow> FileWriteRequest" where
  "run_start flags piped registered w =
     (let w1 = w\<lparr>start_task := False\<rparr> in
      case flags of
        None \<Rightarrow> FileWriteRequest_fail ''fcntl F_GETFL failed'' w1
      | Some mode \<Rightarrow>
          if mode = WriteOnly then FileWriteRequest_fail ''file not open for reading'' w1
          else if \<not> piped then FileWriteRequest_fail ''pipe2 failed'' w1
          else FileReadHandler_new registered (count w1) (w1\<lparr>pipe_out := True\<rparr>))"

text \<open>Answers the number of bytes for \<open>WriteResult\<close>, -1 on an error. \<open>res\<close> is what \<open>splice\<close> answers.\<close>

definition performWrite :: "splice_result \<Rightarrow> FileWriteRequest \<Rightarrow> int \<times> FileWriteRequest" where
  "performWrite res w =
     (if \<not> started w then (0, FileWriteRequest_start w)
      else
        (case res of
           SpliceAgain \<Rightarrow> (0, w)
         | SpliceError \<Rightarrow> (-1, w)
         | Spliced n \<Rightarrow>
             (int n, w\<lparr>bytesInPipe := bytesInPipe w - n, totalBytesWritten := totalBytesWritten w + n,
                sent := sent w @ take n (pipe w), pipe := drop n (pipe w)\<rparr>)))"

definition isComplete :: "FileWriteRequest \<Rightarrow> bool" where
  "isComplete w \<longleftrightarrow> totalBytesWritten w = count w"

definition messageAvailable :: "nat \<Rightarrow> FileWriteRequest \<Rightarrow> FileWriteRequest" where
  "messageAvailable n w =
     (let shouldWrite = (bytesInPipe w = 0); w1 = w\<lparr>bytesInPipe := bytesInPipe w + n\<rparr> in
      if shouldWrite then w1\<lparr>wakeups := wakeups w1 + 1\<rparr> else w1)"

text \<open>The file, an argument, is what \<open>splice\<close> reads from.\<close>

definition handlerReady :: "byte list \<Rightarrow> splice_result \<Rightarrow> FileWriteRequest \<Rightarrow> FileWriteRequest" where
  "handlerReady data res w =
     (case readHandler w of
        None \<Rightarrow> w
      | Some (bytesToRead, registered) \<Rightarrow>
          if bytesToRead = 0 then w\<lparr>readHandler := Some (bytesToRead, False)\<rparr>
          else
            (case res of
               SpliceAgain \<Rightarrow> w
             | SpliceError \<Rightarrow> FileWriteRequest_fail ''splice failed'' w
             | Spliced n \<Rightarrow>
                 (let w1 = w\<lparr>pipe := pipe w @ take n (drop (file_offset w) data), file_offset := file_offset w + n\<rparr> in
                  if n > 0 then w1\<lparr>readHandler := Some (bytesToRead - n, registered), queue := queue w1 @ [n]\<rparr> else w1)))"

section \<open>Runs\<close>

text \<open>
  The steps of the two threads. \<open>splice\<close> moves no more than it is asked for and than is there; it may move nothing,
  which for the file means that its end is reached.
\<close>

inductive region_step :: "byte list \<Rightarrow> FileWriteRequest \<Rightarrow> FileWriteRequest \<Rightarrow> bool" for data where
  perform: "(\<forall>n. res = Spliced n \<longrightarrow> n \<le> bytesInPipe w) \<Longrightarrow> region_step data w (snd (performWrite res w))"
| begins: "start_task w \<Longrightarrow> region_step data w (run_start flags piped registered w)"
| ready: "readHandler w = Some (b, True) \<Longrightarrow> (\<forall>n. res = Spliced n \<longrightarrow> n \<le> b \<and> file_offset w + n \<le> max (length data) (file_offset w))
    \<Longrightarrow> region_step data w (handlerReady data res w)"
| message: "queue w = n # ns \<Longrightarrow> region_step data w (messageAvailable n (w\<lparr>queue := ns\<rparr>))"

inductive region_reach :: "byte list \<Rightarrow> nat \<Rightarrow> nat \<Rightarrow> FileWriteRequest \<Rightarrow> bool" for data offset n where
  init: "region_reach data offset n (FileWriteRequest_new offset n)"
| step: "region_reach data offset n w \<Longrightarrow> region_step data w w' \<Longrightarrow> region_reach data offset n w'"

text \<open>The bytes that are still to be read from the file.\<close>

definition to_read :: "FileWriteRequest \<Rightarrow> nat" where
  "to_read w = (case readHandler w of None \<Rightarrow> count w | Some (b, _) \<Rightarrow> b)"

text \<open>
  What has been sent, what is in the pipe and what is to be read make up the region; the request knows of the bytes in
  the pipe from the counter and the queue.
\<close>

definition region_inv :: "byte list \<Rightarrow> nat \<Rightarrow> nat \<Rightarrow> FileWriteRequest \<Rightarrow> bool" where
  "region_inv data offset n w \<longleftrightarrow> count w = n \<and>
     sent w @ pipe w = take (n - to_read w) (drop offset data) \<and> n - to_read w \<le> length data - offset \<and> to_read w \<le> n \<and>
     file_offset w = offset + (n - to_read w) \<and>
     bytesInPipe w + sum_list (queue w) = length (pipe w) \<and> totalBytesWritten w = length (sent w) \<and>
     (readHandler w \<noteq> None \<longrightarrow> started w \<and> \<not> start_task w) \<and> (start_task w \<longrightarrow> started w) \<and> (\<forall>k\<in>set (queue w). 0 < k)"

lemma to_read_simps [simp]:
  "to_read (w\<lparr>bytesInPipe := m\<rparr>) = to_read w" "to_read (w\<lparr>queue := q\<rparr>) = to_read w" "to_read (w\<lparr>wakeups := m\<rparr>) = to_read w"
  "to_read (w\<lparr>sent := xs\<rparr>) = to_read w" "to_read (w\<lparr>pipe := xs\<rparr>) = to_read w" "to_read (w\<lparr>totalBytesWritten := m\<rparr>) = to_read w"
  "to_read (w\<lparr>readHandler := Some (b, r)\<rparr>) = b"
  by (simp_all add: to_read_def cong: option.case_cong)

lemma perform_inv:
  assumes "region_inv data offset n w" "\<forall>k. res = Spliced k \<longrightarrow> k \<le> bytesInPipe w"
  shows "region_inv data offset n (snd (performWrite res w))"
proof (cases "started w")
  case False
  then have "readHandler w = None" using assms(1) unfolding region_inv_def by blast
  with False assms(1) show ?thesis
    by (simp add: region_inv_def performWrite_def FileWriteRequest_start_def to_read_def)
next
  case True
  show ?thesis
  proof (cases res)
    case (Spliced k)
    let ?w = "snd (performWrite (Spliced k) w)"
    have k: "k \<le> length (pipe w)" using assms Spliced by (auto simp: region_inv_def)
    have "to_read ?w = to_read w" "sent ?w @ pipe ?w = sent w @ pipe w"
      using True by (simp_all add: performWrite_def)
    moreover have "bytesInPipe ?w + sum_list (queue ?w) = length (pipe ?w)" "totalBytesWritten ?w = length (sent ?w)"
      "count ?w = count w" "file_offset ?w = file_offset w" "readHandler ?w = readHandler w" "start_task ?w = start_task w"
      "started ?w = started w" "queue ?w = queue w"
      using assms True k Spliced by (simp_all add: performWrite_def region_inv_def)
    ultimately show ?thesis using assms(1) unfolding region_inv_def Spliced by simp
  qed (use assms(1) True in \<open>simp_all add: performWrite_def\<close>)
qed

lemma start_inv:
  assumes "region_inv data offset n w" "start_task w"
  shows "region_inv data offset n (run_start flags piped registered w)"
proof -
  have "readHandler w = None" using assms unfolding region_inv_def by blast
  with assms show ?thesis
    by (auto simp: region_inv_def run_start_def FileReadHandler_new_def FileWriteRequest_fail_def to_read_def Let_def
        split: option.splits)
qed

lemma message_inv:
  assumes "region_inv data offset n w" "queue w = k # ks"
  shows "region_inv data offset n (messageAvailable k (w\<lparr>queue := ks\<rparr>))"
  using assms by (simp add: region_inv_def messageAvailable_def Let_def)

lemma ready_inv:
  assumes "region_inv data offset n w" "readHandler w = Some (b, True)"
    "\<forall>k. res = Spliced k \<longrightarrow> k \<le> b \<and> file_offset w + k \<le> max (length data) (file_offset w)"
  shows "region_inv data offset n (handlerReady data res w)"
proof (cases "b = 0")
  case True
  with assms(1,2) show ?thesis by (auto simp: region_inv_def handlerReady_def to_read_def)
next
  case b: False
  show ?thesis
  proof (cases res)
    case (Spliced k)
    show ?thesis
    proof (cases "k = 0")
      case True
      with Spliced b assms(1,2) show ?thesis by (simp add: region_inv_def handlerReady_def to_read_def)
    next
      case False
      have k: "k \<le> b" "file_offset w + k \<le> length data" using assms(3) Spliced False by (auto simp: max_def split: if_splits)
      have w: "to_read w = b" "file_offset w = offset + (n - b)" "b \<le> n" "sent w @ pipe w = take (n - b) (drop offset data)"
        using assms(1,2) by (auto simp: region_inv_def to_read_def)
      have "sent w @ pipe w @ take k (drop (file_offset w) data) = (sent w @ pipe w) @ take k (drop (n - b) (drop offset data))"
        by (simp add: w(2) add.commute)
      also have "\<dots> = take (n - b + k) (drop offset data)" by (simp add: w(4) take_add)
      finally have "sent w @ pipe w @ take k (drop (file_offset w) data) = take (n - b + k) (drop offset data)" .
      moreover have "n - (b - k) = n - b + k" using k(1) w(3) by simp
      moreover have "n - b + k \<le> length data - offset" "length (take k (drop (file_offset w) data)) = k" using k(2) w(2) by simp_all
      ultimately show ?thesis
        using assms(1,2) w k False b Spliced
        by (simp add: region_inv_def handlerReady_def to_read_def) arith
    qed
  qed (use assms(1,2) b in \<open>simp_all add: region_inv_def handlerReady_def to_read_def FileWriteRequest_fail_def\<close>)
qed

lemma region_reach_inv:
  assumes "region_reach data offset n w"
  shows "region_inv data offset n w"
  using assms
proof induction
  case init
  show ?case by (simp add: region_inv_def FileWriteRequest_new_def to_read_def)
next
  case (step w w')
  from step.hyps(2) step.IH show ?case
    by (cases rule: region_step.cases) (auto intro: perform_inv start_inv ready_inv message_inv)
qed

section \<open>Progress\<close>

text \<open>The steps that move bytes, and how many there may still be.\<close>

definition moves :: "byte list \<Rightarrow> FileWriteRequest \<Rightarrow> FileWriteRequest \<Rightarrow> bool" where
  "moves data w w' \<longleftrightarrow>
     (\<exists>k. 0 < k \<and> started w \<and> k \<le> bytesInPipe w \<and> w' = snd (performWrite (Spliced k) w)) \<or>
     (\<exists>b k. readHandler w = Some (b, True) \<and> 0 < k \<and> k \<le> b \<and> file_offset w + k \<le> length data \<and> w' = handlerReady data (Spliced k) w) \<or>
     (\<exists>k ks. queue w = k # ks \<and> w' = messageAvailable k (w\<lparr>queue := ks\<rparr>))"

definition left_to_move :: "FileWriteRequest \<Rightarrow> nat" where
  "left_to_move w = 3 * to_read w + 2 * sum_list (queue w) + bytesInPipe w"

lemma moves_less:
  assumes "region_inv data offset n w" "moves data w w'"
  shows "left_to_move w' < left_to_move w"
proof -
  consider (sends) k where "0 < k" "started w" "k \<le> bytesInPipe w" "w' = snd (performWrite (Spliced k) w)"
    | (read) b k where "readHandler w = Some (b, True)" "0 < k" "k \<le> b" "w' = handlerReady data (Spliced k) w"
    | (message) k ks where "queue w = k # ks" "w' = messageAvailable k (w\<lparr>queue := ks\<rparr>)"
    using assms(2) unfolding moves_def by blast
  then show ?thesis
  proof cases
    case sends
    then show ?thesis by (simp add: left_to_move_def performWrite_def)
  next
    case read
    then have "to_read w = b" by (simp add: to_read_def)
    with read show ?thesis by (simp add: left_to_move_def handlerReady_def)
  next
    case message
    then have "0 < k" using assms(1) by (simp add: region_inv_def)
    with message show ?thesis by (simp add: left_to_move_def messageAvailable_def Let_def)
  qed
qed

lemma no_moves:
  assumes "region_inv data offset n w" "started w" "readHandler w = Some (b, True)" "\<nexists>w'. moves data w w'"
  shows "sent w = take n (drop offset data)"
proof -
  have q: "queue w = []" using assms(4) by (cases "queue w") (auto simp: moves_def)
  have p: "bytesInPipe w = 0" using assms(2,4) by (auto simp: moves_def)
  have e: "b = 0 \<or> length data \<le> file_offset w"
  proof (rule ccontr)
    assume "\<not> (b = 0 \<or> length data \<le> file_offset w)"
    then have "moves data w (handlerReady data (Spliced 1) w)" using assms(3) unfolding moves_def by fastforce
    with assms(4) show False by blast
  qed
  have w: "to_read w = b" "file_offset w = offset + (n - b)" "b \<le> n" "sent w = take (n - b) (drop offset data)"
    using assms(1,3) q p by (auto simp: region_inv_def to_read_def)
  show ?thesis
  proof (cases "b = 0")
    case False
    with e w have "length (drop offset data) \<le> n - b" by auto
    with w(4) show ?thesis by simp
  qed (use w in simp)
qed


definition region_run :: "FileWriteRequest list" where
  "region_run =
     (let w1 = snd (performWrite SpliceAgain (FileWriteRequest_new 1 2));
          w2 = run_start (Some ReadOnly) True True w1;
          w3 = handlerReady [1, 2, 3, 4] (Spliced 2) w2;
          w4 = messageAvailable 2 (w3\<lparr>queue := []\<rparr>);
          w5 = snd (performWrite (Spliced 2) w4) in [w1, w2, w3, w4, w5])"

lemma region_run_reach: "region_reach [1, 2, 3, 4] 1 2 (region_run ! 4)"
proof -
  let ?d = "[1, 2, 3, 4] :: byte list"
  have r1: "region_reach ?d 1 2 (region_run ! 0)"
    using region_reach.step [OF region_reach.init region_step.perform [of SpliceAgain]] by (simp add: region_run_def Let_def)
  have s1: "start_task (region_run ! 0)" by code_simp
  have r2: "region_reach ?d 1 2 (region_run ! 1)"
    using region_reach.step [OF r1 region_step.begins [OF s1, of _ "Some ReadOnly" True True]] by (simp add: region_run_def Let_def)
  have s2: "readHandler (region_run ! 1) = Some (2, True)" "file_offset (region_run ! 1) = 1" by code_simp+
  have r3: "region_reach ?d 1 2 (region_run ! 2)"
    using region_reach.step [OF r2 region_step.ready [OF s2(1), of "Spliced 2" ?d]] s2(2) by (simp add: region_run_def Let_def)
  have s3: "queue (region_run ! 2) = [2]" by code_simp
  have r4: "region_reach ?d 1 2 (region_run ! 3)"
    using region_reach.step [OF r3 region_step.message [OF s3]] by (simp add: region_run_def Let_def)
  have s4: "bytesInPipe (region_run ! 3) = 2" by code_simp
  show ?thesis
    using region_reach.step [OF r4 region_step.perform [of "Spliced 2"]] s4 by (simp add: region_run_def Let_def)
qed


text \<open>A request that the socket gives up before it was its turn has no event base to be deleted in.\<close>

lemma destroy_before_start: "FileWriteRequest_destroy (FileWriteRequest_new offset n) = Inl Undefined"
  by (simp add: FileWriteRequest_destroy_def FileWriteRequest_new_def)

end
