(* ===== verification/Deprecated_Rx.thy ===== *)
theory Deprecated_Rx
  imports Wangle_Prelude
begin

text \<open>
  \<open>deprecated/rx\<close>: observables, subjects and subscriptions, used by one thread. Observers call back into the observable
  while an event is delivered; what they ask for then takes effect when the delivery is over. The locks and the
  schedulers of \<open>observeOn\<close> are left out.
\<close>

section \<open>Observable and Subscription\<close>

text \<open>A \<open>std::map\<close> from ids, in the order of its keys; \<open>insert\<close> keeps an entry that is there.\<close>

fun ids_insert :: "nat \<Rightarrow> 'v \<Rightarrow> (nat \<times> 'v) list \<Rightarrow> (nat \<times> 'v) list" where
  "ids_insert k v [] = [(k, v)]"
| "ids_insert k v ((k', v') # kvs) =
     (if k < k' then (k, v) # (k', v') # kvs
      else if k = k' then (k', v') # kvs
      else (k', v') # ids_insert k v kvs)"

definition ids_erase :: "nat \<Rightarrow> (nat \<times> 'v) list \<Rightarrow> (nat \<times> 'v) list" where
  "ids_erase k kvs = filter (\<lambda>kv. fst kv \<noteq> k) kvs"

text \<open>\<open>unsubscribing\<close> says that the object through which subscriptions reach the observable exists.\<close>

record 'o Observable =
  nextSubscriptionId :: nat
  inCallback :: bool
  observers :: "'o list"
  newObservers :: "'o list"
  subscribers :: "(nat \<times> 'o) list"
  newSubscribers :: "(nat \<times> 'o) list"
  oldSubscribers :: "nat list"
  unsubscribing :: bool

definition Observable_new :: "'o Observable" where
  "Observable_new = \<lparr>nextSubscriptionId = 1, inCallback = False, observers = [], newObservers = [],
     subscribers = [], newSubscribers = [], oldSubscribers = [], unsubscribing = False\<rparr>"

text \<open>A subscription: whether it can rx_unsubscribe, and its id. The constructor checks the id.\<close>

type_synonym Subscription = "bool \<times> nat"

definition Subscription_new :: "bool \<Rightarrow> nat \<Rightarrow> cpp_exn + Subscription" where
  "Subscription_new unsubscriber sid = (if sid > 0 then Inr (unsubscriber, sid) else Inl CheckFailed)"

definition makeSubscription :: "bool \<Rightarrow> 'o Observable \<Rightarrow> cpp_exn + Subscription \<times> 'o Observable" where
  "makeSubscription indefinite ob =
     (let ob1 = (if indefinite then ob else ob\<lparr>unsubscribing := True\<rparr>) in
      case Subscription_new (\<not> indefinite) (nextSubscriptionId ob1) of
        Inl e \<Rightarrow> Inl e
      | Inr s \<Rightarrow> Inr (s, ob1\<lparr>nextSubscriptionId := (nextSubscriptionId ob1 + 1) mod 2 ^ 64\<rparr>))"

definition subscribeImpl :: "'o \<Rightarrow> bool \<Rightarrow> 'o Observable \<Rightarrow> cpp_exn + Subscription \<times> 'o Observable" where
  "subscribeImpl observer indefinite ob =
     (case makeSubscription indefinite ob of
        Inl e \<Rightarrow> Inl e
      | Inr (subscription, ob1) \<Rightarrow>
          Inr (subscription,
            if inCallback ob1 then ob1\<lparr>newSubscribers := ids_insert (snd subscription) observer (newSubscribers ob1)\<rparr>
            else ob1\<lparr>subscribers := ids_insert (snd subscription) observer (subscribers ob1)\<rparr>))"

definition observe_ptr :: "'o \<Rightarrow> 'o Observable \<Rightarrow> 'o Observable" where
  "observe_ptr observer ob =
     (if inCallback ob then ob\<lparr>newObservers := newObservers ob @ [observer]\<rparr>
      else ob\<lparr>observers := observers ob @ [observer]\<rparr>)"

definition rx_unsubscribe :: "nat \<Rightarrow> 'o Observable \<Rightarrow> 'o Observable" where
  "rx_unsubscribe sid ob =
     (if inCallback ob then
        (if sid \<in> fst ` set (newSubscribers ob) then ob\<lparr>newSubscribers := ids_erase sid (newSubscribers ob)\<rparr>
         else ob\<lparr>oldSubscribers := oldSubscribers ob @ [sid]\<rparr>)
      else ob\<lparr>subscribers := ids_erase sid (subscribers ob)\<rparr>)"

text \<open>The destructor of a subscription, through the unsubscriber.\<close>

definition Subscription_unsubscribe :: "Subscription \<Rightarrow> 'o Observable \<Rightarrow> 'o Observable" where
  "Subscription_unsubscribe s ob = (if fst s \<and> snd s > 0 then rx_unsubscribe (snd s) ob else ob)"

text \<open>\<open>subscribe\<close> on what \<open>subscribeOn\<close> gives.\<close>

definition subscribeOn_subscribe :: "cpp_exn + Subscription" where
  "subscribeOn_subscribe = Subscription_new False 0"

section \<open>Delivering events\<close>

text \<open>What an observer does with the observable in its callback.\<close>

datatype 'o rx_call = Subscribe 'o | Observe 'o | ObservePtr 'o | Unsubscribe nat | Notify

fun do_call :: "'o rx_call \<Rightarrow> 'o Observable \<Rightarrow> cpp_exn + 'o Observable" where
  "do_call (Subscribe o') ob = (case subscribeImpl o' False ob of Inl e \<Rightarrow> Inl e | Inr (_, ob') \<Rightarrow> Inr ob')"
| "do_call (Observe o') ob = (case subscribeImpl o' True ob of Inl e \<Rightarrow> Inl e | Inr (_, ob') \<Rightarrow> Inr ob')"
| "do_call (ObservePtr o') ob = Inr (observe_ptr o' ob)"
| "do_call (Unsubscribe sid) ob = Inr (Subscription_unsubscribe (True, sid) ob)"
| "do_call Notify ob = (if inCallback ob then Inl CheckFailed else Inr ob)"

fun rx_calls :: "'o rx_call list \<Rightarrow> 'o Observable \<Rightarrow> cpp_exn + 'o Observable" where
  "rx_calls [] ob = Inr ob"
| "rx_calls (c # cs) ob = (case do_call c ob of Inl e \<Rightarrow> Inl e | Inr ob' \<Rightarrow> rx_calls cs ob')"

text \<open>What observers asked for during the delivery.\<close>

definition apply_deferred :: "'o Observable \<Rightarrow> 'o Observable" where
  "apply_deferred ob =
     ob\<lparr>observers := observers ob @ newObservers ob, newObservers := [],
        subscribers := fold ids_erase (oldSubscribers ob)
          (fold (\<lambda>kv. ids_insert (fst kv) (snd kv)) (newSubscribers ob) (subscribers ob)),
        newSubscribers := [], oldSubscribers := []\<rparr>"

text \<open>
  The observers are called one after the other; neither list changes while they are. \<open>react\<close> is what they call for the
  event. Answers the observers that were called.
\<close>

definition forEachObserver :: "('o \<Rightarrow> 'o rx_call list) \<Rightarrow> 'o Observable \<Rightarrow> cpp_exn + 'o list \<times> 'o Observable" where
  "forEachObserver react ob =
     (if inCallback ob then Inl CheckFailed
      else
        (let called = observers ob @ map snd (subscribers ob) in
         case rx_calls (concat (map react called)) (ob\<lparr>inCallback := True\<rparr>) of
           Inl e \<Rightarrow> Inl e
         | Inr ob1 \<Rightarrow>
             Inr (called,
               (if newObservers ob1 \<noteq> [] \<or> newSubscribers ob1 \<noteq> [] \<or> oldSubscribers ob1 \<noteq> [] then apply_deferred ob1 else ob1)
                 \<lparr>inCallback := False\<rparr>)))"

text \<open>An event of a subject, and what the observers do with it.\<close>

datatype 'v rx_event = OnNext 'v | OnError string | OnCompleted

definition Subject_event :: "('o \<Rightarrow> 'v rx_event \<Rightarrow> 'o rx_call list) \<Rightarrow> 'v rx_event \<Rightarrow> 'o Observable
    \<Rightarrow> cpp_exn + ('o \<times> 'v rx_event) list \<times> 'o Observable" where
  "Subject_event react ev ob =
     (case forEachObserver (\<lambda>o'. react o' ev) ob of
        Inl e \<Rightarrow> Inl e
      | Inr (called, ob') \<Rightarrow> Inr (map (\<lambda>o'. (o', ev)) called, ob'))"

section \<open>Refinement\<close>

text \<open>
  The contract: the observers by pointer and the subscribers with their ids, and the next id; what is asked for takes
  effect at once, and an event goes to those that are there when it comes.
\<close>

type_synonym 'o rx_spec = "'o list \<times> (nat \<times> 'o) list \<times> nat"

fun spec_call :: "'o rx_call \<Rightarrow> 'o rx_spec \<Rightarrow> 'o rx_spec" where
  "spec_call (Subscribe o') (obs, subs, n) = (obs, subs @ [(n, o')], n + 1)"
| "spec_call (Observe o') (obs, subs, n) = (obs, subs @ [(n, o')], n + 1)"
| "spec_call (ObservePtr o') (obs, subs, n) = (obs @ [o'], subs, n)"
| "spec_call (Unsubscribe sid) (obs, subs, n) = (obs, filter (\<lambda>kv. fst kv \<noteq> sid) subs, n)"
| "spec_call Notify sp = sp"

text \<open>Calls that may be made: subscriptions that exist are given up, and no event is sent while one is delivered.\<close>

fun valid_calls :: "'o rx_call list \<Rightarrow> nat \<Rightarrow> bool" where
  "valid_calls [] n = (n < 2 ^ 64)"
| "valid_calls (Subscribe o' # cs) n = valid_calls cs (n + 1)"
| "valid_calls (Observe o' # cs) n = valid_calls cs (n + 1)"
| "valid_calls (ObservePtr o' # cs) n = valid_calls cs n"
| "valid_calls (Unsubscribe sid # cs) n = (0 < sid \<and> sid < n \<and> valid_calls cs n)"
| "valid_calls (Notify # cs) n = False"

definition rx_abs :: "'o Observable \<Rightarrow> 'o rx_spec" where
  "rx_abs ob =
     (observers ob @ newObservers ob, filter (\<lambda>kv. fst kv \<notin> set (oldSubscribers ob)) (subscribers ob) @ newSubscribers ob,
      nextSubscriptionId ob)"

definition rx_inv :: "'o Observable \<Rightarrow> bool" where
  "rx_inv ob \<longleftrightarrow> 0 < nextSubscriptionId ob \<and>
     sorted_wrt (<) (map fst (subscribers ob @ newSubscribers ob)) \<and>
     (\<forall>k\<in>fst ` set (subscribers ob @ newSubscribers ob). k < nextSubscriptionId ob) \<and>
     (\<forall>k\<in>set (oldSubscribers ob). k < nextSubscriptionId ob \<and> k \<notin> fst ` set (newSubscribers ob)) \<and>
     (\<not> inCallback ob \<longrightarrow> newObservers ob = [] \<and> newSubscribers ob = [] \<and> oldSubscribers ob = [])"

lemma ids_insert_last: "\<forall>k'\<in>fst ` set kvs. k' < k \<Longrightarrow> ids_insert k v kvs = kvs @ [(k, v)]"
  by (induction kvs) auto

lemma fold_insert_append:
  assumes "sorted_wrt (<) (map fst (kvs @ news))"
  shows "fold (\<lambda>kv. ids_insert (fst kv) (snd kv)) news kvs = kvs @ news"
  using assms
proof (induction news arbitrary: kvs)
  case (Cons kv news)
  have "ids_insert (fst kv) (snd kv) kvs = kvs @ [kv]"
    using Cons.prems ids_insert_last [of kvs "fst kv" "snd kv"] by (auto simp: sorted_wrt_append)
  with Cons.IH [of "kvs @ [kv]"] Cons.prems show ?case by simp
qed simp

lemma fold_ids_erase: "fold ids_erase ks kvs = filter (\<lambda>kv. fst kv \<notin> set ks) kvs"
  by (induction ks arbitrary: kvs) (auto simp: ids_erase_def conj_commute)

lemma subscribe_refines:
  assumes "rx_inv ob" "nextSubscriptionId ob + 1 < 2 ^ 64"
  shows "\<exists>s ob'. subscribeImpl o' ind ob = Inr (s, ob') \<and> rx_inv ob' \<and> rx_abs ob' = spec_call (Subscribe o') (rx_abs ob) \<and>
    inCallback ob' = inCallback ob \<and> (inCallback ob \<longrightarrow> observers ob' = observers ob \<and> subscribers ob' = subscribers ob)"
proof -
  let ?n = "nextSubscriptionId ob"
  have lt: "\<forall>k\<in>fst ` set (subscribers ob). k < ?n" "\<forall>k\<in>fst ` set (newSubscribers ob). k < ?n" "0 < ?n"
    using assms(1) by (auto simp: rx_inv_def)
  have n1: "Suc ?n mod 18446744073709551616 = Suc ?n" using assms(2) by simp
  note ins = ids_insert_last [OF lt(1), of o'] ids_insert_last [OF lt(2), of o']
  show ?thesis
    using assms(1) lt
    by (auto simp: subscribeImpl_def makeSubscription_def Subscription_new_def Let_def n1 ins rx_inv_def rx_abs_def
        sorted_wrt_append split: if_splits) (force intro: less_SucI)+
qed

lemma rx_unsubscribe_refines:
  assumes "rx_inv ob" "sid < nextSubscriptionId ob"
  shows "rx_inv (rx_unsubscribe sid ob)" "rx_abs (rx_unsubscribe sid ob) = spec_call (Unsubscribe sid) (rx_abs ob)"
    "inCallback (rx_unsubscribe sid ob) = inCallback ob" "nextSubscriptionId (rx_unsubscribe sid ob) = nextSubscriptionId ob"
    "inCallback ob \<Longrightarrow> observers (rx_unsubscribe sid ob) = observers ob \<and> subscribers (rx_unsubscribe sid ob) = subscribers ob"
proof -
  have "fst kv \<noteq> sid" if "sid \<in> fst ` set (newSubscribers ob)" "kv \<in> set (subscribers ob)" for kv
    using that assms(1) by (fastforce simp: rx_inv_def sorted_wrt_append)
  then have new: "filter (\<lambda>x. fst x \<noteq> sid \<and> fst x \<notin> set (oldSubscribers ob)) (subscribers ob) =
      filter (\<lambda>kv. fst kv \<notin> set (oldSubscribers ob)) (subscribers ob)" if "sid \<in> fst ` set (newSubscribers ob)"
    using that by (intro filter_cong) auto
  have old: "filter (\<lambda>kv. fst kv \<noteq> sid) (newSubscribers ob) = newSubscribers ob" if "sid \<notin> fst ` set (newSubscribers ob)"
    using that by (auto simp: filter_id_conv)
  have "sorted_wrt (<) (map fst (filter P kvs))" if "sorted_wrt (<) (map fst kvs)" for P and kvs :: "(nat \<times> 'a) list"
    using that by (induction kvs) auto
  with assms show "rx_inv (rx_unsubscribe sid ob)"
    by (auto simp: rx_inv_def rx_unsubscribe_def ids_erase_def sorted_wrt_append)
  show "rx_abs (rx_unsubscribe sid ob) = spec_call (Unsubscribe sid) (rx_abs ob)"
  proof (cases "inCallback ob")
    case False
    with assms(1) show ?thesis by (simp add: rx_inv_def rx_abs_def rx_unsubscribe_def ids_erase_def)
  next
    case True
    then show ?thesis
      using filter_filter [of "\<lambda>kv. fst kv \<noteq> sid" "\<lambda>kv. fst kv \<notin> set (oldSubscribers ob)" "subscribers ob"] new old
      by (auto simp: rx_abs_def rx_unsubscribe_def ids_erase_def conj_commute)
  qed
qed (simp_all add: rx_unsubscribe_def)

text \<open>Calls during a delivery leave the lists of those that are called alone.\<close>

lemma calls_refine:
  assumes "rx_inv ob" "valid_calls cs (nextSubscriptionId ob)"
  shows "\<exists>ob'. rx_calls cs ob = Inr ob' \<and> rx_inv ob' \<and> rx_abs ob' = fold spec_call cs (rx_abs ob) \<and> inCallback ob' = inCallback ob"
  using assms
proof (induction cs arbitrary: ob)
  case (Cons c cs)
  have lt: "n < 2 ^ 64" if "valid_calls xs n" for xs :: "'a rx_call list" and n
    using that by (induction xs n rule: valid_calls.induct) auto
  have step: "\<exists>ob'. do_call c ob = Inr ob' \<and> rx_inv ob' \<and> rx_abs ob' = spec_call c (rx_abs ob) \<and>
      inCallback ob' = inCallback ob \<and> valid_calls cs (nextSubscriptionId ob')"
  proof (cases c)
    case (Subscribe x)
    have "nextSubscriptionId ob + 1 < 2 ^ 64" using lt [of cs "nextSubscriptionId ob + 1"] Cons.prems(2) Subscribe by simp
    from subscribe_refines [OF Cons.prems(1) this, of x False] Cons.prems(2) Subscribe show ?thesis by (auto simp: rx_abs_def)
  next
    case (Observe x)
    have "nextSubscriptionId ob + 1 < 2 ^ 64" using lt [of cs "nextSubscriptionId ob + 1"] Cons.prems(2) Observe by simp
    from subscribe_refines [OF Cons.prems(1) this, of x True] Cons.prems(2) Observe show ?thesis by (auto simp: rx_abs_def)
  next
    case (ObservePtr x)
    with Cons.prems show ?thesis by (auto simp: observe_ptr_def rx_inv_def rx_abs_def)
  next
    case (Unsubscribe sid)
    with Cons.prems rx_unsubscribe_refines [of ob sid] show ?thesis by (simp add: Subscription_unsubscribe_def)
  next
    case Notify
    with Cons.prems show ?thesis by simp
  qed
  then obtain ob' where "do_call c ob = Inr ob'" "rx_inv ob'" "rx_abs ob' = spec_call c (rx_abs ob)"
    "inCallback ob' = inCallback ob" "valid_calls cs (nextSubscriptionId ob')" by blast
  with Cons.IH [of ob'] show ?case by auto
qed simp

lemma deferred_abs:
  assumes "rx_inv ob"
  shows "rx_inv ((apply_deferred ob)\<lparr>inCallback := False\<rparr>)" "rx_abs ((apply_deferred ob)\<lparr>inCallback := False\<rparr>) = rx_abs ob"
proof -
  have new: "filter (\<lambda>kv. fst kv \<notin> set (oldSubscribers ob)) (newSubscribers ob) = newSubscribers ob"
    using assms by (auto simp: rx_inv_def filter_id_conv)
  have ins: "fold (\<lambda>kv. ids_insert (fst kv) (snd kv)) (newSubscribers ob) (subscribers ob) = subscribers ob @ newSubscribers ob"
    using assms by (intro fold_insert_append) (simp add: rx_inv_def)
  have srt: "sorted_wrt (<) (map fst (filter P kvs))" if "sorted_wrt (<) (map fst kvs)" for P and kvs :: "(nat \<times> 'a) list"
    using that by (induction kvs) auto
  show "rx_abs ((apply_deferred ob)\<lparr>inCallback := False\<rparr>) = rx_abs ob"
    by (simp add: rx_abs_def apply_deferred_def fold_ids_erase ins new)
  have "sorted_wrt (<) (map fst (filter (\<lambda>kv. fst kv \<notin> set (oldSubscribers ob)) (subscribers ob @ newSubscribers ob)))"
    using assms by (intro srt) (simp add: rx_inv_def)
  with assms show "rx_inv ((apply_deferred ob)\<lparr>inCallback := False\<rparr>)"
    by (auto simp: rx_inv_def apply_deferred_def fold_ids_erase ins)
qed

lemma event_refines:
  assumes "rx_inv ob" "\<not> inCallback ob" "rx_abs ob = (obs, subs, n)"
    "valid_calls (concat (map (\<lambda>o'. react o' ev) (obs @ map snd subs))) n"
  shows "\<exists>ob'. Subject_event react ev ob = Inr (map (\<lambda>o'. (o', ev)) (obs @ map snd subs), ob') \<and> rx_inv ob' \<and> \<not> inCallback ob' \<and>
    rx_abs ob' = fold spec_call (concat (map (\<lambda>o'. react o' ev) (obs @ map snd subs))) (obs, subs, n)"
proof -
  have ob: "observers ob = obs" "subscribers ob = subs" "nextSubscriptionId ob = n"
    using assms(1-3) by (auto simp: rx_inv_def rx_abs_def)
  let ?cs = "concat (map (\<lambda>o'. react o' ev) (obs @ map snd subs))"
  have "rx_inv (ob\<lparr>inCallback := True\<rparr>)" using assms(1) by (simp add: rx_inv_def)
  from calls_refine [OF this, of ?cs] assms(4) ob(3) obtain ob1 where
    ob1: "rx_calls ?cs (ob\<lparr>inCallback := True\<rparr>) = Inr ob1" "rx_inv ob1" "rx_abs ob1 = fold spec_call ?cs (obs, subs, n)"
    using assms(3) by (auto simp: rx_abs_def)
  define ob2 where "ob2 = (if newObservers ob1 \<noteq> [] \<or> newSubscribers ob1 \<noteq> [] \<or> oldSubscribers ob1 \<noteq> []
    then apply_deferred ob1 else ob1)"
  have "rx_inv (ob2\<lparr>inCallback := False\<rparr>)" "rx_abs (ob2\<lparr>inCallback := False\<rparr>) = rx_abs ob1"
    using deferred_abs [OF ob1(2)] ob1(2) by (auto simp: ob2_def rx_inv_def rx_abs_def)
  moreover have "Subject_event react ev ob = Inr (map (\<lambda>o'. (o', ev)) (obs @ map snd subs), ob2\<lparr>inCallback := False\<rparr>)"
    using ob1(1) assms(2) by (simp add: Subject_event_def forEachObserver_def ob ob2_def)
  ultimately show ?thesis using ob1(3) by auto
qed

text \<open>A program: calls from outside and events, in any order.\<close>

datatype ('o, 'v) rx_op = Do "'o rx_call" | Event "'v rx_event"

fun rx_run :: "('o \<Rightarrow> 'v rx_event \<Rightarrow> 'o rx_call list) \<Rightarrow> ('o, 'v) rx_op list \<Rightarrow> 'o Observable
    \<Rightarrow> cpp_exn + ('o \<times> 'v rx_event) list \<times> 'o Observable" where
  "rx_run react [] ob = Inr ([], ob)"
| "rx_run react (Do c # ops) ob = (case do_call c ob of Inl e \<Rightarrow> Inl e | Inr ob' \<Rightarrow> rx_run react ops ob')"
| "rx_run react (Event ev # ops) ob =
     (case Subject_event react ev ob of
        Inl e \<Rightarrow> Inl e
      | Inr (log, ob') \<Rightarrow> (case rx_run react ops ob' of Inl e \<Rightarrow> Inl e | Inr (log', ob'') \<Rightarrow> Inr (log @ log', ob'')))"

definition event_calls :: "('o \<Rightarrow> 'v rx_event \<Rightarrow> 'o rx_call list) \<Rightarrow> 'v rx_event \<Rightarrow> 'o rx_spec \<Rightarrow> 'o rx_call list" where
  "event_calls react ev = (\<lambda>(obs, subs, n). concat (map (\<lambda>o'. react o' ev) (obs @ map snd subs)))"

fun spec_run :: "('o \<Rightarrow> 'v rx_event \<Rightarrow> 'o rx_call list) \<Rightarrow> ('o, 'v) rx_op list \<Rightarrow> 'o rx_spec
    \<Rightarrow> ('o \<times> 'v rx_event) list \<times> 'o rx_spec" where
  "spec_run react [] sp = ([], sp)"
| "spec_run react (Do c # ops) sp = spec_run react ops (spec_call c sp)"
| "spec_run react (Event ev # ops) sp =
     (let (log, sp') = spec_run react ops (fold spec_call (event_calls react ev sp) sp) in
      (map (\<lambda>o'. (o', ev)) (fst sp @ map snd (fst (snd sp))) @ log, sp'))"

fun valid_run :: "('o \<Rightarrow> 'v rx_event \<Rightarrow> 'o rx_call list) \<Rightarrow> ('o, 'v) rx_op list \<Rightarrow> 'o rx_spec \<Rightarrow> bool" where
  "valid_run react [] sp = True"
| "valid_run react (Do c # ops) sp = (valid_calls [c] (snd (snd sp)) \<and> valid_run react ops (spec_call c sp))"
| "valid_run react (Event ev # ops) sp =
     (valid_calls (event_calls react ev sp) (snd (snd sp)) \<and> valid_run react ops (fold spec_call (event_calls react ev sp) sp))"

lemma run_refines:
  assumes "rx_inv ob" "\<not> inCallback ob" "valid_run react ops (rx_abs ob)"
  shows "\<exists>ob'. rx_run react ops ob = Inr (fst (spec_run react ops (rx_abs ob)), ob') \<and> rx_abs ob' = snd (spec_run react ops (rx_abs ob))"
  using assms
proof (induction ops arbitrary: ob)
  case (Cons op ops)
  show ?case
  proof (cases op)
    case (Do c)
    have "valid_calls [c] (nextSubscriptionId ob)" using Cons.prems(3) Do by (simp add: rx_abs_def)
    from calls_refine [OF Cons.prems(1) this] obtain ob' where "do_call c ob = Inr ob'" "rx_inv ob'"
      "rx_abs ob' = spec_call c (rx_abs ob)" "inCallback ob' = inCallback ob" by (auto split: sum.splits)
    with Cons.IH [of ob'] Cons.prems Do show ?thesis by simp
  next
    case (Event ev)
    obtain obs subs n where abs: "rx_abs ob = (obs, subs, n)" by (cases "rx_abs ob") auto
    from Cons.prems(3) Event have v: "valid_calls (concat (map (\<lambda>o'. react o' ev) (obs @ map snd subs))) n"
      "valid_run react ops (fold spec_call (concat (map (\<lambda>o'. react o' ev) (obs @ map snd subs))) (obs, subs, n))"
      by (auto simp: abs event_calls_def)
    from event_refines [of ob obs subs n react ev, OF Cons.prems(1,2) abs v(1)] obtain ob' where
      ob': "Subject_event react ev ob = Inr (map (\<lambda>o'. (o', ev)) (obs @ map snd subs), ob')" "rx_inv ob'" "\<not> inCallback ob'"
      "rx_abs ob' = fold spec_call (concat (map (\<lambda>o'. react o' ev) (obs @ map snd subs))) (obs, subs, n)" by blast
    from Cons.IH [OF ob'(2,3)] v(2) ob' Event show ?thesis
      by (auto simp: abs event_calls_def Let_def split_beta)
  qed
qed simp

text \<open>
  C24. An observable delivers as its contract says: for every sequence of subscriptions, cancellations and events, with
  observers that themselves subscribe, observe and cancel while an event is delivered, each event reaches the observers
  by pointer and then the subscribers in the order of their ids, exactly those that were there when it came; what is
  asked for during a delivery takes effect for the next event. No check fails, as long as no event is sent from
  inside a delivery and fewer than 2 to the power 64 subscriptions are made.
\<close>

theorem rx_delivers:
  assumes "valid_run react ops (rx_abs Observable_new)"
  shows "\<exists>ob. rx_run react ops Observable_new = Inr (fst (spec_run react ops (rx_abs Observable_new)), ob) \<and>
    rx_abs ob = snd (spec_run react ops (rx_abs Observable_new))"
  by (rule run_refines [OF _ _ assms]) (simp_all add: rx_inv_def Observable_new_def)

text \<open>An observer that subscribes another one, and one that gives up the first subscription.\<close>

definition rx_react :: "nat \<Rightarrow> nat rx_event \<Rightarrow> nat rx_call list" where
  "rx_react o' ev = (if o' = 1 then [Subscribe 2] else if o' = 2 then [Unsubscribe 1] else [])"

theorem rx_delivers_witness:
  "\<exists>ob. rx_run rx_react [Do (Subscribe 1), Event (OnNext 7), Event (OnNext 8), Event OnCompleted] Observable_new =
     Inr ([(1, OnNext 7), (1, OnNext 8), (2, OnNext 8), (2, OnCompleted), (2, OnCompleted)], ob)"
proof -
  have v: "valid_run rx_react [Do (Subscribe 1), Event (OnNext 7), Event (OnNext 8), Event OnCompleted] (rx_abs Observable_new)"
    by (simp add: rx_react_def event_calls_def rx_abs_def Observable_new_def)
  have "fst (spec_run rx_react [Do (Subscribe 1), Event (OnNext 7), Event (OnNext 8), Event OnCompleted] (rx_abs Observable_new)) =
      [(1, OnNext 7), (1, OnNext 8), (2, OnNext 8), (2, OnCompleted), (2, OnCompleted)]"
    by (simp add: rx_react_def event_calls_def rx_abs_def Observable_new_def)
  with rx_delivers [OF v] show ?thesis by auto
qed

text \<open>Subscribing through \<open>subscribeOn\<close> never succeeds.\<close>

lemma subscribeOn_fails: "subscribeOn_subscribe = Inl CheckFailed"
  by (simp add: subscribeOn_subscribe_def Subscription_new_def)

end
