(* ===== verification/Spec2Isabelle.thy ===== *)
theory Spec2Isabelle
  imports Codec_FixedLength Codec_LengthField Codec_LineBased Channel_Pipeline_Props
    Channel_Handlers Service_Dispatch Service_Filters Acceptor_Connections_Props
    Client_Persistence_Props Channel_Broadcast_Props SSL_TicketKeys_Props Util_FilePoller_Props
    Acceptor_Drain_Props SSL_SessionCache_Run SSL_ContextManager_Serve
    Provider_Agent_Props Agent_StringSplit Bootstrap_Server_Life
    Bootstrap_Routing_Props Bootstrap_Acceptor Etcd_Client_Props
    Acceptor_Evb Client_Sessions_Props Channel_FileRegion Deprecated_Rx
begin

text \<open>
  A verification library for the network library under \<open>src/wangle\<close>: pipelines of handlers that turn
  the bytes of a socket into messages and back, services and dispatchers on top of them, and the
  acceptor with its book-keeping of connections; persistent client caches, broadcasting, the server's TLS
  ticket keys, session cache and certificates and the file pollers; and the provider agent, a proxy in front of a Dubbo
  server, with its client for etcd.

  \<^bold>\<open>Conventions.\<close> A C++ exception or failed CHECK is the left side of a sum (\<open>cpp_exn\<close>). A loop that may
  run for ever is a partial function whose value \<open>None\<close> means that it does not return; no fuel is used
  for the program's own loops. Machine integers are words where their width matters. What a virtual
  method does is an argument, and so is folly's \<open>IOBufQueue\<close>, whose laws are the locale
  \<open>iobuf_queue\<close>. Log output and DCHECKs are left out.

  \<^bold>\<open>Theories.\<close>
  \<^item> \<open>Wangle_Prelude\<close>: words, byte orders, exceptions. \<open>Folly_IOBufQueue\<close>: the queue interface and a
    chain of buffers that satisfies it.
  \<^item> \<open>Handler_Context\<close> (\<open>channel/Handler.h\<close>, \<open>channel/HandlerContext.h\<close>): events and the default
    reactions of handlers.
  \<^item> \<open>Channel_Pipeline\<close> (\<open>channel/Pipeline*\<close>, \<open>channel/HandlerContext-inl.h\<close>,
    \<open>channel/StaticPipeline.h\<close>): contexts and handlers in a store, and every operation of a pipeline.
    One definition stands for the methods the three context classes repeat.
    \<open>Channel_Pipeline_Props\<close>: a pipeline refines a list of handlers, when \<open>finalize\<close> succeeds, the order
    in which events visit handlers, attaching and detaching.
  \<^item> \<open>Codec_Decoder\<close> (\<open>codec/ByteToMessageDecoder.h\<close>), \<open>Codec_FixedLength\<close>, \<open>Codec_LengthField\<close>,
    \<open>Codec_LineBased\<close> (the frame decoders and the length prepender): independence of the segments a
    stream arrives in, the length-field round trip, bounds, and when the read loop returns.
  \<^item> \<open>Channel_Handlers\<close> (\<open>codec/StringCodec.h\<close>, \<open>codec/MessageToByteEncoder.h\<close>,
    \<open>channel/EventBaseHandler.h\<close>, \<open>channel/OutputBufferingHandler.h\<close>,
    \<open>channel/AsyncSocketHandler.h\<close>): order of buffered writes, reports of the transport's state.
  \<^item> \<open>Service_Dispatch\<close> (\<open>service/ServerDispatcher.h\<close>, \<open>service/ClientDispatcher.h\<close>): responses in request
    order, with wrapping 32-bit ids. \<open>Service_Filters\<close> (\<open>service/Service.h\<close> and the filters).
  \<^item> \<open>Acceptor_Connections\<close> (\<open>acceptor/ConnectionManager.*\<close>, \<open>acceptor/ManagedConnection.*\<close>): the list
    of connections with its iterators and the drain state machine. \<open>Acceptor_Connections_Props\<close>: the
    invariant of adding, removing, activating, deactivating, destroying and idle shedding, the
    partition into busy and idle, and shutdown without a grace period. \<open>run_loops\<close> counts iterations
    of the event loop; 64 connections are handled in each, which bounds the number needed.
  \<^item> \<open>Acceptor_Core\<close> (\<open>acceptor/Acceptor.*\<close>, the handshake managers, \<open>acceptor/ConnectionCounter.h\<close>,
    \<open>acceptor/LoadShedConfiguration.*\<close>, \<open>acceptor/NetworkAddress.h\<close>): the acceptor's states, load shedding
    and the handshakes it manages. \<open>Acceptor_Core_Props\<close>: when a connection is shed.
    \<open>Acceptor_Drain_Props\<close>: an acceptor that stops drains, once.
  \<^item> \<open>Acceptor_Helpers\<close> (\<open>acceptor/SocketPeeker.h\<close> and the handshake helpers and peekers of \<open>acceptor\<close>): a helper is what
    its entry points do and report. \<open>Acceptor_Helpers_Props\<close>: the contract of a helper, \<open>handshake_helper\<close>, which
    the peeking helper inherits from those it chooses among; folly's TLS sockets are the locale \<open>ssl_sockets\<close>.
    \<open>Acceptor_Evb\<close> (\<open>acceptor/EvbHandshakeHelper.*\<close>): the interleavings of a handshake on its own thread.
  \<^item> \<open>Channel_Broadcast\<close> (\<open>channel/broadcast\<close>): broadcast handlers, the pool, its managers and the
    observers in one state. \<open>Channel_Broadcast_Props\<close>: that pool, subscriptions and observers agree.
  \<^item> \<open>Channel_FileRegion\<close> (\<open>channel/FileRegion.*\<close>): a part of a file on its way to a socket; the bytes sent are the
    region's, and the transfer ends.
  \<^item> \<open>Deprecated_Rx\<close> (\<open>deprecated/rx\<close>): observables and subscriptions against a list of observers.
  \<^item> \<open>Folly_EvictingCacheMap\<close>: the interface of folly's evicting map and a list that satisfies it.
    \<open>Client_Persistence\<close> (\<open>client/persistence\<close>): the caches, the syncer and the file layer.
    \<open>Client_Persistence_Props\<close>: what a restart keeps, when the layer has what the cache has, and that
    the destructor returns.
  \<^item> \<open>Client_Sessions\<close> (\<open>client/ssl\<close>): TLS sessions in the persistent cache, their serialization and OpenSSL's callbacks.
    \<open>Client_Sessions_Props\<close>: a session is found until its ticket expires, also after a restart. OpenSSL's and
    folly's conversions are the locales \<open>session_codec\<close> and \<open>dyn_conversion\<close>.
  \<^item> \<open>SSL_TicketKeys\<close> (\<open>ssl/TLSTicketKeyManager.*\<close>, \<open>ssl/TLSTicketKeySeeds.h\<close>): ticket keys from seeds.
    \<open>SSL_TicketKeys_Props\<close>: the keys as a function of the seeds, tickets across rotations. SHA-256 and
    the hexadecimal conversions are the locale \<open>ticket_crypto\<close>.
  \<^item> \<open>SSL_SessionCache\<close> (\<open>ssl/SSLSessionCacheManager.*\<close>, \<open>ssl/SSLCacheProvider.h\<close>): the sharded session
    cache and the lookups in an external cache, with OpenSSL's reference counts.
    \<open>SSL_SessionCache_Props\<close>: what each operation does to the references and to the lookups.
    \<open>SSL_SessionCache_Run\<close>: runs with OpenSSL and the external cache; counts add up and handshakes that
    wait are restarted.
  \<^item> \<open>SSL_ContextManager\<close> (\<open>ssl/SSLContextManager.*\<close>, \<open>ssl/ServerSSLContext.*\<close>, \<open>ssl/SSLContextConfig.h\<close>,
    \<open>acceptor/SSLContextSelectionMisc.h\<close>, names of certificates in \<open>ssl/SSLUtil.cpp\<close>): the TLS contexts of an
    address and the choice among them. What OpenSSL does with files is the record \<open>ssl_loader\<close>.
    \<open>SSL_ContextManager_Props\<close>: the map of domain names and its invariant.
    \<open>SSL_ContextManager_Serve\<close>: the certificate served covers the name asked for, signatures, several
    certificates, and what replacing the configuration does to contexts and ticket keys.
  \<^item> \<open>Util_FilePoller\<close> (\<open>util/FilePoller.*\<close>, \<open>util/MultiFilePoller.*\<close>), \<open>Util_FilePoller_Props\<close>: paths and
    callbacks stay one relation, and a poll runs the callbacks of the changed files.
  \<^item> \<open>Bootstrap_Server\<close> (\<open>bootstrap/ServerBootstrap.*\<close>, \<open>bootstrap/ServerSocketFactory.h\<close>): socket factories, the worker
    pool and the server bootstrap. folly's sockets are the locale \<open>folly_server_sockets\<close>, from which the contract
    of a socket factory, \<open>socket_factory\<close>, follows. \<open>Bootstrap_Server_Props\<close>, \<open>Bootstrap_Server_Run\<close>,
    \<open>Bootstrap_Server_Bind\<close>: the invariant of sockets, threads and acceptors under each operation;
    \<open>Bootstrap_Server_Life\<close>: all runs with one call of \<open>group\<close>, destruction, ports.
  \<^item> \<open>Bootstrap_Routing\<close> (\<open>bootstrap/AcceptRoutingHandler*\<close>, \<open>bootstrap/RoutingDataHandler*\<close>): accepted connections on
    their way to the worker their routing data hashes to. \<open>Bootstrap_Routing_Props\<close>: each is in one place.
    \<open>Bootstrap_Acceptor\<close> (\<open>bootstrap/ServerBootstrap-inl.h\<close>): the server acceptor on top of \<open>Acceptor_Core\<close> and its
    connections on top of \<open>Acceptor_Connections\<close>; what a shutdown does to them.
  \<^item> \<open>Provider_Agent\<close> (\<open>chijinxin/ProviderAgent.cpp\<close>, \<open>bootstrap/ClientBootstrap.h\<close>): the proxy's pipelines and
    handlers, and the life of a proxied connection as a step relation over both sockets.
    \<open>Provider_Agent_Props\<close>: bytes forwarded, the crash, the ends of streams, failed connects.
    \<open>Agent_StringSplit\<close> (\<open>chijinxin/utility.h\<close>): the string split against the pieces between delimiters.
  \<^item> \<open>Etcd_Client\<close> (\<open>v3\<close>): the transactions and ranges that the actions of the etcd client ask for, what they read from
    the replies, and the loop of a watch. The messages, which the build generates, are records with the
    fields that the client uses. \<open>Etcd_Client_Props\<close>: etcd's documented transactions, ranges and deletions are the
    locale \<open>etcd_server\<close>; conditional writes, directories and watches against it.

  \<^bold>\<open>Limits.\<close> The percentages of partial drains are rationals where the source has doubles. The invariant
  of the connection manager is not shown for \<open>dropAllConnections\<close>, \<open>dropConnections\<close> and partial
  drains, which are defined; shutdown with a grace period is defined without a theorem that spans
  its two phases. Threads are modelled where the code hands work from one to another
  (\<open>Acceptor_Evb\<close>, the routing and the server bootstrap); otherwise each component runs in its event base.

  \<^bold>\<open>Not modelled.\<close> The example programs, which only put handlers of the library together; \<open>acceptor/TransportInfo.*\<close>,
  \<open>acceptor/SocketOptions.*\<close> and \<open>acceptor/ServerSocketConfig.h\<close>, which hold values and call the kernel; reading credentials from
  files (\<open>ssl/PasswordInFile.*\<close>, \<open>ssl/TLSCredProcessor.*\<close>) and the statistics interfaces; \<open>observeOn\<close>.
\<close>

end
